(* ===== verification/SmilePrelude.thy ===== *)
theory SmilePrelude
  imports Main "HOL-Library.Word" "HOL-Library.Monad_Syntax" "HOL-Library.Multiset"
begin

text \<open>
  Shared vocabulary of the development: the machine types of the C platform layer
  (\<^verbatim>\<open>smilelib/include/smile/platform/linux-gcc-x64/platform.h\<close>), checked array
  accesses, and the generic lemmas on lists and machine integers that the component
  theories use.

  A C function is modelled as a HOL function into \<open>'a option\<close> whenever it can fail to
  return normally. \<open>None\<close> stands for every such outcome: an access outside an array,
  a call of \<^verbatim>\<open>Smile_Abort_OutOfMemory\<close>, or a loop that never ends. A theorem of the form
  \<open>f x = Some y\<close> therefore states memory safety, termination and the result at once.
\<close>

unbundle bit_operations_syntax

named_theorems arr_simps \<open>rewriting of checked array accesses whose index is known to be in range\<close>

section \<open>Machine types\<close>

type_synonym byte = "8 word"
type_synonym int32 = "32 word"
type_synonym int64 = "64 word"

section \<open>Checked array accesses\<close>

definition arr_get :: "'a list \<Rightarrow> int \<Rightarrow> 'a option" where
  "arr_get xs i = (if 0 \<le> i \<and> nat i < length xs then Some (xs ! nat i) else None)"

definition arr_set :: "'a list \<Rightarrow> int \<Rightarrow> 'a \<Rightarrow> 'a list option" where
  "arr_set xs i v = (if 0 \<le> i \<and> nat i < length xs then Some (xs[nat i := v]) else None)"

lemma arr_get_int [arr_simps]: "i < length xs \<Longrightarrow> arr_get xs (int i) = Some (xs ! i)"
  by (simp add: arr_get_def)

lemma arr_set_int [arr_simps]: "i < length xs \<Longrightarrow> arr_set xs (int i) v = Some (xs[i := v])"
  by (simp add: arr_set_def)

lemma arr_get_range [arr_simps]:
  "0 \<le> i \<Longrightarrow> i < int (length xs) \<Longrightarrow> arr_get xs i = Some (xs ! nat i)"
  by (simp add: arr_get_def nat_less_iff)

lemma arr_set_range [arr_simps]:
  "0 \<le> i \<Longrightarrow> i < int (length xs) \<Longrightarrow> arr_set xs i v = Some (xs[nat i := v])"
  by (simp add: arr_set_def nat_less_iff)

lemma arr_get_SomeE:
  assumes "arr_get xs i = Some v"
  obtains j where "i = int j" and "j < length xs" and "v = xs ! j"
  using assms by (auto simp: arr_get_def split: if_splits intro: that [of "nat i"])

lemma length_arr_set: "arr_set xs i v = Some ys \<Longrightarrow> length ys = length xs"
  by (auto simp: arr_set_def split: if_splits)

section \<open>Lists\<close>

lemma mset_concat_update:
  assumes "b < length xss"
  shows "mset (concat (xss[b := ys])) + mset (xss ! b) = mset (concat xss) + mset ys"
proof -
  have "concat xss = concat (take b xss) @ xss ! b @ concat (drop (Suc b) xss)"
    by (metis assms concat.simps(2) concat_append id_take_nth_drop)
  moreover have "concat (xss[b := ys]) = concat (take b xss) @ ys @ concat (drop (Suc b) xss)"
    by (simp add: assms upd_conv_take_nth_drop)
  ultimately show ?thesis by simp
qed

lemma mset_map_concat_update:
  assumes "b < length xss"
  shows "image_mset f (mset (concat (xss[b := ys]))) + image_mset f (mset (xss ! b)) =
         image_mset f (mset (concat xss)) + image_mset f (mset ys)"
  using arg_cong [OF mset_concat_update [OF assms, of ys], of "image_mset f"] by simp

lemma nth_in_set_concat: "b < length xss \<Longrightarrow> x \<in> set (xss ! b) \<Longrightarrow> x \<in> set (concat xss)"
  by (auto intro: nth_mem)

lemma set_concat_nth: "set (concat xss) = (\<Union>b<length xss. set (xss ! b))"
proof
  show "set (concat xss) \<subseteq> (\<Union>b<length xss. set (xss ! b))"
    by (auto simp: in_set_conv_nth [of _ xss])
  show "(\<Union>b<length xss. set (xss ! b)) \<subseteq> set (concat xss)"
    by (auto intro: nth_mem)
qed

lemma distinct_concat_disjoint:
  assumes "distinct (concat xss)" and "k < length xss" and "b < length xss" and "k \<noteq> b"
  shows "set (xss ! k) \<inter> set (xss ! b) = {}"
  using assms
proof (induction xss arbitrary: k b)
  case Nil
  then show ?case by simp
next
  case (Cons xs xss)
  have *: "set xs \<inter> set (xss ! i) = {}" if "i < length xss" for i
    using Cons.prems(1) nth_in_set_concat [OF that] by auto
  show ?case
    using Cons.prems * Cons.IH by (cases k; cases b) (auto simp: Int_commute)
qed

lemma distinct_concat_nth: "distinct (concat xss) \<Longrightarrow> b < length xss \<Longrightarrow> distinct (xss ! b)"
  by (metis distinct_concat_iff nth_mem)

section \<open>Machine integers\<close>

text \<open>
  C's \<^verbatim>\<open>&\<close> of an integer with a non-negative mask is non-negative and at most the mask,
  whatever the sign of the first operand.
\<close>

lemma and_mask_bounds:
  fixes x m :: int
  assumes "0 \<le> m"
  shows "0 \<le> x AND m" and "x AND m \<le> m"
  using assms by (simp_all add: AND_upper2')

end
