(* ===== verification/DictPaths.thy ===== *)
theory DictPaths
  imports ChainedDict
begin

text \<open>
  Chains of node indices in a heap of next pointers, and the rules for the loops over them.

  \<open>path nx i js\<close> says that following the links \<open>nx\<close> from \<open>i\<close> visits exactly the nodes \<open>js\<close> and
  then stops. The loop rules turn a path into total correctness of \<open>chain_loop\<close>,
  \<open>bucket_loop\<close> and the searches.
\<close>

section \<open>Paths\<close>

primrec path :: "int list \<Rightarrow> int \<Rightarrow> nat list \<Rightarrow> bool" where
  "path nx i [] \<longleftrightarrow> i < 0"
| "path nx i (j # js) \<longleftrightarrow> i = int j \<and> j < length nx \<and> path nx (nx ! j) js"

text \<open>The executable counterpart: follow the links for at most the given number of steps.\<close>

fun follow :: "nat \<Rightarrow> int list \<Rightarrow> int \<Rightarrow> nat list" where
  "follow 0 nx i = []"
| "follow (Suc n) nx i =
     (if 0 \<le> i \<and> nat i < length nx then nat i # follow n nx (nx ! nat i) else [])"

lemma path_nonneg_Cons: "path nx (int j) js \<Longrightarrow> \<exists>ks. js = j # ks \<and> j < length nx \<and> path nx (nx ! j) ks"
  by (cases js) auto

lemma path_less: "path nx i js \<Longrightarrow> j \<in> set js \<Longrightarrow> j < length nx"
  by (induction js arbitrary: i) auto

lemma path_upd: "j \<notin> set js \<Longrightarrow> path (nx[j := v]) i js = path nx i js"
  by (induction js arbitrary: i) auto

lemma path_cong:
  "length nx' = length nx \<Longrightarrow> (\<And>j. j \<in> set js \<Longrightarrow> nx' ! j = nx ! j) \<Longrightarrow> path nx' i js = path nx i js"
  by (induction js arbitrary: i) auto

lemma follow_path: "path nx i js \<Longrightarrow> length js \<le> n \<Longrightarrow> follow n nx i = js"
proof (induction js arbitrary: i n)
  case Nil
  then show ?case by (cases n) auto
next
  case (Cons j js)
  then obtain m where "n = Suc m" by (cases n) auto
  with Cons show ?case by auto
qed

lemma path_length:
  assumes "path nx i js" and "distinct js"
  shows "length js \<le> length nx"
proof -
  have "set js \<subseteq> {..<length nx}" using path_less [OF assms(1)] by auto
  then have "card (set js) \<le> length nx"
    by (metis card_lessThan card_mono finite_lessThan)
  with assms(2) show ?thesis by (simp add: distinct_card)
qed

lemma path_unlink:
  assumes "path nx i (ys @ p # j # zs)" and "distinct (ys @ p # j # zs)"
  shows "path (nx[p := nx ! j]) i (ys @ p # zs)"
  using assms by (induction ys arbitrary: i) (auto simp: path_upd nth_list_update)

lemma path_last_link:
  "path nx i (ys @ p # j # zs) \<Longrightarrow> nx ! p = int j"
  by (induction ys arbitrary: i) auto

lemma path_mid: "path nx i (ys @ zs) \<Longrightarrow> ys \<noteq> [] \<Longrightarrow> path nx (nx ! last ys) zs"
  by (induction ys arbitrary: i) auto

section \<open>Families of chains\<close>

text \<open>Pushing node \<open>j\<close> onto the front of bucket \<open>b\<close> keeps every chain a path.\<close>

lemma path_push:
  assumes "\<forall>b<length cs. path nx (bs ! b) (cs ! b)" and "j \<notin> set (concat cs)"
    and "j < length nx" and "b < length cs" and "length bs = length cs"
  shows "\<forall>b'<length (cs[b := j # cs ! b]).
           path (nx[j := bs ! b]) (bs[b := int j] ! b') (cs[b := j # cs ! b] ! b')"
proof (intro allI impI)
  fix b' assume b': "b' < length (cs[b := j # cs ! b])"
  have notin: "j \<notin> set (cs ! k)" if "k < length cs" for k
    using assms(2) nth_in_set_concat [OF that] by blast
  show "path (nx[j := bs ! b]) (bs[b := int j] ! b') (cs[b := j # cs ! b] ! b')"
    using assms b' notin by (cases "b' = b") (auto simp: path_upd)
qed

section \<open>Loop rules\<close>

lemma chain_loop_rule:
  assumes p: "path nx i js" and init: "I [] s"
    and step: "\<And>ys j zs s. js = ys @ j # zs \<Longrightarrow> I ys s \<Longrightarrow>
                 \<exists>s'. body (int j) s = Some s' \<and> I (ys @ [j]) s'"
    and links: "\<And>ys s. I ys s \<Longrightarrow> map nxt (hp s) = nx"
  shows "\<exists>s'. chain_loop hp body i s = Some s' \<and> I js s'"
proof -
  have "\<exists>s'. chain_loop hp body i s = Some s' \<and> I js s'"
    if "js = ys @ zs" "path nx i zs" "I ys s" for ys zs i s
    using that
  proof (induction zs arbitrary: ys i s)
    case Nil
    then show ?case by (simp add: chain_loop.simps)
  next
    case (Cons j zs)
    from step [OF Cons.prems(1,3)] obtain s' where
      s': "body (int j) s = Some s'" "I (ys @ [j]) s'" by blast
    have hp: "map nxt (hp s') = nx" using links [OF s'(2)] .
    with Cons.prems(2) have j: "j < length (hp s')" "nxt (hp s' ! j) = nx ! j"
      by auto
    have "chain_loop hp body i s = chain_loop hp body (nx ! j) s'"
      using Cons.prems(2) s'(1) j by (subst chain_loop.simps) (simp add: arr_simps)
    moreover have "\<exists>s''. chain_loop hp body (nx ! j) s' = Some s'' \<and> I js s''"
      using Cons.prems s'(2) by (intro Cons.IH [of "ys @ [j]"]) auto
    ultimately show ?case by simp
  qed
  from this [of "[]"] p init show ?thesis by simp
qed

lemma bucket_loop_rule:
  assumes p: "\<forall>b<length cs. path nx (bs ! b) (cs ! b)" and len: "length bs = length cs"
    and init: "I [] s"
    and step: "\<And>ys j zs s. concat cs = ys @ j # zs \<Longrightarrow> I ys s \<Longrightarrow>
                 \<exists>s'. body (int j) s = Some s' \<and> I (ys @ [j]) s'"
    and links: "\<And>ys s. I ys s \<Longrightarrow> map nxt (hp s) = nx"
  shows "\<exists>s'. bucket_loop hp body bs 0 (length cs) s = Some s' \<and> I (concat cs) s'"
proof -
  have "\<exists>s'. bucket_loop hp body bs (int b) n s = Some s' \<and> I (concat cs) s'"
    if "b + n = length cs" "I (concat (take b cs)) s" for b n s
    using that
  proof (induction n arbitrary: b s)
    case 0
    then show ?case by simp
  next
    case (Suc n)
    have b: "b < length cs" using Suc.prems by simp
    have split: "concat cs = concat (take b cs) @ cs ! b @ concat (drop (Suc b) cs)"
      by (metis b concat.simps(2) concat_append id_take_nth_drop)
    have "\<exists>s'. chain_loop hp body (bs ! b) s = Some s' \<and> I (concat (take b cs) @ cs ! b) s'"
    proof (rule chain_loop_rule [where I = "\<lambda>ys. I (concat (take b cs) @ ys)"])
      show "path nx (bs ! b) (cs ! b)" using p b by simp
      show "I (concat (take b cs) @ []) s" using Suc.prems by simp
      show "\<exists>s'. body (int j) s = Some s' \<and> I (concat (take b cs) @ ys @ [j]) s'"
        if "cs ! b = ys @ j # zs" "I (concat (take b cs) @ ys) s" for ys j zs s
        using step [of "concat (take b cs) @ ys" j "zs @ concat (drop (Suc b) cs)" s] split that
        by simp
    qed (rule links)
    then obtain s' where s': "chain_loop hp body (bs ! b) s = Some s'"
      "I (concat (take b cs) @ cs ! b) s'" by blast
    have "concat (take (Suc b) cs) = concat (take b cs) @ cs ! b"
      by (simp add: b take_Suc_conv_app_nth)
    with s' Suc.prems have "\<exists>s''. bucket_loop hp body bs (int (Suc b)) n s' = Some s'' \<and> I (concat cs) s''"
      by (intro Suc.IH) auto
    with s'(1) b len show ?case by (simp add: arr_simps add.commute)
  qed
  from this [of 0 "length cs" s] init show ?thesis by simp
qed

text \<open>The searches, by induction on the path.\<close>

lemma chain_search_path:
  assumes "path (map nxt h) i js"
  shows "chain_search match h i = Some (map_option int (find (\<lambda>j. match (item (h ! j))) js))"
  using assms
proof (induction js arbitrary: i)
  case Nil
  then show ?case by (simp add: chain_search.simps)
next
  case (Cons j js)
  then show ?case by (subst chain_search.simps) (auto simp: arr_simps)
qed

text \<open>The index before the first match, with \<open>-1\<close> when the match is at the front.\<close>

lemma chain_search_prev_none:
  assumes "path (map nxt h) i js" and "\<forall>j\<in>set js. \<not> match (item (h ! j))"
  shows "chain_search_prev match h prev i = Some None"
  using assms
proof (induction js arbitrary: i prev)
  case Nil
  then show ?case by (simp add: chain_search_prev.simps)
next
  case (Cons j js)
  then show ?case by (subst chain_search_prev.simps) (auto simp: arr_simps)
qed

lemma chain_search_prev_some:
  assumes "path (map nxt h) i (ys @ j # zs)" and "\<forall>k\<in>set ys. \<not> match (item (h ! k))"
    and "match (item (h ! j))"
  shows "chain_search_prev match h prev i =
         Some (Some (if ys = [] then prev else int (last ys), int j))"
  using assms
proof (induction ys arbitrary: i prev)
  case Nil
  then show ?case by (subst chain_search_prev.simps) (auto simp: arr_simps)
next
  case (Cons k ys)
  then show ?case by (subst chain_search_prev.simps) (auto simp: arr_simps)
qed

section \<open>Free lists\<close>

text \<open>The nodes that \<open>free_tail\<close> writes.\<close>

definition free_node :: "'p \<Rightarrow> nat \<Rightarrow> nat \<Rightarrow> 'p node" where
  "free_node z len k = \<lparr>nxt = (if Suc k < len then int (Suc k) else -1), item = z\<rparr>"

lemma free_tail_eq:
  assumes "i < len" and "length h = len"
  shows "free_tail z h (int i) (int len) = Some (take i h @ map (free_node z len) [i..<len])"
  using assms
proof (induction "len - i" arbitrary: i h)
  case 0
  then show ?case by simp
next
  case (Suc n)
  show ?case
  proof (cases "Suc i < len")
    case True
    let ?h = "h[i := \<lparr>nxt = int (Suc i), item = z\<rparr>]"
    have "free_tail z h (int i) (int len) = free_tail z ?h (int (Suc i)) (int len)"
      using True Suc.prems by (subst free_tail.simps) (simp add: arr_simps add.commute)
    also have "\<dots> = Some (take (Suc i) ?h @ map (free_node z len) [Suc i..<len])"
      using Suc True by (intro Suc.hyps(1)) auto
    also have "take (Suc i) ?h = take i h @ [free_node z len i]"
      using True Suc.prems by (simp add: take_Suc_conv_app_nth free_node_def)
    finally show ?thesis using True by (simp add: upt_conv_Cons)
  next
    case False
    then have i: "len = Suc i" using Suc.prems by simp
    then show ?thesis using Suc.prems
      by (subst free_tail.simps)
        (simp add: arr_simps free_node_def list_update_append upd_conv_take_nth_drop)
  qed
qed

lemma path_free:
  assumes "i \<le> len" and "length nx = len" and "\<forall>k. i \<le> k \<and> k < len \<longrightarrow> nx ! k = nxt (free_node z len k)"
    and "0 < len"
  shows "path nx (if i < len then int i else -1) [i..<len]"
  using assms
proof (induction "len - i" arbitrary: i)
  case 0
  then show ?case by simp
next
  case (Suc n)
  then have "path nx (if Suc i < len then int (Suc i) else -1) [Suc i..<len]"
    by (intro Suc.hyps(1)) auto
  with Suc show ?case by (auto simp: upt_conv_Cons free_node_def)
qed

end
