(* ===== verification/DictShape.thy ===== *)
theory DictShape
  imports DictPaths
begin

text \<open>
  The invariant of the chained hash table, and what each operation does to its pointers.

  \<open>shape d cs fl\<close> is the pointer structure: \<open>cs\<close> lists the nodes of each bucket, \<open>fl\<close> the free
  nodes, and together they are all nodes of the heap, each once. \<open>dict_wf\<close> adds what holds of the
  stored items: each lies in the bucket of its key, no key occurs twice. The abstraction of a
  table is the multiset of its \<open>entries\<close>; with distinct keys it is a finite map.
\<close>

section \<open>Invariant and abstraction\<close>

abbreviation links :: "'p dict \<Rightarrow> int list" where
  "links d \<equiv> map nxt (heap d)"

definition chains :: "'p dict \<Rightarrow> nat list list" where
  "chains d = map (follow (length (heap d)) (links d)) (buckets d)"

definition frees :: "'p dict \<Rightarrow> nat list" where
  "frees d = follow (length (heap d)) (links d) (firstFree d)"

definition shape :: "'p dict \<Rightarrow> nat list list \<Rightarrow> nat list \<Rightarrow> bool" where
  "shape d cs fl \<longleftrightarrow>
     length (buckets d) = length (heap d) \<and> length cs = length (heap d) \<and>
     mask d = int (length (heap d)) - 1 \<and>
     (\<forall>b<length cs. path (links d) (buckets d ! b) (cs ! b)) \<and>
     path (links d) (firstFree d) fl \<and>
     mset (concat cs) + mset fl = mset [0..<length (heap d)] \<and>
     count d = int (length (concat cs))"

definition entries :: "'p dict \<Rightarrow> 'p list" where
  "entries d = map (\<lambda>j. item (heap d ! j)) (concat (chains d))"

definition placed :: "'p dkind \<Rightarrow> 'p dict \<Rightarrow> nat list list \<Rightarrow> bool" where
  "placed K d cs \<longleftrightarrow>
     (\<forall>b<length cs. \<forall>j\<in>set (cs ! b). bucket_ix K (item (heap d ! j)) (mask d) = int b)"

definition is_dict_size :: "nat \<Rightarrow> bool" where
  "is_dict_size n \<longleftrightarrow> (\<exists>k\<in>{4..<64}. n = 2 ^ k)"

definition dict_wf :: "'p dkind \<Rightarrow> ('p \<Rightarrow> 'k) \<Rightarrow> ('p \<Rightarrow> bool) \<Rightarrow> nat \<Rightarrow> 'p dict \<Rightarrow> bool" where
  "dict_wf K ikey iok lim d \<longleftrightarrow>
     shape d (chains d) (frees d) \<and> placed K d (chains d) \<and>
     distinct (map ikey (entries d)) \<and> (\<forall>p\<in>set (entries d). iok p) \<and>
     is_dict_size (length (heap d)) \<and> length (heap d) \<le> lim"

text \<open>A node is free, or the table may double without passing the limit on its length.\<close>

definition dict_room :: "nat \<Rightarrow> 'p dict \<Rightarrow> bool" where
  "dict_room lim d \<longleftrightarrow> 0 \<le> firstFree d \<or> 2 * length (heap d) \<le> lim"

text \<open>The abstract look-up.\<close>

definition dict_lookup :: "('p \<Rightarrow> 'k) \<Rightarrow> 'p dict \<Rightarrow> 'k \<Rightarrow> 'p option" where
  "dict_lookup ikey d k = find (\<lambda>p. ikey p = k) (entries d)"

section \<open>Pointer structure\<close>

lemma shape_distinct: "shape d cs fl \<Longrightarrow> distinct (concat cs @ fl)"
  unfolding shape_def by (metis distinct_upt mset_append mset_eq_imp_distinct_iff)

lemma shape_less: "shape d cs fl \<Longrightarrow> j \<in> set (concat cs) \<Longrightarrow> j < length (heap d)"
  unfolding shape_def
  by (metis atLeastLessThan_iff in_multiset_in_set set_upt union_iff)

lemma shape_set: "shape d cs fl \<Longrightarrow> set (concat cs) \<union> set fl = {..<length (heap d)}"
  unfolding shape_def
  by (metis atLeast_upt lessThan_atLeast0 set_mset_mset set_mset_union set_upt)

text \<open>The ghost lists of \<open>shape\<close> are the ones that the executable functions compute.\<close>

lemma shape_follow:
  assumes s: "shape d cs fl"
  shows "chains d = cs" and "frees d = fl"
proof -
  have dist: "distinct (concat cs @ fl)" by (rule shape_distinct [OF s])
  have *: "follow (length (heap d)) (links d) i = js"
    if "path (links d) i js" "distinct js" for i js
    using that follow_path [OF that(1)] path_length [OF that] by simp
  have "distinct (cs ! b)" if "b < length cs" for b
    using dist that by (simp add: distinct_concat_nth)
  with s * show "chains d = cs"
    unfolding chains_def shape_def by (auto intro!: nth_equalityI)
  from s * dist show "frees d = fl"
    unfolding frees_def shape_def by simp
qed

lemma shape_chains: "shape d cs fl \<Longrightarrow> shape d (chains d) (frees d)"
  by (simp add: shape_follow)

lemma shape_free_Cons:
  assumes s: "shape d cs fl" and f: "0 \<le> firstFree d"
  obtains j fl' where "fl = j # fl'" and "firstFree d = int j" and "j < length (heap d)"
    and "j \<notin> set (concat cs)" and "path (links d) (links d ! j) fl'"
proof (cases fl)
  case Nil
  with s f show ?thesis by (simp add: shape_def)
next
  case (Cons j fl')
  with s shape_distinct [OF s] show ?thesis
    by (intro that [of j fl']) (auto simp: shape_def)
qed

lemma shape_size: "shape d cs fl \<Longrightarrow> length (concat cs) + length fl = length (heap d)"
  unfolding shape_def by (metis diff_zero length_upt size_mset size_union)

section \<open>Clearing\<close>

lemma concat_replicate_Nil [simp]: "concat (replicate n []) = []"
  by (induction n) auto

lemma dict_clear_shape:
  assumes "0 < n"
  shows "\<exists>d. dict_clear K (int n) = Some d \<and> shape d (replicate n []) [0..<n] \<and> length (heap d) = n"
proof -
  let ?h = "map (free_node (free_item K) n) [0..<n]"
  have "path (map nxt ?h) (if 0 < n then int 0 else -1) [0..<n]"
    using assms by (intro path_free) auto
  then have "path (map nxt ?h) 0 [0..<n]" using assms by simp
  moreover have "free_tail (free_item K) (replicate n \<lparr>nxt = 0, item = zero_item K\<rparr>) 0 (int n) = Some ?h"
    using free_tail_eq [of 0 n "replicate n \<lparr>nxt = 0, item = zero_item K\<rparr>"] assms by simp
  ultimately show ?thesis
    by (auto simp: dict_clear_def shape_def)
qed

section \<open>Resizing\<close>

text \<open>
  The invariant of the copying loop after the nodes \<open>ys\<close> of the old heap \<open>h0\<close> have been visited:
  the new chains \<open>cs'\<close> hold the new nodes \<open>0, \<dots>, length ys - 1\<close>, new node \<open>k\<close> carries the item of old
  node \<open>ys ! k\<close>, and the old heap has kept its links and the items of its unvisited nodes.
\<close>

definition resize_inv ::
  "'p dkind \<Rightarrow> 'p node list \<Rightarrow> nat \<Rightarrow> nat list \<Rightarrow> nat list list \<Rightarrow> 'p resize_state \<Rightarrow> bool" where
  "resize_inv K h0 n ys cs' s \<longleftrightarrow>
     length (rs_heap s) = n \<and> length (rs_buckets s) = n \<and> length cs' = n \<and>
     rs_i s = int (length ys) \<and>
     map nxt (rs_old s) = map nxt h0 \<and>
     (\<forall>j<length h0. j \<notin> set ys \<longrightarrow> item (rs_old s ! j) = item (h0 ! j)) \<and>
     (\<forall>b<n. path (map nxt (rs_heap s)) (rs_buckets s ! b) (cs' ! b)) \<and>
     mset (concat cs') = mset [0..<length ys] \<and>
     (\<forall>k<length ys. item (rs_heap s ! k) = item (h0 ! (ys ! k))) \<and>
     (\<forall>b<n. \<forall>k\<in>set (cs' ! b). bucket_ix K (item (rs_heap s ! k)) (int n - 1) = int b)"

lemma resize_step_inv:
  assumes inv: "resize_inv K h0 n ys cs' s" and j: "j < length h0" "j \<notin> set ys"
    and room: "length ys < n"
    and bounds: "0 \<le> bucket_ix K (item (h0 ! j)) (int n - 1)"
      "bucket_ix K (item (h0 ! j)) (int n - 1) \<le> int n - 1"
  shows "\<exists>s' cs''. resize_step K (int n - 1) (int j) s = Some s' \<and> resize_inv K h0 n (ys @ [j]) cs'' s'"
proof -
  define p where "p = item (h0 ! j)"
  define b where "b = nat (bucket_ix K p (int n - 1))"
  define k where "k = length ys"
  have b: "bucket_ix K p (int n - 1) = int b" "b < n"
    using bounds by (auto simp: b_def p_def)
  have lenold: "length (rs_old s) = length h0"
    using inv unfolding resize_inv_def by (metis length_map)
  have item: "item (rs_old s ! j) = p" using inv j by (simp add: resize_inv_def p_def)
  have fresh: "k \<notin> set (concat cs')"
    using inv unfolding resize_inv_def k_def
    by (metis atLeastLessThan_iff less_irrefl set_mset_mset set_upt)
  let ?s' = "\<lparr>rs_old = (rs_old s)[j := (rs_old s ! j)\<lparr>item := old_item K p\<rparr>],
     rs_heap = (rs_heap s)[k := \<lparr>nxt = rs_buckets s ! b, item = p\<rparr>],
     rs_buckets = (rs_buckets s)[b := int k], rs_i = int k + 1\<rparr>"
  let ?cs = "cs'[b := k # cs' ! b]"
  have "resize_step K (int n - 1) (int j) s = Some ?s'"
    using inv b j room unfolding resize_step_def resize_inv_def
    by (simp add: lenold item arr_simps k_def [symmetric] Let_def)
  moreover have "resize_inv K h0 n (ys @ [j]) ?cs ?s'"
    unfolding resize_inv_def
  proof (intro conjI allI impI ballI)
    show "map nxt (rs_old ?s') = map nxt h0"
      using inv unfolding resize_inv_def by (auto simp: map_update) (metis list_update_id map_update)
    show "path (map nxt (rs_heap ?s')) (rs_buckets ?s' ! b') (?cs ! b')" if "b' < n" for b'
      using path_push [of cs' "map nxt (rs_heap s)" "rs_buckets s" k b] inv fresh room b that
      by (auto simp: resize_inv_def k_def map_update)
    show "mset (concat ?cs) = mset [0..<length (ys @ [j])]"
      using mset_concat_update [of b cs' "k # cs' ! b"] inv b(2) by (simp add: resize_inv_def k_def)
    show "item (rs_heap ?s' ! k') = item (h0 ! ((ys @ [j]) ! k'))" if "k' < length (ys @ [j])" for k'
      using inv that room by (auto simp: resize_inv_def k_def p_def nth_append nth_list_update less_Suc_eq)
    show "bucket_ix K (item (rs_heap ?s' ! k')) (int n - 1) = int b'"
      if "b' < n" "k' \<in> set (?cs ! b')" for b' k'
    proof (cases "b' = b \<and> k' = k")
      case True
      then show ?thesis using b inv room by (simp add: resize_inv_def k_def)
    next
      case False
      then have k': "k' \<in> set (cs' ! b')"
        using that inv b by (cases "b' = b") (auto simp: resize_inv_def)
      then have "k' \<noteq> k" using fresh that inv nth_in_set_concat [of b' cs' k'] by (auto simp: resize_inv_def)
      then show ?thesis using k' that inv by (simp add: resize_inv_def)
    qed
  qed (use inv in \<open>auto simp: resize_inv_def k_def nth_list_update\<close>)
  ultimately show ?thesis by blast
qed

lemma resize_loop:
  assumes s: "shape d cs fl" and n: "length (concat cs) \<le> n"
    and bounds: "\<And>j. j \<in> set (concat cs) \<Longrightarrow> 0 \<le> bucket_ix K (item (heap d ! j)) (int n - 1) \<and>
                   bucket_ix K (item (heap d ! j)) (int n - 1) \<le> int n - 1"
  shows "\<exists>st cs'. bucket_loop rs_old (resize_step K (int n - 1)) (buckets d) 0 (nat (mask d + 1))
            \<lparr>rs_old = heap d, rs_heap = replicate n \<lparr>nxt = 0, item = z\<rparr>,
             rs_buckets = replicate n (-1), rs_i = 0\<rparr> = Some st \<and>
          resize_inv K (heap d) n (concat cs) cs' st"
proof -
  let ?init = "\<lparr>rs_old = heap d, rs_heap = replicate n \<lparr>nxt = 0, item = z\<rparr>,
             rs_buckets = replicate n (-1), rs_i = 0\<rparr>"
  let ?I = "\<lambda>ys st. \<exists>cs'. resize_inv K (heap d) n ys cs' st"
  have dist: "distinct (concat cs)" using shape_distinct [OF s] by simp
  have "\<exists>st. bucket_loop rs_old (resize_step K (int n - 1)) (buckets d) 0 (length cs) ?init = Some st
          \<and> ?I (concat cs) st"
  proof (rule bucket_loop_rule [where I = ?I and nx = "links d"])
    show "\<forall>b<length cs. path (links d) (buckets d ! b) (cs ! b)" "length (buckets d) = length cs"
      using s by (auto simp: shape_def)
    show "?I [] ?init"
      by (rule exI [of _ "replicate n []"]) (simp add: resize_inv_def)
    show "\<exists>st'. resize_step K (int n - 1) (int j) st = Some st' \<and> ?I (ys @ [j]) st'"
      if "concat cs = ys @ j # zs" "?I ys st" for ys j zs st
    proof -
      from that(2) obtain cs' where inv: "resize_inv K (heap d) n ys cs' st" ..
      have j: "j \<in> set (concat cs)" "j \<notin> set ys" "length ys < n"
        using that(1) dist n by auto
      from resize_step_inv [OF inv shape_less [OF s j(1)] j(2,3)] bounds [OF j(1)]
      show ?thesis by blast
    qed
    show "map nxt (rs_old st) = links d" if "?I ys st" for ys st
      using that by (auto simp: resize_inv_def)
  qed
  then show ?thesis using s by (auto simp: shape_def)
qed

text \<open>
  The table that \<open>Resize\<close> builds: same items, same count, every item in the bucket of the new
  mask. The strict bound on the number of items is what keeps the last write of the free-list
  loop inside the new heap.
\<close>

lemma dict_resize_shape:
  assumes s: "shape d cs fl" and n: "length (concat cs) < n"
    and guard: "int n \<le> (2 ^ 64 - 1) div int (node_size K)" "n < 2 ^ 64"
    and bounds: "\<And>j. j \<in> set (concat cs) \<Longrightarrow> 0 \<le> bucket_ix K (item (heap d ! j)) (int n - 1) \<and>
                   bucket_ix K (item (heap d ! j)) (int n - 1) \<le> int n - 1"
  shows "\<exists>d' cs' fl'. dict_resize K d (int n) = Some d' \<and> shape d' cs' fl' \<and> placed K d' cs' \<and>
           length (heap d') = n \<and> 0 \<le> firstFree d' \<and>
           mset (map (\<lambda>j. item (heap d' ! j)) (concat cs')) = mset (map (\<lambda>j. item (heap d ! j)) (concat cs))"
proof -
  from resize_loop [OF s less_imp_le [OF n] bounds, where z = "zero_item K"]
  obtain st cs' where st: "bucket_loop rs_old (resize_step K (int n - 1)) (buckets d) 0 (nat (mask d + 1))
            \<lparr>rs_old = heap d, rs_heap = replicate n \<lparr>nxt = 0, item = zero_item K\<rparr>,
             rs_buckets = replicate n (-1), rs_i = 0\<rparr> = Some st"
    and inv: "resize_inv K (heap d) n (concat cs) cs' st" by blast
  define m where "m = length (concat cs)"
  define h where "h = take m (rs_heap st) @ map (free_node (zero_item K) n) [m..<n]"
  define d' where "d' = d\<lparr>heap := h, buckets := rs_buckets st, mask := int n - 1, firstFree := int m\<rparr>"
  have m: "m < n" "rs_i st = int m" "length (rs_heap st) = n"
    using n inv by (auto simp: m_def resize_inv_def)
  have lenh: "length h = n" using m by (simp add: h_def)
  have "free_tail (zero_item K) (rs_heap st) (int m) (int n) = Some h"
    unfolding h_def using m by (intro free_tail_eq) auto
  moreover have "uint (word_of_int (int n) :: 64 word) = int n"
    using guard(2) by (simp add: uint_word_of_int take_bit_int_eq_self del: of_int_of_nat_eq)
  ultimately have eq: "dict_resize K d (int n) = Some d'"
    using st m guard(1) by (simp add: dict_resize_def d'_def)
  have low: "h ! k = rs_heap st ! k" if "k < m" for k
    using that m by (simp add: h_def nth_append)
  have ms: "mset (concat cs') = mset [0..<m]" using inv by (simp add: resize_inv_def m_def)
  then have "set (concat cs') = {0..<m}" by (metis mset_eq_setD set_upt)
  then have in_cs': "k \<in> set (cs' ! b) \<Longrightarrow> b < n \<Longrightarrow> k < m" for k b
    using inv nth_in_set_concat [of b cs' k] by (simp add: resize_inv_def)
  have paths: "path (map nxt h) (rs_buckets st ! b) (cs' ! b)" if b: "b < n" for b
  proof -
    have "path (map nxt (rs_heap st)) (rs_buckets st ! b) (cs' ! b)"
      using inv b by (simp add: resize_inv_def)
    moreover have "nxt (h ! k) = nxt (rs_heap st ! k)" "k < n" if "k \<in> set (cs' ! b)" for k
      using in_cs' [OF that b] low m by auto
    ultimately show ?thesis
      by (subst path_cong [of _ "map nxt (rs_heap st)"]) (auto simp: lenh m)
  qed
  have "nxt (h ! k) = nxt (free_node (zero_item K) n k)" if "m \<le> k" "k < n" for k
    using that m by (simp add: h_def nth_append)
  then have free: "path (map nxt h) (int m) [m..<n]"
    using path_free [of m n "map nxt h" "zero_item K"] m by (simp add: lenh)
  have all: "mset (concat cs') + mset [m..<n] = mset [0..<n]"
    using ms m upt_add_eq_append [of 0 m "n - m"] by (metis le_add_diff_inverse less_imp_le mset_append zero_le)
  have cnt: "length (concat cs') = m"
    using arg_cong [OF ms, of size] by simp
  have lens: "length (rs_buckets st) = n" "length cs' = n" "count d = int m"
    using inv s by (auto simp: resize_inv_def shape_def m_def)
  have "shape d' cs' [m..<n]"
    unfolding shape_def d'_def using paths free all cnt lens lenh by simp
  moreover have "placed K d' cs'"
    using inv in_cs' low by (auto simp: placed_def d'_def resize_inv_def)
  moreover have "mset (map (\<lambda>j. item (heap d' ! j)) (concat cs')) =
      mset (map (\<lambda>j. item (heap d ! j)) (concat cs))"
  proof -
    have "mset (map (\<lambda>j. item (heap d' ! j)) (concat cs')) = mset (map (\<lambda>j. item (h ! j)) [0..<m])"
      using ms by (simp add: d'_def del: mset_upt)
    also have "map (\<lambda>j. item (h ! j)) [0..<m] = map (\<lambda>j. item (heap d ! j)) (concat cs)"
      using inv low by (intro nth_equalityI) (auto simp: resize_inv_def m_def)
    finally show ?thesis .
  qed
  ultimately show ?thesis using eq lenh by (auto simp: d'_def)
qed

section \<open>Appending\<close>

lemma dict_append_free:
  assumes s: "shape d cs fl" and pl: "placed K d cs" and f: "0 \<le> firstFree d"
    and bounds: "0 \<le> bucket_ix K p (mask d)" "bucket_ix K p (mask d) \<le> mask d"
    and ix: "append_ix K p (mask d) = bucket_ix K p (mask d)"
  shows "\<exists>d' cs' fl'. dict_append K d p = Some (d', firstFree d) \<and> shape d' cs' fl' \<and> placed K d' cs' \<and>
           length (heap d') = length (heap d) \<and>
           mset (map (\<lambda>i. item (heap d' ! i)) (concat cs')) =
             add_mset p (mset (map (\<lambda>i. item (heap d ! i)) (concat cs)))"
proof -
  obtain j fl' where fl: "fl = j # fl'" and j: "firstFree d = int j" "j < length (heap d)"
    and fresh: "j \<notin> set (concat cs)" and rest: "path (links d) (links d ! j) fl'"
    by (rule shape_free_Cons [OF s f])
  define b where "b = nat (bucket_ix K p (mask d))"
  have lens: "length (buckets d) = length (heap d)" "length cs = length (heap d)"
      "mask d = int (length (heap d)) - 1"
    using s by (auto simp: shape_def)
  have b: "bucket_ix K p (mask d) = int b" "b < length cs"
    using bounds lens by (auto simp: b_def)
  define d' where "d' = d\<lparr>heap := (heap d)[j := \<lparr>nxt = buckets d ! b, item = p\<rparr>],
      buckets := (buckets d)[b := int j], firstFree := links d ! j, count := count d + 1\<rparr>"
  define cs' where "cs' = cs[b := j # cs ! b]"
  have "dict_append K d p = Some (d', firstFree d)"
    using f j b lens ix by (simp add: dict_append_def d'_def arr_simps Let_def)
  moreover have "shape d' cs' fl'"
  proof -
    have "j \<notin> set fl'" using shape_distinct [OF s] fl by simp
    then have "path (links d') (firstFree d') fl'"
      using rest by (simp add: d'_def map_update path_upd)
    moreover have "\<forall>k<length cs'. path (links d') (buckets d' ! k) (cs' ! k)"
      using path_push [of cs "links d" "buckets d" j b] s fresh j b lens
      by (simp add: d'_def cs'_def map_update shape_def)
    moreover have ms: "mset (concat cs') = add_mset j (mset (concat cs))"
      using mset_concat_update [OF b(2), of "j # cs ! b"] by (simp add: cs'_def)
    moreover have "length (concat cs') = Suc (length (concat cs))"
      using arg_cong [OF ms, of size] by simp
    ultimately show ?thesis
      using s fl lens by (simp add: shape_def) (simp add: d'_def cs'_def)
  qed
  moreover have "placed K d' cs'"
    unfolding placed_def
  proof (intro allI impI ballI)
    fix k i assume k: "k < length cs'" and i: "i \<in> set (cs' ! k)"
    show "bucket_ix K (item (heap d' ! i)) (mask d') = int k"
    proof (cases "i = j")
      case True
      with fresh i k b nth_in_set_concat [of k cs j] have "k = b"
        by (cases "k = b") (auto simp: cs'_def)
      with True b j show ?thesis by (simp add: d'_def)
    next
      case False
      with i k have "i \<in> set (cs ! k)" by (cases "k = b") (auto simp: cs'_def)
      with False pl k show ?thesis by (simp add: d'_def placed_def cs'_def)
    qed
  qed
  moreover have "mset (map (\<lambda>i. item (heap d' ! i)) (concat cs')) =
      add_mset p (mset (map (\<lambda>i. item (heap d ! i)) (concat cs)))"
  proof -
    have "image_mset (\<lambda>i. item (heap d' ! i)) (mset (concat cs)) =
        image_mset (\<lambda>i. item (heap d ! i)) (mset (concat cs))"
      using fresh by (intro image_mset_cong) (auto simp: d'_def intro!: arg_cong [of _ _ item] nth_list_update_neq)
    moreover have "mset (concat cs') = add_mset j (mset (concat cs))"
      using mset_concat_update [OF b(2), of "j # cs ! b"] by (simp add: cs'_def)
    ultimately show ?thesis using j by (simp add: d'_def)
  qed
  ultimately show ?thesis by (auto simp: d'_def)
qed

section \<open>Removing\<close>

lemma shape_free_node:
  assumes s: "shape d cs fl"
    and "length (buckets d') = length (buckets d)" "length (heap d') = length (heap d)"
      "mask d' = mask d" "count d' = count d - 1" "length cs' = length cs"
    and "\<forall>k<length cs'. path (links d') (buckets d' ! k) (cs' ! k)"
    and "path (links d') (firstFree d') (j # fl)"
    and ms: "add_mset j (mset (concat cs')) = mset (concat cs)"
  shows "shape d' cs' (j # fl)"
proof -
  have "length (concat cs) = Suc (length (concat cs'))"
    using arg_cong [OF ms, of size] by simp
  moreover have "mset (concat cs') + mset (j # fl) = mset (concat cs) + mset fl"
    using ms by (metis mset.simps(2) union_mset_add_mset_left union_mset_add_mset_right)
  ultimately show ?thesis
    using assms(1-8) unfolding shape_def by (simp del: path.simps)
qed

lemma unlink_front:
  assumes s: "shape d cs fl" and b: "b < length cs" and c: "cs ! b = j # zs"
  shows "\<exists>d'. unlink_node K (int b) (-1) (int j) d = Some d' \<and> shape d' (cs[b := zs]) (j # fl) \<and>
           mask d' = mask d \<and> length (heap d') = length (heap d) \<and>
           (\<forall>i. i \<noteq> j \<longrightarrow> item (heap d' ! i) = item (heap d ! i))"
proof -
  have lens: "length (buckets d) = length (heap d)" "length cs = length (heap d)"
    using s by (auto simp: shape_def)
  have j: "j \<in> set (concat cs)" "j < length (heap d)" "buckets d ! b = int j"
    using nth_in_set_concat [OF b, of j] c s b shape_less [OF s]  by (auto simp: shape_def)
  define d' where "d' = d\<lparr>buckets := (buckets d)[b := links d ! j],
      heap := (heap d)[j := \<lparr>nxt = firstFree d, item = free_item K\<rparr>], firstFree := int j, count := count d - 1\<rparr>"
  have dist: "distinct (concat cs @ fl)" by (rule shape_distinct [OF s])
  have notin: "j \<notin> set (cs[b := zs] ! k)" if "k < length cs" for k
  proof (cases "k = b")
    case True
    have "distinct (cs ! b)" using dist b by (simp add: distinct_concat_nth)
    with True c b show ?thesis by simp
  next
    case False
    have "set (cs ! k) \<inter> set (cs ! b) = {}"
      using dist that b False by (intro distinct_concat_disjoint) auto
    with False c show ?thesis by auto
  qed
  have "unlink_node K (int b) (-1) (int j) d = Some d'"
    using j b lens by (simp add: unlink_node_def d'_def arr_simps)
  moreover have "shape d' (cs[b := zs]) (j # fl)"
  proof -
    have "\<forall>k<length (cs[b := zs]). path (links d') (buckets d' ! k) (cs[b := zs] ! k)"
    proof (intro allI impI)
      fix k assume k: "k < length (cs[b := zs])"
      have "path (links d) (buckets d ! b) (j # zs)" using s b c by (metis shape_def)
      then have "path (links d) (buckets d' ! k) (cs[b := zs] ! k)"
        using s k b lens by (cases "k = b") (auto simp: shape_def d'_def)
      then show "path (links d') (buckets d' ! k) (cs[b := zs] ! k)"
        using notin k by (simp add: d'_def map_update path_upd)
    qed
    moreover have "path (links d') (firstFree d') (j # fl)"
    proof -
      have "j \<notin> set fl" using dist j by auto
      then show ?thesis using s j by (simp add: shape_def d'_def map_update path_upd)
    qed
    moreover have "add_mset j (mset (concat (cs[b := zs]))) = mset (concat cs)"
      using mset_concat_update [OF b, of zs] c by simp
    ultimately show ?thesis
      by (intro shape_free_node [OF s]) (auto simp: d'_def simp del: path.simps)
  qed
  ultimately show ?thesis by (auto simp: d'_def)
qed

lemma unlink_middle:
  assumes s: "shape d cs fl" and b: "b < length cs" and c: "cs ! b = ys @ p # j # zs"
  shows "\<exists>d'. unlink_node K b' (int p) (int j) d = Some d' \<and> shape d' (cs[b := ys @ p # zs]) (j # fl) \<and>
           mask d' = mask d \<and> length (heap d') = length (heap d) \<and>
           (\<forall>i. i \<noteq> j \<longrightarrow> item (heap d' ! i) = item (heap d ! i))"
proof -
  have lens: "length (buckets d) = length (heap d)" "length cs = length (heap d)"
    using s by (auto simp: shape_def)
  have pj: "p \<in> set (concat cs)" "j \<in> set (concat cs)"
    using nth_in_set_concat [OF b] c by auto
  then have less: "p < length (heap d)" "j < length (heap d)" using shape_less [OF s] by blast+
  have dist: "distinct (concat cs @ fl)" by (rule shape_distinct [OF s])
  then have dcs: "distinct (cs ! b)" using b by (simp add: distinct_concat_nth)
  have disj: "set (cs ! k) \<inter> set (cs ! b) = {}" if "k < length cs" "k \<noteq> b" for k
    using dist that b by (intro distinct_concat_disjoint) auto
  define d' where "d' = d\<lparr>heap := (heap d)[p := (heap d ! p)\<lparr>nxt := links d ! j\<rparr>,
      j := \<lparr>nxt = firstFree d, item = free_item K\<rparr>], firstFree := int j, count := count d - 1\<rparr>"
  have lk: "links d' = (links d)[p := links d ! j, j := firstFree d]"
    by (simp add: d'_def map_update)
  have "unlink_node K b' (int p) (int j) d = Some d'"
    using less by (simp add: unlink_node_def d'_def arr_simps)
  moreover have "shape d' (cs[b := ys @ p # zs]) (j # fl)"
  proof -
    have "\<forall>k<length (cs[b := ys @ p # zs]). path (links d') (buckets d' ! k) (cs[b := ys @ p # zs] ! k)"
    proof (intro allI impI)
      fix k assume k: "k < length (cs[b := ys @ p # zs])"
      show "path (links d') (buckets d' ! k) (cs[b := ys @ p # zs] ! k)"
      proof (cases "k = b")
        case True
        have "path ((links d)[p := links d ! j]) (buckets d ! b) (ys @ p # zs)"
          using s b c dcs by (intro path_unlink) (auto simp: shape_def)
        then show ?thesis using True b dcs c unfolding lk by (simp add: path_upd d'_def)
      next
        case False
        have "path (links d) (buckets d ! k) (cs ! k)" using s k by (simp add: shape_def)
        moreover have "p \<notin> set (cs ! k)" "j \<notin> set (cs ! k)" using disj [of k] k False c by auto
        ultimately show ?thesis using False unfolding lk by (simp add: path_upd d'_def)
      qed
    qed
    moreover have "path (links d') (firstFree d') (j # fl)"
    proof -
      have "p \<notin> set fl" "j \<notin> set fl" using dist pj by auto
      then show ?thesis using s less unfolding lk by (simp add: shape_def d'_def path_upd)
    qed
    moreover have "add_mset j (mset (concat (cs[b := ys @ p # zs]))) = mset (concat cs)"
      using mset_concat_update [OF b, of "ys @ p # zs"] c by simp
    ultimately show ?thesis
      by (intro shape_free_node [OF s]) (auto simp: d'_def simp del: path.simps)
  qed
  moreover have "item (heap d' ! i) = item (heap d ! i)" if "i \<noteq> j" for i
    using that less by (cases "i = p") (auto simp: d'_def)
  ultimately show ?thesis by (auto simp: d'_def)
qed

section \<open>Reading and cloning\<close>

lemma dict_collect_shape:
  assumes s: "shape d cs fl"
  shows "dict_collect f d = Some (map (\<lambda>j. f (item (heap d ! j))) (concat cs))"
proof -
  let ?I = "\<lambda>ys out. out = map (\<lambda>j. f (item (heap d ! j))) ys"
  have "\<exists>out. bucket_loop (\<lambda>_. heap d) (collect_step f d) (buckets d) 0 (length cs) [] = Some out \<and>
          ?I (concat cs) out"
  proof (rule bucket_loop_rule [where I = ?I and nx = "links d"])
    show "\<exists>s'. collect_step f d (int j) out = Some s' \<and> ?I (ys @ [j]) s'"
      if "concat cs = ys @ j # zs" "?I ys out" for ys j zs out
    proof -
      have "length (concat cs) = Suc (length ys + length zs)" using that(1) by simp
      moreover have "j < length (heap d)" using shape_less [OF s] that(1) by simp
      ultimately show ?thesis
        using that s by (simp add: collect_step_def arr_simps shape_def)
    qed
  qed (use s in \<open>auto simp: shape_def\<close>)
  then show ?thesis using s by (simp add: dict_collect_def shape_def)
qed

lemma first_loop_chains:
  assumes s: "shape d cs fl"
  shows "b + n = length cs \<Longrightarrow> first_loop d (int b) n =
     Some (case concat (drop b cs) of [] \<Rightarrow> None | j # _ \<Rightarrow> Some (item (heap d ! j)))"
proof (induction n arbitrary: b)
  case 0
  then show ?case by simp
next
  case (Suc n)
  then have b: "b < length cs" by simp
  then have p: "path (links d) (buckets d ! b) (cs ! b)" using s by (simp add: shape_def)
  have len: "b < length (buckets d)" using s b by (simp add: shape_def)
  have dr: "drop b cs = cs ! b # drop (Suc b) cs" using b by (simp add: Cons_nth_drop_Suc)
  show ?case
  proof (cases "cs ! b")
    case Nil
    then show ?thesis
      using p len dr Suc.IH [of "Suc b"] Suc.prems by (simp add: arr_simps add.commute)
  next
    case (Cons j js)
    then show ?thesis using p len dr by (simp add: arr_simps)
  qed
qed

lemma dict_first_shape:
  assumes "shape d cs fl"
  shows "dict_first d = Some (case concat cs of [] \<Rightarrow> None | j # _ \<Rightarrow> Some (item (heap d ! j)))"
  using first_loop_chains [OF assms, of 0 "length cs"] assms by (simp add: dict_first_def shape_def)

text \<open>A clone has the same links, and every stored item has been passed through the cloner.\<close>

definition clone_inv :: "('p \<Rightarrow> 'p) \<Rightarrow> 'p dict \<Rightarrow> nat list \<Rightarrow> nat list \<Rightarrow> 'p node list \<Rightarrow> bool" where
  "clone_inv f d ys zs h \<longleftrightarrow> length h = length (heap d) \<and>
     (\<forall>j\<in>set ys. h ! j = (heap d ! j)\<lparr>item := f (item (heap d ! j))\<rparr>) \<and>
     (\<forall>j\<in>set zs. h ! j = heap d ! j)"

lemma clone_step_chain:
  assumes "clone_inv f d ys [] h" and "j < length (heap d)"
  shows "\<exists>h'. clone_step f d (int j) h = Some h' \<and> clone_inv f d (ys @ [j]) [] h'"
  using assms by (auto simp: clone_step_def clone_inv_def arr_simps nth_list_update)

lemma clone_step_free:
  assumes "clone_inv f d ys zs h" and "j < length (heap d)" and "j \<notin> set ys"
  shows "\<exists>h'. clone_step (\<lambda>p. p) d (int j) h = Some h' \<and> clone_inv f d ys (zs @ [j]) h'"
  using assms by (auto simp: clone_step_def clone_inv_def arr_simps nth_list_update)

lemma dict_clone_shape:
  assumes s: "shape d cs fl"
  shows "\<exists>h. dict_clone K f d = Some (d\<lparr>heap := h\<rparr>) \<and> clone_inv f d (concat cs) fl h"
proof -
  let ?h0 = "replicate (nat (mask d + 1)) \<lparr>nxt = 0, item = zero_item K\<rparr>"
  have len: "nat (mask d + 1) = length (heap d)" "length cs = length (heap d)"
    "length (buckets d) = length cs" using s by (auto simp: shape_def)
  have "\<exists>h1. bucket_loop (\<lambda>_. heap d) (clone_step f d) (buckets d) 0 (length cs) ?h0 = Some h1 \<and>
      clone_inv f d (concat cs) [] h1"
  proof (rule bucket_loop_rule [where I = "\<lambda>ys. clone_inv f d ys []" and nx = "links d"])
    show "\<exists>h'. clone_step f d (int j) h = Some h' \<and> clone_inv f d (ys @ [j]) [] h'"
      if "concat cs = ys @ j # zs" "clone_inv f d ys [] h" for ys j zs h
      using that shape_less [OF s, of j] by (intro clone_step_chain) auto
  qed (use s len in \<open>auto simp: shape_def clone_inv_def\<close>)
  then obtain h1 where h1: "bucket_loop (\<lambda>_. heap d) (clone_step f d) (buckets d) 0 (length cs) ?h0 = Some h1"
    "clone_inv f d (concat cs) [] h1" by blast
  have "\<exists>h2. chain_loop (\<lambda>_. heap d) (clone_step (\<lambda>p. p) d) (firstFree d) h1 = Some h2 \<and>
      clone_inv f d (concat cs) fl h2"
  proof (rule chain_loop_rule [where I = "\<lambda>zs. clone_inv f d (concat cs) zs" and nx = "links d"])
    show "\<exists>h'. clone_step (\<lambda>p. p) d (int j) h = Some h' \<and> clone_inv f d (concat cs) (ys @ [j]) h'"
      if "fl = ys @ j # zs" "clone_inv f d (concat cs) ys h" for ys j zs h
      using that shape_distinct [OF s] shape_set [OF s] by (intro clone_step_free) auto
  qed (use s h1 in \<open>auto simp: shape_def\<close>)
  then obtain h2 where h2: "chain_loop (\<lambda>_. heap d) (clone_step (\<lambda>p. p) d) (firstFree d) h1 = Some h2"
    "clone_inv f d (concat cs) fl h2" by blast
  moreover have "\<lparr>buckets = buckets d, heap = h2, mask = mask d, firstFree = firstFree d,
      count = count d\<rparr> = d\<lparr>heap := h2\<rparr>"
    by (rule dict.equality) simp_all
  ultimately show ?thesis using h1 len by (intro exI [of _ h2]) (simp add: dict_clone_def)
qed

end
