(* ===== verification/DictCorrect.thy ===== *)
theory DictCorrect
  imports DictShape
begin

text \<open>
  Correctness of the chained hash table for every kind of dictionary that satisfies the laws of
  the locale \<open>dict_laws\<close>: each operation returns, keeps the invariant \<open>dict_wf\<close>, and acts on the
  stored items as the corresponding operation on a finite map does.
\<close>

section \<open>The laws of a kind, and the operations on well-formed tables\<close>

text \<open>
  What a dictionary has to provide: the bucket of a stored item depends on its key only (below
  the length limit \<open>lim\<close>), the bucket is in range, and tables up to \<open>lim\<close> neither overflow the
  index type nor trip the guard of \<^verbatim>\<open>Resize\<close>.
\<close>

locale dict_laws =
  fixes K :: "'p dkind" and ikey :: "'p \<Rightarrow> 'k" and iok :: "'p \<Rightarrow> bool"
    and kix :: "'k \<Rightarrow> int \<Rightarrow> int" and lim :: nat
  assumes ix_key: "iok p \<Longrightarrow> 0 \<le> m \<Longrightarrow> m < int lim \<Longrightarrow> bucket_ix K p m = kix (ikey p) m"
    and append_ix: "iok p \<Longrightarrow> 0 \<le> m \<Longrightarrow> m < int lim \<Longrightarrow> append_ix K p m = bucket_ix K p m"
    and kix_bounds: "0 \<le> m \<Longrightarrow> 0 \<le> kix k m \<and> kix k m \<le> m"
    and lim_guard: "int lim \<le> (2 ^ 64 - 1) div int (node_size K)"
    and lim_width: "int lim < 2 ^ (idx_width K - 1)" "idx_width K \<le> 64"
begin

abbreviation wf :: "'p dict \<Rightarrow> bool" where
  "wf \<equiv> dict_wf K ikey iok lim"

abbreviation keys :: "'p dict \<Rightarrow> 'k set" where
  "keys d \<equiv> ikey ` set (entries d)"

abbreviation room :: "'p dict \<Rightarrow> bool" where
  "room \<equiv> dict_room lim"

lemma wfI:
  assumes "shape d cs fl" and "placed K d cs"
    and "mset (map (\<lambda>j. item (heap d ! j)) (concat cs)) = mset es"
    and "distinct (map ikey es)" and "\<forall>p\<in>set es. iok p"
    and "is_dict_size (length (heap d))" and "length (heap d) \<le> lim"
  shows "wf d" and "mset (entries d) = mset es"
proof -
  have e: "entries d = map (\<lambda>j. item (heap d ! j)) (concat cs)"
    using shape_follow(1) [OF assms(1)] by (simp add: entries_def)
  with assms(3) show ms: "mset (entries d) = mset es" by simp
  have "distinct (map ikey (entries d))"
    using assms(4) ms by (metis mset_eq_imp_distinct_iff mset_map)
  moreover have "\<forall>p\<in>set (entries d). iok p" using assms(5) mset_eq_setD [OF ms] by simp
  ultimately show "wf d"
    using assms by (simp add: dict_wf_def shape_follow [OF assms(1)])
qed

lemma wfD:
  assumes "wf d"
  shows "shape d (chains d) (frees d)" "placed K d (chains d)"
    "distinct (map ikey (entries d))" "\<forall>p\<in>set (entries d). iok p"
    "is_dict_size (length (heap d))" "length (heap d) \<le> lim"
  using assms by (auto simp: dict_wf_def)

lemma dict_size_pos: "is_dict_size n \<Longrightarrow> 16 \<le> n"
proof -
  assume "is_dict_size n"
  then obtain k where "n = 2 ^ k" "4 \<le> k" by (auto simp: is_dict_size_def)
  then show ?thesis using power_increasing [of 4 k "2::nat"] by simp
qed

lemma wf_mask: "wf d \<Longrightarrow> 0 \<le> mask d \<and> mask d < int lim \<and> mask d = int (length (heap d)) - 1"
  using wfD(1,5,6) dict_size_pos [of "length (heap d)"] by (fastforce simp: shape_def)

lemma lim_small: "lim < 2 ^ 63"
proof -
  have "(2::int) ^ (idx_width K - 1) \<le> 2 ^ 63" using lim_width(2) by (intro power_increasing) auto
  with lim_width(1) have "int lim < 2 ^ 63" by (rule order.strict_trans2)
  then show ?thesis by simp
qed

subsection \<open>Where a key is\<close>

lemma key_bucket:
  assumes w: "wf d" and b: "b < length (chains d)" and j: "j \<in> set (chains d ! b)"
  shows "int b = kix (ikey (item (heap d ! j))) (mask d)"
proof -
  have "item (heap d ! j) \<in> set (entries d)"
    using nth_in_set_concat [OF b j] by (auto simp: entries_def)
  then have "iok (item (heap d ! j))" using wfD(4) [OF w] by simp
  then have "bucket_ix K (item (heap d ! j)) (mask d) = kix (ikey (item (heap d ! j))) (mask d)"
    using wf_mask [OF w] by (intro ix_key) auto
  with wfD(2) [OF w] b j show ?thesis by (simp add: placed_def)
qed

lemma entry_node:
  assumes "p \<in> set (entries d)"
  obtains b j where "b < length (chains d)" and "j \<in> set (chains d ! b)" and "p = item (heap d ! j)"
  using assms by (auto simp: entries_def set_concat_nth simp del: set_concat)

lemma kix_less: "wf d \<Longrightarrow> nat (kix k (mask d)) < length (chains d)"
  using wf_mask [of d] kix_bounds [of "mask d" k] wfD(1) [of d] by (auto simp: shape_def)

text \<open>The nodes of the bucket of \<open>k\<close> hold all items with the key \<open>k\<close>.\<close>

lemma bucket_complete:
  assumes w: "wf d" and p: "p \<in> set (entries d)" "ikey p = k"
  shows "\<exists>j\<in>set (chains d ! nat (kix k (mask d))). p = item (heap d ! j)"
proof -
  obtain b j where bj: "b < length (chains d)" "j \<in> set (chains d ! b)" "p = item (heap d ! j)"
    using entry_node [OF p(1)] .
  then have "b = nat (kix k (mask d))" using key_bucket [OF w bj(1,2)] p(2) by simp
  with bj show ?thesis by blast
qed

text \<open>Comparing keys is what the C comparison does on the items that can be stored.\<close>

lemma search_spec:
  assumes w: "wf d" and m: "\<And>p. iok p \<Longrightarrow> match p = (ikey p = k)"
  shows "\<exists>r. dict_search match (kix k (mask d)) d = Some r \<and>
     (case r of None \<Rightarrow> k \<notin> keys d
      | Some i \<Rightarrow> \<exists>j. i = int j \<and> j \<in> set (chains d ! nat (kix k (mask d))) \<and> ikey (item (heap d ! j)) = k)"
proof -
  let ?b = "nat (kix k (mask d))"
  have b: "?b < length (chains d)" by (rule kix_less [OF w])
  have s: "shape d (chains d) (frees d)" by (rule wfD(1) [OF w])
  have ge: "0 \<le> kix k (mask d)" using kix_bounds wf_mask [OF w] by blast
  have ok: "match (item (heap d ! j)) = (ikey (item (heap d ! j)) = k)" if "j \<in> set (chains d ! ?b)" for j
    using m wfD(4) [OF w] nth_in_set_concat [OF b that] by (auto simp: entries_def)
  have "arr_get (buckets d) (kix k (mask d)) = Some (buckets d ! ?b)"
    using s b ge by (auto simp: arr_get_def shape_def)
  moreover have "path (map nxt (heap d)) (buckets d ! ?b) (chains d ! ?b)"
    using s b by (simp add: shape_def)
  ultimately have eq: "dict_search match (kix k (mask d)) d =
      Some (map_option int (find (\<lambda>j. match (item (heap d ! j))) (chains d ! ?b)))"
    by (simp add: dict_search_def chain_search_path)
  show ?thesis
  proof (cases "find (\<lambda>j. match (item (heap d ! j))) (chains d ! ?b)")
    case None
    then have "\<forall>j\<in>set (chains d ! ?b). ikey (item (heap d ! j)) \<noteq> k"
      using ok by (auto simp: find_None_iff)
    then have "k \<notin> keys d" using bucket_complete [OF w] by blast
    with eq None show ?thesis by simp
  next
    case (Some j)
    then have "j \<in> set (chains d ! ?b)" "match (item (heap d ! j))" by (auto simp: find_Some_iff)
    with eq Some ok show ?thesis by auto
  qed
qed

lemma entry_unique:
  assumes w: "wf d" and "p \<in> set (entries d)" "q \<in> set (entries d)" "ikey p = ikey q"
  shows "p = q"
  using wfD(3) [OF w] assms(2-4) by (auto simp: distinct_map dest: inj_onD)

lemma lookup_Some:
  assumes w: "wf d"
  shows "dict_lookup ikey d k = Some p \<longleftrightarrow> p \<in> set (entries d) \<and> ikey p = k"
proof
  assume "dict_lookup ikey d k = Some p"
  then show "p \<in> set (entries d) \<and> ikey p = k" by (auto simp: dict_lookup_def find_Some_iff)
next
  assume p: "p \<in> set (entries d) \<and> ikey p = k"
  then obtain q where q: "dict_lookup ikey d k = Some q"
    by (cases "dict_lookup ikey d k") (auto simp: dict_lookup_def find_None_iff)
  then have "q \<in> set (entries d)" "ikey q = k" by (auto simp: dict_lookup_def find_Some_iff)
  with p q entry_unique [OF w] show "dict_lookup ikey d k = Some p" by auto
qed

lemma lookup_None: "dict_lookup ikey d k = None \<longleftrightarrow> k \<notin> keys d"
  by (auto simp: dict_lookup_def find_None_iff)

subsection \<open>Look-ups\<close>

lemma node_entry: "b < length (chains d) \<Longrightarrow> j \<in> set (chains d ! b) \<Longrightarrow> item (heap d ! j) \<in> set (entries d)"
  using nth_in_set_concat [of b "chains d" j] by (auto simp: entries_def)

lemma find_spec:
  assumes w: "wf d" and m: "\<And>p. iok p \<Longrightarrow> match p = (ikey p = k)"
  shows "dict_find match (kix k (mask d)) d = Some (dict_lookup ikey d k)"
proof -
  have b: "nat (kix k (mask d)) < length (chains d)" by (rule kix_less [OF w])
  obtain r where r: "dict_search match (kix k (mask d)) d = Some r"
    "case r of None \<Rightarrow> k \<notin> keys d
     | Some i \<Rightarrow> \<exists>j. i = int j \<and> j \<in> set (chains d ! nat (kix k (mask d))) \<and> ikey (item (heap d ! j)) = k"
    using search_spec [OF w m] by blast
  show ?thesis
  proof (cases r)
    case None
    with r have "dict_lookup ikey d k = None" by (simp add: lookup_None)
    with r None show ?thesis by (simp add: dict_find_def)
  next
    case (Some i)
    with r obtain j where j: "i = int j" "j \<in> set (chains d ! nat (kix k (mask d)))"
      "ikey (item (heap d ! j)) = k" by auto
    have "j < length (heap d)" using shape_less [OF wfD(1) [OF w] nth_in_set_concat [OF b j(2)]] .
    moreover have "dict_lookup ikey d k = Some (item (heap d ! j))"
      using lookup_Some [OF w] node_entry [OF b j(2)] j(3) by simp
    ultimately show ?thesis using r Some j(1) by (simp add: dict_find_def arr_simps)
  qed
qed

lemma search_iff:
  assumes w: "wf d" and m: "\<And>p. iok p \<Longrightarrow> match p = (ikey p = k)"
  obtains (found) j where "dict_search match (kix k (mask d)) d = Some (Some (int j))"
      and "j \<in> set (chains d ! nat (kix k (mask d)))" and "ikey (item (heap d ! j)) = k"
      and "dict_lookup ikey d k = Some (item (heap d ! j))"
  | (missing) "dict_search match (kix k (mask d)) d = Some None" and "k \<notin> keys d"
      and "dict_lookup ikey d k = None"
proof -
  obtain r where r: "dict_search match (kix k (mask d)) d = Some r"
    "case r of None \<Rightarrow> k \<notin> keys d
     | Some i \<Rightarrow> \<exists>j. i = int j \<and> j \<in> set (chains d ! nat (kix k (mask d))) \<and> ikey (item (heap d ! j)) = k"
    using search_spec [OF w m] by blast
  show thesis
  proof (cases r)
    case None
    with r show ?thesis by (intro missing) (simp_all add: lookup_None)
  next
    case (Some i)
    with r obtain j where "i = int j" "j \<in> set (chains d ! nat (kix k (mask d)))"
      "ikey (item (heap d ! j)) = k" by auto
    with r Some lookup_Some [OF w] node_entry [OF kix_less [OF w]] show ?thesis
      by (intro found [of j]) auto
  qed
qed

lemma contains_spec:
  assumes w: "wf d" and m: "\<And>p. iok p \<Longrightarrow> match p = (ikey p = k)"
  shows "dict_contains match (kix k (mask d)) d = Some (k \<in> keys d)"
  using search_iff [OF w m]
  by cases (auto simp: dict_contains_def node_entry [OF kix_less [OF w]])

lemma collect_spec: "wf d \<Longrightarrow> dict_collect f d = Some (map f (entries d))"
  using dict_collect_shape [OF wfD(1)] by (simp add: entries_def comp_def)

lemma count_spec: "wf d \<Longrightarrow> count d = int (length (entries d))"
  using wfD(1) by (simp add: shape_def entries_def)

lemma first_spec: "wf d \<Longrightarrow> dict_first d = Some (case entries d of [] \<Rightarrow> None | p # _ \<Rightarrow> Some p)"
  using dict_first_shape [OF wfD(1)] by (cases "concat (chains d)") (auto simp: entries_def simp del: concat_eq_Nil_conv)

subsection \<open>Updates\<close>

lemma clear_spec:
  assumes "is_dict_size n" and "n \<le> lim"
  shows "\<exists>d. dict_clear K (int n) = Some d \<and> wf d \<and> entries d = []"
proof -
  have "0 < n" using dict_size_pos [OF assms(1)] by simp
  then obtain d where d: "dict_clear K (int n) = Some d" "shape d (replicate n []) [0..<n]" "length (heap d) = n"
    using dict_clear_shape by blast
  then have "placed K d (replicate n [])" by (simp add: placed_def)
  from wfI [OF d(2) this, of "[]"] assms d(3) have "wf d" "mset (entries d) = mset []" by simp_all
  with d show ?thesis by simp
qed

lemma item_bounds:
  assumes "iok p" and "0 \<le> m" and "m < int lim"
  shows "0 \<le> bucket_ix K p m \<and> bucket_ix K p m \<le> m"
  using ix_key [OF assms] kix_bounds [OF assms(2)] by simp

lemma resize_spec:
  assumes w: "wf d" and n: "length (entries d) < n" "is_dict_size n" "n \<le> lim"
  shows "\<exists>d'. dict_resize K d (int n) = Some d' \<and> wf d' \<and> mset (entries d') = mset (entries d) \<and>
           0 \<le> firstFree d' \<and> length (heap d') = n"
proof -
  note s = wfD(1) [OF w]
  have len: "length (concat (chains d)) < n" using n by (simp add: entries_def)
  have "16 \<le> n" by (rule dict_size_pos [OF n(2)])
  have "\<exists>d' cs' fl'. dict_resize K d (int n) = Some d' \<and> shape d' cs' fl' \<and> placed K d' cs' \<and>
           length (heap d') = n \<and> 0 \<le> firstFree d' \<and>
           mset (map (\<lambda>j. item (heap d' ! j)) (concat cs')) =
             mset (map (\<lambda>j. item (heap d ! j)) (concat (chains d)))"
  proof (rule dict_resize_shape [OF s len])
    show "int n \<le> (2 ^ 64 - 1) div int (node_size K)" using lim_guard n(3) by linarith
    show "n < 2 ^ 64" using lim_small n(3) by simp
    show "0 \<le> bucket_ix K (item (heap d ! j)) (int n - 1) \<and>
        bucket_ix K (item (heap d ! j)) (int n - 1) \<le> int n - 1"
      if "j \<in> set (concat (chains d))" for j
      using that wfD(4) [OF w] n(3) \<open>16 \<le> n\<close> by (intro item_bounds) (auto simp: entries_def)
  qed
  then obtain d' cs' fl' where d': "dict_resize K d (int n) = Some d'" "shape d' cs' fl'" "placed K d' cs'"
    "length (heap d') = n" "0 \<le> firstFree d'"
    "mset (map (\<lambda>j. item (heap d' ! j)) (concat cs')) = mset (entries d)"
    by (auto simp: entries_def)
  have "wf d'" "mset (entries d') = mset (entries d)"
    using wfI [OF d'(2,3,6) wfD(3,4) [OF w]] n d'(4) by auto
  with d' show ?thesis by blast
qed

lemma append_free_spec:
  assumes w: "wf d" and p: "iok p" "ikey p \<notin> keys d" and f: "0 \<le> firstFree d"
  shows "\<exists>d'. dict_append K d p = Some (d', firstFree d) \<and> wf d' \<and>
           mset (entries d') = add_mset p (mset (entries d))"
proof -
  have b: "0 \<le> bucket_ix K p (mask d) \<and> bucket_ix K p (mask d) \<le> mask d"
    using wf_mask [OF w] by (intro item_bounds p) auto
  obtain d' cs' fl' where d': "dict_append K d p = Some (d', firstFree d)" "shape d' cs' fl'"
    "placed K d' cs'" "length (heap d') = length (heap d)"
    "mset (map (\<lambda>i. item (heap d' ! i)) (concat cs')) = mset (p # entries d)"
    using dict_append_free [OF wfD(1,2) [OF w] f, of p] b append_ix [OF p(1)] wf_mask [OF w]
    by (auto simp: entries_def)
  have "wf d'" "mset (entries d') = mset (p # entries d)"
    using wfI [OF d'(2,3,5)] wfD(3-6) [OF w] p d'(4) by auto
  with d' show ?thesis by auto
qed

lemma dict_size_double: "is_dict_size n \<Longrightarrow> 2 * n \<le> lim \<Longrightarrow> is_dict_size (2 * n)"
proof -
  assume "is_dict_size n" and l: "2 * n \<le> lim"
  then obtain k where k: "n = 2 ^ k" "4 \<le> k" by (auto simp: is_dict_size_def)
  then have "(2::nat) ^ Suc k < 2 ^ 63" using l lim_small by simp
  then have "Suc k < 63" by (rule power_less_imp_less_exp [rotated]) simp
  with k show "is_dict_size (2 * n)" by (auto simp: is_dict_size_def intro!: bexI [of _ "Suc k"])
qed

text \<open>
  \<^verbatim>\<open>Append\<close> succeeds whenever a node is free or the table can double, and then adds the item.
\<close>

lemma append_spec:
  assumes w: "wf d" and p: "iok p" "ikey p \<notin> keys d" and r: "room d"
  shows "\<exists>d' i. dict_append K d p = Some (d', i) \<and> wf d' \<and> mset (entries d') = add_mset p (mset (entries d))"
proof (cases "0 \<le> firstFree d")
  case True
  then show ?thesis using append_free_spec [OF w p] by blast
next
  case False
  define n where "n = 2 * length (heap d)"
  have n: "n \<le> lim" "is_dict_size n"
    using r False dict_size_double wfD(5) [OF w] by (auto simp: dict_room_def n_def)
  have "frees d = []" using False wfD(1) [OF w] by (cases "frees d") (auto simp: shape_def)
  then have "length (entries d) = length (heap d)"
    using shape_size [OF wfD(1) [OF w]] by (simp add: entries_def)
  moreover have "16 \<le> length (heap d)" by (rule dict_size_pos [OF wfD(5) [OF w]])
  ultimately have "length (entries d) < n" unfolding n_def by linarith
  from resize_spec [OF w this n(2,1)] obtain d1 where
    d1: "dict_resize K d (int n) = Some d1" "wf d1" "mset (entries d1) = mset (entries d)" "0 \<le> firstFree d1"
    by blast
  have "int n < 2 ^ (idx_width K - 1)" using n(1) lim_width(1) by linarith
  then have "signed_take_bit (idx_width K - 1) (int n) = int n"
    by (intro signed_take_bit_int_eq_self) (auto intro: order_trans [of _ 0])
  moreover have "(mask d + 1) * 2 = int n" using wf_mask [OF w] by (simp add: n_def)
  ultimately have "dict_append K d p = dict_append K d1 p"
    using False d1 by (simp add: dict_append_def)
  moreover have "ikey p \<notin> keys d1" using p(2) mset_eq_setD [OF d1(3)] by simp
  ultimately show ?thesis using append_free_spec [OF d1(2) p(1) _ d1(4)] d1(3) by auto
qed

text \<open>Look-ups after an update follow from the multiset of entries.\<close>

lemma lookup_eqI:
  assumes "wf d" and "\<And>k p. f k = Some p \<longleftrightarrow> p \<in> set (entries d) \<and> ikey p = k"
  shows "dict_lookup ikey d = f"
proof
  fix k
  have "f k = Some p \<longleftrightarrow> dict_lookup ikey d k = Some p" for p
    using assms(2) lookup_Some [OF assms(1)] by simp
  then show "dict_lookup ikey d k = f k"
    by (metis not_None_eq)
qed

lemma lookup_add:
  assumes "wf d" and w': "wf d'" and ms: "mset (entries d') = add_mset p (mset (entries d))"
  shows "dict_lookup ikey d' = (dict_lookup ikey d)(ikey p \<mapsto> p)"
proof (rule lookup_eqI [OF w'])
  fix k q
  have set: "set (entries d') = insert p (set (entries d))"
    using mset_eq_setD [of "entries d'" "p # entries d"] ms by simp
  then have "q \<in> set (entries d') \<Longrightarrow> ikey q = ikey p \<Longrightarrow> q = p"
    using entry_unique [OF w'] by simp
  with set lookup_Some [OF assms(1)]
  show "((dict_lookup ikey d)(ikey p \<mapsto> p)) k = Some q \<longleftrightarrow> q \<in> set (entries d') \<and> ikey q = k"
    by auto
qed

lemma add_spec:
  assumes w: "wf d" and m: "\<And>q. iok q \<Longrightarrow> match q = (ikey q = ikey p)" and p: "iok p"
    and r: "room d \<or> ikey p \<in> keys d"
  shows "\<exists>d'. dict_add K match (kix (ikey p) (mask d)) p d = Some (d', ikey p \<notin> keys d) \<and> wf d' \<and>
           mset (entries d') = (if ikey p \<in> keys d then mset (entries d) else add_mset p (mset (entries d)))"
proof (rule search_iff [OF w, of match "ikey p"])
  show "match q = (ikey q = ikey p)" if "iok q" for q using m that .
next
  fix j assume j: "dict_search match (kix (ikey p) (mask d)) d = Some (Some (int j))"
    "j \<in> set (chains d ! nat (kix (ikey p) (mask d)))" "ikey (item (heap d ! j)) = ikey p"
  then have "ikey p \<in> keys d" using node_entry [OF kix_less [OF w] j(2)] by (metis imageI)
  with j w show ?thesis by (simp add: dict_add_def)
next
  assume "dict_search match (kix (ikey p) (mask d)) d = Some None" "ikey p \<notin> keys d"
  with r append_spec [OF w p] show ?thesis by (fastforce simp: dict_add_def)
qed

text \<open>Overwriting the value of an existing item.\<close>

lemma update_node_spec:
  assumes w: "wf d" and b: "b < length (chains d)" and j: "j \<in> set (chains d ! b)"
    and q: "iok (f (item (heap d ! j)))" "ikey (f (item (heap d ! j))) = ikey (item (heap d ! j))"
  shows "\<exists>d'. dict_update_node f (int j) d = Some d' \<and> wf d' \<and> firstFree d' = firstFree d \<and>
     length (heap d') = length (heap d) \<and>
     mset (entries d') + {#item (heap d ! j)#} = mset (entries d) + {#f (item (heap d ! j))#}"
proof -
  note s = wfD(1) [OF w]
  let ?q = "f (item (heap d ! j))"
  have jin: "j \<in> set (concat (chains d))" by (rule nth_in_set_concat [OF b j])
  then have less: "j < length (heap d)" by (rule shape_less [OF s])
  define d' where "d' = d\<lparr>heap := (heap d)[j := (heap d ! j)\<lparr>item := ?q\<rparr>]\<rparr>"
  have lk: "links d' = links d"
    using less by (simp add: d'_def map_update list_update_same_conv)
  have sh: "shape d' (chains d) (frees d)"
    using s lk by (simp add: shape_def) (simp add: d'_def)
  obtain ys zs where sp: "concat (chains d) = ys @ j # zs" using split_list [OF jin] by blast
  then have split: "concat (chains d) = ys @ j # zs" "j \<notin> set ys" "j \<notin> set zs"
    using shape_distinct [OF s] by simp_all
  have items: "map (\<lambda>i. item (heap d' ! i)) (concat (chains d)) =
      map (\<lambda>i. item (heap d ! i)) ys @ ?q # map (\<lambda>i. item (heap d ! i)) zs"
    using split less by (auto simp: d'_def intro!: arg_cong [of _ _ item] nth_list_update_neq)
  have ent: "entries d = map (\<lambda>i. item (heap d ! i)) ys @ item (heap d ! j) # map (\<lambda>i. item (heap d ! i)) zs"
    using split(1) by (simp add: entries_def)
  let ?es = "map (\<lambda>i. item (heap d ! i)) ys @ ?q # map (\<lambda>i. item (heap d ! i)) zs"
  have pl: "placed K d' (chains d)"
    unfolding placed_def
  proof (intro allI impI ballI)
    fix b' i assume b': "b' < length (chains d)" and i: "i \<in> set (chains d ! b')"
    have "bucket_ix K (item (heap d ! i)) (mask d) = int b'" using wfD(2) [OF w] b' i by (simp add: placed_def)
    moreover have "bucket_ix K ?q (mask d) = bucket_ix K (item (heap d ! j)) (mask d)"
      using q node_entry [OF b j] wfD(4) [OF w] wf_mask [OF w] ix_key by metis
    ultimately show "bucket_ix K (item (heap d' ! i)) (mask d') = int b'"
      using less by (cases "i = j") (auto simp: d'_def)
  qed
  have es: "distinct (map ikey ?es)" "\<forall>p\<in>set ?es. iok p"
    using wfD(3,4) [OF w] q unfolding ent by simp_all
  have len: "length (heap d') = length (heap d)" by (simp add: d'_def)
  have "wf d'" "mset (entries d') = mset ?es"
    using wfI [OF sh pl arg_cong [OF items, of mset] es] wfD(5,6) [OF w] len by simp_all
  moreover have "dict_update_node f (int j) d = Some d'"
    using less by (simp add: dict_update_node_def d'_def arr_simps)
  ultimately show ?thesis by (auto simp: d'_def ent)
qed

text \<open>Look-ups after such an update.\<close>

lemma lookup_replace:
  assumes w: "wf d" "wf d'" and ms: "mset (entries d') + {#p#} = mset (entries d) + {#q#}"
    and k: "ikey q = ikey p" and p: "p \<in> set (entries d)"
  shows "dict_lookup ikey d' = (dict_lookup ikey d)(ikey p \<mapsto> q)"
proof -
  have "mset (entries d) = mset (remove1 p (entries d)) + {#p#}" using p by simp
  with ms have "mset (entries d') + {#p#} = mset (q # remove1 p (entries d)) + {#p#}"
    by (metis add.assoc add.commute add_mset_add_single mset.simps(2))
  then have "mset (entries d') = mset (q # remove1 p (entries d))" by (rule add_right_imp_eq)
  moreover have "distinct (entries d)" using wfD(3) [OF w(1)] by (simp add: distinct_map)
  ultimately have set: "set (entries d') = insert q (set (entries d) - {p})"
    by (metis list.simps(15) mset_eq_setD set_remove1_eq)
  show ?thesis
  proof (rule lookup_eqI [OF w(2)])
    fix x y
    have other: "z \<in> set (entries d) \<Longrightarrow> z \<noteq> p \<Longrightarrow> ikey z \<noteq> ikey p" for z
      using entry_unique [OF w(1) p] by metis
    show "((dict_lookup ikey d)(ikey p \<mapsto> q)) x = Some y \<longleftrightarrow> y \<in> set (entries d') \<and> ikey y = x"
      using set k other [of y] lookup_Some [OF w(1), of x y] by (cases "x = ikey p") auto
  qed
qed

lemma replace_spec:
  assumes w: "wf d" and m: "\<And>q. iok q \<Longrightarrow> match q = (ikey q = k)"
    and f: "\<And>q. iok q \<Longrightarrow> iok (f q) \<and> ikey (f q) = ikey q"
  shows "\<exists>d'. dict_replace match (kix k (mask d)) f d = Some (d', k \<in> keys d) \<and> wf d' \<and> (room d \<longrightarrow> room d') \<and>
     dict_lookup ikey d' = (case dict_lookup ikey d k of None \<Rightarrow> dict_lookup ikey d
                            | Some p \<Rightarrow> (dict_lookup ikey d)(k \<mapsto> f p))"
proof (rule search_iff [OF w, of match k])
  show "match q = (ikey q = k)" if "iok q" for q using m that .
next
  fix j assume j: "dict_search match (kix k (mask d)) d = Some (Some (int j))"
    "j \<in> set (chains d ! nat (kix k (mask d)))" "ikey (item (heap d ! j)) = k"
    "dict_lookup ikey d k = Some (item (heap d ! j))"
  let ?p = "item (heap d ! j)"
  have p: "?p \<in> set (entries d)" by (rule node_entry [OF kix_less [OF w] j(2)])
  then have "iok ?p" using wfD(4) [OF w] by simp
  from update_node_spec [OF w kix_less [OF w] j(2), of f] f [OF this] obtain d' where
    d': "dict_update_node f (int j) d = Some d'" "wf d'" "firstFree d' = firstFree d"
      "length (heap d') = length (heap d)" "mset (entries d') + {#?p#} = mset (entries d) + {#f ?p#}"
    by auto
  have "dict_lookup ikey d' = (dict_lookup ikey d)(k \<mapsto> f ?p)"
    using lookup_replace [OF w d'(2,5)] f [OF \<open>iok ?p\<close>] p j(3) by simp
  moreover have "k \<in> keys d" using p j(3) by blast
  ultimately show ?thesis using j d' by (simp add: dict_replace_def dict_room_def)
next
  assume "dict_search match (kix k (mask d)) d = Some None" "k \<notin> keys d" "dict_lookup ikey d k = None"
  then show ?thesis using w by (simp add: dict_replace_def)
qed

lemma set_spec:
  assumes w: "wf d" and m: "\<And>q. iok q \<Longrightarrow> match q = (ikey q = ikey p)"
    and f: "\<And>q. iok q \<Longrightarrow> ikey q = ikey p \<Longrightarrow> f q = p" and p: "iok p"
    and r: "room d \<or> ikey p \<in> keys d"
  shows "\<exists>d'. dict_set K match (kix (ikey p) (mask d)) f p d = Some (d', ikey p \<in> keys d) \<and> wf d' \<and>
     dict_lookup ikey d' = (dict_lookup ikey d)(ikey p \<mapsto> p)"
proof (rule search_iff [OF w, of match "ikey p"])
  show "match q = (ikey q = ikey p)" if "iok q" for q using m that .
next
  fix j assume j: "dict_search match (kix (ikey p) (mask d)) d = Some (Some (int j))"
    "j \<in> set (chains d ! nat (kix (ikey p) (mask d)))" "ikey (item (heap d ! j)) = ikey p"
    "dict_lookup ikey d (ikey p) = Some (item (heap d ! j))"
  let ?q = "item (heap d ! j)"
  have q: "?q \<in> set (entries d)" by (rule node_entry [OF kix_less [OF w] j(2)])
  then have fq: "f ?q = p" using wfD(4) [OF w] j(3) by (intro f) auto
  from update_node_spec [OF w kix_less [OF w] j(2), of f] fq p j(3) obtain d' where
    d': "dict_update_node f (int j) d = Some d'" "wf d'" "mset (entries d') + {#?q#} = mset (entries d) + {#p#}"
    by auto
  have "dict_lookup ikey d' = (dict_lookup ikey d)(ikey p \<mapsto> p)"
    using lookup_replace [OF w d'(2,3) _ q] j(3) by simp
  moreover have "ikey p \<in> keys d" using q j(3) by (metis imageI)
  ultimately show ?thesis using j d' by (simp add: dict_set_def)
next
  assume miss: "dict_search match (kix (ikey p) (mask d)) d = Some None" "ikey p \<notin> keys d"
  with r append_spec [OF w p] obtain d' i where d': "dict_append K d p = Some (d', i)" "wf d'"
    "mset (entries d') = add_mset p (mset (entries d))" by blast
  then show ?thesis using miss lookup_add [OF w d'(2,3)] by (simp add: dict_set_def)
qed

subsection \<open>Removal\<close>

lemma lookup_del:
  assumes w: "wf d" "wf d'" and ms: "mset (entries d) = add_mset p (mset (entries d'))"
  shows "dict_lookup ikey d' = (dict_lookup ikey d)(ikey p := None)"
proof -
  have "dict_lookup ikey d = (dict_lookup ikey d')(ikey p \<mapsto> p)"
    by (rule lookup_add [OF w(2,1) ms])
  moreover have "ikey p \<notin> keys d'"
  proof -
    have "distinct (map ikey (p # entries d'))"
      using wfD(3) [OF w(1)] ms by (metis mset.simps(2) mset_eq_imp_distinct_iff mset_map)
    then show ?thesis by auto
  qed
  ultimately show ?thesis using lookup_None [of d' "ikey p"] by (auto simp: fun_eq_iff)
qed

lemma unlink_spec:
  assumes w: "wf d" and b: "b < length (chains d)" and c: "chains d ! b = ys @ j # zs"
  shows "\<exists>d'. unlink_node K (int b) (if ys = [] then -1 else int (last ys)) (int j) d = Some d' \<and> wf d' \<and>
     mask d' = mask d \<and> length (heap d') = length (heap d) \<and> 0 \<le> firstFree d' \<and>
     mset (entries d) = add_mset (item (heap d ! j)) (mset (entries d'))"
proof -
  note s = wfD(1) [OF w]
  let ?cs = "(chains d)[b := ys @ zs]"
  have "\<exists>d'. unlink_node K (int b) (if ys = [] then -1 else int (last ys)) (int j) d = Some d' \<and>
      shape d' ?cs (j # frees d) \<and> mask d' = mask d \<and> length (heap d') = length (heap d) \<and>
      (\<forall>i. i \<noteq> j \<longrightarrow> item (heap d' ! i) = item (heap d ! i))"
  proof (cases ys rule: rev_cases)
    case Nil
    then show ?thesis using unlink_front [OF s b, of j zs K] c by simp
  next
    case (snoc ys' p)
    then show ?thesis using unlink_middle [OF s b, of ys' p j zs K "int b"] c by simp
  qed
  then obtain d' where d': "unlink_node K (int b) (if ys = [] then -1 else int (last ys)) (int j) d = Some d'"
    "shape d' ?cs (j # frees d)" "mask d' = mask d" "length (heap d') = length (heap d)"
    "\<forall>i. i \<noteq> j \<longrightarrow> item (heap d' ! i) = item (heap d ! i)" by blast
  let ?g = "\<lambda>i. item (heap d ! i)"
  have ms: "mset (concat (chains d)) = add_mset j (mset (concat ?cs))"
    using mset_concat_update [OF b, of "ys @ zs"] c by simp
  have nj: "j \<notin> set (concat ?cs)" using shape_distinct [OF d'(2)] by simp
  have same: "map (\<lambda>i. item (heap d' ! i)) (concat ?cs) = map ?g (concat ?cs)"
    using nj d'(5) by (intro map_cong) auto
  have ent: "mset (entries d) = mset (?g j # map ?g (concat ?cs))"
    using arg_cong [OF ms, of "image_mset ?g"] by (simp add: entries_def)
  have "distinct (map ikey (?g j # map ?g (concat ?cs)))" "\<forall>p\<in>set (?g j # map ?g (concat ?cs)). iok p"
    using wfD(3,4) [OF w] ent mset_eq_setD [OF ent] by (metis mset_eq_imp_distinct_iff mset_map)+
  then have es: "distinct (map ikey (map ?g (concat ?cs)))" "\<forall>p\<in>set (map ?g (concat ?cs)). iok p"
    by simp_all
  have pl: "placed K d' ?cs"
    unfolding placed_def
  proof (intro allI impI ballI)
    fix k i assume k: "k < length ?cs" and i: "i \<in> set (?cs ! k)"
    have "i \<noteq> j" using nj nth_in_set_concat [OF k i] by blast
    moreover have "i \<in> set (chains d ! k)" using i k c by (cases "k = b") auto
    ultimately show "bucket_ix K (item (heap d' ! i)) (mask d') = int k"
      using wfD(2) [OF w] k d'(3,5) by (simp add: placed_def)
  qed
  have "wf d'" "mset (entries d') = mset (map ?g (concat ?cs))"
    using wfI [OF d'(2) pl arg_cong [OF same, of mset] es] wfD(5,6) [OF w] d'(4) by simp_all
  moreover have "0 \<le> firstFree d'" using d'(2) by (simp add: shape_def)
  ultimately show ?thesis using d' ent by auto
qed

lemma dict_size_half: "is_dict_size n \<Longrightarrow> 16 < n \<Longrightarrow> is_dict_size (n div 2)"
proof -
  assume "is_dict_size n" and "16 < n"
  then obtain k where k: "n = 2 ^ k" "4 \<le> k" "k < 64" by (auto simp: is_dict_size_def)
  then have "k \<noteq> 4" using \<open>16 < n\<close> by auto
  then obtain i where "k = Suc i" "4 \<le> i" using k by (cases k) auto
  then show ?thesis using k by (auto simp: is_dict_size_def)
qed

text \<open>The shrinking at the end of \<^verbatim>\<open>Remove\<close>.\<close>

lemma shrink_spec:
  assumes w: "wf d" and f: "0 \<le> firstFree d"
  shows "\<exists>d'. (if count d \<le> (mask d + 1) div 4 \<and> mask d + 1 > 16
       then dict_resize K d ((mask d + 1) div 2) else Some d) = Some d' \<and> wf d' \<and> room d' \<and>
     dict_lookup ikey d' = dict_lookup ikey d"
proof (cases "count d \<le> (mask d + 1) div 4 \<and> mask d + 1 > 16")
  case False
  then show ?thesis using w f by (auto simp: dict_room_def)
next
  case small: True
  let ?n = "length (heap d)"
  have mk: "mask d + 1 = int ?n" using wf_mask [OF w] by simp
  have cnt: "length (entries d) < ?n div 2" using small count_spec [OF w] mk by linarith
  have half: "is_dict_size (?n div 2)" "?n div 2 \<le> lim"
    using dict_size_half [OF wfD(5) [OF w]] small mk wfD(6) [OF w] by auto
  obtain d' where d': "dict_resize K d (int (?n div 2)) = Some d'" "wf d'"
    "mset (entries d') = mset (entries d)" "0 \<le> firstFree d'"
    using resize_spec [OF w cnt half] by blast
  have "(mask d + 1) div 2 = int (?n div 2)" using mk by (simp add: zdiv_int)
  moreover have "dict_lookup ikey d' = dict_lookup ikey d"
    using lookup_eqI [OF d'(2)] lookup_Some [OF w] mset_eq_setD [OF d'(3)] by metis
  ultimately show ?thesis using d' small by (auto simp: dict_room_def)
qed

lemma remove_spec:
  assumes w: "wf d" and m: "\<And>q. iok q \<Longrightarrow> match q = (ikey q = k)"
  shows "\<exists>d'. dict_remove K match (kix k (mask d)) d = Some (d', k \<in> keys d) \<and> wf d' \<and>
     (k \<in> keys d \<longrightarrow> room d') \<and> dict_lookup ikey d' = (dict_lookup ikey d)(k := None)"
proof -
  note s = wfD(1) [OF w]
  define b where "b = nat (kix k (mask d))"
  have b: "b < length (chains d)" unfolding b_def by (rule kix_less [OF w])
  have kb: "kix k (mask d) = int b" using kix_bounds [OF conjunct1 [OF wf_mask [OF w]], of k] by (simp add: b_def)
  have p: "path (links d) (buckets d ! b) (chains d ! b)" using s b by (simp add: shape_def)
  have get: "arr_get (buckets d) (int b) = Some (buckets d ! b)"
    using s b by (intro arr_get_int) (simp add: shape_def)
  have mt: "match (item (heap d ! j)) = (ikey (item (heap d ! j)) = k)" if "j \<in> set (chains d ! b)" for j
    using m wfD(4) [OF w] node_entry [OF b that] by simp
  show ?thesis
  proof (cases "k \<in> keys d")
    case False
    then have "\<forall>j\<in>set (chains d ! b). \<not> match (item (heap d ! j))"
      using mt node_entry [OF b] by blast
    then have "dict_remove K match (kix k (mask d)) d = Some (d, False)"
      using get chain_search_prev_none [OF p] by (simp add: dict_remove_def kb)
    moreover have "dict_lookup ikey d k = None" using False by (simp add: lookup_None)
    ultimately show ?thesis using w False by (auto simp: fun_eq_iff)
  next
    case True
    then obtain q where "q \<in> set (entries d)" "ikey q = k" by blast
    from bucket_complete [OF w this] obtain j0 where "j0 \<in> set (chains d ! b)" "match (item (heap d ! j0))"
      using mt \<open>ikey q = k\<close> b_def by auto
    then obtain ys j zs where c: "chains d ! b = ys @ j # zs" "match (item (heap d ! j))"
      "\<forall>i\<in>set ys. \<not> match (item (heap d ! i))"
      using split_list_first_prop [of "chains d ! b" "\<lambda>i. match (item (heap d ! i))"] by blast
    have key: "ikey (item (heap d ! j)) = k" using mt c by simp
    obtain d2 where d2: "unlink_node K (int b) (if ys = [] then -1 else int (last ys)) (int j) d = Some d2"
      "wf d2" "mask d2 = mask d" "length (heap d2) = length (heap d)" "0 \<le> firstFree d2"
      "mset (entries d) = add_mset (item (heap d ! j)) (mset (entries d2))"
      using unlink_spec [OF w b c(1)] by blast
    have look: "dict_lookup ikey d2 = (dict_lookup ikey d)(k := None)"
      using lookup_del [OF w d2(2,6)] key by simp
    have srch: "chain_search_prev match (heap d) (-1) (buckets d ! b) =
        Some (Some (if ys = [] then -1 else int (last ys), int j))"
      using chain_search_prev_some [of "heap d" "buckets d ! b" ys j zs match "-1"] p c by simp
    obtain d3 where d3: "(if count d2 \<le> (mask d2 + 1) div 4 \<and> mask d2 + 1 > 16
        then dict_resize K d2 ((mask d2 + 1) div 2) else Some d2) = Some d3"
      "wf d3" "room d3" "dict_lookup ikey d3 = dict_lookup ikey d2"
      using shrink_spec [OF d2(2,5)] by blast
    have "dict_remove K match (kix k (mask d)) d = Some (d3, True)"
      using get srch d2(1,3) d3(1) by (auto simp: dict_remove_def kb split: if_splits)
    then show ?thesis using d3 look True by auto
  qed
qed

subsection \<open>Cloning\<close>

lemma clone_spec:
  assumes w: "wf d" and f: "\<And>q. iok q \<Longrightarrow> iok (f q) \<and> ikey (f q) = ikey q"
  shows "\<exists>d'. dict_clone K f d = Some d' \<and> wf d' \<and> entries d' = map f (entries d) \<and> count d' = count d"
proof -
  note s = wfD(1) [OF w]
  let ?js = "concat (chains d)"
  obtain h where h: "dict_clone K f d = Some (d\<lparr>heap := h\<rparr>)" "clone_inv f d ?js (frees d) h"
    using dict_clone_shape [OF s] by blast
  let ?d = "d\<lparr>heap := h\<rparr>"
  have nx: "map nxt h = links d"
  proof (rule nth_equalityI)
    show "length (map nxt h) = length (links d)" using h(2) by (simp add: clone_inv_def)
    fix i assume "i < length (map nxt h)"
    then have "i \<in> set ?js \<union> set (frees d)" using h(2) shape_set [OF s] by (auto simp: clone_inv_def)
    then show "map nxt h ! i = links d ! i"
      using h(2) \<open>i < _\<close> by (auto simp: clone_inv_def)
  qed
  then have sh: "shape ?d (chains d) (frees d)"
    using s h(2) by (simp add: shape_def clone_inv_def)
  have it: "item (h ! j) = f (item (heap d ! j))" if "j \<in> set ?js" for j
    using h(2) that by (auto simp: clone_inv_def)
  then have items: "map (\<lambda>j. item (heap ?d ! j)) ?js = map f (entries d)"
    by (simp add: entries_def)
  have keys: "map ikey (map f (entries d)) = map ikey (entries d)" "\<forall>p\<in>set (map f (entries d)). iok p"
    using f wfD(4) [OF w] by auto
  have pl: "placed K ?d (chains d)"
    unfolding placed_def
  proof (intro allI impI ballI)
    fix b j assume b: "b < length (chains d)" and j: "j \<in> set (chains d ! b)"
    have "iok (item (heap d ! j))" using wfD(4) [OF w] node_entry [OF b j] by simp
    then have "bucket_ix K (f (item (heap d ! j))) (mask d) = bucket_ix K (item (heap d ! j)) (mask d)"
      using f wf_mask [OF w] ix_key by metis
    then show "bucket_ix K (item (heap ?d ! j)) (mask ?d) = int b"
      using it [OF nth_in_set_concat [OF b j]] wfD(2) [OF w] b j by (simp add: placed_def)
  qed
  have "distinct (map ikey (map f (entries d)))" using wfD(3) [OF w] by (simp only: keys(1))
  with keys(2) have "wf ?d"
    using wfI(1) [OF sh pl arg_cong [OF items, of mset]] wfD(5,6) [OF w] h(2)
    by (simp add: clone_inv_def)
  moreover have "entries ?d = map f (entries d)"
    using items shape_follow(1) [OF sh] by (simp add: entries_def)
  ultimately show ?thesis using h(1) by auto
qed

end

end
