(* ===== verification/BitTwiddling.thy ===== *)
theory BitTwiddling
  imports SmilePrelude
begin

text \<open>
  \<^verbatim>\<open>smilelib/include/smile/bittwiddling.h\<close>: rounding up to a power of two by smearing the
  highest set bit to the right.
\<close>

section \<open>Definitions\<close>

definition NextPowerOfTwo32 :: "32 word \<Rightarrow> 32 word" where
  "NextPowerOfTwo32 v =
     (let v = v - 1;
          v = v OR drop_bit 1 v;
          v = v OR drop_bit 2 v;
          v = v OR drop_bit 4 v;
          v = v OR drop_bit 8 v;
          v = v OR drop_bit 16 v
      in v + 1)"

definition NextPowerOfTwo64 :: "64 word \<Rightarrow> 64 word" where
  "NextPowerOfTwo64 v =
     (let v = v - 1;
          v = v OR drop_bit 1 v;
          v = v OR drop_bit 2 v;
          v = v OR drop_bit 4 v;
          v = v OR drop_bit 8 v;
          v = v OR drop_bit 16 v;
          v = v OR drop_bit 32 v
      in v + 1)"

section \<open>Smearing\<close>

definition smeared :: "'a::len word \<Rightarrow> nat \<Rightarrow> 'a word \<Rightarrow> bool" where
  "smeared v k x \<longleftrightarrow> (\<forall>i. bit x i \<longleftrightarrow> (\<exists>j<k. bit v (i + j)))"

lemma smeared_start: "smeared v 1 v"
  by (simp add: smeared_def)

lemma smeared_step: "smeared v k x \<Longrightarrow> smeared v (2 * k) (x OR drop_bit k x)"
proof -
  assume s: "smeared v k x"
  have "(\<exists>j<k. bit v (i + j)) \<or> (\<exists>j<k. bit v (k + i + j)) \<longleftrightarrow> (\<exists>j<2 * k. bit v (i + j))" for i
  proof
    assume "(\<exists>j<k. bit v (i + j)) \<or> (\<exists>j<k. bit v (k + i + j))"
    then show "\<exists>j<2 * k. bit v (i + j)"
    proof
      assume "\<exists>j<k. bit v (k + i + j)"
      then obtain j where "j < k" "bit v (i + (k + j))" by (auto simp: ac_simps)
      then show ?thesis by (intro exI [of _ "k + j"]) auto
    next
      assume "\<exists>j<k. bit v (i + j)"
      then obtain j where "j < k" "bit v (i + j)" by blast
      then show ?thesis by (intro exI [of _ j]) auto
    qed
  next
    assume "\<exists>j<2 * k. bit v (i + j)"
    then obtain j where j: "j < 2 * k" "bit v (i + j)" by blast
    show "(\<exists>j<k. bit v (i + j)) \<or> (\<exists>j<k. bit v (k + i + j))"
    proof (cases "j < k")
      case False
      then have "bit v (k + i + (j - k))" using j by (simp add: ac_simps)
      with False j(1) show ?thesis by (intro disjI2 exI [of _ "j - k"]) auto
    qed (use j in blast)
  qed
  with s show ?thesis by (simp add: smeared_def bit_or_iff bit_drop_bit_eq)
qed

lemma bit_length_exists: "\<exists>n. (x::nat) < 2 ^ n \<and> (n = 0 \<or> 2 ^ (n - 1) \<le> x)"
proof (cases "x = 0")
  case True
  then show ?thesis by (intro exI [of _ 0]) simp
next
  case False
  have "\<exists>k<x. (\<forall>i\<le>k. \<not> x < 2 ^ i) \<and> x < 2 ^ Suc k"
    by (rule ex_least_nat_less) (use False in \<open>auto simp: less_exp\<close>)
  then obtain k where "\<not> x < 2 ^ k" "x < 2 ^ Suc k" by blast
  then show ?thesis by (intro exI [of _ "Suc k"]) (simp add: not_less)
qed

text \<open>A fully smeared word is the mask of the bits up to its highest one.\<close>

lemma bit_above_length:
  fixes v :: "'a::len word"
  assumes "unat v < 2 ^ n" and "n \<le> j"
  shows "\<not> bit v j"
proof -
  have "(2::nat) ^ n \<le> 2 ^ j" using assms(2) by (intro power_increasing) auto
  with assms(1) have "unat v < 2 ^ j" by linarith
  then have "\<not> bit (unat v) j" by (simp add: bit_iff_odd)
  then show ?thesis by (auto simp: bit_unsigned_iff dest: bit_imp_possible_bit)
qed

lemma bit_top:
  fixes v :: "'a::len word"
  assumes "unat v < 2 ^ Suc m" and "2 ^ m \<le> unat v"
  shows "bit v m"
proof -
  have "unat v div 2 ^ m = 1" using assms by (intro div_nat_eqI) simp_all
  then have "bit (unat v) m" by (simp add: bit_iff_odd)
  then show ?thesis by (simp add: bit_unsigned_iff)
qed

lemma smeared_mask:
  fixes v :: "'a::len word"
  assumes s: "smeared v LENGTH('a) x" and n: "unat v < 2 ^ n" "n = 0 \<or> 2 ^ (n - 1) \<le> unat v"
  shows "x = mask n"
proof (rule bit_word_eqI)
  fix i assume i: "i < LENGTH('a)"
  show "bit x i \<longleftrightarrow> bit (mask n :: 'a word) i"
  proof (cases "i < n")
    case True
    then have "bit v (n - 1)" using n bit_top [of v "n - 1"] by simp
    with True have "bit v (i + (n - 1 - i))" and "n - 1 < LENGTH('a)"
      by (simp_all add: bit_imp_le_length)
    moreover from this have "n - 1 - i < LENGTH('a)" by simp
    ultimately have "bit x i" using s unfolding smeared_def by blast
    with True i show ?thesis by (simp add: bit_mask_iff)
  next
    case False
    then have "\<not> bit v (i + j)" for j using bit_above_length [OF n(1)] by simp
    with s False show ?thesis by (simp add: smeared_def bit_mask_iff)
  qed
qed

lemma NextPowerOfTwo32_smeared: "\<exists>x. smeared (v - 1) LENGTH(32) x \<and> NextPowerOfTwo32 v = x + 1"
proof -
  let ?s = "\<lambda>k x. x OR drop_bit k x"
  let ?x1 = "?s 1 (v - 1)" let ?x2 = "?s 2 ?x1" let ?x4 = "?s 4 ?x2" let ?x8 = "?s 8 ?x4" let ?x16 = "?s 16 ?x8"
  have "smeared (v - 1) 2 ?x1" using smeared_step [OF smeared_start, of "v - 1"] by simp
  then have "smeared (v - 1) 4 ?x2" by (auto dest: smeared_step)
  then have "smeared (v - 1) 8 ?x4" by (auto dest: smeared_step)
  then have "smeared (v - 1) 16 ?x8" by (auto dest: smeared_step)
  then have "smeared (v - 1) 32 ?x16" by (auto dest: smeared_step)
  then show ?thesis by (auto simp: NextPowerOfTwo32_def Let_def)
qed

lemma NextPowerOfTwo64_smeared: "\<exists>x. smeared (v - 1) LENGTH(64) x \<and> NextPowerOfTwo64 v = x + 1"
proof -
  let ?s = "\<lambda>k x. x OR drop_bit k x"
  let ?x1 = "?s 1 (v - 1)" let ?x2 = "?s 2 ?x1" let ?x4 = "?s 4 ?x2" let ?x8 = "?s 8 ?x4" let ?x16 = "?s 16 ?x8"
  let ?x32 = "?s 32 ?x16"
  have "smeared (v - 1) 2 ?x1" using smeared_step [OF smeared_start, of "v - 1"] by simp
  then have "smeared (v - 1) 4 ?x2" by (auto dest: smeared_step)
  then have "smeared (v - 1) 8 ?x4" by (auto dest: smeared_step)
  then have "smeared (v - 1) 16 ?x8" by (auto dest: smeared_step)
  then have "smeared (v - 1) 32 ?x16" by (auto dest: smeared_step)
  then have "smeared (v - 1) 64 ?x32" by (auto dest: smeared_step)
  then show ?thesis by (auto simp: NextPowerOfTwo64_def Let_def)
qed

section \<open>The result\<close>

lemma mask_plus_one:
  fixes v :: "'a::len word"
  assumes "unat v \<le> 2 ^ (LENGTH('a) - 1)" and "1 \<le> unat v"
    and s: "smeared (v - 1) LENGTH('a) x"
  shows "\<exists>n<LENGTH('a). unat (x + 1) = 2 ^ n \<and> unat v \<le> 2 ^ n \<and> (n = 0 \<or> 2 ^ (n - 1) < unat v)"
proof -
  obtain n where n: "unat (v - 1) < 2 ^ n" "n = 0 \<or> 2 ^ (n - 1) \<le> unat (v - 1)"
    using bit_length_exists by blast
  have v1: "unat (v - 1) = unat v - 1" using assms(2) by (simp add: unat_sub word_le_nat_alt)
  have x: "x = mask n" by (rule smeared_mask [OF s n])
  have lt: "n < LENGTH('a)"
  proof (rule ccontr)
    assume "\<not> n < LENGTH('a)"
    moreover have "0 < LENGTH('a)" by simp
    ultimately have "LENGTH('a) - 1 \<le> n - 1" and "n \<noteq> 0" by linarith+
    then have "(2::nat) ^ (LENGTH('a) - 1) \<le> 2 ^ (n - 1)" by (intro power_increasing) auto
    also have "\<dots> \<le> unat (v - 1)" using n(2) \<open>n \<noteq> 0\<close> by blast
    finally show False using assms v1 by linarith
  qed
  have "x + 1 = 2 ^ n" by (simp add: x mask_eq_exp_minus_1)
  then have "unat (x + 1) = 2 ^ n" 
    using lt power_strict_increasing [OF lt, of "2::nat"] unat_of_nat [of "2 ^ n", where 'a='a]  by simp
  moreover have "unat v \<le> 2 ^ n" using n(1) v1 assms(2) by linarith
  moreover have "n = 0 \<or> 2 ^ (n - 1) < unat v" using n(2) v1 assms(2) by linarith
  ultimately show ?thesis using lt by blast
qed

lemma NextPowerOfTwo32_spec:
  assumes "1 \<le> unat v" and "unat v \<le> 2 ^ 31"
  shows "\<exists>n<32. unat (NextPowerOfTwo32 v) = 2 ^ n \<and> unat v \<le> 2 ^ n \<and> (n = 0 \<or> 2 ^ (n - 1) < unat v)"
proof -
  obtain x where "smeared (v - 1) LENGTH(32) x" "NextPowerOfTwo32 v = x + 1"
    using NextPowerOfTwo32_smeared by blast
  then show ?thesis using mask_plus_one [of v x] assms by simp
qed

lemma NextPowerOfTwo64_spec:
  assumes "1 \<le> unat v" and "unat v \<le> 2 ^ 63"
  shows "\<exists>n<64. unat (NextPowerOfTwo64 v) = 2 ^ n \<and> unat v \<le> 2 ^ n \<and> (n = 0 \<or> 2 ^ (n - 1) < unat v)"
proof -
  obtain x where "smeared (v - 1) LENGTH(64) x" "NextPowerOfTwo64 v = x + 1"
    using NextPowerOfTwo64_smeared by blast
  then show ?thesis using mask_plus_one [of v x] assms by simp
qed

end
