(* ===== verification/DictSpec.thy ===== *)
theory DictSpec
  imports DictCorrect BitTwiddling
begin

text \<open>
  The dictionaries as finite maps. The first part is the clamping of a requested table size at
  the head of the \<^verbatim>\<open>ClearWithSize\<close> functions. The locale \<open>keyed_dict\<close> adds to the laws of a
  hash table a value in every item and derives the effect of each operation on the finite map
  from keys to values. The locale \<open>map_impl\<close> is the interface the clients of a dictionary
  rely on; it proves once that any sequence of calls behaves as on a map.
\<close>

section \<open>Table sizes\<close>

text \<open>
  \<^verbatim>\<open>if (newSize < 0x10) newSize = 0x10; if (newSize > 0x1000000) newSize = 0x1000000;\<close>
  followed by the rounding to a power of two, for \<^verbatim>\<open>Int32\<close> and for \<^verbatim>\<open>Int\<close> sizes.
\<close>

definition dict_size32 :: "int32 \<Rightarrow> int" where
  "dict_size32 newSize =
     (let newSize = (if newSize <s 0x10 then 0x10 else newSize);
          newSize = (if 0x1000000 <s newSize then 0x1000000 else newSize)
      in sint (NextPowerOfTwo32 newSize))"

definition dict_size64 :: "int64 \<Rightarrow> int" where
  "dict_size64 newSize =
     (let newSize = (if newSize <s 0x10 then 0x10 else newSize);
          newSize = (if 0x1000000 <s newSize then 0x1000000 else newSize)
      in sint (NextPowerOfTwo64 newSize))"

lemma sint_eq_unat:
  fixes w :: "'a::len word"
  assumes "unat w < 2 ^ (LENGTH('a) - 1)"
  shows "sint w = int (unat w)"
proof -
  have "- (2 ^ (LENGTH('a) - 1)) \<le> uint w" by (rule order_trans [of _ 0]) simp_all
  moreover have "int (unat w) < int (2 ^ (LENGTH('a) - 1))" using assms by (simp only: of_nat_less_iff)
  then have "uint w < 2 ^ (LENGTH('a) - 1)" by simp
  ultimately show ?thesis by (simp add: sint_uint signed_take_bit_int_eq_self)
qed

lemma unat_eq_sint:
  fixes w :: "'a::len word"
  assumes "0 \<le> sint w"
  shows "unat w = nat (sint w)"
proof -
  have "sint w < 2 ^ LENGTH('a)"
    by (rule order.strict_trans2 [OF sint_lt]) (intro power_increasing, simp_all)
  then have "sint w mod 2 ^ LENGTH('a) = sint w" using assms by (intro mod_pos_pos_trivial)
  then have "uint w = sint w" using uint_word_of_int [of "sint w", where 'a = 'a] by (simp only: of_int_sint scast_id)
  then show ?thesis by (simp add: unat_eq_nat_uint)
qed

lemma clamped_power:
  assumes "16 \<le> u" and "u \<le> 2 ^ 24"
    and "\<exists>n<N. x = 2 ^ n \<and> u \<le> 2 ^ n \<and> (n = 0 \<or> 2 ^ (n - 1) < u)"
  shows "is_dict_size x \<and> u \<le> x \<and> x \<le> 2 ^ 24"
proof -
  obtain n where n: "x = 2 ^ n" "u \<le> 2 ^ n" "n = 0 \<or> 2 ^ (n - 1) < u" using assms(3) by blast
  have "(2::nat) ^ 4 \<le> 2 ^ n" using n(2) assms(1) by simp
  then have "4 \<le> n" by (rule power_le_imp_le_exp [rotated]) simp
  then have "(2::nat) ^ (n - 1) < 2 ^ 24" using n(3) assms(2) by auto
  then have "n - 1 < 24" by (rule power_less_imp_less_exp [rotated]) simp
  then have "n \<le> 24" by simp
  then have "(2::nat) ^ n \<le> 2 ^ 24" by (intro power_increasing) auto
  with n \<open>4 \<le> n\<close> \<open>n \<le> 24\<close> show ?thesis by (auto simp: is_dict_size_def)
qed

lemma dict_size32_spec:
  "\<exists>n. dict_size32 w = int n \<and> is_dict_size n \<and> n \<le> 2 ^ 24 \<and> (sint w \<le> 2 ^ 24 \<longrightarrow> sint w \<le> int n)"
proof -
  define c :: int32 where
    "c = (let c = (if w <s 0x10 then 0x10 else w) in if 0x1000000 <s c then 0x1000000 else c)"
  have c: "16 \<le> sint c" "sint c \<le> 2 ^ 24" "sint w \<le> 2 ^ 24 \<Longrightarrow> sint w \<le> sint c"
    by (auto simp: c_def Let_def word_sless_alt)
  have u: "unat c = nat (sint c)" using c(1) by (intro unat_eq_sint) simp
  let ?x = "unat (NextPowerOfTwo32 c)"
  have x: "is_dict_size ?x \<and> unat c \<le> ?x \<and> ?x \<le> 2 ^ 24"
  proof (rule clamped_power [where N = 32])
    show "16 \<le> unat c" "unat c \<le> 2 ^ 24" using c u by simp_all
    then show "\<exists>n<32. ?x = 2 ^ n \<and> unat c \<le> 2 ^ n \<and> (n = 0 \<or> 2 ^ (n - 1) < unat c)"
      by (intro NextPowerOfTwo32_spec) simp_all
  qed
  then have "?x < 2 ^ (LENGTH(32) - 1)" by simp
  then have "dict_size32 w = int ?x"
    using sint_eq_unat [of "NextPowerOfTwo32 c"] by (simp add: dict_size32_def c_def Let_def)
  moreover have "sint c \<le> int ?x" using x u c(1) by linarith
  ultimately show ?thesis using x c(3) by (intro exI [of _ ?x]) (auto intro: order_trans)
qed

lemma dict_size64_spec:
  "\<exists>n. dict_size64 w = int n \<and> is_dict_size n \<and> n \<le> 2 ^ 24 \<and> (sint w \<le> 2 ^ 24 \<longrightarrow> sint w \<le> int n)"
proof -
  define c :: int64 where
    "c = (let c = (if w <s 0x10 then 0x10 else w) in if 0x1000000 <s c then 0x1000000 else c)"
  have c: "16 \<le> sint c" "sint c \<le> 2 ^ 24" "sint w \<le> 2 ^ 24 \<Longrightarrow> sint w \<le> sint c"
    by (auto simp: c_def Let_def word_sless_alt)
  have u: "unat c = nat (sint c)" using c(1) by (intro unat_eq_sint) simp
  let ?x = "unat (NextPowerOfTwo64 c)"
  have x: "is_dict_size ?x \<and> unat c \<le> ?x \<and> ?x \<le> 2 ^ 24"
  proof (rule clamped_power [where N = 64])
    show "16 \<le> unat c" "unat c \<le> 2 ^ 24" using c u by simp_all
    then show "\<exists>n<64. ?x = 2 ^ n \<and> unat c \<le> 2 ^ n \<and> (n = 0 \<or> 2 ^ (n - 1) < unat c)"
      by (intro NextPowerOfTwo64_spec) simp_all
  qed
  then have "?x < 2 ^ (LENGTH(64) - 1)" by simp
  then have "dict_size64 w = int ?x"
    using sint_eq_unat [of "NextPowerOfTwo64 c"] by (simp add: dict_size64_def c_def Let_def)
  moreover have "sint c \<le> int ?x" using x u c(1) by linarith
  ultimately show ?thesis using x c(3) by (intro exI [of _ ?x]) (auto intro: order_trans)
qed

section \<open>Maps from keys to values\<close>

definition dict_abs :: "('p \<Rightarrow> 'k) \<Rightarrow> ('p \<Rightarrow> 'v) \<Rightarrow> 'p dict \<Rightarrow> 'k \<Rightarrow> 'v option" where
  "dict_abs ikey ival d k = map_option ival (dict_lookup ikey d k)"

text \<open>
  A dictionary whose items carry a value: \<open>mk\<close> builds the item of a new pair, \<open>setval\<close> overwrites
  the value of a stored one, \<open>same\<close> is the comparison the C code makes on a node. The length
  limit is a power of two, so that a table that is full below it can still double.
\<close>

locale keyed_dict = dict_laws K ikey iok kix lim
  for K :: "'p dkind" and ikey :: "'p \<Rightarrow> 'k" and iok kix lim +
  fixes ival :: "'p \<Rightarrow> 'v" and mk :: "'k \<Rightarrow> 'v \<Rightarrow> 'p" and setval :: "'v \<Rightarrow> 'p \<Rightarrow> 'p"
    and same :: "'k \<Rightarrow> 'p \<Rightarrow> bool"
  assumes mk_ok: "iok (mk k v)" and mk_key: "ikey (mk k v) = k" and mk_val: "ival (mk k v) = v"
    and setval_mk: "iok p \<Longrightarrow> setval v p = mk (ikey p) v"
    and same_key: "iok p \<Longrightarrow> same k p = (ikey p = k)"
    and lim_pow: "\<exists>e. lim = 2 ^ e" and lim_min: "2 ^ 24 \<le> lim"
begin

abbreviation abs :: "'p dict \<Rightarrow> 'k \<Rightarrow> 'v option" where
  "abs \<equiv> dict_abs ikey ival"

lemma abs_None: "abs d k = None \<longleftrightarrow> k \<notin> keys d"
  by (simp add: dict_abs_def lookup_None)

lemma abs_dom: "dom (abs d) = keys d"
  using abs_None by (auto simp: dom_def simp del: not_None_eq)

lemma full_length: "wf d \<Longrightarrow> \<not> 0 \<le> firstFree d \<Longrightarrow> count d = int (length (heap d))"
proof -
  assume w: "wf d" and "\<not> 0 \<le> firstFree d"
  then have "frees d = []" using wfD(1) [OF w] by (cases "frees d") (auto simp: shape_def)
  then show ?thesis using shape_size [OF wfD(1) [OF w]] wfD(1) [OF w] by (simp add: shape_def)
qed

lemma room_if_few:
  assumes w: "wf d" and c: "count d < int lim"
  shows "room d"
proof (cases "0 \<le> firstFree d")
  case False
  obtain m e where m: "length (heap d) = 2 ^ m" and e: "lim = 2 ^ e"
    using wfD(5) [OF w] lim_pow by (auto simp: is_dict_size_def)
  have "(2::nat) ^ m < 2 ^ e" using full_length [OF w False] c m e by simp
  then have "m < e" by (rule power_less_imp_less_exp [rotated]) simp
  then have "(2::nat) ^ Suc m \<le> 2 ^ e" by (intro power_increasing) auto
  with m e show ?thesis by (simp add: dict_room_def)
qed (simp add: dict_room_def)

lemma few_or_key: "wf d \<Longrightarrow> count d < int lim \<or> abs d k \<noteq> None \<Longrightarrow> room d \<or> k \<in> keys d"
  by (elim disjE) (simp_all add: room_if_few abs_None)

lemma count_le: "wf d \<Longrightarrow> count d \<le> int lim"
  using shape_size [OF wfD(1)] wfD(1,6) [of d] by (fastforce simp: shape_def)

lemma count_keys: "wf d \<Longrightarrow> count d = int (card (dom (abs d)))"
proof -
  assume w: "wf d"
  have "dom (abs d) = set (map ikey (entries d))" by (simp add: abs_dom)
  then show ?thesis using count_spec [OF w] distinct_card [OF wfD(3) [OF w]] by simp
qed

lemma abs_finite: "finite (dom (abs d))"
  by (simp add: abs_dom)

subsection \<open>Operations on the map\<close>

lemma clear_map:
  assumes "is_dict_size n" and "n \<le> 2 ^ 24"
  shows "\<exists>d. dict_clear K (int n) = Some d \<and> wf d \<and> abs d = Map.empty"
proof -
  obtain d where "dict_clear K (int n) = Some d" "wf d" "entries d = []"
    using clear_spec [OF assms(1)] assms(2) lim_min by (meson le_trans)
  then show ?thesis by (auto simp: dict_abs_def dict_lookup_def)
qed

lemma get_map: "wf d \<Longrightarrow> dict_find (same k) (kix k (mask d)) d = Some (dict_lookup ikey d k)"
  by (rule find_spec) (auto simp: same_key)

lemma contains_map: "wf d \<Longrightarrow> dict_contains (same k) (kix k (mask d)) d = Some (abs d k \<noteq> None)"
  using contains_spec [of d "same k" k] by (simp add: same_key abs_None)

lemma add_map:
  assumes w: "wf d" and r: "count d < int lim \<or> abs d k \<noteq> None"
  shows "\<exists>d'. dict_add K (same k) (kix k (mask d)) (mk k v) d = Some (d', abs d k = None) \<and> wf d' \<and>
     abs d' = (if abs d k = None then (abs d)(k \<mapsto> v) else abs d)"
proof -
  obtain d' where d': "dict_add K (same k) (kix k (mask d)) (mk k v) d = Some (d', k \<notin> keys d)" "wf d'"
    "mset (entries d') = (if k \<in> keys d then mset (entries d) else add_mset (mk k v) (mset (entries d)))"
    using add_spec [OF w, of "same k" "mk k v", unfolded mk_key, OF same_key mk_ok few_or_key [OF w r]]
    by blast
  show ?thesis
  proof (cases "k \<in> keys d")
    case True
    then have "dict_lookup ikey d' = dict_lookup ikey d"
      using mset_eq_setD [of "entries d'" "entries d"] d'(3)
      by (intro lookup_eqI [OF d'(2)]) (simp add: lookup_Some [OF w])
    then have "abs d' = abs d" by (simp add: dict_abs_def fun_eq_iff)
    then show ?thesis using d' True by (simp add: abs_None)
  next
    case False
    then have "dict_lookup ikey d' = (dict_lookup ikey d)(k \<mapsto> mk k v)"
      using lookup_add [OF w d'(2)] d'(3) by (simp add: mk_key)
    then have "abs d' = (abs d)(k \<mapsto> v)" by (simp add: dict_abs_def fun_eq_iff mk_val)
    then show ?thesis using d' False by (simp add: abs_None)
  qed
qed

lemma set_map:
  assumes w: "wf d" and r: "count d < int lim \<or> abs d k \<noteq> None"
  shows "\<exists>d'. dict_set K (same k) (kix k (mask d)) (setval v) (mk k v) d = Some (d', abs d k \<noteq> None) \<and>
     wf d' \<and> abs d' = (abs d)(k \<mapsto> v)"
proof -
  obtain d' where d': "dict_set K (same k) (kix k (mask d)) (setval v) (mk k v) d = Some (d', k \<in> keys d)"
    "wf d'" "dict_lookup ikey d' = (dict_lookup ikey d)(k \<mapsto> mk k v)"
    using set_spec [OF w, of "same k" "mk k v" "setval v", unfolded mk_key, OF same_key _ mk_ok few_or_key [OF w r]]
      setval_mk by blast
  then have "abs d' = (abs d)(k \<mapsto> v)" by (simp add: dict_abs_def fun_eq_iff mk_val)
  with d' show ?thesis by (simp add: abs_None)
qed

lemma replace_map:
  assumes w: "wf d"
  shows "\<exists>d'. dict_replace (same k) (kix k (mask d)) (setval v) d = Some (d', abs d k \<noteq> None) \<and>
     wf d' \<and> abs d' = (if abs d k = None then abs d else (abs d)(k \<mapsto> v))"
proof -
  have s: "iok (setval v q) \<and> ikey (setval v q) = ikey q" if "iok q" for q
    using setval_mk [OF that] mk_ok mk_key by simp
  obtain d' where d': "dict_replace (same k) (kix k (mask d)) (setval v) d = Some (d', k \<in> keys d)" "wf d'"
    "dict_lookup ikey d' = (case dict_lookup ikey d k of None \<Rightarrow> dict_lookup ikey d
                            | Some p \<Rightarrow> (dict_lookup ikey d)(k \<mapsto> setval v p))"
    using replace_spec [OF w, of "same k" k "setval v"] same_key s by blast
  show ?thesis
  proof (cases "dict_lookup ikey d k")
    case None
    then have "abs d' = abs d" using d'(3) by (simp add: dict_abs_def fun_eq_iff)
    moreover have "k \<notin> keys d" using None by (simp add: lookup_None)
    ultimately show ?thesis using d'(1,2) by (simp add: abs_None)
  next
    case (Some p)
    then have "p \<in> set (entries d)" "ikey p = k" using lookup_Some [OF w] by auto
    then have "ival (setval v p) = v" and k: "k \<in> keys d" using wfD(4) [OF w] setval_mk mk_val by auto
    then have "abs d' = (abs d)(k \<mapsto> v)" using d'(3) Some by (simp add: dict_abs_def fun_eq_iff)
    then show ?thesis using d'(1,2) k by (simp add: abs_None)
  qed
qed

lemma remove_map:
  assumes w: "wf d"
  shows "\<exists>d'. dict_remove K (same k) (kix k (mask d)) d = Some (d', abs d k \<noteq> None) \<and>
     wf d' \<and> abs d' = (abs d)(k := None)"
proof -
  obtain d' where d': "dict_remove K (same k) (kix k (mask d)) d = Some (d', k \<in> keys d)" "wf d'"
    "dict_lookup ikey d' = (dict_lookup ikey d)(k := None)"
    using remove_spec [OF w, of "same k" k] same_key by blast
  then have "abs d' = (abs d)(k := None)" by (simp add: dict_abs_def fun_eq_iff)
  with d' show ?thesis by (simp add: abs_None)
qed

lemma collect_map:
  assumes w: "wf d"
  shows "\<exists>ps. dict_collect (\<lambda>p. (ikey p, ival p)) d = Some ps \<and> distinct (map fst ps) \<and> map_of ps = abs d \<and>
     int (length ps) = count d"
proof -
  let ?ps = "map (\<lambda>p. (ikey p, ival p)) (entries d)"
  have "map_of (map (\<lambda>p. (ikey p, ival p)) ps) k = map_option ival (find (\<lambda>p. ikey p = k) ps)" for ps k
    by (induction ps) auto
  then have "map_of ?ps = abs d" by (simp add: dict_abs_def dict_lookup_def fun_eq_iff)
  moreover have "map fst ?ps = map ikey (entries d)" by simp
  then have "distinct (map fst ?ps)" using wfD(3) [OF w] by (simp only:)
  moreover have "int (length ?ps) = count d" using count_spec [OF w] by simp
  ultimately show ?thesis using collect_spec [OF w] by blast
qed

lemma clone_map:
  assumes w: "wf d" and "\<And>q. iok q \<Longrightarrow> f q = mk (ikey q) (g (ikey q) (ival q))"
  shows "\<exists>d'. dict_clone K f d = Some d' \<and> wf d' \<and> count d' = count d \<and>
     abs d' = (\<lambda>k. map_option (g k) (abs d k))"
proof -
  have f: "iok (f q) \<and> ikey (f q) = ikey q" if "iok q" for q using assms(2) [OF that] mk_ok mk_key by simp
  obtain d' where d': "dict_clone K f d = Some d'" "wf d'" "entries d' = map f (entries d)" "count d' = count d"
    using clone_spec [OF w, of f] f by blast
  have "dict_lookup ikey d' = (\<lambda>k. map_option f (dict_lookup ikey d k))"
    using d'(3) f wfD(4) [OF w]
    by (intro lookup_eqI [OF d'(2)]) (force simp: lookup_Some [OF w])
  moreover have "map_option ival (map_option f (dict_lookup ikey d k)) =
      map_option (g k) (map_option ival (dict_lookup ikey d k))" for k
  proof (cases "dict_lookup ikey d k")
    case (Some p)
    then have "p \<in> set (entries d)" "ikey p = k" using lookup_Some [OF w] by auto
    then have "ival (f p) = g k (ival p)" using assms(2) wfD(4) [OF w] mk_val by auto
    with Some show ?thesis by simp
  qed simp
  ultimately show ?thesis using d' by (auto simp: dict_abs_def fun_eq_iff)
qed

end

section \<open>The interface of a dictionary, and sequences of calls\<close>

datatype ('k, 'v) dict_op =
    AddOp 'k 'v | SetOp 'k 'v | ReplaceOp 'k 'v | RemoveOp 'k | ContainsOp 'k

text \<open>What each call does to a finite map, and the Boolean it answers.\<close>

fun map_step :: "('k, 'v) dict_op \<Rightarrow> ('k \<Rightarrow> 'v option) \<Rightarrow> ('k \<Rightarrow> 'v option) \<times> bool" where
  "map_step (AddOp k v) m = (if m k = None then (m(k \<mapsto> v), True) else (m, False))"
| "map_step (SetOp k v) m = (m(k \<mapsto> v), m k \<noteq> None)"
| "map_step (ReplaceOp k v) m = (if m k = None then (m, False) else (m(k \<mapsto> v), True))"
| "map_step (RemoveOp k) m = (m(k := None), m k \<noteq> None)"
| "map_step (ContainsOp k) m = (m, m k \<noteq> None)"

fun map_run :: "('k, 'v) dict_op list \<Rightarrow> ('k \<Rightarrow> 'v option) \<Rightarrow> ('k \<Rightarrow> 'v option) \<times> bool list" where
  "map_run [] m = (m, [])"
| "map_run (op # ops) m =
     (let (m', b) = map_step op m; (m'', bs) = map_run ops m' in (m'', b # bs))"

text \<open>The functions of a dictionary, in the order of its header file.\<close>

record ('d, 'k, 'v) dict_api =
  api_contains :: "'d \<Rightarrow> 'k \<Rightarrow> bool option"
  api_add :: "'d \<Rightarrow> 'k \<Rightarrow> 'v \<Rightarrow> ('d \<times> bool) option"
  api_replace :: "'d \<Rightarrow> 'k \<Rightarrow> 'v \<Rightarrow> ('d \<times> bool) option"
  api_set :: "'d \<Rightarrow> 'k \<Rightarrow> 'v \<Rightarrow> ('d \<times> bool) option"
  api_remove :: "'d \<Rightarrow> 'k \<Rightarrow> ('d \<times> bool) option"

fun api_step :: "('d, 'k, 'v) dict_api \<Rightarrow> ('k, 'v) dict_op \<Rightarrow> 'd \<Rightarrow> ('d \<times> bool) option" where
  "api_step A (AddOp k v) d = api_add A d k v"
| "api_step A (SetOp k v) d = api_set A d k v"
| "api_step A (ReplaceOp k v) d = api_replace A d k v"
| "api_step A (RemoveOp k) d = api_remove A d k"
| "api_step A (ContainsOp k) d = do { b \<leftarrow> api_contains A d k; Some (d, b) }"

fun api_run :: "('d, 'k, 'v) dict_api \<Rightarrow> ('k, 'v) dict_op list \<Rightarrow> 'd \<Rightarrow> ('d \<times> bool list) option" where
  "api_run A [] d = Some (d, [])"
| "api_run A (op # ops) d =
     do { (d', b) \<leftarrow> api_step A op d; (d'', bs) \<leftarrow> api_run A ops d'; Some (d'', b # bs) }"

text \<open>
  The contract: on a dictionary that satisfies its invariant every call returns, keeps the
  invariant and acts on the map of the dictionary as \<open>map_step\<close> says. Only a call that adds a
  key needs the table to hold fewer than \<open>lim\<close> pairs.
\<close>

locale map_impl =
  fixes A :: "('d, 'k, 'v) dict_api" and inv :: "'d \<Rightarrow> bool" and amap :: "'d \<Rightarrow> 'k \<Rightarrow> 'v option"
    and lim :: nat
  assumes amap_finite: "inv d \<Longrightarrow> finite (dom (amap d))"
    and contains_ok: "inv d \<Longrightarrow> api_contains A d k = Some (amap d k \<noteq> None)"
    and add_ok: "inv d \<Longrightarrow> card (dom (amap d)) < lim \<Longrightarrow>
      \<exists>d'. api_add A d k v = Some (d', snd (map_step (AddOp k v) (amap d))) \<and> inv d' \<and>
        amap d' = fst (map_step (AddOp k v) (amap d))"
    and set_ok: "inv d \<Longrightarrow> card (dom (amap d)) < lim \<Longrightarrow>
      \<exists>d'. api_set A d k v = Some (d', snd (map_step (SetOp k v) (amap d))) \<and> inv d' \<and>
        amap d' = fst (map_step (SetOp k v) (amap d))"
    and replace_ok: "inv d \<Longrightarrow>
      \<exists>d'. api_replace A d k v = Some (d', snd (map_step (ReplaceOp k v) (amap d))) \<and> inv d' \<and>
        amap d' = fst (map_step (ReplaceOp k v) (amap d))"
    and remove_ok: "inv d \<Longrightarrow>
      \<exists>d'. api_remove A d k = Some (d', snd (map_step (RemoveOp k) (amap d))) \<and> inv d' \<and>
        amap d' = fst (map_step (RemoveOp k) (amap d))"
begin

lemma step_ok:
  assumes "inv d" and "card (dom (amap d)) < lim"
  shows "\<exists>d'. api_step A op d = Some (d', snd (map_step op (amap d))) \<and> inv d' \<and>
     amap d' = fst (map_step op (amap d))"
  using assms by (cases op) (auto simp: contains_ok add_ok set_ok replace_ok remove_ok
      simp del: map_step.simps(1-4))

lemma step_card: "finite (dom m) \<Longrightarrow> card (dom (fst (map_step op m))) \<le> Suc (card (dom m))"
  by (cases op) (auto simp: card_insert_if dom_fun_upd card_Diff1_le intro: le_SucI order_trans [OF card_Diff1_le])

theorem run_ok:
  assumes "inv d" and "card (dom (amap d)) + length ops \<le> lim"
  shows "\<exists>d'. api_run A ops d = Some (d', snd (map_run ops (amap d))) \<and> inv d' \<and>
     amap d' = fst (map_run ops (amap d))"
  using assms
proof (induction ops arbitrary: d)
  case (Cons op ops)
  then obtain d1 where d1: "api_step A op d = Some (d1, snd (map_step op (amap d)))" "inv d1"
    "amap d1 = fst (map_step op (amap d))" using step_ok [of d op] by auto
  have "card (dom (amap d1)) + length ops \<le> lim"
    using step_card [OF amap_finite [OF Cons.prems(1)], of op] Cons.prems(2) d1(3) by simp
  from Cons.IH [OF d1(2) this] show ?case
    using d1(1,3) by (auto simp: split_beta Let_def)
qed simp

end

text \<open>Every keyed hash table provides the interface.\<close>

definition hash_api ::
  "'p dkind \<Rightarrow> ('k \<Rightarrow> int \<Rightarrow> int) \<Rightarrow> ('k \<Rightarrow> 'v \<Rightarrow> 'p) \<Rightarrow> ('v \<Rightarrow> 'p \<Rightarrow> 'p) \<Rightarrow> ('k \<Rightarrow> 'p \<Rightarrow> bool) \<Rightarrow>
   ('p dict, 'k, 'v) dict_api" where
  "hash_api K kix mk setval same =
     \<lparr>api_contains = \<lambda>d k. dict_contains (same k) (kix k (mask d)) d,
      api_add = \<lambda>d k v. dict_add K (same k) (kix k (mask d)) (mk k v) d,
      api_replace = \<lambda>d k v. dict_replace (same k) (kix k (mask d)) (setval v) d,
      api_set = \<lambda>d k v. dict_set K (same k) (kix k (mask d)) (setval v) (mk k v) d,
      api_remove = \<lambda>d k. dict_remove K (same k) (kix k (mask d)) d\<rparr>"

sublocale keyed_dict \<subseteq> api: map_impl "hash_api K kix mk setval same" wf abs lim
proof
  fix d :: "'p dict" and k v
  assume w: "wf d"
  show "finite (dom (abs d))" by (rule abs_finite)
  show "api_contains (hash_api K kix mk setval same) d k = Some (abs d k \<noteq> None)"
    by (simp add: hash_api_def contains_map [OF w])
  show "\<exists>d'. api_replace (hash_api K kix mk setval same) d k v =
      Some (d', snd (map_step (ReplaceOp k v) (abs d))) \<and> wf d' \<and> abs d' = fst (map_step (ReplaceOp k v) (abs d))"
    using replace_map [OF w, of k v] by (auto simp: hash_api_def)
  show "\<exists>d'. api_remove (hash_api K kix mk setval same) d k =
      Some (d', snd (map_step (RemoveOp k) (abs d))) \<and> wf d' \<and> abs d' = fst (map_step (RemoveOp k) (abs d))"
    using remove_map [OF w, of k] by (auto simp: hash_api_def)
  assume "card (dom (abs d)) < lim"
  then have c: "count d < int lim \<or> abs d k \<noteq> None" using count_keys [OF w] by simp
  show "\<exists>d'. api_add (hash_api K kix mk setval same) d k v =
      Some (d', snd (map_step (AddOp k v) (abs d))) \<and> wf d' \<and> abs d' = fst (map_step (AddOp k v) (abs d))"
    using add_map [OF w c, of v] by (auto simp: hash_api_def)
  show "\<exists>d'. api_set (hash_api K kix mk setval same) d k v =
      Some (d', snd (map_step (SetOp k v) (abs d))) \<and> wf d' \<and> abs d' = fst (map_step (SetOp k v) (abs d))"
    using set_map [OF w c, of v] by (auto simp: hash_api_def)
qed

end
