(* ===== verification/Int32Dicts.thy ===== *)
theory Int32Dicts
  imports DictSpec
begin

text \<open>
  The dictionaries keyed by 32-bit integers: \<^verbatim>\<open>Int32Dict\<close> (\<^verbatim>\<open>smilelib/src/dict/int32dict.c\<close>), whose
  values are pointers, and \<^verbatim>\<open>Int32Int32Dict\<close> (\<^verbatim>\<open>smilelib/src/dict/int32int32dict.c\<close>). Every function
  of their source and header files is a definition; the locale \<open>keyed_dict\<close> is interpreted on each.

  Pointers are 64-bit words, \<^verbatim>\<open>NULL\<close> is 0. Allocation is assumed to succeed; the explicit size
  check before the allocations of \<^verbatim>\<open>Resize\<close> is part of the model.
\<close>

section \<open>Shared pieces\<close>

type_synonym ptr = "64 word"

text \<open>\<^verbatim>\<open>key & mask\<close> on two \<^verbatim>\<open>Int32\<close>s.\<close>

definition int32_ix :: "int32 \<Rightarrow> int \<Rightarrow> int" where
  "int32_ix key m = sint key AND m"

lemma int32_ix_bounds: "0 \<le> m \<Longrightarrow> 0 \<le> int32_ix k m \<and> int32_ix k m \<le> m"
  by (simp add: int32_ix_def and_mask_bounds)

text \<open>The struct as the collector hands it out, before \<^verbatim>\<open>ClearWithSize\<close> fills it.\<close>

definition raw_dict :: "'p dict" where
  "raw_dict = \<lparr>buckets = [], heap = [], mask = 0, firstFree = 0, count = 0\<rparr>"

section \<open>Int32Dict\<close>

record Int32DictPair =
  Int32Dict_key :: int32
  Int32Dict_value :: ptr

type_synonym Int32Dict = "Int32DictPair dict"

definition Int32Dict_kind :: "Int32DictPair dkind" where
  "Int32Dict_kind =
     \<lparr>idx_width = 32, node_size = 16,
      bucket_ix = \<lambda>p m. int32_ix (Int32Dict_key p) m,
      append_ix = \<lambda>p m. int32_ix (Int32Dict_key p) m,
      old_item = \<lambda>p. p\<lparr>Int32Dict_value := 0\<rparr>,
      zero_item = \<lparr>Int32Dict_key = 0, Int32Dict_value = 0\<rparr>,
      free_item = \<lparr>Int32Dict_key = 0, Int32Dict_value = 0\<rparr>\<rparr>"

definition Int32Dict_same :: "int32 \<Rightarrow> Int32DictPair \<Rightarrow> bool" where
  "Int32Dict_same key p \<longleftrightarrow> Int32Dict_key p = key"

definition Int32Dict_pair :: "int32 \<Rightarrow> ptr \<Rightarrow> Int32DictPair" where
  "Int32Dict_pair key value = \<lparr>Int32Dict_key = key, Int32Dict_value = value\<rparr>"

definition Int32DictInt_Resize :: "Int32Dict \<Rightarrow> int \<Rightarrow> Int32Dict option" where
  "Int32DictInt_Resize self newLen = dict_resize Int32Dict_kind self newLen"

definition Int32DictInt_Append :: "Int32Dict \<Rightarrow> int32 \<Rightarrow> ptr \<Rightarrow> (Int32Dict \<times> int) option" where
  "Int32DictInt_Append self key value = dict_append Int32Dict_kind self (Int32Dict_pair key value)"

text \<open>The cloner is optional; a \<^verbatim>\<open>NULL\<close> one copies the values as they are.\<close>

definition Int32Dict_Clone :: "Int32Dict \<Rightarrow> (int32 \<Rightarrow> ptr \<Rightarrow> ptr) option \<Rightarrow> Int32Dict option" where
  "Int32Dict_Clone intDict valueCloner =
     dict_clone Int32Dict_kind
       (case valueCloner of
          Some c \<Rightarrow> (\<lambda>p. Int32Dict_pair (Int32Dict_key p) (c (Int32Dict_key p) (Int32Dict_value p)))
        | None \<Rightarrow> (\<lambda>p. Int32Dict_pair (Int32Dict_key p) (Int32Dict_value p))) intDict"

definition Int32Dict_GetFirst :: "Int32Dict \<Rightarrow> (int32 \<times> ptr) option" where
  "Int32Dict_GetFirst intDict =
     do { r \<leftarrow> dict_first intDict;
          Some (case r of Some p \<Rightarrow> (Int32Dict_key p, Int32Dict_value p) | None \<Rightarrow> (0, 0)) }"

definition Int32Dict_GetAll :: "Int32Dict \<Rightarrow> (int32 \<times> ptr) list option" where
  "Int32Dict_GetAll intDict = dict_collect (\<lambda>p. (Int32Dict_key p, Int32Dict_value p)) intDict"

definition Int32Dict_GetKeys :: "Int32Dict \<Rightarrow> int32 list option" where
  "Int32Dict_GetKeys intDict = dict_collect Int32Dict_key intDict"

definition Int32Dict_GetValues :: "Int32Dict \<Rightarrow> ptr list option" where
  "Int32Dict_GetValues intDict = dict_collect Int32Dict_value intDict"

definition Int32Dict_ClearWithSize :: "Int32Dict \<Rightarrow> int32 \<Rightarrow> Int32Dict option" where
  "Int32Dict_ClearWithSize intDict newSize = dict_clear Int32Dict_kind (dict_size32 newSize)"

definition Int32Dict_Remove :: "Int32Dict \<Rightarrow> int32 \<Rightarrow> (Int32Dict \<times> bool) option" where
  "Int32Dict_Remove intDict key =
     dict_remove Int32Dict_kind (Int32Dict_same key) (int32_ix key (mask intDict)) intDict"

definition Int32Dict_CreateWithSize :: "int32 \<Rightarrow> Int32Dict option" where
  "Int32Dict_CreateWithSize newSize = Int32Dict_ClearWithSize raw_dict newSize"

definition Int32Dict_Create :: "Int32Dict option" where
  "Int32Dict_Create = Int32Dict_CreateWithSize 16"

definition Int32Dict_Clear :: "Int32Dict \<Rightarrow> Int32Dict option" where
  "Int32Dict_Clear intDict = Int32Dict_ClearWithSize intDict 16"

definition Int32Dict_ContainsKey :: "Int32Dict \<Rightarrow> int32 \<Rightarrow> bool option" where
  "Int32Dict_ContainsKey intDict key =
     dict_contains (Int32Dict_same key) (int32_ix key (mask intDict)) intDict"

definition Int32Dict_Add :: "Int32Dict \<Rightarrow> int32 \<Rightarrow> ptr \<Rightarrow> (Int32Dict \<times> bool) option" where
  "Int32Dict_Add intDict key value =
     dict_add Int32Dict_kind (Int32Dict_same key) (int32_ix key (mask intDict))
       (Int32Dict_pair key value) intDict"

definition Int32Dict_Count :: "Int32Dict \<Rightarrow> int" where
  "Int32Dict_Count intDict = count intDict"

definition Int32Dict_GetValue :: "Int32Dict \<Rightarrow> int32 \<Rightarrow> ptr option" where
  "Int32Dict_GetValue intDict key =
     do { r \<leftarrow> dict_find (Int32Dict_same key) (int32_ix key (mask intDict)) intDict;
          Some (case r of Some p \<Rightarrow> Int32Dict_value p | None \<Rightarrow> 0) }"

definition Int32Dict_ReplaceValue :: "Int32Dict \<Rightarrow> int32 \<Rightarrow> ptr \<Rightarrow> (Int32Dict \<times> bool) option" where
  "Int32Dict_ReplaceValue intDict key value =
     dict_replace (Int32Dict_same key) (int32_ix key (mask intDict))
       (\<lambda>p. p\<lparr>Int32Dict_value := value\<rparr>) intDict"

definition Int32Dict_SetValue :: "Int32Dict \<Rightarrow> int32 \<Rightarrow> ptr \<Rightarrow> (Int32Dict \<times> bool) option" where
  "Int32Dict_SetValue intDict key value =
     dict_set Int32Dict_kind (Int32Dict_same key) (int32_ix key (mask intDict))
       (\<lambda>p. p\<lparr>Int32Dict_value := value\<rparr>) (Int32Dict_pair key value) intDict"

definition Int32Dict_TryGetValue :: "Int32Dict \<Rightarrow> int32 \<Rightarrow> (bool \<times> ptr) option" where
  "Int32Dict_TryGetValue intDict key =
     do { r \<leftarrow> dict_find (Int32Dict_same key) (int32_ix key (mask intDict)) intDict;
          Some (case r of Some p \<Rightarrow> (True, Int32Dict_value p) | None \<Rightarrow> (False, 0)) }"

section \<open>Int32Int32Dict\<close>

record Int32Int32DictPair =
  Int32Int32Dict_key :: int32
  Int32Int32Dict_value :: int32

type_synonym Int32Int32Dict = "Int32Int32DictPair dict"

definition Int32Int32Dict_kind :: "Int32Int32DictPair dkind" where
  "Int32Int32Dict_kind =
     \<lparr>idx_width = 32, node_size = 12,
      bucket_ix = \<lambda>p m. int32_ix (Int32Int32Dict_key p) m,
      append_ix = \<lambda>p m. int32_ix (Int32Int32Dict_key p) m,
      old_item = \<lambda>p. p\<lparr>Int32Int32Dict_value := 0\<rparr>,
      zero_item = \<lparr>Int32Int32Dict_key = 0, Int32Int32Dict_value = 0\<rparr>,
      free_item = \<lparr>Int32Int32Dict_key = 0, Int32Int32Dict_value = 0\<rparr>\<rparr>"

definition Int32Int32Dict_same :: "int32 \<Rightarrow> Int32Int32DictPair \<Rightarrow> bool" where
  "Int32Int32Dict_same key p \<longleftrightarrow> Int32Int32Dict_key p = key"

definition Int32Int32Dict_pair :: "int32 \<Rightarrow> int32 \<Rightarrow> Int32Int32DictPair" where
  "Int32Int32Dict_pair key value = \<lparr>Int32Int32Dict_key = key, Int32Int32Dict_value = value\<rparr>"

definition Int32Int32DictInt_Resize :: "Int32Int32Dict \<Rightarrow> int \<Rightarrow> Int32Int32Dict option" where
  "Int32Int32DictInt_Resize self newLen = dict_resize Int32Int32Dict_kind self newLen"

definition Int32Int32DictInt_Append ::
  "Int32Int32Dict \<Rightarrow> int32 \<Rightarrow> int32 \<Rightarrow> (Int32Int32Dict \<times> int) option" where
  "Int32Int32DictInt_Append self key value =
     dict_append Int32Int32Dict_kind self (Int32Int32Dict_pair key value)"

definition Int32Int32Dict_GetAll :: "Int32Int32Dict \<Rightarrow> (int32 \<times> int32) list option" where
  "Int32Int32Dict_GetAll intDict =
     dict_collect (\<lambda>p. (Int32Int32Dict_key p, Int32Int32Dict_value p)) intDict"

definition Int32Int32Dict_GetKeys :: "Int32Int32Dict \<Rightarrow> int32 list option" where
  "Int32Int32Dict_GetKeys intDict = dict_collect Int32Int32Dict_key intDict"

definition Int32Int32Dict_GetValues :: "Int32Int32Dict \<Rightarrow> int32 list option" where
  "Int32Int32Dict_GetValues intDict = dict_collect Int32Int32Dict_value intDict"

definition Int32Int32Dict_ClearWithSize :: "Int32Int32Dict \<Rightarrow> int32 \<Rightarrow> Int32Int32Dict option" where
  "Int32Int32Dict_ClearWithSize intDict newSize = dict_clear Int32Int32Dict_kind (dict_size32 newSize)"

definition Int32Int32Dict_Remove :: "Int32Int32Dict \<Rightarrow> int32 \<Rightarrow> (Int32Int32Dict \<times> bool) option" where
  "Int32Int32Dict_Remove intDict key =
     dict_remove Int32Int32Dict_kind (Int32Int32Dict_same key) (int32_ix key (mask intDict)) intDict"

definition Int32Int32Dict_CreateWithSize :: "int32 \<Rightarrow> Int32Int32Dict option" where
  "Int32Int32Dict_CreateWithSize newSize = Int32Int32Dict_ClearWithSize raw_dict newSize"

definition Int32Int32Dict_Create :: "Int32Int32Dict option" where
  "Int32Int32Dict_Create = Int32Int32Dict_CreateWithSize 16"

definition Int32Int32Dict_Clear :: "Int32Int32Dict \<Rightarrow> Int32Int32Dict option" where
  "Int32Int32Dict_Clear intDict = Int32Int32Dict_ClearWithSize intDict 16"

definition Int32Int32Dict_ContainsKey :: "Int32Int32Dict \<Rightarrow> int32 \<Rightarrow> bool option" where
  "Int32Int32Dict_ContainsKey intDict key =
     dict_contains (Int32Int32Dict_same key) (int32_ix key (mask intDict)) intDict"

definition Int32Int32Dict_Add :: "Int32Int32Dict \<Rightarrow> int32 \<Rightarrow> int32 \<Rightarrow> (Int32Int32Dict \<times> bool) option" where
  "Int32Int32Dict_Add intDict key value =
     dict_add Int32Int32Dict_kind (Int32Int32Dict_same key) (int32_ix key (mask intDict))
       (Int32Int32Dict_pair key value) intDict"

definition Int32Int32Dict_Count :: "Int32Int32Dict \<Rightarrow> int" where
  "Int32Int32Dict_Count intDict = count intDict"

definition Int32Int32Dict_GetValue :: "Int32Int32Dict \<Rightarrow> int32 \<Rightarrow> int32 option" where
  "Int32Int32Dict_GetValue intDict key =
     do { r \<leftarrow> dict_find (Int32Int32Dict_same key) (int32_ix key (mask intDict)) intDict;
          Some (case r of Some p \<Rightarrow> Int32Int32Dict_value p | None \<Rightarrow> 0) }"

definition Int32Int32Dict_ReplaceValue ::
  "Int32Int32Dict \<Rightarrow> int32 \<Rightarrow> int32 \<Rightarrow> (Int32Int32Dict \<times> bool) option" where
  "Int32Int32Dict_ReplaceValue intDict key value =
     dict_replace (Int32Int32Dict_same key) (int32_ix key (mask intDict))
       (\<lambda>p. p\<lparr>Int32Int32Dict_value := value\<rparr>) intDict"

definition Int32Int32Dict_SetValue ::
  "Int32Int32Dict \<Rightarrow> int32 \<Rightarrow> int32 \<Rightarrow> (Int32Int32Dict \<times> bool) option" where
  "Int32Int32Dict_SetValue intDict key value =
     dict_set Int32Int32Dict_kind (Int32Int32Dict_same key) (int32_ix key (mask intDict))
       (\<lambda>p. p\<lparr>Int32Int32Dict_value := value\<rparr>) (Int32Int32Dict_pair key value) intDict"

definition Int32Int32Dict_TryGetValue :: "Int32Int32Dict \<Rightarrow> int32 \<Rightarrow> (bool \<times> int32) option" where
  "Int32Int32Dict_TryGetValue intDict key =
     do { r \<leftarrow> dict_find (Int32Int32Dict_same key) (int32_ix key (mask intDict)) intDict;
          Some (case r of Some p \<Rightarrow> (True, Int32Int32Dict_value p) | None \<Rightarrow> (False, 0)) }"

text \<open>
  \<^verbatim>\<open>TryAddValue\<close> answers the stored value in \<open>result\<close>; on an existing key it overwrites the value
  and returns \<^verbatim>\<open>False\<close>.
\<close>

definition Int32Int32Dict_TryAddValue ::
  "Int32Int32Dict \<Rightarrow> int32 \<Rightarrow> int32 \<Rightarrow> (Int32Int32Dict \<times> bool \<times> int32) option" where
  "Int32Int32Dict_TryAddValue intDict key value =
     do { r \<leftarrow> dict_search (Int32Int32Dict_same key) (int32_ix key (mask intDict)) intDict;
          case r of
            Some i \<Rightarrow> do { self \<leftarrow> dict_update_node (\<lambda>p. p\<lparr>Int32Int32Dict_value := value\<rparr>) i intDict;
                           Some (self, False, value) }
          | None \<Rightarrow> do { (self, _) \<leftarrow> Int32Int32DictInt_Append intDict key value;
                         Some (self, True, value) } }"

section \<open>The laws\<close>

interpretation i32: keyed_dict Int32Dict_kind Int32Dict_key "\<lambda>_. True" int32_ix "2 ^ 30"
  Int32Dict_value Int32Dict_pair "\<lambda>v p. p\<lparr>Int32Dict_value := v\<rparr>" Int32Dict_same
  by unfold_locales
    (auto simp: Int32Dict_kind_def int32_ix_bounds Int32Dict_pair_def Int32Dict_same_def
      intro: exI [of _ 30])

interpretation i32i: keyed_dict Int32Int32Dict_kind Int32Int32Dict_key "\<lambda>_. True" int32_ix "2 ^ 30"
  Int32Int32Dict_value Int32Int32Dict_pair "\<lambda>v p. p\<lparr>Int32Int32Dict_value := v\<rparr>" Int32Int32Dict_same
  by unfold_locales
    (auto simp: Int32Int32Dict_kind_def int32_ix_bounds Int32Int32Dict_pair_def Int32Int32Dict_same_def
      intro: exI [of _ 30])

abbreviation Int32Dict_ok :: "Int32Dict \<Rightarrow> bool" where
  "Int32Dict_ok \<equiv> dict_wf Int32Dict_kind Int32Dict_key (\<lambda>_. True) (2 ^ 30)"

abbreviation Int32Dict_map :: "Int32Dict \<Rightarrow> int32 \<Rightarrow> ptr option" where
  "Int32Dict_map \<equiv> dict_abs Int32Dict_key Int32Dict_value"

abbreviation Int32Int32Dict_ok :: "Int32Int32Dict \<Rightarrow> bool" where
  "Int32Int32Dict_ok \<equiv> dict_wf Int32Int32Dict_kind Int32Int32Dict_key (\<lambda>_. True) (2 ^ 30)"

abbreviation Int32Int32Dict_map :: "Int32Int32Dict \<Rightarrow> int32 \<Rightarrow> int32 option" where
  "Int32Int32Dict_map \<equiv> dict_abs Int32Int32Dict_key Int32Int32Dict_value"

section \<open>Int32Dict: correctness\<close>

definition Int32Dict_api :: "(Int32Dict, int32, ptr) dict_api" where
  "Int32Dict_api =
     \<lparr>api_contains = Int32Dict_ContainsKey, api_add = Int32Dict_Add, api_replace = Int32Dict_ReplaceValue,
      api_set = Int32Dict_SetValue, api_remove = Int32Dict_Remove\<rparr>"

lemma Int32Dict_api_hash: "Int32Dict_api = hash_api Int32Dict_kind int32_ix Int32Dict_pair
    (\<lambda>v p. p\<lparr>Int32Dict_value := v\<rparr>) Int32Dict_same"
  by (simp add: Int32Dict_api_def hash_api_def Int32Dict_ContainsKey_def Int32Dict_Add_def
      Int32Dict_ReplaceValue_def Int32Dict_SetValue_def Int32Dict_Remove_def fun_eq_iff)

interpretation Int32Dict: map_impl Int32Dict_api Int32Dict_ok Int32Dict_map "2 ^ 30"
  unfolding Int32Dict_api_hash by (rule i32.api.map_impl_axioms)

lemma Int32Dict_CreateWithSize_ok:
  "\<exists>d. Int32Dict_CreateWithSize n = Some d \<and> Int32Dict_ok d \<and> Int32Dict_map d = Map.empty"
proof -
  obtain m where "dict_size32 n = int m" "is_dict_size m" "m \<le> 2 ^ 24" using dict_size32_spec by blast
  then show ?thesis
    using i32.clear_map by (auto simp: Int32Dict_CreateWithSize_def Int32Dict_ClearWithSize_def)
qed



text \<open>
  C29: The read-only functions of a well-formed Int32Dict agree with the map it stores: TryGetValue
  and GetValue return its value or NULL, Count the number of its keys, GetAll, GetKeys and
  GetValues fill exactly Count slots with its pairs, each key once and in corresponding order,
  and GetFirst returns the first of them.
\<close>

theorem Int32Dict_reads:
  assumes "Int32Dict_ok d"
  shows "Int32Dict_TryGetValue d k =
       Some (case Int32Dict_map d k of Some v \<Rightarrow> (True, v) | None \<Rightarrow> (False, 0)) \<and>
     Int32Dict_GetValue d k = Some (case Int32Dict_map d k of Some v \<Rightarrow> v | None \<Rightarrow> 0) \<and>
     Int32Dict_Count d = int (card (dom (Int32Dict_map d))) \<and>
     (\<exists>ps. Int32Dict_GetAll d = Some ps \<and> Int32Dict_GetKeys d = Some (map fst ps) \<and>
        Int32Dict_GetValues d = Some (map snd ps) \<and> int (length ps) = Int32Dict_Count d \<and>
        distinct (map fst ps) \<and> map_of ps = Int32Dict_map d \<and>
        Int32Dict_GetFirst d = Some (case ps of [] \<Rightarrow> (0, 0) | p # _ \<Rightarrow> p))"
proof -
  have find: "dict_find (Int32Dict_same k) (int32_ix k (mask d)) d = Some (dict_lookup Int32Dict_key d k)"
    by (rule i32.get_map [OF assms])
  obtain ps where ps: "Int32Dict_GetAll d = Some ps" "distinct (map fst ps)" "map_of ps = Int32Dict_map d"
    "int (length ps) = count d"
    using i32.collect_map [OF assms] by (auto simp: Int32Dict_GetAll_def)
  then have e: "ps = map (\<lambda>p. (Int32Dict_key p, Int32Dict_value p)) (entries d)"
    by (simp add: Int32Dict_GetAll_def i32.collect_spec [OF assms])
  have "Int32Dict_GetFirst d = Some (case ps of [] \<Rightarrow> (0, 0) | p # _ \<Rightarrow> p)"
    by (simp add: Int32Dict_GetFirst_def i32.first_spec [OF assms] e split: list.split)
  moreover have "Int32Dict_GetKeys d = Some (map fst ps)" "Int32Dict_GetValues d = Some (map snd ps)"
    by (simp_all add: Int32Dict_GetKeys_def Int32Dict_GetValues_def i32.collect_spec [OF assms] e comp_def)
  moreover have
    "Int32Dict_TryGetValue d k = Some (case Int32Dict_map d k of Some v \<Rightarrow> (True, v) | None \<Rightarrow> (False, 0))"
    "Int32Dict_GetValue d k = Some (case Int32Dict_map d k of Some v \<Rightarrow> v | None \<Rightarrow> 0)"
    using find by (auto simp: Int32Dict_TryGetValue_def Int32Dict_GetValue_def dict_abs_def split: option.split)
  ultimately show ?thesis using ps i32.count_keys [OF assms] by (simp add: Int32Dict_Count_def)
qed

theorem Int32Dict_reads_witness:
  "\<exists>d. Int32Dict_Create = Some d \<and> Int32Dict_TryGetValue d 3 = Some (False, 0) \<and>
     Int32Dict_GetAll d = Some [] \<and> Int32Dict_GetFirst d = Some (0, 0)"
proof -
  obtain d where d: "Int32Dict_Create = Some d" "Int32Dict_ok d" "Int32Dict_map d = Map.empty"
    using Int32Dict_CreateWithSize_ok [of 16] by (auto simp: Int32Dict_Create_def)
  then show ?thesis using Int32Dict_reads [OF d(2), of 3] by auto
qed

text \<open>
  C30: Cloning a well-formed Int32Dict yields a well-formed dictionary with the same keys and the
  same count, whose values are those of the original, passed through the cloner if there is one.
\<close>

theorem Int32Dict_Clone_correct:
  assumes "Int32Dict_ok d"
  shows "\<exists>d'. Int32Dict_Clone d c = Some d' \<and> Int32Dict_ok d' \<and> count d' = count d \<and>
     Int32Dict_map d' = (\<lambda>k. map_option (case c of None \<Rightarrow> (\<lambda>v. v) | Some f \<Rightarrow> f k) (Int32Dict_map d k))"
proof (cases c)
  case None
  then show ?thesis
    using i32.clone_map [OF assms, of "\<lambda>p. Int32Dict_pair (Int32Dict_key p) (Int32Dict_value p)" "\<lambda>_ v. v"]
    by (simp add: Int32Dict_Clone_def)
next
  case (Some f)
  then show ?thesis
    using i32.clone_map [OF assms, of "\<lambda>p. Int32Dict_pair (Int32Dict_key p) (f (Int32Dict_key p) (Int32Dict_value p))" f]
    by (simp add: Int32Dict_Clone_def)
qed

theorem Int32Dict_Clone_correct_witness:
  "\<exists>d d1 d2. Int32Dict_Create = Some d \<and> Int32Dict_Add d 5 40 = Some (d1, True) \<and>
     Int32Dict_Clone d1 (Some (\<lambda>k v. v + 2)) = Some d2 \<and> Int32Dict_map d2 = [5 \<mapsto> 42]"
proof -
  obtain d where d: "Int32Dict_Create = Some d" "Int32Dict_ok d" "Int32Dict_map d = Map.empty"
    using Int32Dict_CreateWithSize_ok [of 16] by (auto simp: Int32Dict_Create_def)
  obtain d1 where d1: "Int32Dict_Add d 5 40 = Some (d1, True)" "Int32Dict_ok d1" "Int32Dict_map d1 = [5 \<mapsto> 40]"
    using i32.add_map [OF d(2), of 5 40] i32.count_keys [OF d(2)] d(3) by (auto simp: Int32Dict_Add_def)
  have "(\<lambda>k. map_option (\<lambda>v. v + 2) (if k = 5 then Some 40 else None)) = [5 \<mapsto> (42::ptr)]" by auto
  then show ?thesis
    using Int32Dict_Clone_correct [OF d1(2), of "Some (\<lambda>k v. v + 2)"] d(1) d1(1,3) by (auto simp: fun_upd_def)
qed

section \<open>Int32Int32Dict: correctness\<close>

definition Int32Int32Dict_api :: "(Int32Int32Dict, int32, int32) dict_api" where
  "Int32Int32Dict_api =
     \<lparr>api_contains = Int32Int32Dict_ContainsKey, api_add = Int32Int32Dict_Add,
      api_replace = Int32Int32Dict_ReplaceValue, api_set = Int32Int32Dict_SetValue,
      api_remove = Int32Int32Dict_Remove\<rparr>"

lemma Int32Int32Dict_api_hash: "Int32Int32Dict_api = hash_api Int32Int32Dict_kind int32_ix Int32Int32Dict_pair
    (\<lambda>v p. p\<lparr>Int32Int32Dict_value := v\<rparr>) Int32Int32Dict_same"
  by (simp add: Int32Int32Dict_api_def hash_api_def Int32Int32Dict_ContainsKey_def Int32Int32Dict_Add_def
      Int32Int32Dict_ReplaceValue_def Int32Int32Dict_SetValue_def Int32Int32Dict_Remove_def fun_eq_iff)

interpretation Int32Int32Dict: map_impl Int32Int32Dict_api Int32Int32Dict_ok Int32Int32Dict_map "2 ^ 30"
  unfolding Int32Int32Dict_api_hash by (rule i32i.api.map_impl_axioms)

lemma Int32Int32Dict_CreateWithSize_ok:
  "\<exists>d. Int32Int32Dict_CreateWithSize n = Some d \<and> Int32Int32Dict_ok d \<and> Int32Int32Dict_map d = Map.empty"
proof -
  obtain m where "dict_size32 n = int m" "is_dict_size m" "m \<le> 2 ^ 24" using dict_size32_spec by blast
  then show ?thesis
    using i32i.clear_map by (auto simp: Int32Int32Dict_CreateWithSize_def Int32Int32Dict_ClearWithSize_def)
qed



text \<open>
  TryAddValue overwrites the value of a key that exists already: it returns False and the new
  value as the result, and the dictionary afterwards maps the key to the new value. (Its
  documentation says that an existing value is left unchanged.)
\<close>

lemma Int32Int32Dict_TryAddValue_overwrites:
  assumes "Int32Int32Dict_ok d" and "count d < 2 ^ 30 \<or> Int32Int32Dict_map d k \<noteq> None"
  shows "\<exists>d'. Int32Int32Dict_TryAddValue d k v = Some (d', Int32Int32Dict_map d k = None, v) \<and>
     Int32Int32Dict_ok d' \<and> Int32Int32Dict_map d' = (Int32Int32Dict_map d)(k \<mapsto> v)"
proof -
  let ?set = "dict_set Int32Int32Dict_kind (Int32Int32Dict_same k) (int32_ix k (mask d))
    (\<lambda>p. p\<lparr>Int32Int32Dict_value := v\<rparr>) (Int32Int32Dict_pair k v) d"
  have "Int32Int32Dict_TryAddValue d k v = do { (d', b) \<leftarrow> ?set; Some (d', \<not> b, v) }"
    by (cases "dict_search (Int32Int32Dict_same k) (int32_ix k (mask d)) d")
      (auto simp: Int32Int32Dict_TryAddValue_def dict_set_def Int32Int32DictInt_Append_def
        split: option.split Option.bind_split)
  then show ?thesis using i32i.set_map [of d k v] assms by auto
qed

lemma Int32Int32Dict_TryAddValue_overwrites_witness:
  "\<exists>d d1 d2. Int32Int32Dict_Create = Some d \<and> Int32Int32Dict_TryAddValue d 8 1 = Some (d1, True, 1) \<and>
     Int32Int32Dict_TryAddValue d1 8 2 = Some (d2, False, 2) \<and> Int32Int32Dict_map d2 = [8 \<mapsto> 2]"
proof -
  obtain d where d: "Int32Int32Dict_Create = Some d" "Int32Int32Dict_ok d" "Int32Int32Dict_map d = Map.empty"
    using Int32Int32Dict_CreateWithSize_ok [of 16] by (auto simp: Int32Int32Dict_Create_def)
  obtain d1 where d1: "Int32Int32Dict_TryAddValue d 8 1 = Some (d1, True, 1)" "Int32Int32Dict_ok d1"
    "Int32Int32Dict_map d1 = [8 \<mapsto> 1]"
    using Int32Int32Dict_TryAddValue_overwrites [OF d(2), of 8 1] i32i.count_keys [OF d(2)] d(3) by auto
  then show ?thesis
    using Int32Int32Dict_TryAddValue_overwrites [OF d1(2), of 8 2] d(1) by auto
qed

end
