(* ===== verification/PointerSets.thy ===== *)
theory PointerSets
  imports Int32Dicts
begin

text \<open>
  \<^verbatim>\<open>PointerSet\<close> (\<^verbatim>\<open>smilelib/src/dict/pointerset.c\<close>), a set of addresses, and \<^verbatim>\<open>VarDict\<close>
  (\<^verbatim>\<open>smilelib/src/dict/vardict.c\<close>), the table from symbols to variable descriptions that closures
  and the compiler use. In both the items of the hash table are not plain key/value pairs.
\<close>

section \<open>PointerSet\<close>

text \<open>
  The item of a node is the pointer itself. \<^verbatim>\<open>Contains\<close> and \<^verbatim>\<open>Add\<close> search the bucket of
  \<^verbatim>\<open>(Int32)((PtrInt)key >> 3)\<close>, a signed 32-bit value; the other functions mask the 64-bit
  unsigned one.
\<close>

type_synonym PointerSet = "ptr dict"

definition PointerSet_hash :: "ptr \<Rightarrow> int \<Rightarrow> int" where
  "PointerSet_hash key m = sint (ucast (drop_bit 3 key) :: int32) AND m"

definition PointerSet_ix :: "ptr \<Rightarrow> int \<Rightarrow> int" where
  "PointerSet_ix key m = uint (drop_bit 3 key) AND m"

definition PointerSet_kind :: "ptr dkind" where
  "PointerSet_kind =
     \<lparr>idx_width = 32, node_size = 16, bucket_ix = PointerSet_ix, append_ix = PointerSet_ix, old_item = \<lambda>p. 0,
      zero_item = 0, free_item = 0\<rparr>"

definition PointerSetInt_Resize :: "PointerSet \<Rightarrow> int \<Rightarrow> PointerSet option" where
  "PointerSetInt_Resize self newLen = dict_resize PointerSet_kind self newLen"

definition PointerSetInt_Append :: "PointerSet \<Rightarrow> ptr \<Rightarrow> (PointerSet \<times> int) option" where
  "PointerSetInt_Append self key = dict_append PointerSet_kind self key"

definition PointerSet_Clone :: "PointerSet \<Rightarrow> (ptr \<Rightarrow> ptr) option \<Rightarrow> PointerSet option" where
  "PointerSet_Clone pointerSet keyCloner =
     dict_clone PointerSet_kind (case keyCloner of Some c \<Rightarrow> c | None \<Rightarrow> (\<lambda>p. p)) pointerSet"

definition PointerSet_GetFirst :: "PointerSet \<Rightarrow> ptr option" where
  "PointerSet_GetFirst pointerSet =
     do { r \<leftarrow> dict_first pointerSet; Some (case r of Some p \<Rightarrow> p | None \<Rightarrow> 0) }"

definition PointerSet_GetAll :: "PointerSet \<Rightarrow> ptr list option" where
  "PointerSet_GetAll pointerSet = dict_collect (\<lambda>p. p) pointerSet"

definition PointerSet_ClearWithSize :: "PointerSet \<Rightarrow> int32 \<Rightarrow> PointerSet option" where
  "PointerSet_ClearWithSize pointerSet newSize = dict_clear PointerSet_kind (dict_size32 newSize)"

definition PointerSet_Remove :: "PointerSet \<Rightarrow> ptr \<Rightarrow> (PointerSet \<times> bool) option" where
  "PointerSet_Remove pointerSet key =
     dict_remove PointerSet_kind (\<lambda>p. p = key) (PointerSet_ix key (mask pointerSet)) pointerSet"

definition PointerSet_CreateWithSize :: "int32 \<Rightarrow> PointerSet option" where
  "PointerSet_CreateWithSize newSize = PointerSet_ClearWithSize raw_dict newSize"

definition PointerSet_Create :: "PointerSet option" where
  "PointerSet_Create = PointerSet_CreateWithSize 16"

definition PointerSet_Clear :: "PointerSet \<Rightarrow> PointerSet option" where
  "PointerSet_Clear pointerSet = PointerSet_ClearWithSize pointerSet 16"

definition PointerSet_Contains :: "PointerSet \<Rightarrow> ptr \<Rightarrow> bool option" where
  "PointerSet_Contains pointerSet key =
     dict_contains (\<lambda>p. p = key) (PointerSet_hash key (mask pointerSet)) pointerSet"

definition PointerSet_Add :: "PointerSet \<Rightarrow> ptr \<Rightarrow> (PointerSet \<times> bool) option" where
  "PointerSet_Add pointerSet key =
     dict_add PointerSet_kind (\<lambda>p. p = key) (PointerSet_hash key (mask pointerSet)) key pointerSet"

definition PointerSet_Count :: "PointerSet \<Rightarrow> int" where
  "PointerSet_Count pointerSet = count pointerSet"

section \<open>VarDict\<close>

record VarInfo =
  var_symbol :: int32
  var_kind :: int32
  var_offset :: int32
  var_value :: ptr

record VarDictPair =
  VarDict_key :: int32
  VarDict_varInfo :: VarInfo

type_synonym VarDict = "VarDictPair dict"

text \<open>
  \<^verbatim>\<open>NullObject\<close> is the address of an object of the runtime, a parameter. A copied node keeps it
  as its old value, and \<^verbatim>\<open>Clear\<close> and \<^verbatim>\<open>Remove\<close> write it into free nodes, while \<^verbatim>\<open>Resize\<close> writes
  \<^verbatim>\<open>NULL\<close> there.
\<close>

definition VarDict_kind :: "ptr \<Rightarrow> VarDictPair dkind" where
  "VarDict_kind nullObject =
     \<lparr>idx_width = 32, node_size = 32,
      bucket_ix = \<lambda>p m. int32_ix (VarDict_key p) m,
      append_ix = \<lambda>p m. int32_ix (VarDict_key p) m,
      old_item = \<lambda>p. p\<lparr>VarDict_varInfo := (VarDict_varInfo p)\<lparr>var_value := nullObject\<rparr>\<rparr>,
      zero_item = \<lparr>VarDict_key = 0,
        VarDict_varInfo = \<lparr>var_symbol = 0, var_kind = 0, var_offset = 0, var_value = 0\<rparr>\<rparr>,
      free_item = \<lparr>VarDict_key = 0,
        VarDict_varInfo = \<lparr>var_symbol = 0, var_kind = 0, var_offset = 0, var_value = nullObject\<rparr>\<rparr>\<rparr>"

definition VarDict_same :: "int32 \<Rightarrow> VarDictPair \<Rightarrow> bool" where
  "VarDict_same key p \<longleftrightarrow> VarDict_key p = key"

definition VarDict_pair :: "int32 \<Rightarrow> VarInfo \<Rightarrow> VarDictPair" where
  "VarDict_pair key value = \<lparr>VarDict_key = key, VarDict_varInfo = value\<rparr>"

definition VarDictInt_Resize :: "ptr \<Rightarrow> VarDict \<Rightarrow> int \<Rightarrow> VarDict option" where
  "VarDictInt_Resize nullObject self newLen = dict_resize (VarDict_kind nullObject) self newLen"

definition VarDictInt_Append :: "ptr \<Rightarrow> VarDict \<Rightarrow> int32 \<Rightarrow> VarInfo \<Rightarrow> (VarDict \<times> int) option" where
  "VarDictInt_Append nullObject self key value =
     dict_append (VarDict_kind nullObject) self (VarDict_pair key value)"

definition VarDict_Clone :: "ptr \<Rightarrow> VarDict \<Rightarrow> VarDict option" where
  "VarDict_Clone nullObject varDict =
     dict_clone (VarDict_kind nullObject) (\<lambda>p. VarDict_pair (VarDict_key p) (VarDict_varInfo p)) varDict"

text \<open>
  \<^verbatim>\<open>GetFirst\<close>, \<^verbatim>\<open>GetAll\<close> and \<^verbatim>\<open>GetValues\<close> return pointers to the \<^verbatim>\<open>varInfo\<close> of nodes; the model
  returns what they point at. \<^verbatim>\<open>GetValue\<close> and \<^verbatim>\<open>TryGetValue\<close>, through which callers also write,
  return the index of the node (\<open>None\<close> for \<^verbatim>\<open>NULL\<close>).
\<close>

definition VarDict_GetFirst :: "VarDict \<Rightarrow> (int32 \<times> VarInfo option) option" where
  "VarDict_GetFirst varDict =
     do { r \<leftarrow> dict_first varDict;
          Some (case r of Some p \<Rightarrow> (VarDict_key p, Some (VarDict_varInfo p)) | None \<Rightarrow> (0, None)) }"

definition VarDict_GetAll :: "VarDict \<Rightarrow> (int32 \<times> VarInfo) list option" where
  "VarDict_GetAll varDict = dict_collect (\<lambda>p. (VarDict_key p, VarDict_varInfo p)) varDict"

definition VarDict_GetKeys :: "VarDict \<Rightarrow> int32 list option" where
  "VarDict_GetKeys varDict = dict_collect VarDict_key varDict"

definition VarDict_GetValues :: "VarDict \<Rightarrow> VarInfo list option" where
  "VarDict_GetValues varDict = dict_collect VarDict_varInfo varDict"

text \<open>
  \<^verbatim>\<open>ForEach\<close> calls a function, whose effect on the object behind its \<^verbatim>\<open>param\<close> is explicit, on every
  variable until one call answers \<^verbatim>\<open>False\<close>.
\<close>

partial_function (option) VarDict_ForEach_chain ::
  "(VarInfo \<Rightarrow> 's \<Rightarrow> bool \<times> 's) \<Rightarrow> VarDictPair node list \<Rightarrow> int \<Rightarrow> 's \<Rightarrow> (bool \<times> 's) option" where
  "VarDict_ForEach_chain func h i s =
     (if i < 0 then Some (True, s)
      else Option.bind (arr_get h i) (\<lambda>n.
           let (go, s') = func (VarDict_varInfo (item n)) s
           in if go then VarDict_ForEach_chain func h (nxt n) s' else Some (False, s')))"

fun VarDict_ForEach_buckets ::
  "(VarInfo \<Rightarrow> 's \<Rightarrow> bool \<times> 's) \<Rightarrow> VarDict \<Rightarrow> int \<Rightarrow> nat \<Rightarrow> 's \<Rightarrow> (bool \<times> 's) option" where
  "VarDict_ForEach_buckets func self b 0 s = Some (True, s)"
| "VarDict_ForEach_buckets func self b (Suc n) s =
     do { i \<leftarrow> arr_get (buckets self) b;
          (go, s') \<leftarrow> VarDict_ForEach_chain func (heap self) i s;
          if go then VarDict_ForEach_buckets func self (b + 1) n s' else Some (False, s') }"

definition VarDict_ForEach ::
  "VarDict \<Rightarrow> (VarInfo \<Rightarrow> 's \<Rightarrow> bool \<times> 's) \<Rightarrow> 's \<Rightarrow> (bool \<times> 's) option" where
  "VarDict_ForEach varDict func param =
     VarDict_ForEach_buckets func varDict 0 (nat (mask varDict + 1)) param"

definition VarDict_ClearWithSize :: "ptr \<Rightarrow> VarDict \<Rightarrow> int32 \<Rightarrow> VarDict option" where
  "VarDict_ClearWithSize nullObject varDict newSize =
     dict_clear (VarDict_kind nullObject) (dict_size32 newSize)"

definition VarDict_Remove :: "ptr \<Rightarrow> VarDict \<Rightarrow> int32 \<Rightarrow> (VarDict \<times> bool) option" where
  "VarDict_Remove nullObject varDict key =
     dict_remove (VarDict_kind nullObject) (VarDict_same key) (int32_ix key (mask varDict)) varDict"

definition VarDict_CreateWithSize :: "ptr \<Rightarrow> int32 \<Rightarrow> VarDict option" where
  "VarDict_CreateWithSize nullObject newSize = VarDict_ClearWithSize nullObject raw_dict newSize"

definition VarDict_Create :: "ptr \<Rightarrow> VarDict option" where
  "VarDict_Create nullObject = VarDict_CreateWithSize nullObject 16"

definition VarDict_Clear :: "ptr \<Rightarrow> VarDict \<Rightarrow> VarDict option" where
  "VarDict_Clear nullObject varDict = VarDict_ClearWithSize nullObject varDict 16"

definition VarDict_ContainsKey :: "VarDict \<Rightarrow> int32 \<Rightarrow> bool option" where
  "VarDict_ContainsKey varDict key = dict_contains (VarDict_same key) (int32_ix key (mask varDict)) varDict"

definition VarDict_Add :: "ptr \<Rightarrow> VarDict \<Rightarrow> int32 \<Rightarrow> VarInfo \<Rightarrow> (VarDict \<times> bool) option" where
  "VarDict_Add nullObject varDict key value =
     dict_add (VarDict_kind nullObject) (VarDict_same key) (int32_ix key (mask varDict))
       (VarDict_pair key value) varDict"

definition VarDict_Count :: "VarDict \<Rightarrow> int" where
  "VarDict_Count varDict = count varDict"

definition VarDict_GetValue :: "VarDict \<Rightarrow> int32 \<Rightarrow> int option option" where
  "VarDict_GetValue varDict key = dict_search (VarDict_same key) (int32_ix key (mask varDict)) varDict"

definition VarDict_ReplaceValue :: "VarDict \<Rightarrow> int32 \<Rightarrow> VarInfo \<Rightarrow> (VarDict \<times> bool) option" where
  "VarDict_ReplaceValue varDict key value =
     dict_replace (VarDict_same key) (int32_ix key (mask varDict))
       (\<lambda>p. p\<lparr>VarDict_varInfo := value\<rparr>) varDict"

definition VarDict_SetValue :: "ptr \<Rightarrow> VarDict \<Rightarrow> int32 \<Rightarrow> VarInfo \<Rightarrow> (VarDict \<times> bool) option" where
  "VarDict_SetValue nullObject varDict key value =
     dict_set (VarDict_kind nullObject) (VarDict_same key) (int32_ix key (mask varDict))
       (\<lambda>p. p\<lparr>VarDict_varInfo := value\<rparr>) (VarDict_pair key value) varDict"

definition VarDict_TryGetValue :: "VarDict \<Rightarrow> int32 \<Rightarrow> (bool \<times> int option) option" where
  "VarDict_TryGetValue varDict key =
     do { r \<leftarrow> dict_search (VarDict_same key) (int32_ix key (mask varDict)) varDict;
          Some (r \<noteq> None, r) }"

section \<open>The laws\<close>

lemma and_low_bits:
  fixes a b m :: int
  assumes "0 \<le> m" and "m < 2 ^ n" and "take_bit n a = take_bit n b"
  shows "a AND m = b AND m"
proof -
  have m: "m = take_bit n m" using assms(1,2) by (simp add: take_bit_int_eq_self)
  have "x AND take_bit n m = take_bit n x AND take_bit n m" for x by (auto intro!: bit_eqI simp: bit_simps)
  then show ?thesis using assms(3) m by metis
qed

lemma PointerSet_ix_hash: "0 \<le> m \<Longrightarrow> m < 2 ^ 31 \<Longrightarrow> PointerSet_ix k m = PointerSet_hash k m"
  unfolding PointerSet_ix_def PointerSet_hash_def
  by (rule and_low_bits [of _ 31]) (auto intro!: bit_eqI simp: bit_simps)

interpretation pset: keyed_dict PointerSet_kind "\<lambda>p. p" "\<lambda>_. True" PointerSet_hash "2 ^ 30"
  "\<lambda>_. ()" "\<lambda>p _. p" "\<lambda>_ p. p" "\<lambda>k p. p = k"
  by unfold_locales
    (auto simp: PointerSet_kind_def PointerSet_ix_hash PointerSet_hash_def and_mask_bounds intro: exI [of _ 30])

interpretation vard: keyed_dict "VarDict_kind nullObject" VarDict_key "\<lambda>_. True" int32_ix "2 ^ 30"
  VarDict_varInfo VarDict_pair "\<lambda>v p. p\<lparr>VarDict_varInfo := v\<rparr>" VarDict_same
  for nullObject
  by unfold_locales
    (auto simp: VarDict_kind_def int32_ix_bounds VarDict_pair_def VarDict_same_def intro: exI [of _ 30])

abbreviation PointerSet_ok :: "PointerSet \<Rightarrow> bool" where
  "PointerSet_ok \<equiv> dict_wf PointerSet_kind (\<lambda>p. p) (\<lambda>_. True) (2 ^ 30)"

abbreviation VarDict_ok :: "ptr \<Rightarrow> VarDict \<Rightarrow> bool" where
  "VarDict_ok nullObject \<equiv> dict_wf (VarDict_kind nullObject) VarDict_key (\<lambda>_. True) (2 ^ 30)"

abbreviation VarDict_map :: "VarDict \<Rightarrow> int32 \<Rightarrow> VarInfo option" where
  "VarDict_map \<equiv> dict_abs VarDict_key VarDict_varInfo"

section \<open>PointerSet: correctness\<close>

definition PointerSet_elems :: "PointerSet \<Rightarrow> ptr set" where
  "PointerSet_elems d = set (entries d)"

lemma PointerSet_elems_dom: "PointerSet_elems d = dom (dict_abs (\<lambda>p. p) (\<lambda>_. ()) d)"
  by (simp add: PointerSet_elems_def pset.abs_dom)

lemma PointerSet_CreateWithSize_ok:
  "\<exists>d. PointerSet_CreateWithSize n = Some d \<and> PointerSet_ok d \<and> PointerSet_elems d = {}"
proof -
  obtain m where "dict_size32 n = int m" "is_dict_size m" "m \<le> 2 ^ 24" using dict_size32_spec by blast
  then show ?thesis
    using pset.clear_map
    by (fastforce simp: PointerSet_CreateWithSize_def PointerSet_ClearWithSize_def PointerSet_elems_dom)
qed

text \<open>
  C26: On a well-formed PointerSet with fewer than 2^30 elements, Contains answers membership, Add
  inserts the pointer and answers whether it is new, and Remove deletes it and answers whether it
  was there, though Add and Contains reach the bucket through a signed 32-bit hash and Remove and
  Resize through the unsigned 64-bit address.
\<close>

theorem PointerSet_set_operations:
  assumes "PointerSet_ok d" and "PointerSet_Count d < 2 ^ 30"
  shows "PointerSet_Contains d p = Some (p \<in> PointerSet_elems d) \<and>
     (\<exists>d'. PointerSet_Add d p = Some (d', p \<notin> PointerSet_elems d) \<and> PointerSet_ok d' \<and>
        PointerSet_elems d' = insert p (PointerSet_elems d)) \<and>
     (\<exists>d'. PointerSet_Remove d p = Some (d', p \<in> PointerSet_elems d) \<and> PointerSet_ok d' \<and>
        PointerSet_elems d' = PointerSet_elems d - {p}) \<and>
     PointerSet_Count d = int (card (PointerSet_elems d))"
proof (intro conjI)
  let ?abs = "dict_abs (\<lambda>p. p) (\<lambda>_. ())"
  have dom: "?abs d p = None \<longleftrightarrow> p \<notin> PointerSet_elems d"
    unfolding PointerSet_elems_def by (simp add: pset.abs_None)
  show "PointerSet_Contains d p = Some (p \<in> PointerSet_elems d)"
    using pset.contains_map [OF assms(1), of p] dom by (simp add: PointerSet_Contains_def)
  obtain d1 where d1: "PointerSet_Add d p = Some (d1, p \<notin> PointerSet_elems d)" "PointerSet_ok d1"
    "?abs d1 = (if ?abs d p = None then (?abs d)(p \<mapsto> ()) else ?abs d)"
    using pset.add_map [OF assms(1), of p "()"] assms(2) dom
    by (auto simp: PointerSet_Add_def PointerSet_Count_def)
  then have "PointerSet_elems d1 = insert p (PointerSet_elems d)"
    by (auto simp: PointerSet_elems_dom)
  with d1 show "\<exists>d'. PointerSet_Add d p = Some (d', p \<notin> PointerSet_elems d) \<and> PointerSet_ok d' \<and>
        PointerSet_elems d' = insert p (PointerSet_elems d)" by blast
  have "PointerSet_ix p (mask d) = PointerSet_hash p (mask d)"
    using pset.wf_mask [OF assms(1)] by (intro PointerSet_ix_hash) auto
  then obtain d2 where d2: "PointerSet_Remove d p = Some (d2, p \<in> PointerSet_elems d)" "PointerSet_ok d2"
    "?abs d2 = (?abs d)(p := None)"
    using pset.remove_map [OF assms(1), of p] dom by (auto simp: PointerSet_Remove_def)
  then have "PointerSet_elems d2 = PointerSet_elems d - {p}" by (auto simp: PointerSet_elems_dom)
  with d2 show "\<exists>d'. PointerSet_Remove d p = Some (d', p \<in> PointerSet_elems d) \<and> PointerSet_ok d' \<and>
        PointerSet_elems d' = PointerSet_elems d - {p}" by blast
  show "PointerSet_Count d = int (card (PointerSet_elems d))"
    using pset.count_keys [OF assms(1)] by (simp add: PointerSet_Count_def PointerSet_elems_dom)
qed

theorem PointerSet_set_operations_witness:
  "\<exists>d d1. PointerSet_Create = Some d \<and> PointerSet_Contains d 0xFFFFFFFFFFFFFFF8 = Some False \<and>
     PointerSet_Add d 0xFFFFFFFFFFFFFFF8 = Some (d1, True) \<and> PointerSet_elems d1 = {0xFFFFFFFFFFFFFFF8}"
proof -
  obtain d where d: "PointerSet_Create = Some d" "PointerSet_ok d" "PointerSet_elems d = {}"
    using PointerSet_CreateWithSize_ok [of 16] by (auto simp: PointerSet_Create_def)
  have "PointerSet_Count d < 2 ^ 30"
    using pset.count_keys [OF d(2)] d(3) by (simp add: PointerSet_Count_def PointerSet_elems_dom)
  then show ?thesis using PointerSet_set_operations [OF d(2), of "0xFFFFFFFFFFFFFFF8"] d(1,3) by auto
qed

section \<open>VarDict: correctness\<close>

definition VarDict_api :: "ptr \<Rightarrow> (VarDict, int32, VarInfo) dict_api" where
  "VarDict_api nullObject =
     \<lparr>api_contains = VarDict_ContainsKey, api_add = VarDict_Add nullObject,
      api_replace = VarDict_ReplaceValue, api_set = VarDict_SetValue nullObject,
      api_remove = VarDict_Remove nullObject\<rparr>"

lemma VarDict_api_hash: "VarDict_api nullObject = hash_api (VarDict_kind nullObject) int32_ix VarDict_pair
    (\<lambda>v p. p\<lparr>VarDict_varInfo := v\<rparr>) VarDict_same"
  by (simp add: VarDict_api_def hash_api_def VarDict_ContainsKey_def VarDict_Add_def
      VarDict_ReplaceValue_def VarDict_SetValue_def VarDict_Remove_def fun_eq_iff)

interpretation VarDict: map_impl "VarDict_api nullObject" "VarDict_ok nullObject" VarDict_map "2 ^ 30"
  for nullObject
  unfolding VarDict_api_hash by (rule vard.api.map_impl_axioms)

lemma VarDict_CreateWithSize_ok:
  "\<exists>d. VarDict_CreateWithSize nullObject n = Some d \<and> VarDict_ok nullObject d \<and> VarDict_map d = Map.empty"
proof -
  obtain m where "dict_size32 n = int m" "is_dict_size m" "m \<le> 2 ^ 24" using dict_size32_spec by blast
  then show ?thesis
    using vard.clear_map by (auto simp: VarDict_CreateWithSize_def VarDict_ClearWithSize_def)
qed

text \<open>
  C14: A new VarDict, followed by any sequence of at most 2^30 calls of Add, SetValue,
  ReplaceValue, Remove and ContainsKey, answers and ends up as a finite map from symbols to
  variable descriptions does; a GetValue afterwards answers NULL for an absent symbol and
  otherwise the node that holds its description.
\<close>

theorem VarDict_refines_map:
  assumes "length ops \<le> 2 ^ 30"
  shows "\<exists>d0 d r. VarDict_CreateWithSize nullObject n = Some d0 \<and>
     api_run (VarDict_api nullObject) ops d0 = Some (d, snd (map_run ops Map.empty)) \<and>
     VarDict_ok nullObject d \<and> VarDict_map d = fst (map_run ops Map.empty) \<and>
     VarDict_GetValue d k = Some r \<and>
     map_option (\<lambda>i. VarDict_varInfo (item (heap d ! nat i))) r = fst (map_run ops Map.empty) k"
proof -
  obtain d0 where d0: "VarDict_CreateWithSize nullObject n = Some d0" "VarDict_ok nullObject d0"
    "VarDict_map d0 = Map.empty" using VarDict_CreateWithSize_ok by blast
  then obtain d where d: "api_run (VarDict_api nullObject) ops d0 = Some (d, snd (map_run ops Map.empty))"
    "VarDict_ok nullObject d" "VarDict_map d = fst (map_run ops Map.empty)"
    using VarDict.run_ok [OF d0(2), of ops] assms by auto
  have "\<exists>r. VarDict_GetValue d k = Some r \<and>
      map_option (\<lambda>i. VarDict_varInfo (item (heap d ! nat i))) r = VarDict_map d k"
    by (rule vard.search_iff [OF d(2), of "VarDict_same k" k])
      (auto simp: VarDict_same_def VarDict_GetValue_def dict_abs_def)
  with d0 d show ?thesis by metis
qed

theorem VarDict_refines_map_witness:
  "\<exists>d0 d r. VarDict_CreateWithSize 8 0 = Some d0 \<and>
     api_run (VarDict_api 8) [AddOp 5 \<lparr>var_symbol = 5, var_kind = 3, var_offset = 1, var_value = 0\<rparr>] d0 =
       Some (d, [True]) \<and>
     VarDict_GetValue d 5 = Some r \<and>
     map_option (\<lambda>i. VarDict_varInfo (item (heap d ! nat i))) r =
       Some \<lparr>var_symbol = 5, var_kind = 3, var_offset = 1, var_value = 0\<rparr>"
  using VarDict_refines_map [of "[AddOp 5 \<lparr>var_symbol = 5, var_kind = 3, var_offset = 1, var_value = 0\<rparr>]" 8 0 5]
  by (auto simp del: api_run.simps)

text \<open>The calls \<^verbatim>\<open>ForEach\<close> makes, as a function of the list of stored variables.\<close>

fun each_until :: "(VarInfo \<Rightarrow> 's \<Rightarrow> bool \<times> 's) \<Rightarrow> VarInfo list \<Rightarrow> 's \<Rightarrow> bool \<times> 's" where
  "each_until func [] s = (True, s)"
| "each_until func (v # vs) s = (let (go, s') = func v s in if go then each_until func vs s' else (False, s'))"

lemma each_until_append:
  "each_until func (vs @ ws) s = (let (go, s') = each_until func vs s in if go then each_until func ws s' else (False, s'))"
  by (induction vs arbitrary: s) (auto simp: Let_def split: prod.splits)

lemma ForEach_chain_path:
  assumes "path (map nxt h) i js"
  shows "VarDict_ForEach_chain func h i s = Some (each_until func (map (\<lambda>j. VarDict_varInfo (item (h ! j))) js) s)"
  using assms
proof (induction js arbitrary: i s)
  case Nil
  then show ?case by (subst VarDict_ForEach_chain.simps) simp
next
  case (Cons j js)
  then show ?case
    by (subst VarDict_ForEach_chain.simps) (auto simp: arr_simps Let_def split: prod.splits)
qed

lemma ForEach_buckets:
  assumes sh: "shape d cs fl" and "b + n \<le> length cs"
  shows "VarDict_ForEach_buckets func d (int b) n s =
     Some (each_until func (map (\<lambda>j. VarDict_varInfo (item (heap d ! j))) (concat (take n (drop b cs)))) s)"
  using assms(2)
proof (induction n arbitrary: b s)
  case (Suc n)
  then have "take (Suc n) (drop b cs) = cs ! b # take n (drop (Suc b) cs)"
    by (simp add: Cons_nth_drop_Suc [symmetric])
  moreover have "arr_get (buckets d) (int b) = Some (buckets d ! b)"
    using sh Suc.prems by (intro arr_get_int) (simp add: shape_def)
  moreover have "path (links d) (buckets d ! b) (cs ! b)" using sh Suc.prems by (simp add: shape_def)
  moreover have "1 + int b = int (Suc b)" by simp
  ultimately show ?case using Suc.IH [of "Suc b"] Suc.prems
    by (simp add: ForEach_chain_path each_until_append split_beta Let_def add.commute)
qed simp

text \<open>
  ForEach on a well-formed VarDict calls its function on the stored variables, each exactly
  once and in the order of GetValues, stops after the first call that answers False, and returns
  True exactly when no call did.
\<close>

lemma VarDict_ForEach_correct:
  assumes "VarDict_ok nullObject d"
  shows "\<exists>vs. VarDict_GetValues d = Some vs \<and> VarDict_ForEach d func s = Some (each_until func vs s)"
proof -
  note w = vard.wfD(1) [OF assms]
  have "VarDict_ForEach d func s =
      Some (each_until func (map (\<lambda>j. VarDict_varInfo (item (heap d ! j))) (concat (chains d))) s)"
    using ForEach_buckets [OF w, of 0 "length (heap d)" func s] w by (simp add: VarDict_ForEach_def shape_def)
  then show ?thesis
    by (simp add: VarDict_GetValues_def vard.collect_spec [OF assms] entries_def comp_def)
qed

lemma VarDict_ForEach_correct_witness:
  "\<exists>d. VarDict_Create 8 = Some d \<and> VarDict_GetValues d = Some [] \<and>
     VarDict_ForEach d (\<lambda>v n. (False, Suc n)) 0 = Some (True, 0)"
proof -
  obtain d where d: "VarDict_Create 8 = Some d" "VarDict_ok 8 d" "VarDict_map d = Map.empty"
    using VarDict_CreateWithSize_ok [of 8 16] by (auto simp: VarDict_Create_def)
  then have "entries d = []" using vard.count_keys [OF d(2)] vard.count_spec [OF d(2)] by simp
  then show ?thesis
    using VarDict_ForEach_correct [OF d(2), of "\<lambda>v n. (False, Suc n)" 0] d(1)
    by (simp add: VarDict_GetValues_def vard.collect_spec [OF d(2)])
qed

end
