(* ===== verification/StringHash.thy ===== *)
theory StringHash
  imports SmilePrelude
begin

text \<open>
  Strings as values, their equality (\<^verbatim>\<open>smilelib/src/string/string_core.c\<close>) and the hash the string
  dictionaries use: SipHash-2-4 (\<^verbatim>\<open>smilelib/src/crypto/hash/siphash.c\<close>) keyed by the process-wide
  \<^verbatim>\<open>Smile_HashOracle\<close>, which is a parameter.

  A String of the program is an immutable object with a length and that many bytes; it is
  modelled by its bytes, a possibly \<^verbatim>\<open>NULL\<close> one by an option. A parameter that the code
  dereferences without a test has the type \<open>bytes\<close>.
\<close>

type_synonym bytes = "byte list"

section \<open>Equality\<close>

text \<open>
  \<^verbatim>\<open>String_Equals\<close>: the short lengths are compared byte by byte, the longer ones by \<^verbatim>\<open>MemCmp\<close>.
  Comparing the pointers first does not change the result.
\<close>

definition String_EqualsInternal :: "bytes option \<Rightarrow> bytes \<Rightarrow> bool" where
  "String_EqualsInternal a bText =
     (case a of None \<Rightarrow> False
      | Some aText \<Rightarrow>
          if length aText \<noteq> length bText then False
          else if length aText = 0 then True
          else if length aText = 1 then aText ! 0 = bText ! 0
          else if length aText = 2 then aText ! 0 = bText ! 0 \<and> aText ! 1 = bText ! 1
          else if length aText = 3 then aText ! 0 = bText ! 0 \<and> aText ! 1 = bText ! 1 \<and> aText ! 2 = bText ! 2
          else if length aText = 4 then
            aText ! 0 = bText ! 0 \<and> aText ! 1 = bText ! 1 \<and> aText ! 2 = bText ! 2 \<and> aText ! 3 = bText ! 3
          else aText = bText)"

definition String_Equals :: "bytes option \<Rightarrow> bytes option \<Rightarrow> bool" where
  "String_Equals a b =
     (case a of
        None \<Rightarrow> (case b of None \<Rightarrow> True | Some _ \<Rightarrow> True)
      | Some aText \<Rightarrow>
          (case b of None \<Rightarrow> False
           | Some bText \<Rightarrow>
               if length aText \<noteq> length bText then False
               else if length aText = 0 then True
               else if length aText = 1 then aText ! 0 = bText ! 0
               else if length aText = 2 then aText ! 0 = bText ! 0 \<and> aText ! 1 = bText ! 1
               else if length aText = 3 then
                 aText ! 0 = bText ! 0 \<and> aText ! 1 = bText ! 1 \<and> aText ! 2 = bText ! 2
               else if length aText = 4 then
                 aText ! 0 = bText ! 0 \<and> aText ! 1 = bText ! 1 \<and> aText ! 2 = bText ! 2 \<and> aText ! 3 = bText ! 3
               else aText = bText))"

section \<open>SipHash\<close>

definition ROTL :: "64 word \<Rightarrow> nat \<Rightarrow> 64 word" where
  "ROTL x b = push_bit b x OR drop_bit (64 - b) x"

definition U8TO64_LE :: "bytes \<Rightarrow> 64 word" where
  "U8TO64_LE p =
     ucast (p ! 0) OR push_bit 8 (ucast (p ! 1)) OR push_bit 16 (ucast (p ! 2)) OR
     push_bit 24 (ucast (p ! 3)) OR push_bit 32 (ucast (p ! 4)) OR push_bit 40 (ucast (p ! 5)) OR
     push_bit 48 (ucast (p ! 6)) OR push_bit 56 (ucast (p ! 7))"

type_synonym sipstate = "64 word \<times> 64 word \<times> 64 word \<times> 64 word"

fun SIPROUND :: "sipstate \<Rightarrow> sipstate" where
  "SIPROUND (v0, v1, v2, v3) =
     (let v0 = v0 + v1; v1 = ROTL v1 13; v1 = v1 XOR v0; v0 = ROTL v0 32;
          v2 = v2 + v3; v3 = ROTL v3 16; v3 = v3 XOR v2;
          v0 = v0 + v3; v3 = ROTL v3 21; v3 = v3 XOR v0;
          v2 = v2 + v1; v1 = ROTL v1 17; v1 = v1 XOR v2; v2 = ROTL v2 32
      in (v0, v1, v2, v3))"

fun sip_blocks :: "bytes \<Rightarrow> sipstate \<Rightarrow> bytes \<times> sipstate" where
  "sip_blocks input (v0, v1, v2, v3) =
     (if length input < 8 then (input, v0, v1, v2, v3)
      else let m = U8TO64_LE input;
               (v0, v1, v2, v3) = (SIPROUND ^^ 2) (v0, v1, v2, v3 XOR m)
           in sip_blocks (drop 8 input) (v0 XOR m, v1, v2, v3))"

declare sip_blocks.simps [simp del]

text \<open>The bytes behind the last whole block, from the highest to the lowest.\<close>

definition sip_tail :: "bytes \<Rightarrow> 64 word \<Rightarrow> 64 word" where
  "sip_tail input b =
     foldl (\<lambda>b i. b OR push_bit (8 * i) (ucast (input ! i))) b (rev [0..<length input])"

definition SipHash :: "bytes \<Rightarrow> 64 word \<Rightarrow> 64 word \<Rightarrow> 64 word" where
  "SipHash buffer secret1 secret2 =
     (let v0 = 0x736f6d6570736575; v1 = 0x646f72616e646f6d;
          v2 = 0x6c7967656e657261; v3 = 0x7465646279746573;
          b = push_bit 56 (of_nat (length buffer));
          (rest, v0, v1, v2, v3) =
            sip_blocks buffer (v0 XOR secret1, v1 XOR secret2, v2 XOR secret1, v3 XOR secret2);
          b = sip_tail rest b;
          (v0, v1, v2, v3) = (SIPROUND ^^ 2) (v0, v1, v2, v3 XOR b);
          (v0, v1, v2, v3) = (SIPROUND ^^ 4) (v0 XOR b, v1, v2 XOR 0xff, v3)
      in v0 XOR v1 XOR v2 XOR v3)"

definition Smile_Hash :: "32 word \<Rightarrow> bytes \<Rightarrow> 32 word" where
  "Smile_Hash Smile_HashOracle buffer = ucast (SipHash buffer (ucast Smile_HashOracle) (ucast Smile_HashOracle))"

text \<open>\<^verbatim>\<open>String_Hash\<close> reads the bytes of its argument; \<^verbatim>\<open>NULL\<close> is an invalid access.\<close>

definition String_Hash :: "32 word \<Rightarrow> bytes option \<Rightarrow> 32 word option" where
  "String_Hash hkey str = map_option (Smile_Hash hkey) str"

section \<open>Equality is equality of the bytes\<close>

lemma list_eq_by_length:
  "length x = length y \<Longrightarrow> x = y \<longleftrightarrow> (\<forall>i<length y. x ! i = y ! i)"
  by (simp add: list_eq_iff_nth_eq)

lemma all_below:
  "(\<forall>i<1. P i) = P (0::nat)" "(\<forall>i<2. P i) = (P (0::nat) \<and> P 1)"
  "(\<forall>i<3. P i) = (P (0::nat) \<and> P 1 \<and> P 2)" "(\<forall>i<4. P i) = (P (0::nat) \<and> P 1 \<and> P 2 \<and> P 3)"
  by (auto simp: numeral_eq_Suc less_Suc_eq)

lemma String_EqualsInternal_iff: "String_EqualsInternal a b \<longleftrightarrow> a = Some b"
proof (cases a)
  case (Some x)
  show ?thesis
  proof (cases "length x = length b")
    case True
    note eq = list_eq_by_length [OF True]
    have "String_EqualsInternal (Some x) b \<longleftrightarrow> x = b"
    proof (cases "length b \<le> 4")
      case short: True
      then consider "length b = 0" | "length b = 1" | "length b = 2" | "length b = 3" | "length b = 4" by linarith
      then show ?thesis using True
        by cases (simp_all only: String_EqualsInternal_def option.case eq all_below, simp_all)
    qed (use True in \<open>auto simp: String_EqualsInternal_def\<close>)
    with Some show ?thesis by simp
  qed (auto simp: String_EqualsInternal_def Some)
qed (simp add: String_EqualsInternal_def)

lemma String_Equals_internal: "String_Equals (Some x) (Some y) = String_EqualsInternal (Some x) y"
  by (simp add: String_Equals_def String_EqualsInternal_def)

lemma String_Equals_iff: "String_Equals (Some x) (Some y) \<longleftrightarrow> x = y"
  by (simp add: String_Equals_internal String_EqualsInternal_iff)

text \<open>
  C32: String_Equals compares two strings byte for byte. With NULL on one side only it answers True
  when the NULL is on the left and False when it is on the right, so it is not symmetric there.
\<close>

theorem String_Equals_cases:
  "String_Equals a b \<longleftrightarrow> (case (a, b) of (Some x, Some y) \<Rightarrow> x = y | (None, _) \<Rightarrow> True | (Some _, None) \<Rightarrow> False)"
  by (cases a; cases b) (simp_all add: String_Equals_iff String_Equals_def [of None] String_Equals_def [of _ None])

end
