(* ===== verification/StringDicts.thy ===== *)
theory StringDicts
  imports Int32Dicts StringHash
begin

text \<open>
  The dictionaries keyed by strings: \<^verbatim>\<open>StringDict\<close> (\<^verbatim>\<open>smilelib/src/dict/stringdict.c\<close>), whose
  values are pointers, and \<^verbatim>\<open>StringIntDict\<close> (\<^verbatim>\<open>smilelib/src/dict/stringintdict.c\<close>), whose values are
  64-bit integers; both kinds of values are 64-bit words here. A node caches the 32-bit hash of
  its key. \<^verbatim>\<open>Append\<close> and the searches mask it as a signed \<^verbatim>\<open>Int32\<close>, \<^verbatim>\<open>Resize\<close> and \<^verbatim>\<open>Remove\<close> as a
  \<^verbatim>\<open>UInt32\<close>; the two agree below 2^32 buckets, the limit of the theorems.

  The first parameter of most operations is \<^verbatim>\<open>Smile_HashOracle\<close>. The functions whose name ends
  in \<open>C\<close> take a C string, given by its bytes before the terminator.
\<close>

section \<open>Nodes\<close>

record StringDictPair =
  sd_key :: "bytes option"
  sd_value :: int64
  sd_keyHash :: "32 word"

type_synonym StringDict = "StringDictPair dict"

definition hash_ix_signed :: "32 word \<Rightarrow> int \<Rightarrow> int" where
  "hash_ix_signed keyHash m = sint keyHash AND m"

definition hash_ix_unsigned :: "32 word \<Rightarrow> int \<Rightarrow> int" where
  "hash_ix_unsigned keyHash m = uint keyHash AND m"

definition StringDict_kind :: "StringDictPair dkind" where
  "StringDict_kind =
     \<lparr>idx_width = 64, node_size = 32,
      bucket_ix = \<lambda>p m. hash_ix_unsigned (sd_keyHash p) m,
      append_ix = \<lambda>p m. hash_ix_signed (sd_keyHash p) m,
      old_item = \<lambda>p. p\<lparr>sd_value := 0\<rparr>,
      zero_item = \<lparr>sd_key = None, sd_value = 0, sd_keyHash = 0\<rparr>,
      free_item = \<lparr>sd_key = None, sd_value = 0, sd_keyHash = 0\<rparr>\<rparr>"

definition StringIntDict_kind :: "StringDictPair dkind" where
  "StringIntDict_kind =
     \<lparr>idx_width = 64, node_size = 32,
      bucket_ix = \<lambda>p m. hash_ix_unsigned (sd_keyHash p) m,
      append_ix = \<lambda>p m. hash_ix_signed (sd_keyHash p) m,
      old_item = \<lambda>p. p\<lparr>sd_value := 0\<rparr>,
      zero_item = \<lparr>sd_key = None, sd_value = 0, sd_keyHash = 0\<rparr>,
      free_item = \<lparr>sd_key = None, sd_value = 0, sd_keyHash = 0\<rparr>\<rparr>"

section \<open>StringDict\<close>

definition StringDictInt_Resize :: "StringDict \<Rightarrow> int \<Rightarrow> StringDict option" where
  "StringDictInt_Resize self newLen = dict_resize StringDict_kind self newLen"

definition StringDictInt_Append ::
  "StringDict \<Rightarrow> bytes option \<Rightarrow> 32 word \<Rightarrow> int64 \<Rightarrow> (StringDict \<times> int) option" where
  "StringDictInt_Append self key keyHash value =
     (if key = None then Some (self, -1)
      else dict_append StringDict_kind self \<lparr>sd_key = key, sd_value = value, sd_keyHash = keyHash\<rparr>)"

definition StringDict_GetAll :: "StringDict \<Rightarrow> (bytes option \<times> int64) list option" where
  "StringDict_GetAll stringDict = dict_collect (\<lambda>p. (sd_key p, sd_value p)) stringDict"

definition StringDict_GetKeys :: "StringDict \<Rightarrow> bytes option list option" where
  "StringDict_GetKeys stringDict = dict_collect sd_key stringDict"

definition StringDict_GetValues :: "StringDict \<Rightarrow> int64 list option" where
  "StringDict_GetValues stringDict = dict_collect sd_value stringDict"

definition StringDict_ClearWithSize :: "StringDict \<Rightarrow> int64 \<Rightarrow> StringDict option" where
  "StringDict_ClearWithSize stringDict newSize = dict_clear StringDict_kind (dict_size64 newSize)"

definition StringDict_Remove :: "32 word \<Rightarrow> StringDict \<Rightarrow> bytes option \<Rightarrow> (StringDict \<times> bool) option" where
  "StringDict_Remove hkey stringDict key =
     do { keyHash \<leftarrow> String_Hash hkey key;
          dict_remove StringDict_kind (\<lambda>p. String_Equals (sd_key p) key)
            (hash_ix_unsigned keyHash (mask stringDict)) stringDict }"

definition StringDict_CreateWithSize :: "int64 \<Rightarrow> StringDict option" where
  "StringDict_CreateWithSize newSize = StringDict_ClearWithSize raw_dict newSize"

definition StringDict_Create :: "StringDict option" where
  "StringDict_Create = StringDict_CreateWithSize 16"

definition StringDict_Clear :: "StringDict \<Rightarrow> StringDict option" where
  "StringDict_Clear stringDict = StringDict_ClearWithSize stringDict 16"

definition StringDict_ContainsKey :: "32 word \<Rightarrow> StringDict \<Rightarrow> bytes option \<Rightarrow> bool option" where
  "StringDict_ContainsKey hkey stringDict key =
     do { keyHash \<leftarrow> String_Hash hkey key;
          dict_contains (\<lambda>p. String_Equals (sd_key p) key)
            (hash_ix_signed keyHash (mask stringDict)) stringDict }"

definition StringDict_ContainsKeyC :: "32 word \<Rightarrow> StringDict \<Rightarrow> bytes \<Rightarrow> bool option" where
  "StringDict_ContainsKeyC hkey stringDict ckey =
     dict_contains (\<lambda>p. String_EqualsInternal (sd_key p) ckey)
       (hash_ix_signed (Smile_Hash hkey ckey) (mask stringDict)) stringDict"

definition StringDict_Add ::
  "32 word \<Rightarrow> StringDict \<Rightarrow> bytes option \<Rightarrow> int64 \<Rightarrow> (StringDict \<times> bool) option" where
  "StringDict_Add hkey stringDict key value =
     do { keyHash \<leftarrow> String_Hash hkey key;
          r \<leftarrow> dict_search (\<lambda>p. String_Equals (sd_key p) key)
                 (hash_ix_signed keyHash (mask stringDict)) stringDict;
          case r of
            Some i \<Rightarrow> Some (stringDict, False)
          | None \<Rightarrow> do { (self, _) \<leftarrow> StringDictInt_Append stringDict key keyHash value; Some (self, True) } }"

definition StringDict_AddC :: "32 word \<Rightarrow> StringDict \<Rightarrow> bytes \<Rightarrow> int64 \<Rightarrow> (StringDict \<times> bool) option" where
  "StringDict_AddC hkey stringDict ckey value = StringDict_Add hkey stringDict (Some ckey) value"

definition StringDict_Count :: "StringDict \<Rightarrow> int" where
  "StringDict_Count stringDict = count stringDict"

definition StringDict_GetValue :: "32 word \<Rightarrow> StringDict \<Rightarrow> bytes option \<Rightarrow> int64 option" where
  "StringDict_GetValue hkey stringDict key =
     do { keyHash \<leftarrow> String_Hash hkey key;
          r \<leftarrow> dict_find (\<lambda>p. String_Equals (sd_key p) key)
                 (hash_ix_signed keyHash (mask stringDict)) stringDict;
          Some (case r of Some p \<Rightarrow> sd_value p | None \<Rightarrow> 0) }"

definition StringDict_GetValueC :: "32 word \<Rightarrow> StringDict \<Rightarrow> bytes \<Rightarrow> int64 option" where
  "StringDict_GetValueC hkey stringDict ckey =
     do { r \<leftarrow> dict_find (\<lambda>p. String_EqualsInternal (sd_key p) ckey)
                 (hash_ix_signed (Smile_Hash hkey ckey) (mask stringDict)) stringDict;
          Some (case r of Some p \<Rightarrow> sd_value p | None \<Rightarrow> 0) }"

definition StringDict_ReplaceValue ::
  "32 word \<Rightarrow> StringDict \<Rightarrow> bytes option \<Rightarrow> int64 \<Rightarrow> (StringDict \<times> bool) option" where
  "StringDict_ReplaceValue hkey stringDict key value =
     do { keyHash \<leftarrow> String_Hash hkey key;
          dict_replace (\<lambda>p. String_Equals (sd_key p) key)
            (hash_ix_signed keyHash (mask stringDict)) (\<lambda>p. p\<lparr>sd_value := value\<rparr>) stringDict }"

definition StringDict_ReplaceValueC ::
  "32 word \<Rightarrow> StringDict \<Rightarrow> bytes \<Rightarrow> int64 \<Rightarrow> (StringDict \<times> bool) option" where
  "StringDict_ReplaceValueC hkey stringDict ckey value =
     dict_replace (\<lambda>p. String_EqualsInternal (sd_key p) ckey)
       (hash_ix_signed (Smile_Hash hkey ckey) (mask stringDict)) (\<lambda>p. p\<lparr>sd_value := value\<rparr>) stringDict"

definition StringDict_SetValue ::
  "32 word \<Rightarrow> StringDict \<Rightarrow> bytes option \<Rightarrow> int64 \<Rightarrow> (StringDict \<times> bool) option" where
  "StringDict_SetValue hkey stringDict key value =
     do { keyHash \<leftarrow> String_Hash hkey key;
          r \<leftarrow> dict_search (\<lambda>p. String_Equals (sd_key p) key)
                 (hash_ix_signed keyHash (mask stringDict)) stringDict;
          case r of
            Some i \<Rightarrow> do { self \<leftarrow> dict_update_node (\<lambda>p. p\<lparr>sd_value := value\<rparr>) i stringDict;
                           Some (self, True) }
          | None \<Rightarrow> do { (self, _) \<leftarrow> StringDictInt_Append stringDict key keyHash value; Some (self, False) } }"

definition StringDict_SetValueC ::
  "32 word \<Rightarrow> StringDict \<Rightarrow> bytes \<Rightarrow> int64 \<Rightarrow> (StringDict \<times> bool) option" where
  "StringDict_SetValueC hkey stringDict ckey value =
     do { r \<leftarrow> dict_search (\<lambda>p. String_EqualsInternal (sd_key p) ckey)
                 (hash_ix_signed (Smile_Hash hkey ckey) (mask stringDict)) stringDict;
          case r of
            Some i \<Rightarrow> do { self \<leftarrow> dict_update_node (\<lambda>p. p\<lparr>sd_value := value\<rparr>) i stringDict;
                           Some (self, True) }
          | None \<Rightarrow> do { (self, _) \<leftarrow> StringDictInt_Append stringDict (Some ckey) (Smile_Hash hkey ckey) value;
                         Some (self, False) } }"

definition StringDict_TryGetValue :: "32 word \<Rightarrow> StringDict \<Rightarrow> bytes option \<Rightarrow> (bool \<times> int64) option" where
  "StringDict_TryGetValue hkey stringDict key =
     do { keyHash \<leftarrow> String_Hash hkey key;
          r \<leftarrow> dict_find (\<lambda>p. String_Equals (sd_key p) key)
                 (hash_ix_signed keyHash (mask stringDict)) stringDict;
          Some (case r of Some p \<Rightarrow> (True, sd_value p) | None \<Rightarrow> (False, 0)) }"

definition StringDict_TryGetValueC :: "32 word \<Rightarrow> StringDict \<Rightarrow> bytes \<Rightarrow> (bool \<times> int64) option" where
  "StringDict_TryGetValueC hkey stringDict ckey =
     do { r \<leftarrow> dict_find (\<lambda>p. String_EqualsInternal (sd_key p) ckey)
                 (hash_ix_signed (Smile_Hash hkey ckey) (mask stringDict)) stringDict;
          Some (case r of Some p \<Rightarrow> (True, sd_value p) | None \<Rightarrow> (False, 0)) }"

section \<open>StringIntDict\<close>

definition StringIntDictInt_Resize :: "StringDict \<Rightarrow> int \<Rightarrow> StringDict option" where
  "StringIntDictInt_Resize self newLen = dict_resize StringIntDict_kind self newLen"

definition StringIntDictInt_Append ::
  "StringDict \<Rightarrow> bytes option \<Rightarrow> 32 word \<Rightarrow> int64 \<Rightarrow> (StringDict \<times> int) option" where
  "StringIntDictInt_Append self key keyHash value =
     (if key = None then Some (self, -1)
      else dict_append StringIntDict_kind self \<lparr>sd_key = key, sd_value = value, sd_keyHash = keyHash\<rparr>)"

definition StringIntDict_GetAll :: "StringDict \<Rightarrow> (bytes option \<times> int64) list option" where
  "StringIntDict_GetAll stringDict = dict_collect (\<lambda>p. (sd_key p, sd_value p)) stringDict"

definition StringIntDict_GetKeys :: "StringDict \<Rightarrow> bytes option list option" where
  "StringIntDict_GetKeys stringDict = dict_collect sd_key stringDict"

definition StringIntDict_GetValues :: "StringDict \<Rightarrow> int64 list option" where
  "StringIntDict_GetValues stringDict = dict_collect sd_value stringDict"

definition StringIntDict_ClearWithSize :: "StringDict \<Rightarrow> int64 \<Rightarrow> StringDict option" where
  "StringIntDict_ClearWithSize stringDict newSize = dict_clear StringIntDict_kind (dict_size64 newSize)"

definition StringIntDict_Remove :: "32 word \<Rightarrow> StringDict \<Rightarrow> bytes option \<Rightarrow> (StringDict \<times> bool) option" where
  "StringIntDict_Remove hkey stringDict key =
     do { keyHash \<leftarrow> String_Hash hkey key;
          dict_remove StringIntDict_kind (\<lambda>p. String_Equals (sd_key p) key)
            (hash_ix_unsigned keyHash (mask stringDict)) stringDict }"

definition StringIntDict_CreateWithSize :: "int64 \<Rightarrow> StringDict option" where
  "StringIntDict_CreateWithSize newSize = StringIntDict_ClearWithSize raw_dict newSize"

definition StringIntDict_Create :: "StringDict option" where
  "StringIntDict_Create = StringIntDict_CreateWithSize 16"

definition StringIntDict_Clear :: "StringDict \<Rightarrow> StringDict option" where
  "StringIntDict_Clear stringDict = StringIntDict_ClearWithSize stringDict 16"

definition StringIntDict_ContainsKey :: "32 word \<Rightarrow> StringDict \<Rightarrow> bytes option \<Rightarrow> bool option" where
  "StringIntDict_ContainsKey hkey stringDict key =
     do { keyHash \<leftarrow> String_Hash hkey key;
          dict_contains (\<lambda>p. String_Equals (sd_key p) key)
            (hash_ix_signed keyHash (mask stringDict)) stringDict }"

definition StringIntDict_ContainsKeyC :: "32 word \<Rightarrow> StringDict \<Rightarrow> bytes \<Rightarrow> bool option" where
  "StringIntDict_ContainsKeyC hkey stringDict ckey =
     dict_contains (\<lambda>p. String_EqualsInternal (sd_key p) ckey)
       (hash_ix_signed (Smile_Hash hkey ckey) (mask stringDict)) stringDict"

definition StringIntDict_Add ::
  "32 word \<Rightarrow> StringDict \<Rightarrow> bytes option \<Rightarrow> int64 \<Rightarrow> (StringDict \<times> bool) option" where
  "StringIntDict_Add hkey stringDict key value =
     do { keyHash \<leftarrow> String_Hash hkey key;
          r \<leftarrow> dict_search (\<lambda>p. String_Equals (sd_key p) key)
                 (hash_ix_signed keyHash (mask stringDict)) stringDict;
          case r of
            Some i \<Rightarrow> Some (stringDict, False)
          | None \<Rightarrow> do { (self, _) \<leftarrow> StringIntDictInt_Append stringDict key keyHash value; Some (self, True) } }"

definition StringIntDict_AddC :: "32 word \<Rightarrow> StringDict \<Rightarrow> bytes \<Rightarrow> int64 \<Rightarrow> (StringDict \<times> bool) option" where
  "StringIntDict_AddC hkey stringDict ckey value = StringIntDict_Add hkey stringDict (Some ckey) value"

definition StringIntDict_Count :: "StringDict \<Rightarrow> int" where
  "StringIntDict_Count stringDict = count stringDict"

definition StringIntDict_GetValue :: "32 word \<Rightarrow> StringDict \<Rightarrow> bytes option \<Rightarrow> int64 option" where
  "StringIntDict_GetValue hkey stringDict key =
     do { keyHash \<leftarrow> String_Hash hkey key;
          r \<leftarrow> dict_find (\<lambda>p. String_Equals (sd_key p) key)
                 (hash_ix_signed keyHash (mask stringDict)) stringDict;
          Some (case r of Some p \<Rightarrow> sd_value p | None \<Rightarrow> 0) }"

definition StringIntDict_GetValueC :: "32 word \<Rightarrow> StringDict \<Rightarrow> bytes \<Rightarrow> int64 option" where
  "StringIntDict_GetValueC hkey stringDict ckey =
     do { r \<leftarrow> dict_find (\<lambda>p. String_EqualsInternal (sd_key p) ckey)
                 (hash_ix_signed (Smile_Hash hkey ckey) (mask stringDict)) stringDict;
          Some (case r of Some p \<Rightarrow> sd_value p | None \<Rightarrow> 0) }"

definition StringIntDict_ReplaceValue ::
  "32 word \<Rightarrow> StringDict \<Rightarrow> bytes option \<Rightarrow> int64 \<Rightarrow> (StringDict \<times> bool) option" where
  "StringIntDict_ReplaceValue hkey stringDict key value =
     do { keyHash \<leftarrow> String_Hash hkey key;
          dict_replace (\<lambda>p. String_Equals (sd_key p) key)
            (hash_ix_signed keyHash (mask stringDict)) (\<lambda>p. p\<lparr>sd_value := value\<rparr>) stringDict }"

definition StringIntDict_ReplaceValueC ::
  "32 word \<Rightarrow> StringDict \<Rightarrow> bytes \<Rightarrow> int64 \<Rightarrow> (StringDict \<times> bool) option" where
  "StringIntDict_ReplaceValueC hkey stringDict ckey value =
     dict_replace (\<lambda>p. String_EqualsInternal (sd_key p) ckey)
       (hash_ix_signed (Smile_Hash hkey ckey) (mask stringDict)) (\<lambda>p. p\<lparr>sd_value := value\<rparr>) stringDict"

definition StringIntDict_SetValue ::
  "32 word \<Rightarrow> StringDict \<Rightarrow> bytes option \<Rightarrow> int64 \<Rightarrow> (StringDict \<times> bool) option" where
  "StringIntDict_SetValue hkey stringDict key value =
     do { keyHash \<leftarrow> String_Hash hkey key;
          r \<leftarrow> dict_search (\<lambda>p. String_Equals (sd_key p) key)
                 (hash_ix_signed keyHash (mask stringDict)) stringDict;
          case r of
            Some i \<Rightarrow> do { self \<leftarrow> dict_update_node (\<lambda>p. p\<lparr>sd_value := value\<rparr>) i stringDict;
                           Some (self, True) }
          | None \<Rightarrow> do { (self, _) \<leftarrow> StringIntDictInt_Append stringDict key keyHash value; Some (self, False) } }"

definition StringIntDict_SetValueC ::
  "32 word \<Rightarrow> StringDict \<Rightarrow> bytes \<Rightarrow> int64 \<Rightarrow> (StringDict \<times> bool) option" where
  "StringIntDict_SetValueC hkey stringDict ckey value =
     do { r \<leftarrow> dict_search (\<lambda>p. String_EqualsInternal (sd_key p) ckey)
                 (hash_ix_signed (Smile_Hash hkey ckey) (mask stringDict)) stringDict;
          case r of
            Some i \<Rightarrow> do { self \<leftarrow> dict_update_node (\<lambda>p. p\<lparr>sd_value := value\<rparr>) i stringDict;
                           Some (self, True) }
          | None \<Rightarrow> do { (self, _) \<leftarrow> StringIntDictInt_Append stringDict (Some ckey) (Smile_Hash hkey ckey) value;
                         Some (self, False) } }"

definition StringIntDict_TryGetValue :: "32 word \<Rightarrow> StringDict \<Rightarrow> bytes option \<Rightarrow> (bool \<times> int64) option" where
  "StringIntDict_TryGetValue hkey stringDict key =
     do { keyHash \<leftarrow> String_Hash hkey key;
          r \<leftarrow> dict_find (\<lambda>p. String_Equals (sd_key p) key)
                 (hash_ix_signed keyHash (mask stringDict)) stringDict;
          Some (case r of Some p \<Rightarrow> (True, sd_value p) | None \<Rightarrow> (False, 0)) }"

definition StringIntDict_TryGetValueC :: "32 word \<Rightarrow> StringDict \<Rightarrow> bytes \<Rightarrow> (bool \<times> int64) option" where
  "StringIntDict_TryGetValueC hkey stringDict ckey =
     do { r \<leftarrow> dict_find (\<lambda>p. String_EqualsInternal (sd_key p) ckey)
                 (hash_ix_signed (Smile_Hash hkey ckey) (mask stringDict)) stringDict;
          Some (case r of Some p \<Rightarrow> (True, sd_value p) | None \<Rightarrow> (False, 0)) }"

section \<open>The laws\<close>

text \<open>A node that can be stored has a key, and its cached hash is the hash of the key.\<close>

definition sd_ok :: "32 word \<Rightarrow> StringDictPair \<Rightarrow> bool" where
  "sd_ok hkey p \<longleftrightarrow> sd_key p \<noteq> None \<and> sd_keyHash p = Smile_Hash hkey (the (sd_key p))"

definition sd_pair :: "32 word \<Rightarrow> bytes \<Rightarrow> int64 \<Rightarrow> StringDictPair" where
  "sd_pair hkey k v = \<lparr>sd_key = Some k, sd_value = v, sd_keyHash = Smile_Hash hkey k\<rparr>"

abbreviation sd_name :: "StringDictPair \<Rightarrow> bytes" where
  "sd_name p \<equiv> the (sd_key p)"

abbreviation sd_same :: "bytes \<Rightarrow> StringDictPair \<Rightarrow> bool" where
  "sd_same k p \<equiv> String_Equals (sd_key p) (Some k)"

lemma hash_ix_agree:
  assumes "0 \<le> m" and "m < 2 ^ 32"
  shows "hash_ix_unsigned h m = hash_ix_signed h m"
proof -
  have "take_bit 32 (uint h) = take_bit 32 (sint h)" by (auto intro!: bit_eqI simp: bit_simps)
  moreover have "m = take_bit 32 m" using assms by (simp add: take_bit_int_eq_self)
  moreover have "x AND take_bit 32 m = take_bit 32 x AND take_bit 32 m" for x
    by (auto intro!: bit_eqI simp: bit_simps)
  ultimately show ?thesis unfolding hash_ix_unsigned_def hash_ix_signed_def by metis
qed

lemma kinds_agree: "StringIntDict_kind = StringDict_kind"
  by (simp add: StringIntDict_kind_def StringDict_kind_def)

interpretation strd: keyed_dict StringDict_kind sd_name "sd_ok hkey"
  "\<lambda>k. hash_ix_signed (Smile_Hash hkey k)" "2 ^ 32" sd_value "sd_pair hkey" "\<lambda>v p. p\<lparr>sd_value := v\<rparr>" sd_same
  for hkey
  by unfold_locales
    (auto simp: StringDict_kind_def hash_ix_agree hash_ix_signed_def and_mask_bounds sd_ok_def sd_pair_def
      String_Equals_iff intro: exI [of _ 32])

abbreviation StringDict_ok :: "32 word \<Rightarrow> StringDict \<Rightarrow> bool" where
  "StringDict_ok hkey \<equiv> dict_wf StringDict_kind sd_name (sd_ok hkey) (2 ^ 32)"

abbreviation StringDict_map :: "StringDict \<Rightarrow> bytes \<Rightarrow> int64 option" where
  "StringDict_map \<equiv> dict_abs sd_name sd_value"

lemma unsigned_bucket: "StringDict_ok hkey d \<Longrightarrow> hash_ix_unsigned h (mask d) = hash_ix_signed h (mask d)"
  using strd.wf_mask [of hkey d] by (intro hash_ix_agree) auto

text \<open>The comparison with a C string finds the same nodes as the one with a String.\<close>

lemma c_same: "sd_ok hkey p \<Longrightarrow> String_EqualsInternal (sd_key p) k = (sd_name p = k)"
  by (auto simp: String_EqualsInternal_iff sd_ok_def)

lemma c_contains:
  "StringDict_ok hkey d \<Longrightarrow> dict_contains (\<lambda>p. String_EqualsInternal (sd_key p) k)
     (hash_ix_signed (Smile_Hash hkey k) (mask d)) d = Some (k \<in> sd_name ` set (entries d))"
  by (rule strd.contains_spec) (auto dest: c_same)

lemma c_find:
  "StringDict_ok hkey d \<Longrightarrow> dict_find (\<lambda>p. String_EqualsInternal (sd_key p) k)
     (hash_ix_signed (Smile_Hash hkey k) (mask d)) d = Some (dict_lookup sd_name d k)"
  by (rule strd.find_spec) (auto dest: c_same)

section \<open>StringDict: correctness\<close>

definition StringDict_api :: "32 word \<Rightarrow> (StringDict, bytes, int64) dict_api" where
  "StringDict_api hkey =
     \<lparr>api_contains = \<lambda>d k. StringDict_ContainsKey hkey d (Some k),
      api_add = \<lambda>d k v. StringDict_Add hkey d (Some k) v,
      api_replace = \<lambda>d k v. StringDict_ReplaceValue hkey d (Some k) v,
      api_set = \<lambda>d k v. StringDict_SetValue hkey d (Some k) v,
      api_remove = \<lambda>d k. StringDict_Remove hkey d (Some k)\<rparr>"

lemma StringDict_ops:
  "StringDict_ContainsKey hkey d (Some k) =
     api_contains (hash_api StringDict_kind (\<lambda>k. hash_ix_signed (Smile_Hash hkey k)) (sd_pair hkey)
       (\<lambda>v p. p\<lparr>sd_value := v\<rparr>) sd_same) d k"
  "StringDict_Add hkey d (Some k) v =
     api_add (hash_api StringDict_kind (\<lambda>k. hash_ix_signed (Smile_Hash hkey k)) (sd_pair hkey)
       (\<lambda>v p. p\<lparr>sd_value := v\<rparr>) sd_same) d k v"
  "StringDict_ReplaceValue hkey d (Some k) v =
     api_replace (hash_api StringDict_kind (\<lambda>k. hash_ix_signed (Smile_Hash hkey k)) (sd_pair hkey)
       (\<lambda>v p. p\<lparr>sd_value := v\<rparr>) sd_same) d k v"
  "StringDict_SetValue hkey d (Some k) v =
     api_set (hash_api StringDict_kind (\<lambda>k. hash_ix_signed (Smile_Hash hkey k)) (sd_pair hkey)
       (\<lambda>v p. p\<lparr>sd_value := v\<rparr>) sd_same) d k v"
  by (simp_all add: hash_api_def StringDict_ContainsKey_def StringDict_Add_def StringDict_ReplaceValue_def StringDict_SetValue_def
      StringDictInt_Append_def String_Hash_def dict_add_def dict_set_def sd_pair_def)

lemma StringDict_Remove_op:
  "StringDict_ok hkey d \<Longrightarrow> StringDict_Remove hkey d (Some k) =
     api_remove (hash_api StringDict_kind (\<lambda>k. hash_ix_signed (Smile_Hash hkey k)) (sd_pair hkey)
       (\<lambda>v p. p\<lparr>sd_value := v\<rparr>) sd_same) d k"
  by (simp add: hash_api_def StringDict_Remove_def String_Hash_def unsigned_bucket)

interpretation StringDict: map_impl "StringDict_api hkey" "StringDict_ok hkey" StringDict_map "2 ^ 32"
  for hkey
  by unfold_locales
    (use strd.api.amap_finite strd.api.contains_ok strd.api.add_ok strd.api.set_ok strd.api.replace_ok
      strd.api.remove_ok in \<open>simp_all add: StringDict_api_def StringDict_ops StringDict_Remove_op kinds_agree\<close>)

lemma StringDict_CreateWithSize_ok:
  "\<exists>d. StringDict_CreateWithSize n = Some d \<and> StringDict_ok hkey d \<and> StringDict_map d = Map.empty"
proof -
  obtain m where "dict_size64 n = int m" "is_dict_size m" "m \<le> 2 ^ 24" using dict_size64_spec by blast
  then show ?thesis
    using strd.clear_map by (auto simp: StringDict_CreateWithSize_def StringDict_ClearWithSize_def kinds_agree)
qed

lemma StringDict_C_functions:
  assumes "StringDict_ok hkey d"
  shows "StringDict_ContainsKeyC hkey d k = StringDict_ContainsKey hkey d (Some k)"
    and "StringDict_TryGetValueC hkey d k = StringDict_TryGetValue hkey d (Some k)"
    and "StringDict_GetValueC hkey d k = StringDict_GetValue hkey d (Some k)"
  using c_contains [OF assms, of k] strd.contains_map [OF assms, of k] strd.get_map [OF assms, of k]
    c_find [OF assms, of k]
  by (simp_all add: StringDict_ContainsKeyC_def StringDict_ContainsKey_def StringDict_TryGetValueC_def StringDict_TryGetValue_def
      StringDict_GetValueC_def StringDict_GetValue_def String_Hash_def strd.abs_None)

lemma StringDict_TryGetValue_map:
  assumes "StringDict_ok hkey d"
  shows "StringDict_TryGetValue hkey d (Some k) =
     Some (case StringDict_map d k of Some v \<Rightarrow> (True, v) | None \<Rightarrow> (False, 0))"
  using strd.get_map [OF assms, of k]
  by (auto simp: StringDict_TryGetValue_def String_Hash_def dict_abs_def split: option.split)



section \<open>StringIntDict: correctness\<close>

definition StringIntDict_api :: "32 word \<Rightarrow> (StringDict, bytes, int64) dict_api" where
  "StringIntDict_api hkey =
     \<lparr>api_contains = \<lambda>d k. StringIntDict_ContainsKey hkey d (Some k),
      api_add = \<lambda>d k v. StringIntDict_Add hkey d (Some k) v,
      api_replace = \<lambda>d k v. StringIntDict_ReplaceValue hkey d (Some k) v,
      api_set = \<lambda>d k v. StringIntDict_SetValue hkey d (Some k) v,
      api_remove = \<lambda>d k. StringIntDict_Remove hkey d (Some k)\<rparr>"

lemma StringIntDict_ops:
  "StringIntDict_ContainsKey hkey d (Some k) =
     api_contains (hash_api StringIntDict_kind (\<lambda>k. hash_ix_signed (Smile_Hash hkey k)) (sd_pair hkey)
       (\<lambda>v p. p\<lparr>sd_value := v\<rparr>) sd_same) d k"
  "StringIntDict_Add hkey d (Some k) v =
     api_add (hash_api StringIntDict_kind (\<lambda>k. hash_ix_signed (Smile_Hash hkey k)) (sd_pair hkey)
       (\<lambda>v p. p\<lparr>sd_value := v\<rparr>) sd_same) d k v"
  "StringIntDict_ReplaceValue hkey d (Some k) v =
     api_replace (hash_api StringIntDict_kind (\<lambda>k. hash_ix_signed (Smile_Hash hkey k)) (sd_pair hkey)
       (\<lambda>v p. p\<lparr>sd_value := v\<rparr>) sd_same) d k v"
  "StringIntDict_SetValue hkey d (Some k) v =
     api_set (hash_api StringIntDict_kind (\<lambda>k. hash_ix_signed (Smile_Hash hkey k)) (sd_pair hkey)
       (\<lambda>v p. p\<lparr>sd_value := v\<rparr>) sd_same) d k v"
  by (simp_all add: hash_api_def StringIntDict_ContainsKey_def StringIntDict_Add_def StringIntDict_ReplaceValue_def StringIntDict_SetValue_def
      StringIntDictInt_Append_def String_Hash_def dict_add_def dict_set_def sd_pair_def)

lemma StringIntDict_Remove_op:
  "StringDict_ok hkey d \<Longrightarrow> StringIntDict_Remove hkey d (Some k) =
     api_remove (hash_api StringIntDict_kind (\<lambda>k. hash_ix_signed (Smile_Hash hkey k)) (sd_pair hkey)
       (\<lambda>v p. p\<lparr>sd_value := v\<rparr>) sd_same) d k"
  by (simp add: hash_api_def StringIntDict_Remove_def String_Hash_def unsigned_bucket)

interpretation StringIntDict: map_impl "StringIntDict_api hkey" "StringDict_ok hkey" StringDict_map "2 ^ 32"
  for hkey
  by unfold_locales
    (use strd.api.amap_finite strd.api.contains_ok strd.api.add_ok strd.api.set_ok strd.api.replace_ok
      strd.api.remove_ok in \<open>simp_all add: StringIntDict_api_def StringIntDict_ops StringIntDict_Remove_op kinds_agree\<close>)

lemma StringIntDict_CreateWithSize_ok:
  "\<exists>d. StringIntDict_CreateWithSize n = Some d \<and> StringDict_ok hkey d \<and> StringDict_map d = Map.empty"
proof -
  obtain m where "dict_size64 n = int m" "is_dict_size m" "m \<le> 2 ^ 24" using dict_size64_spec by blast
  then show ?thesis
    using strd.clear_map by (auto simp: StringIntDict_CreateWithSize_def StringIntDict_ClearWithSize_def kinds_agree)
qed

lemma StringIntDict_C_functions:
  assumes "StringDict_ok hkey d"
  shows "StringIntDict_ContainsKeyC hkey d k = StringIntDict_ContainsKey hkey d (Some k)"
    and "StringIntDict_TryGetValueC hkey d k = StringIntDict_TryGetValue hkey d (Some k)"
    and "StringIntDict_GetValueC hkey d k = StringIntDict_GetValue hkey d (Some k)"
  using c_contains [OF assms, of k] strd.contains_map [OF assms, of k] strd.get_map [OF assms, of k]
    c_find [OF assms, of k]
  by (simp_all add: StringIntDict_ContainsKeyC_def StringIntDict_ContainsKey_def StringIntDict_TryGetValueC_def StringIntDict_TryGetValue_def
      StringIntDict_GetValueC_def StringIntDict_GetValue_def String_Hash_def strd.abs_None)

lemma StringIntDict_TryGetValue_map:
  assumes "StringDict_ok hkey d"
  shows "StringIntDict_TryGetValue hkey d (Some k) =
     Some (case StringDict_map d k of Some v \<Rightarrow> (True, v) | None \<Rightarrow> (False, 0))"
  using strd.get_map [OF assms, of k]
  by (auto simp: StringIntDict_TryGetValue_def String_Hash_def dict_abs_def split: option.split)



end
