(* ===== verification/SymbolTable.thy ===== *)
theory SymbolTable
  imports StringDicts
begin

text \<open>
  The symbol table (\<^verbatim>\<open>smilelib/src/env/symboltable.c\<close>, \<^verbatim>\<open>smilelib/include/smile/env/symboltable.h\<close>): an
  array of names in registration order and a \<^verbatim>\<open>StringIntDict\<close> from names to their positions. Its
  proofs use the dictionary through the interpretation of \<open>map_impl\<close> only.
\<close>

section \<open>Definitions\<close>

record SymbolTable =
  symbolNames :: "bytes option list"
  st_count :: int
  st_max :: int
  symbolLookup :: StringDict

definition SymbolTable_Create :: "SymbolTable option" where
  "SymbolTable_Create =
     do { lookup \<leftarrow> StringIntDict_CreateWithSize 1024;
          Some \<lparr>symbolNames = (replicate 1024 None)[0 := Some []], st_count = 1, st_max = 1024,
                symbolLookup = lookup\<rparr> }"

text \<open>
  \<^verbatim>\<open>SymbolTableInt_AddSymbol\<close>: doubles the array when it is full, stores the name at the position
  \<^verbatim>\<open>count\<close>, whose low 32 bits are the new symbol, and registers the symbol in the dictionary.
\<close>

definition SymbolTableInt_Grow :: "SymbolTable \<Rightarrow> SymbolTable option" where
  "SymbolTableInt_Grow table =
     (if st_count table \<ge> st_max table
      then let newMax = st_max table * 2 in
           if 0 \<le> st_count table \<and> st_count table \<le> int (length (symbolNames table)) \<and> st_count table \<le> newMax
           then Some (table\<lparr>symbolNames :=
                  take (nat (st_count table)) (symbolNames table) @
                    replicate (nat newMax - nat (st_count table)) None,
                  st_max := newMax\<rparr>)
           else None
      else Some table)"

definition SymbolTableInt_AddSymbol :: "32 word \<Rightarrow> SymbolTable \<Rightarrow> bytes option \<Rightarrow> (SymbolTable \<times> int32) option" where
  "SymbolTableInt_AddSymbol hkey table0 name =
     do { table \<leftarrow> SymbolTableInt_Grow table0;
          let symbol = (word_of_int (st_count table) :: int32);
          names \<leftarrow> arr_set (symbolNames table) (st_count table) name;
          (lookup, _) \<leftarrow> StringIntDict_Add hkey (symbolLookup table) name (scast symbol);
          Some (table\<lparr>symbolNames := names, st_count := st_count table + 1, symbolLookup := lookup\<rparr>, symbol) }"

definition SymbolTable_GetSymbol :: "32 word \<Rightarrow> SymbolTable \<Rightarrow> bytes option \<Rightarrow> (SymbolTable \<times> int32) option" where
  "SymbolTable_GetSymbol hkey table name =
     do { v \<leftarrow> StringIntDict_GetValue hkey (symbolLookup table) name;
          let symbol = (ucast v :: int32);
          if symbol = 0 then SymbolTableInt_AddSymbol hkey table name else Some (table, symbol) }"

definition SymbolTable_GetSymbolC :: "32 word \<Rightarrow> SymbolTable \<Rightarrow> bytes \<Rightarrow> (SymbolTable \<times> int32) option" where
  "SymbolTable_GetSymbolC hkey table name =
     do { v \<leftarrow> StringIntDict_GetValueC hkey (symbolLookup table) name;
          let symbol = (ucast v :: int32);
          if symbol = 0 then SymbolTableInt_AddSymbol hkey table (Some name) else Some (table, symbol) }"

definition SymbolTable_GetSymbolNoCreate :: "32 word \<Rightarrow> SymbolTable \<Rightarrow> bytes option \<Rightarrow> int32 option" where
  "SymbolTable_GetSymbolNoCreate hkey table name =
     do { v \<leftarrow> StringIntDict_GetValue hkey (symbolLookup table) name; Some (ucast v) }"

definition SymbolTable_GetSymbolNoCreateC :: "32 word \<Rightarrow> SymbolTable \<Rightarrow> bytes \<Rightarrow> int32 option" where
  "SymbolTable_GetSymbolNoCreateC hkey table name =
     do { v \<leftarrow> StringIntDict_GetValueC hkey (symbolLookup table) name; Some (ucast v) }"

text \<open>\<^verbatim>\<open>GetName\<close> answers \<^verbatim>\<open>NULL\<close> for symbol 0 and for symbols that are not registered.\<close>

definition SymbolTable_GetName :: "SymbolTable \<Rightarrow> int32 \<Rightarrow> bytes option option" where
  "SymbolTable_GetName table symbol =
     (if sint symbol \<le> 0 \<or> sint symbol \<ge> st_count table then Some None
      else arr_get (symbolNames table) (sint symbol))"

text \<open>\<^verbatim>\<open>SymbolTableInt_AddFast\<close>, for the predefined symbols: no growth and no look-up.\<close>

definition SymbolTableInt_AddFast :: "32 word \<Rightarrow> SymbolTable \<Rightarrow> bytes option \<Rightarrow> (SymbolTable \<times> int32) option" where
  "SymbolTableInt_AddFast hkey table name =
     do { let symbol = (word_of_int (st_count table) :: int32);
          names \<leftarrow> arr_set (symbolNames table) (st_count table) name;
          keyHash \<leftarrow> String_Hash hkey name;
          (lookup, _) \<leftarrow> StringIntDictInt_Append (symbolLookup table) name keyHash (scast symbol);
          Some (table\<lparr>symbolNames := names, st_count := st_count table + 1, symbolLookup := lookup\<rparr>, symbol) }"

text \<open>Interning a list of names, one call after the other.\<close>

fun intern_all :: "32 word \<Rightarrow> SymbolTable \<Rightarrow> bytes list \<Rightarrow> (SymbolTable \<times> int32 list) option" where
  "intern_all hkey table [] = Some (table, [])"
| "intern_all hkey table (n # ns) =
     do { (table1, s) \<leftarrow> SymbolTable_GetSymbol hkey table (Some n);
          (table2, ss) \<leftarrow> intern_all hkey table1 ns;
          Some (table2, s # ss) }"

section \<open>The invariant\<close>

text \<open>
  The array has \<^verbatim>\<open>max\<close> slots, the dictionary maps a name to \<open>i\<close> exactly when the slot \<open>i\<close> of the
  registered ones, from 1 on, holds it.
\<close>

definition SymbolTable_ok :: "32 word \<Rightarrow> SymbolTable \<Rightarrow> bool" where
  "SymbolTable_ok hkey t \<longleftrightarrow>
     StringDict_ok hkey (symbolLookup t) \<and> 1 \<le> st_count t \<and> st_count t \<le> st_max t \<and>
     st_max t = int (length (symbolNames t)) \<and> st_count t \<le> 2 ^ 31 \<and>
     (\<forall>i. 0 < i \<and> int i < st_count t \<longrightarrow> symbolNames t ! i \<noteq> None) \<and>
     (\<forall>n v. StringDict_map (symbolLookup t) n = Some v \<longleftrightarrow>
        (\<exists>i. 0 < i \<and> int i < st_count t \<and> symbolNames t ! i = Some n \<and> v = of_nat i))"

lemma SymbolTable_okD:
  assumes "SymbolTable_ok hkey t"
  shows "StringDict_ok hkey (symbolLookup t)" "1 \<le> st_count t" "st_count t \<le> st_max t"
    "st_max t = int (length (symbolNames t))" "st_count t \<le> 2 ^ 31"
    "\<And>i. 0 < i \<Longrightarrow> int i < st_count t \<Longrightarrow> symbolNames t ! i \<noteq> None"
    "\<And>n v. StringDict_map (symbolLookup t) n = Some v \<longleftrightarrow>
        (\<exists>i. 0 < i \<and> int i < st_count t \<and> symbolNames t ! i = Some n \<and> v = of_nat i)"
  using assms unfolding SymbolTable_ok_def by blast+

lemma SymbolTable_Create_ok: "\<exists>t. SymbolTable_Create = Some t \<and> SymbolTable_ok hkey t \<and> st_count t = 1"
proof -
  obtain d where "StringIntDict_CreateWithSize 1024 = Some d" "StringDict_ok hkey d" "StringDict_map d = Map.empty"
    using StringIntDict_CreateWithSize_ok by blast
  then show ?thesis by (auto simp: SymbolTable_Create_def SymbolTable_ok_def)
qed

section \<open>Positions as symbols\<close>

lemma small_symbol:
  assumes "i < 2 ^ 31"
  shows "sint (of_nat i :: int32) = int i" "ucast (of_nat i :: int64) = (of_nat i :: int32)"
    "scast (of_nat i :: int32) = (of_nat i :: int64)"
    "(of_nat i :: int64) = of_nat j \<Longrightarrow> j < 2 ^ 31 \<Longrightarrow> i = j"
    "(of_nat i :: int32) = 0 \<longleftrightarrow> i = 0"
proof -
  have u: "unat (of_nat k :: int32) = k" "unat (of_nat k :: int64) = k" if "k < 2 ^ 31" for k
    using that by (simp_all only: unat_of_nat) (simp_all add: mod_less)
  then show s: "sint (of_nat i :: int32) = int i" using assms sint_eq_unat [of "of_nat i :: int32"] by simp
  show "ucast (of_nat i :: int64) = (of_nat i :: int32)"
    using assms by (simp add: unsigned_of_nat take_bit_nat_eq_self)
  have "scast (of_nat i :: int32) = (word_of_int (sint (of_nat i :: int32)) :: int64)" by (rule scast_eq)
  then show "scast (of_nat i :: int32) = (of_nat i :: int64)" unfolding s by simp
  show "(of_nat i :: int32) = 0 \<longleftrightarrow> i = 0" using u(1) [OF assms] by (auto dest: arg_cong [of _ _ unat])
  assume eq: "(of_nat i :: int64) = of_nat j" and j: "j < 2 ^ 31"
  show "i = j" using arg_cong [OF eq, of unat] unfolding u(2) [OF assms] u(2) [OF j] .
qed

lemma count_dom:
  assumes "SymbolTable_ok hkey t"
  shows "card (dom (StringDict_map (symbolLookup t))) < 2 ^ 31"
proof -
  let ?n = "nat (st_count t)"
  have "dom (StringDict_map (symbolLookup t)) \<subseteq> (\<lambda>i. the (symbolNames t ! i)) ` {0<..<?n}"
  proof
    fix n assume "n \<in> dom (StringDict_map (symbolLookup t))"
    then obtain i where "0 < i" "int i < st_count t" "symbolNames t ! i = Some n"
      using SymbolTable_okD(7) [OF assms] by blast
    then show "n \<in> (\<lambda>i. the (symbolNames t ! i)) ` {0<..<?n}"
      by (intro image_eqI [of _ _ i]) auto
  qed
  then have "card (dom (StringDict_map (symbolLookup t))) \<le> card {0<..<?n}"
    by (rule surj_card_le [rotated]) simp
  moreover have "?n \<le> 2 ^ 31" using SymbolTable_okD(5) [OF assms] by (simp add: nat_le_iff)
  moreover have "1 \<le> ?n" using SymbolTable_okD(2) [OF assms] by simp
  ultimately show ?thesis by simp
qed

lemma lookup_value:
  assumes "SymbolTable_ok hkey t"
  shows "StringIntDict_GetValue hkey (symbolLookup t) (Some n) =
     Some (case StringDict_map (symbolLookup t) n of None \<Rightarrow> 0 | Some v \<Rightarrow> v)"
  using strd.get_map [OF SymbolTable_okD(1) [OF assms], of n]
  by (auto simp: StringIntDict_GetValue_def String_Hash_def dict_abs_def split: option.split)

lemma Grow_ok:
  assumes "SymbolTable_ok hkey t"
  shows "\<exists>t'. SymbolTableInt_Grow t = Some t' \<and> SymbolTable_ok hkey t' \<and> st_count t' < st_max t' \<and>
     st_count t' = st_count t \<and> symbolLookup t' = symbolLookup t \<and>
     (\<forall>i. int i < st_count t \<longrightarrow> symbolNames t' ! i = symbolNames t ! i)"
proof (cases "st_count t \<ge> st_max t")
  case True
  note ok = SymbolTable_okD [OF assms]
  let ?c = "nat (st_count t)"
  let ?t = "t\<lparr>symbolNames := take ?c (symbolNames t) @ replicate (nat (st_max t * 2) - ?c) None, st_max := st_max t * 2\<rparr>"
  have g: "SymbolTableInt_Grow t = Some ?t" using True ok(2-5) by (simp add: SymbolTableInt_Grow_def Let_def)
  have n: "symbolNames ?t ! i = symbolNames t ! i" if "int i < st_count t" for i
    using that ok(2-4) by (auto simp: nth_append)
  moreover have "int (length (symbolNames ?t)) = st_max ?t" using True ok(2-4) by simp
  ultimately have "SymbolTable_ok hkey ?t"
    using ok(1-3,5-7) by (auto simp: SymbolTable_ok_def)
  with g n show ?thesis using ok(2,3) by fastforce
qed (use assms in \<open>auto simp: SymbolTableInt_Grow_def\<close>)

lemma AddSymbol_ok:
  assumes ok: "SymbolTable_ok hkey t" and new: "StringDict_map (symbolLookup t) n = None"
    and c: "st_count t < 2 ^ 31"
  shows "\<exists>t'. SymbolTableInt_AddSymbol hkey t (Some n) = Some (t', of_nat (nat (st_count t))) \<and>
     SymbolTable_ok hkey t' \<and> st_count t' = st_count t + 1 \<and>
     symbolNames t' ! nat (st_count t) = Some n \<and>
     (\<forall>i. int i < st_count t \<longrightarrow> symbolNames t' ! i = symbolNames t ! i)"
proof -
  obtain t1 where t1: "SymbolTableInt_Grow t = Some t1" "SymbolTable_ok hkey t1" "st_count t1 < st_max t1"
    "st_count t1 = st_count t" "symbolLookup t1 = symbolLookup t"
    "\<And>i. int i < st_count t \<Longrightarrow> symbolNames t1 ! i = symbolNames t ! i" using Grow_ok [OF ok] by blast
  obtain c0 where c0': "st_count t = int c0" using SymbolTable_okD(2) [OF ok] by (metis nonneg_int_cases order_trans zero_le_one)
  then have c0: "st_count t = int c0" "c0 < 2 ^ 31" "c0 < length (symbolNames t1)" "0 < c0"
    using SymbolTable_okD(2) [OF ok] c t1(3,4) SymbolTable_okD(4) [OF t1(2)] by auto
  obtain d where d: "StringIntDict_Add hkey (symbolLookup t) (Some n) (of_nat c0) = Some (d, True)"
    "StringDict_ok hkey d" "StringDict_map d = (StringDict_map (symbolLookup t))(n \<mapsto> of_nat c0)"
    using StringIntDict.add_ok [OF SymbolTable_okD(1) [OF ok], of n "of_nat c0"] count_dom [OF ok] new
    by (auto simp: StringIntDict_api_def)
  let ?t = "t1\<lparr>symbolNames := (symbolNames t1)[c0 := Some n], st_count := st_count t + 1, symbolLookup := d\<rparr>"
  have add: "SymbolTableInt_AddSymbol hkey t (Some n) = Some (?t, of_nat c0)"
    using t1(1,4,5) c0 d(1) by (simp add: SymbolTableInt_AddSymbol_def Let_def arr_simps small_symbol(3))
  have nth: "symbolNames ?t ! i = (if i = c0 then Some n else symbolNames t1 ! i)" if "i \<le> c0" for i
    using c0 that by simp
  have names: "symbolNames ?t ! i \<noteq> None" if "0 < i" "int i < st_count ?t" for i
    using nth [of i] that c0(1) SymbolTable_okD(6) [OF t1(2), of i] t1(4) by auto
  have "StringDict_map (symbolLookup ?t) m = Some v \<longleftrightarrow>
      (\<exists>i. 0 < i \<and> int i < st_count ?t \<and> symbolNames ?t ! i = Some m \<and> v = of_nat i)" for m v
  proof -
    have ex: "(\<exists>i. 0 < i \<and> int i < st_count ?t \<and> symbolNames ?t ! i = Some m \<and> v = of_nat i) \<longleftrightarrow>
        n = m \<and> v = of_nat c0 \<or> StringDict_map (symbolLookup t) m = Some v"
      using SymbolTable_okD(7) [OF t1(2), of m v] t1(4,5) nth c0(1,4) by (auto simp: less_Suc_eq le_less)
    then show ?thesis using d(3) new by auto
  qed
  then have "SymbolTable_ok hkey ?t"
    using names d(2) SymbolTable_okD(2-5) [OF t1(2)] t1(3,4) c by (auto simp: SymbolTable_ok_def)
  then show ?thesis using add nth t1(6) c0 by auto
qed

section \<open>Interning\<close>

lemma GetName_nth:
  assumes "SymbolTable_ok hkey t" and "0 < i" and "int i < st_count t"
  shows "SymbolTable_GetName t (of_nat i) = Some (symbolNames t ! i)"
proof -
  have "i < 2 ^ 31" using assms SymbolTable_okD(5) [OF assms(1)] by simp
  moreover have "i < length (symbolNames t)" using assms SymbolTable_okD(3,4) [OF assms(1)] by simp
  ultimately show ?thesis using assms by (simp add: SymbolTable_GetName_def small_symbol(1) arr_simps)
qed

text \<open>What one call does: it answers the position of the name, appending it when it is new.\<close>

lemma GetSymbol_ok:
  assumes ok: "SymbolTable_ok hkey t" and c: "st_count t < 2 ^ 31"
  shows "\<exists>t' i. SymbolTable_GetSymbol hkey t (Some n) = Some (t', of_nat i) \<and> SymbolTable_ok hkey t' \<and>
     0 < i \<and> int i < st_count t' \<and> symbolNames t' ! i = Some n \<and>
     st_count t \<le> st_count t' \<and> st_count t' \<le> st_count t + 1 \<and>
     (\<forall>j. int j < st_count t \<longrightarrow> symbolNames t' ! j = symbolNames t ! j)"
proof (cases "StringDict_map (symbolLookup t) n")
  case None
  let ?c = "nat (st_count t)"
  obtain t' where "SymbolTableInt_AddSymbol hkey t (Some n) = Some (t', of_nat ?c)" "SymbolTable_ok hkey t'"
    "st_count t' = st_count t + 1" "symbolNames t' ! ?c = Some n"
    "\<forall>i. int i < st_count t \<longrightarrow> symbolNames t' ! i = symbolNames t ! i"
    using AddSymbol_ok [OF ok None c] by blast
  then show ?thesis
    using None lookup_value [OF ok, of n] SymbolTable_okD(2) [OF ok]
    by (intro exI [of _ t'] exI [of _ ?c]) (auto simp: SymbolTable_GetSymbol_def)
next
  case (Some v)
  then obtain i where i: "0 < i" "int i < st_count t" "symbolNames t ! i = Some n" "v = of_nat i"
    using SymbolTable_okD(7) [OF ok] by blast
  then have "i < 2 ^ 31" using c by simp
  then have "SymbolTable_GetSymbol hkey t (Some n) = Some (t, of_nat i)"
    using Some lookup_value [OF ok, of n] i
    by (simp add: SymbolTable_GetSymbol_def Let_def small_symbol(2,5))
  with i ok show ?thesis by (intro exI [of _ t] exI [of _ i]) auto
qed

lemma name_unique:
  assumes "SymbolTable_ok hkey t" and "0 < i" "int i < st_count t" "0 < j" "int j < st_count t"
    and "symbolNames t ! i = symbolNames t ! j"
  shows "i = j"
proof -
  obtain n where n: "symbolNames t ! i = Some n" using SymbolTable_okD(6) [OF assms(1-3)] by blast
  then have "StringDict_map (symbolLookup t) n = Some (of_nat i)" "StringDict_map (symbolLookup t) n = Some (of_nat j)"
    using SymbolTable_okD(7) [OF assms(1)] assms(2-6) by auto
  then have "(of_nat i :: int64) = of_nat j" by simp
  then show ?thesis using assms(3,5) SymbolTable_okD(5) [OF assms(1)] by (intro small_symbol(4)) auto
qed

lemma intern_all_ok:
  assumes "SymbolTable_ok hkey t" and "st_count t + int (length ns) \<le> 2 ^ 31"
  shows "\<exists>t' is. intern_all hkey t ns = Some (t', map of_nat is) \<and> SymbolTable_ok hkey t' \<and>
     length is = length ns \<and> st_count t \<le> st_count t' \<and> st_count t' \<le> st_count t + int (length ns) \<and>
     (\<forall>k<length ns. 0 < is ! k \<and> int (is ! k) < st_count t' \<and> symbolNames t' ! (is ! k) = Some (ns ! k)) \<and>
     (\<forall>j. int j < st_count t \<longrightarrow> symbolNames t' ! j = symbolNames t ! j)"
  using assms
proof (induction ns arbitrary: t)
  case Nil
  then show ?case by (intro exI [of _ t] exI [of _ "[]"]) auto
next
  case (Cons n ns)
  obtain t1 i where t1: "SymbolTable_GetSymbol hkey t (Some n) = Some (t1, of_nat i)" "SymbolTable_ok hkey t1"
    "0 < i" "int i < st_count t1" "symbolNames t1 ! i = Some n" "st_count t \<le> st_count t1"
    "st_count t1 \<le> st_count t + 1" "\<And>j. int j < st_count t \<Longrightarrow> symbolNames t1 ! j = symbolNames t ! j"
    using GetSymbol_ok [OF Cons.prems(1), of n] Cons.prems(2) by fastforce
  obtain t2 "is" where t2: "intern_all hkey t1 ns = Some (t2, map of_nat is)" "SymbolTable_ok hkey t2"
    "length is = length ns" "st_count t1 \<le> st_count t2" "st_count t2 \<le> st_count t1 + int (length ns)"
    "\<And>k. k < length ns \<Longrightarrow> 0 < is ! k \<and> int (is ! k) < st_count t2 \<and> symbolNames t2 ! (is ! k) = Some (ns ! k)"
    "\<And>j. int j < st_count t1 \<Longrightarrow> symbolNames t2 ! j = symbolNames t1 ! j"
    using Cons.IH [OF t1(2)] t1(7) Cons.prems(2) by auto
  have "intern_all hkey t (n # ns) = Some (t2, map of_nat (i # is))" using t1(1) t2(1) by simp
  then show ?case
    using t1 t2 by (intro exI [of _ t2] exI [of _ "i # is"]) (auto simp: nth_Cons split: nat.split)
qed

text \<open>
  C6: Interning any list of fewer than 2^31 names in a new symbol table succeeds; two names get
  the same symbol exactly when they are equal, no name gets symbol 0, and looking a symbol up
  afterwards gives back the name it was made from, whatever was interned in between.
\<close>

theorem SymbolTable_interning:
  assumes "length ns < 2 ^ 31"
  shows "\<exists>t0 t ss. SymbolTable_Create = Some t0 \<and> intern_all hkey t0 ns = Some (t, ss) \<and>
     SymbolTable_ok hkey t \<and> length ss = length ns \<and> st_count t \<le> 1 + int (length ns) \<and>
     (\<forall>i<length ns. ss ! i \<noteq> 0 \<and> SymbolTable_GetName t (ss ! i) = Some (Some (ns ! i)) \<and>
        SymbolTable_GetSymbol hkey t (Some (ns ! i)) = Some (t, ss ! i)) \<and>
     (\<forall>i<length ns. \<forall>j<length ns. ss ! i = ss ! j \<longleftrightarrow> ns ! i = ns ! j)"
proof -
  obtain t0 where t0: "SymbolTable_Create = Some t0" "SymbolTable_ok hkey t0" "st_count t0 = 1"
    using SymbolTable_Create_ok by blast
  obtain t "is" where t: "intern_all hkey t0 ns = Some (t, map of_nat is)" "SymbolTable_ok hkey t"
    "length is = length ns" "st_count t \<le> 1 + int (length ns)"
    "\<And>k. k < length ns \<Longrightarrow> 0 < is ! k \<and> int (is ! k) < st_count t \<and> symbolNames t ! (is ! k) = Some (ns ! k)"
    using intern_all_ok [OF t0(2), of ns] assms t0(3) by auto
  have small: "is ! k < 2 ^ 31" if "k < length ns" for k
    using t(5) [OF that] SymbolTable_okD(5) [OF t(2)] by simp
  have sym: "map of_nat is ! i \<noteq> (0::int32) \<and> SymbolTable_GetName t (map of_nat is ! i) = Some (Some (ns ! i)) \<and>
      SymbolTable_GetSymbol hkey t (Some (ns ! i)) = Some (t, map of_nat is ! i)" if "i < length ns" for i
  proof -
    have "StringDict_map (symbolLookup t) (ns ! i) = Some (of_nat (is ! i))"
      using SymbolTable_okD(7) [OF t(2)] t(5) [OF that] by blast
    then show ?thesis
      using t(3) t(5) [OF that] that small [OF that] GetName_nth [OF t(2), of "is ! i"] lookup_value [OF t(2), of "ns ! i"]
      by (simp add: SymbolTable_GetSymbol_def Let_def small_symbol(2,5))
  qed
  moreover have "(map of_nat is ! i :: int32) = map of_nat is ! j \<longleftrightarrow> ns ! i = ns ! j"
    if "i < length ns" "j < length ns" for i j
    using sym [OF that(1)] sym [OF that(2)] by (metis option.inject prod.inject)
  ultimately show ?thesis using t0(1) t(1-4) by (intro exI [of _ t0] exI [of _ t] exI [of _ "map of_nat is"]) auto
qed

theorem SymbolTable_interning_witness:
  "\<exists>t0 t ss. SymbolTable_Create = Some t0 \<and> intern_all 7 t0 [[97], [98, 99], [97], []] = Some (t, ss) \<and>
     length ss = 4 \<and> ss ! 0 = ss ! 2 \<and> ss ! 0 \<noteq> ss ! 1 \<and> SymbolTable_GetName t (ss ! 1) = Some (Some [98, 99])"
proof -
  obtain t0 t ss where "SymbolTable_Create = Some t0" "intern_all 7 t0 [[97], [98, 99], [97], []] = Some (t, ss)"
    "length ss = 4"
    "\<forall>i<4. SymbolTable_GetName t (ss ! i) = Some (Some ([[97], [98, 99], [97], []] ! i))"
    "\<forall>i<4. \<forall>j<4. ss ! i = ss ! j \<longleftrightarrow> [[97], [98, 99], [97], []] ! i = [[97::byte], [98, 99], [97], []] ! j"
    using SymbolTable_interning [of "[[97], [98, 99], [97], []]" 7] by auto
  then show ?thesis by (auto simp: numeral_eq_Suc)
qed

text \<open>
  The empty name is not symbol 0, although SymbolTable_Create preallocates slot 0 for it: a new
  table has no name for symbol 0, and interning the empty name makes it symbol 1.
\<close>

lemma SymbolTable_empty_name:
  "\<exists>t0 t. SymbolTable_Create = Some t0 \<and> SymbolTable_GetName t0 0 = Some None \<and>
     SymbolTable_GetSymbolNoCreate hkey t0 (Some []) = Some 0 \<and>
     SymbolTable_GetSymbol hkey t0 (Some []) = Some (t, 1) \<and> SymbolTable_GetName t 1 = Some (Some [])"
proof -
  obtain t0 where t0: "SymbolTable_Create = Some t0" "SymbolTable_ok hkey t0" "st_count t0 = 1"
    using SymbolTable_Create_ok by blast
  then have new: "StringDict_map (symbolLookup t0) [] = None"
    using SymbolTable_okD(7) [OF t0(2), of "[]"] by (cases "StringDict_map (symbolLookup t0) []") auto
  obtain t where t: "SymbolTableInt_AddSymbol hkey t0 (Some []) = Some (t, 1)" "SymbolTable_ok hkey t"
    "st_count t = 2" "symbolNames t ! 1 = Some []" using AddSymbol_ok [OF t0(2) new] t0(3) by auto
  have "SymbolTable_GetName t 1 = Some (Some [])" using GetName_nth [OF t(2), of 1] t(3,4) by simp
  moreover have "SymbolTable_GetSymbol hkey t0 (Some []) = Some (t, 1)"
    "SymbolTable_GetSymbolNoCreate hkey t0 (Some []) = Some 0"
    using new lookup_value [OF t0(2), of "[]"] t(1)
    by (simp_all add: SymbolTable_GetSymbol_def SymbolTable_GetSymbolNoCreate_def)
  moreover have "SymbolTable_GetName t0 0 = Some None" by (simp add: SymbolTable_GetName_def)
  ultimately show ?thesis using t0(1) by blast
qed

end
