(* ===== verification/Integers.thy ===== *)
theory Integers
  imports BitTwiddling
begin

text \<open>
  The methods of Smile's \<^verbatim>\<open>Integer64\<close> values
  (\<^verbatim>\<open>smilelib/src/smiletypes/numeric/smileinteger64_base.generated.c\<close>). An Int64 is a 64-bit word whose
  signed reading is \<open>sint\<close>; addition, subtraction and multiplication wrap, as the generated code
  does under two's complement. A method receives the list of its (type-checked) arguments; the
  methods of the \<^verbatim>\<open>_loudMath\<close> family raise an exception where those of the \<^verbatim>\<open>_quietMath\<close> family
  answer 0.
\<close>

section \<open>Results\<close>

datatype smile_exception = NativeMethodError string

type_synonym 'a smile_result = "smile_exception + 'a"

definition div_by_zero :: string where "div_by_zero = ''Divide by zero error''"
definition negative_log :: string where "negative_log = ''Logarithm of negative or zero value''"
definition negative_sqrt :: string where "negative_sqrt = ''Square root of negative number''"

section \<open>Variadic arithmetic\<close>

text \<open>
  The shape of \<^verbatim>\<open>Plus\<close>, \<^verbatim>\<open>Minus\<close>, \<^verbatim>\<open>Star\<close> and the like: a switch over the number of arguments that
  unrolls the loop for up to four of them. \<open>None\<close> is the read of a missing first argument.
\<close>

fun fold_loop :: "(int64 \<Rightarrow> int64 \<Rightarrow> int64) \<Rightarrow> int64 \<Rightarrow> int64 list \<Rightarrow> int64" where
  "fold_loop f x [] = x"
| "fold_loop f x (y # ys) = fold_loop f (f x y) ys"

fun fold_args :: "(int64 \<Rightarrow> int64 \<Rightarrow> int64) \<Rightarrow> int64 list \<Rightarrow> int64 option" where
  "fold_args f [] = None"
| "fold_args f [a] = Some a"
| "fold_args f [a, b] = Some (f a b)"
| "fold_args f [a, b, c] = Some (f (f a b) c)"
| "fold_args f [a, b, c, d] = Some (f (f (f a b) c) d)"
| "fold_args f (a # rest) = Some (fold_loop f a rest)"

definition Plus :: "int64 list \<Rightarrow> int64 option" where
  "Plus argv = fold_args (+) argv"

definition Minus :: "int64 list \<Rightarrow> int64 option" where
  "Minus argv = (case argv of [a] \<Rightarrow> Some (- a) | _ \<Rightarrow> fold_args (-) argv)"

definition Star :: "int64 list \<Rightarrow> int64 option" where
  "Star argv = fold_args (*) argv"

definition UStar :: "int64 list \<Rightarrow> int64 option" where
  "UStar argv = fold_args (*) argv"

definition FMA :: "int64 \<Rightarrow> int64 \<Rightarrow> int64 \<Rightarrow> int64" where
  "FMA x y z = x + y * z"

definition Min_args :: "int64 list \<Rightarrow> int64 option" where
  "Min_args argv = fold_args (\<lambda>x y. if y <s x then y else x) argv"

definition UMin_args :: "int64 list \<Rightarrow> int64 option" where
  "UMin_args argv = fold_args (\<lambda>x y. if y < x then y else x) argv"

definition Max_args :: "int64 list \<Rightarrow> int64 option" where
  "Max_args argv = fold_args (\<lambda>x y. if x <s y then y else x) argv"

definition UMax_args :: "int64 list \<Rightarrow> int64 option" where
  "UMax_args argv = fold_args (\<lambda>x y. if x < y then y else x) argv"

definition BitAnd :: "int64 list \<Rightarrow> int64 option" where
  "BitAnd argv = fold_args (AND) argv"

definition BitOr :: "int64 list \<Rightarrow> int64 option" where
  "BitOr argv = fold_args (OR) argv"

definition BitXor :: "int64 list \<Rightarrow> int64 option" where
  "BitXor argv = fold_args (XOR) argv"

section \<open>Division\<close>

definition DivideByZero :: "bool \<Rightarrow> int64 smile_result" where
  "DivideByZero isLoud = (if isLoud then Inl (NativeMethodError div_by_zero) else Inr 0)"

text \<open>The casts to \<^verbatim>\<open>UInt64\<close> make every quotient an unsigned one.\<close>

definition CDiv :: "int64 \<Rightarrow> int64 \<Rightarrow> int64" where
  "CDiv dividend divisor =
     (if dividend <s 0 then
        if divisor <s 0 then (- dividend) div (- divisor)
        else - ((- dividend) div divisor)
      else if divisor <s 0 then - (dividend div (- divisor))
      else dividend div divisor)"

definition MathematiciansDiv :: "int64 \<Rightarrow> int64 \<Rightarrow> int64" where
  "MathematiciansDiv dividend divisor =
     (if dividend <s 0 then
        if divisor <s 0 then (- dividend) div (- divisor)
        else let positiveQuotient = (- dividend) div divisor;
                 positiveRemainder = (- dividend) mod divisor
             in if positiveRemainder = 0 then - positiveQuotient else - positiveQuotient - 1
      else if divisor <s 0 then
        let positiveQuotient = dividend div (- divisor);
            positiveRemainder = dividend mod (- divisor)
        in if positiveRemainder = 0 then - positiveQuotient else - positiveQuotient - 1
      else dividend div divisor)"

fun div_loop :: "bool \<Rightarrow> (int64 \<Rightarrow> int64 \<Rightarrow> int64) \<Rightarrow> int64 \<Rightarrow> int64 list \<Rightarrow> int64 smile_result" where
  "div_loop isLoud f x [] = Inr x"
| "div_loop isLoud f x (y # ys) = (if y = 0 then DivideByZero isLoud else div_loop isLoud f (f x y) ys)"

text \<open>The switch of \<^verbatim>\<open>Slash\<close>, \<^verbatim>\<open>USlash\<close> and \<^verbatim>\<open>Div\<close>; each divisor is tested before it is used.\<close>

fun div_args :: "bool \<Rightarrow> (int64 \<Rightarrow> int64 \<Rightarrow> int64) \<Rightarrow> int64 list \<Rightarrow> int64 smile_result option" where
  "div_args isLoud f [] = None"
| "div_args isLoud f [x, y] = Some (if y = 0 then DivideByZero isLoud else Inr (f x y))"
| "div_args isLoud f [x, y, z] =
     Some (if y = 0 then DivideByZero isLoud
           else if z = 0 then DivideByZero isLoud else Inr (f (f x y) z))"
| "div_args isLoud f [x, y, z, w] =
     Some (if y = 0 then DivideByZero isLoud
           else if z = 0 then DivideByZero isLoud
           else if w = 0 then DivideByZero isLoud else Inr (f (f (f x y) z) w))"
| "div_args isLoud f (x # rest) = Some (div_loop isLoud f x rest)"

definition Slash :: "bool \<Rightarrow> int64 list \<Rightarrow> int64 smile_result option" where
  "Slash isLoud argv = div_args isLoud MathematiciansDiv argv"

definition USlash :: "bool \<Rightarrow> int64 list \<Rightarrow> int64 smile_result option" where
  "USlash isLoud argv = div_args isLoud (div) argv"

definition Div :: "bool \<Rightarrow> int64 list \<Rightarrow> int64 smile_result option" where
  "Div isLoud argv = div_args isLoud CDiv argv"

text \<open>C's \<^verbatim>\<open>%\<close> on two \<^verbatim>\<open>Int64\<close>s: the remainder of the division that rounds towards zero.\<close>

definition c_rem :: "int64 \<Rightarrow> int64 \<Rightarrow> int64" where
  "c_rem x y = word_of_int (sgn (sint x) * (\<bar>sint x\<bar> mod \<bar>sint y\<bar>))"

definition MathematiciansModulus :: "int64 \<Rightarrow> int64 \<Rightarrow> int64" where
  "MathematiciansModulus x y =
     (if x <s 0 then
        if y <s 0 then - c_rem (- x) (- y)
        else let rem = c_rem (- x) y in if rem \<noteq> 0 then y - rem else 0
      else if y <s 0 then let rem = c_rem x (- y) in if rem \<noteq> 0 then y + rem else 0
      else c_rem x y)"

definition MathematiciansRemainder :: "int64 \<Rightarrow> int64 \<Rightarrow> int64" where
  "MathematiciansRemainder x y =
     (if x <s 0 then
        if y <s 0 then let rem = c_rem (- x) (- y) in if rem \<noteq> 0 then rem + y else 0
        else - c_rem (- x) y
      else if y <s 0 then c_rem x (- y)
      else let rem = c_rem x y in if rem \<noteq> 0 then rem - y else 0)"

definition Mod :: "bool \<Rightarrow> int64 \<Rightarrow> int64 \<Rightarrow> int64 smile_result" where
  "Mod isLoud x y = (if y = 0 then DivideByZero isLoud else Inr (MathematiciansModulus x y))"

definition UMod :: "bool \<Rightarrow> int64 \<Rightarrow> int64 \<Rightarrow> int64 smile_result" where
  "UMod isLoud x y = (if y = 0 then DivideByZero isLoud else Inr (x mod y))"

definition Rem :: "bool \<Rightarrow> int64 \<Rightarrow> int64 \<Rightarrow> int64 smile_result" where
  "Rem isLoud x y = (if y = 0 then DivideByZero isLoud else Inr (MathematiciansRemainder x y))"

section \<open>Simple functions\<close>

definition Sign :: "int64 \<Rightarrow> int64" where
  "Sign value = (if value = 0 then 0 else if 0 <s value then 1 else -1)"

definition Abs :: "int64 \<Rightarrow> int64" where
  "Abs value = (if value <s 0 then - value else value)"

definition Clip :: "int64 \<Rightarrow> int64 \<Rightarrow> int64 \<Rightarrow> int64" where
  "Clip value mn mx =
     (if mx <s value then (if mx <s mn then mn else mx)
      else if value <s mn then mn else value)"

definition UClip :: "int64 \<Rightarrow> int64 \<Rightarrow> int64 \<Rightarrow> int64" where
  "UClip value mn mx =
     (if mx < value then (if mx < mn then mn else mx)
      else if value < mn then mn else value)"

definition Ramp :: "int64 \<Rightarrow> int64" where
  "Ramp value = (if 0 \<le>s value then value else 0)"

definition Heaviside :: "int64 \<Rightarrow> int64" where
  "Heaviside value = (if value \<le>s 0 then 0 else 1)"

definition RectTri :: "int64 \<Rightarrow> int64" where
  "RectTri value0 = (let value = (if value0 <s 0 then - value0 else value0) in if 0 <s value then 0 else 1)"

definition Compare :: "int64 \<Rightarrow> int64 \<Rightarrow> int64" where
  "Compare x y = (if x = y then 0 else if x <s y then -1 else 1)"

definition UCompare :: "int64 \<Rightarrow> int64 \<Rightarrow> int64" where
  "UCompare x y = (if x = y then 0 else if x < y then -1 else 1)"

section \<open>Powers, roots and logarithms\<close>

function int_power_loop :: "int64 \<Rightarrow> int64 \<Rightarrow> int64 \<Rightarrow> int64" where
  "int_power_loop result value exponent =
     (if 0 <s exponent
      then int_power_loop (if exponent AND 1 \<noteq> 0 then result * value else result)
             (value * value) (signed_drop_bit 1 exponent)
      else result)"
  by pat_completeness auto

lemma half_positive:
  "sint (signed_drop_bit (Suc 0) (e :: int64)) = sint e div 2"
  by (simp add: sint_signed_drop_bit_eq drop_bit_eq_div)

termination int_power_loop
  by (relation "measure (\<lambda>(r, v, e). nat (sint e))") (auto simp: half_positive word_sless_alt)

declare int_power_loop.simps [simp del]

definition IntPower :: "int64 \<Rightarrow> int64 \<Rightarrow> int64" where
  "IntPower value exponent = (if exponent <s 0 then 0 else int_power_loop 1 value exponent)"

definition Power :: "int64 list \<Rightarrow> int64 option" where
  "Power argv = fold_args IntPower argv"

function IntSqrt_loop :: "64 word \<Rightarrow> 64 word \<Rightarrow> 64 word \<Rightarrow> 64 word" where
  "IntSqrt_loop value root b =
     (let trial = root + b;
          (value, root) = (if trial \<le> value then (value - trial, trial + b) else (value, root));
          root = drop_bit 1 root;
          b = drop_bit 2 b
      in if b \<noteq> 0 then IntSqrt_loop value root b else root)"
  by pat_completeness auto

lemma quarter_less: "drop_bit 2 (b :: 64 word) \<noteq> 0 \<Longrightarrow> unat (drop_bit 2 b) < unat b"
proof -
  assume nz: "drop_bit 2 b \<noteq> 0"
  have eq: "unat (drop_bit 2 b) = unat b div 4" by (simp add: unat_div drop_bit_eq_div)
  have "unat (drop_bit 2 b) \<noteq> 0" using nz by (simp add: unat_0_iff)
  with eq show ?thesis by linarith
qed

termination IntSqrt_loop
  by (relation "measure (\<lambda>(v, r, b). unat b)") (auto simp: quarter_less)

declare IntSqrt_loop.simps [simp del]

definition IntSqrt :: "64 word \<Rightarrow> 64 word" where
  "IntSqrt value =
     IntSqrt_loop value 0
       (if value \<ge> 0x100000000 then push_bit 62 1
        else if value \<ge> 0x10000 then push_bit 30 1 else push_bit 14 1)"

definition Sqrt :: "bool \<Rightarrow> int64 \<Rightarrow> int64 smile_result" where
  "Sqrt isLoud value =
     (if value <s 0 then (if isLoud then Inl (NativeMethodError negative_sqrt) else Inr 0)
      else Inr (IntSqrt value))"

definition Pow2Q :: "int64 \<Rightarrow> bool" where
  "Pow2Q value \<longleftrightarrow> 0 <s value \<and> value AND (value - 1) = 0"

definition NextPow2 :: "int64 \<Rightarrow> int64" where
  "NextPow2 value =
     (if value <s 0 then 0 else if value = 0 then 1
      else let uvalue = value - 1;
               uvalue = uvalue OR drop_bit 1 uvalue;
               uvalue = uvalue OR drop_bit 2 uvalue;
               uvalue = uvalue OR drop_bit 4 uvalue;
               uvalue = uvalue OR drop_bit 8 uvalue;
               uvalue = uvalue OR drop_bit 16 uvalue;
               uvalue = uvalue OR drop_bit 32 uvalue
           in uvalue + 1)"

definition lg_step :: "64 word \<Rightarrow> nat \<Rightarrow> 64 word \<times> 64 word \<Rightarrow> 64 word \<times> 64 word" where
  "lg_step m s p = (if fst p AND m \<noteq> 0 then (drop_bit s (fst p), snd p + of_nat s) else p)"

definition IntLg :: "bool \<Rightarrow> int64 \<Rightarrow> int64 smile_result" where
  "IntLg isLoud value =
     (if value \<le>s 0 then (if isLoud then Inl (NativeMethodError negative_log) else Inr 0)
      else let p = (value, 0);
               p = lg_step 0xFFFFFFFF00000000 32 p;
               p = lg_step 0x00000000FFFF0000 16 p;
               p = lg_step 0x000000000000FF00 8 p;
               p = lg_step 0x00000000000000F0 4 p;
               p = lg_step 0x000000000000000C 2 p;
               p = lg_step 0x0000000000000002 1 p
           in Inr (snd p))"

definition Half :: "int64 \<Rightarrow> int64" where
  "Half value = signed_drop_bit 1 value"

definition UHalf :: "int64 \<Rightarrow> int64" where
  "UHalf value = drop_bit 1 value"

definition Double_int :: "int64 \<Rightarrow> int64" where
  "Double_int value = push_bit 1 value"

section \<open>Number theory\<close>

text \<open>
  \<^verbatim>\<open>CalculateBinaryGcd\<close>: its three loops end only for arguments that are not zero, so they are
  partial here.
\<close>

partial_function (option) gcd_shift :: "64 word \<Rightarrow> 64 word \<Rightarrow> nat \<Rightarrow> (64 word \<times> 64 word \<times> nat) option" where
  "gcd_shift a b shift =
     (if (a OR b) AND 1 = 0 then gcd_shift (drop_bit 1 a) (drop_bit 1 b) (shift + 1)
      else Some (a, b, shift))"

partial_function (option) strip_twos :: "64 word \<Rightarrow> (64 word) option" where
  "strip_twos a = (if a AND 1 = 0 then strip_twos (drop_bit 1 a) else Some a)"

partial_function (option) gcd_loop :: "64 word \<Rightarrow> 64 word \<Rightarrow> (64 word) option" where
  "gcd_loop a b0 =
     Option.bind (strip_twos b0) (\<lambda>b.
       let (a, b) = (if b < a then (b, a) else (a, b));
           b = b - a
       in if b \<noteq> 0 then gcd_loop a b else Some a)"

definition CalculateBinaryGcd :: "64 word \<Rightarrow> 64 word \<Rightarrow> (64 word) option" where
  "CalculateBinaryGcd a b =
     do { (a, b, shift) \<leftarrow> gcd_shift a b 0;
          a \<leftarrow> strip_twos a;
          a \<leftarrow> gcd_loop a b;
          Some (push_bit shift a) }"

definition Gcd_method :: "int64 \<Rightarrow> int64 \<Rightarrow> int64 option" where
  "Gcd_method value1 value2 =
     (if value1 \<le>s 0 \<or> value2 \<le>s 0 then Some 0 else CalculateBinaryGcd value1 value2)"

definition IsCoprime :: "int64 \<Rightarrow> int64 \<Rightarrow> bool option" where
  "IsCoprime value1 value2 =
     (if value1 \<le>s 0 \<or> value2 \<le>s 0 then Some False
      else do { g \<leftarrow> CalculateBinaryGcd value1 value2; Some (g = 1) })"

definition Lcm_method :: "int64 \<Rightarrow> int64 \<Rightarrow> int64 option" where
  "Lcm_method value1 value2 =
     (if value1 \<le>s 0 \<or> value2 \<le>s 0 then Some 0
      else do { g \<leftarrow> CalculateBinaryGcd value1 value2; Some ((value1 div g) * value2) })"

end
