(* ===== verification/IntegersCorrect.thy ===== *)
theory IntegersCorrect
  imports Integers
begin

text \<open>
  Correctness of the \<^verbatim>\<open>Integer64\<close> methods against the mathematical operations on integers.
\<close>

section \<open>Signed and unsigned readings\<close>

lemma sless_zero: "(a :: int64) <s 0 \<longleftrightarrow> sint a < 0"
  by (simp add: word_sless_alt)

lemma uint_of_signed: "uint (a :: int64) = sint a mod 2 ^ 64"
proof -
  have "uint (word_of_int (sint a) :: int64) = sint a mod 2 ^ LENGTH(64)" by (rule uint_word_of_int)
  then show ?thesis by (simp only: of_int_sint scast_id len_num1 len_bit0) simp
qed

lemma sint_range: "- (2 ^ 63) \<le> sint (a :: int64)" "sint (a :: int64) < 2 ^ 63"
  using sint_ge [of a] sint_lt [of a] by simp_all

lemma uint_nonneg: "0 \<le> sint a \<Longrightarrow> uint (a :: int64) = sint a"
  unfolding uint_of_signed using sint_range [of a] by (intro mod_pos_pos_trivial) auto

lemma uint_minus_neg: "sint a < 0 \<Longrightarrow> uint (- a :: int64) = - sint a"
proof -
  assume n: "sint a < 0"
  have "uint (- a) = (- uint a) mod 2 ^ 64" by (simp add: uint_word_ariths)
  also have "\<dots> = (- sint a) mod 2 ^ 64" by (simp add: uint_of_signed mod_minus_eq)
  also have "\<dots> = - sint a" using sint_range [of a] n by (intro mod_pos_pos_trivial) auto
  finally show ?thesis .
qed

lemma sint_small: "uint (w :: int64) < 2 ^ 63 \<Longrightarrow> sint w = uint w"
proof -
  assume "uint w < 2 ^ 63"
  then have "signed_take_bit 63 (uint w) = uint w"
    using uint_ge_0 [of w] zero_less_power [of "2::int" 63] by (intro signed_take_bit_int_eq_self) linarith+
  then show ?thesis by (simp add: sint_uint)
qed

lemma sint_minus_small: "uint (w :: int64) \<le> 2 ^ 63 \<Longrightarrow> sint (- w) = - uint w"
proof -
  assume le: "uint w \<le> 2 ^ 63"
  have "sint (- w) = signed_take_bit 63 (- uint w)"
    by (simp add: sint_uint uint_word_ariths signed_take_bit_eq_iff_take_bit_eq take_bit_eq_mod)
  also have "\<dots> = - uint w" using le uint_ge_0 [of w] zero_less_power [of "2::int" 63]
    by (intro signed_take_bit_int_eq_self) linarith+
  finally show ?thesis .
qed

lemma sint_zero_iff: "sint (a :: int64) = 0 \<longleftrightarrow> a = 0"
proof
  assume "sint a = 0"
  then have "uint a = 0" by (simp add: uint_of_signed)
  then show "a = 0" by (simp add: uint_0_iff)
qed simp

section \<open>Division\<close>

lemma uint_quotient: "uint ((x :: int64) div y) = uint x div uint y" "uint ((x :: int64) mod y) = uint x mod uint y"
  by (simp_all add: uint_div uint_mod)

lemma quotient_le: "0 \<le> a \<Longrightarrow> 0 < b \<Longrightarrow> (a::int) div b \<le> a"
  using zdiv_mono2 [of a 1 b] by simp

lemma CDiv_sint:
  assumes "y \<noteq> 0" and "\<not> (sint x = - (2 ^ 63) \<and> sint y = -1)"
  shows "sint (CDiv x y) = sgn (sint x) * sgn (sint y) * (\<bar>sint x\<bar> div \<bar>sint y\<bar>)"
proof -
  have y0: "sint y \<noteq> 0" using assms(1) by (simp add: sint_zero_iff)
  have q: "\<bar>sint x\<bar> div \<bar>sint y\<bar> \<le> 2 ^ 63"
    using quotient_le [of "\<bar>sint x\<bar>" "\<bar>sint y\<bar>"] sint_range [of x] y0 by linarith
  show ?thesis
  proof (cases "sint x < 0")
    case xneg: True
    show ?thesis
    proof (cases "sint y < 0")
      case True
      have "(- sint x) div (- sint y) < 2 ^ 63"
      proof (cases "sint y = -1")
        case False
        then have "(- sint x) div (- sint y) \<le> (- sint x) div 2"
          using True xneg by (intro zdiv_mono2) auto
        then show ?thesis using sint_range [of x] by linarith
      qed (use assms(2) sint_range [of x] in simp)
      then have "sint ((- x) div (- y)) = (- sint x) div (- sint y)"
        by (subst sint_small) (simp_all add: uint_quotient uint_minus_neg xneg True)
      then show ?thesis using xneg True by (simp add: CDiv_def sless_zero)
    next
      case False
      then have "sint (- ((- x) div y)) = - ((- sint x) div sint y)"
        using q xneg by (subst sint_minus_small) (simp_all add: uint_quotient uint_minus_neg uint_nonneg)
      then show ?thesis using xneg False y0 by (simp add: CDiv_def sless_zero)
    qed
  next
    case xpos: False
    have qx: "sint x div \<bar>sint y\<bar> < 2 ^ 63"
      using quotient_le [of "sint x" "\<bar>sint y\<bar>"] sint_range [of x] y0 xpos by linarith
    show ?thesis
    proof (cases "sint y < 0")
      case True
      then have "sint (- (x div (- y))) = - (sint x div (- sint y))"
        using q xpos by (subst sint_minus_small) (simp_all add: uint_quotient uint_minus_neg uint_nonneg)
      then show ?thesis using xpos True by (cases "sint x = 0") (simp_all add: CDiv_def sless_zero)
    next
      case False
      then have "sint (x div y) = sint x div sint y"
        using qx xpos by (subst sint_small) (simp_all add: uint_quotient uint_nonneg)
      then show ?thesis using xpos False y0 by (cases "sint x = 0") (simp_all add: CDiv_def sless_zero)
    qed
  qed
qed

text \<open>The rounding of a negative quotient, on words and on integers.\<close>

lemma floor_word:
  assumes "0 \<le> uint (n :: int64)" "uint n \<le> 2 ^ 63" "0 < uint d" "uint d \<le> 2 ^ 63"
  shows "sint (if n mod d = 0 then - (n div d) else - (n div d) - 1) = (- uint n) div uint d"
proof (cases "uint n mod uint d = 0")
  case True
  then have "n mod d = 0" by (simp add: uint_0_iff [symmetric] uint_quotient)
  moreover have "uint (n div d) \<le> 2 ^ 63"
    using quotient_le [OF assms(1,3)] assms(2) by (simp add: uint_quotient)
  ultimately show ?thesis
    using True zdiv_zminus1_eq_if [of "uint d" "uint n"] assms(3) by (simp add: sint_minus_small uint_quotient)
next
  case False
  then have nz: "n mod d \<noteq> 0" by (auto simp: uint_0_iff [symmetric] uint_quotient)
  have d2: "2 \<le> uint d" using False assms(3) by (cases "uint d = 1") auto
  then have "uint n div uint d \<le> uint n div 2" using assms(1) by (intro zdiv_mono2) auto
  moreover have "uint n div 2 \<le> 2 ^ 62" using assms(2) by simp
  ultimately have q: "uint n div uint d \<le> 2 ^ 62" by (rule order_trans)
  have "- (n div d) - 1 = - (n div d + 1)" by simp
  moreover have "uint (n div d + 1) = uint n div uint d + 1"
    using q assms(1,3) pos_imp_zdiv_nonneg_iff [OF assms(3), of "uint n"]
    by (simp add: uint_word_ariths uint_quotient)
  ultimately have "sint (- (n div d) - 1) = - (uint n div uint d + 1)"
    using q by (simp only:) (subst sint_minus_small, simp_all)
  then show ?thesis using nz False zdiv_zminus1_eq_if [of "uint d" "uint n"] assms(3) by simp
qed

lemma abs_uint:
  "sint a < 0 \<Longrightarrow> uint (- a :: int64) \<le> 2 ^ 63" "0 \<le> sint a \<Longrightarrow> uint (a :: int64) \<le> 2 ^ 63"
  using sint_range [of a] by (simp_all add: uint_minus_neg uint_nonneg)

lemma MathematiciansDiv_sint:
  assumes "y \<noteq> 0" and "\<not> (sint x = - (2 ^ 63) \<and> sint y = -1)"
  shows "sint (MathematiciansDiv x y) = sint x div sint y"
proof -
  have y0: "sint y \<noteq> 0" using assms(1) by (simp add: sint_zero_iff)
  consider "sint x < 0" "sint y < 0" | "sint x < 0" "0 < sint y" | "0 \<le> sint x" "sint y < 0" | "0 \<le> sint x" "0 < sint y"
    using y0 by linarith
  then show ?thesis
  proof cases
    case 1
    then have "MathematiciansDiv x y = CDiv x y" by (simp add: MathematiciansDiv_def CDiv_def sless_zero)
    then show ?thesis using CDiv_sint [OF assms] 1 by simp
  next
    case 2
    then have "sint (MathematiciansDiv x y) = (- uint (- x)) div uint y"
      using floor_word [of "- x" y] abs_uint by (simp add: MathematiciansDiv_def sless_zero Let_def uint_nonneg uint_minus_neg)
    then show ?thesis using 2 by (simp add: uint_minus_neg uint_nonneg)
  next
    case 3
    then have "sint (MathematiciansDiv x y) = (- uint x) div uint (- y)"
      using floor_word [of x "- y"] abs_uint by (simp add: MathematiciansDiv_def sless_zero Let_def uint_nonneg uint_minus_neg)
    then show ?thesis using 3 by (simp add: uint_minus_neg uint_nonneg)
  next
    case 4
    then have "MathematiciansDiv x y = CDiv x y" by (simp add: MathematiciansDiv_def CDiv_def sless_zero)
    then show ?thesis using CDiv_sint [OF assms] 4 by (cases "sint x = 0") simp_all
  qed
qed

section \<open>Remainders\<close>

lemma sint_of_small: "- (2 ^ 63) \<le> k \<Longrightarrow> k < 2 ^ 63 \<Longrightarrow> sint (word_of_int k :: int64) = k"
  by (simp add: signed_of_int signed_take_bit_int_eq_self)

lemma c_rem_sint: "y \<noteq> 0 \<Longrightarrow> sint (c_rem x y) = sgn (sint x) * (\<bar>sint x\<bar> mod \<bar>sint y\<bar>)"
proof -
  assume "y \<noteq> 0"
  then have "0 < \<bar>sint y\<bar>" by (simp add: sint_zero_iff)
  then have "0 \<le> \<bar>sint x\<bar> mod \<bar>sint y\<bar>" "\<bar>sint x\<bar> mod \<bar>sint y\<bar> < \<bar>sint y\<bar>" by auto
  then show ?thesis
    unfolding c_rem_def using sint_range [of y]
    by (intro sint_of_small) (auto simp: sgn_if)
qed

lemma sint_neg: "sint a \<noteq> - (2 ^ 63) \<Longrightarrow> sint (- a :: int64) = - sint a"
proof -
  assume "sint a \<noteq> - (2 ^ 63)"
  then have "sint (word_of_int (- sint a) :: int64) = - sint a"
    using sint_range [of a] by (intro sint_of_small) auto
  then show ?thesis by simp
qed

lemma sint_add: "- (2 ^ 63) \<le> sint a + sint b \<Longrightarrow> sint a + sint b < 2 ^ 63 \<Longrightarrow> sint (a + b :: int64) = sint a + sint b"
  using sint_of_small [of "sint a + sint b"] by simp

lemma sint_sub: "- (2 ^ 63) \<le> sint a - sint b \<Longrightarrow> sint a - sint b < 2 ^ 63 \<Longrightarrow> sint (a - b :: int64) = sint a - sint b"
  using sint_of_small [of "sint a - sint b"] by simp

lemma MathematiciansModulus_sint:
  assumes "y \<noteq> 0" and "sint x \<noteq> - (2 ^ 63)" and "sint y \<noteq> - (2 ^ 63)"
  shows "sint (MathematiciansModulus x y) = sint x mod sint y"
proof -
  have y0: "sint y \<noteq> 0" "- y \<noteq> 0" using assms(1) by (simp_all add: sint_zero_iff)
  note r = sint_range [of x] sint_range [of y]
  note n = sint_neg [OF assms(2)] sint_neg [OF assms(3)]
  consider "sint x < 0" "sint y < 0" | "sint x < 0" "0 < sint y" | "0 \<le> sint x" "sint y < 0" | "0 \<le> sint x" "0 < sint y"
    using y0 by linarith
  then show ?thesis
  proof cases
    case 1
    have c: "sint (c_rem (- x) (- y)) = - (sint x mod sint y)"
      using c_rem_sint [OF y0(2), of "- x"] 1 by (simp add: n mod_minus_minus)
    moreover have "sint (c_rem (- x) (- y)) \<noteq> - (2 ^ 63)" using c neg_mod_bound [OF 1(2), of "sint x"] neg_mod_sign [OF 1(2), of "sint x"] r by linarith
    ultimately show ?thesis using 1 by (simp add: MathematiciansModulus_def sless_zero sint_neg)
  next
    case 2
    have c: "sint (c_rem (- x) y) = (- sint x) mod sint y"
      using c_rem_sint [OF assms(1), of "- x"] 2 by (simp add: n)
    have b: "0 \<le> (- sint x) mod sint y" "(- sint x) mod sint y < sint y" using 2 by auto
    show ?thesis
    proof (cases "(- sint x) mod sint y = 0")
      case True
      then have "c_rem (- x) y = 0" "sint x mod sint y = 0"
        using c by (simp_all add: sint_zero_iff mod_eq_0_iff_dvd)
      then show ?thesis using 2 by (simp add: MathematiciansModulus_def sless_zero)
    next
      case False
      then have "c_rem (- x) y \<noteq> 0" using c by (simp add: sint_zero_iff [symmetric])
      moreover have "sint (y - c_rem (- x) y) = sint y - (- sint x) mod sint y"
        using c b r by (subst sint_sub) auto
      moreover have "sint x mod sint y = sint y - (- sint x) mod sint y"
        using zmod_zminus1_eq_if [of "- sint x" "sint y"] False by simp
      ultimately show ?thesis using 2 by (simp add: MathematiciansModulus_def sless_zero Let_def)
    qed
  next
    case 3
    have c: "sint (c_rem x (- y)) = sint x mod (- sint y)"
      using c_rem_sint [OF y0(2), of x] 3 by (cases "sint x = 0") (simp_all add: n)
    have b: "0 \<le> sint x mod (- sint y)" "sint x mod (- sint y) < - sint y" using 3 by auto
    have m: "sint x mod sint y = (if sint x mod (- sint y) = 0 then 0 else sint x mod (- sint y) + sint y)"
      using zmod_zminus2_eq_if [of "sint x" "- sint y"] by simp
    show ?thesis
    proof (cases "sint x mod (- sint y) = 0")
      case True
      then have "c_rem x (- y) = 0" using c by (simp add: sint_zero_iff)
      then show ?thesis using 3 True m by (simp add: MathematiciansModulus_def sless_zero)
    next
      case False
      then have "c_rem x (- y) \<noteq> 0" using c by (simp add: sint_zero_iff [symmetric])
      moreover have "sint (y + c_rem x (- y)) = sint y + sint x mod (- sint y)"
        using c b r by (subst sint_add) auto
      ultimately show ?thesis using 3 False m by (simp add: MathematiciansModulus_def sless_zero Let_def)
    qed
  next
    case 4
    have "sint (c_rem x y) = sint x mod sint y"
      using c_rem_sint [OF assms(1), of x] 4 by (cases "sint x = 0") simp_all
    then show ?thesis using 4 by (simp add: MathematiciansModulus_def sless_zero)
  qed
qed



lemma div_args_loop: "xs \<noteq> [] \<Longrightarrow> div_args loud f (x # xs) = Some (div_loop loud f x xs)"
  by (cases "(loud, f, x # xs)" rule: div_args.cases) auto

lemma div_loop_zero: "0 \<in> set ys \<Longrightarrow> div_loop loud f x ys = DivideByZero loud"
  by (induction ys arbitrary: x) auto

text \<open>
  C31: Every division method tests its divisor first: with a zero divisor, in any position of the
  argument list of / and Div, the loud versions raise the divide-by-zero exception and the quiet
  ones answer 0.
\<close>

theorem division_by_zero:
  assumes "0 \<in> set ys"
  shows "Slash loud (x # ys) = Some (DivideByZero loud) \<and> USlash loud (x # ys) = Some (DivideByZero loud) \<and>
     Div loud (x # ys) = Some (DivideByZero loud) \<and> Mod loud x 0 = DivideByZero loud \<and>
     UMod loud x 0 = DivideByZero loud \<and> Rem loud x 0 = DivideByZero loud \<and>
     DivideByZero True = Inl (NativeMethodError div_by_zero) \<and> DivideByZero False = Inr 0"
proof -
  have "ys \<noteq> []" using assms by auto
  then show ?thesis
    using div_loop_zero [OF assms]
    by (simp add: Slash_def USlash_def Div_def Mod_def UMod_def Rem_def DivideByZero_def div_args_loop)
qed

theorem division_by_zero_witness:
  "Slash True [12, 3, 0, 5] = Some (Inl (NativeMethodError div_by_zero)) \<and> Slash False [12, 3, 0, 5] = Some (Inr 0)"
  using division_by_zero [of "[3, 0, 5]" True 12] division_by_zero [of "[3, 0, 5]" False 12] by simp

lemma Remainder_positive:
  assumes "0 \<le> sint x" and "0 < sint y"
  shows "sint (MathematiciansRemainder x y) = (if sint x mod sint y = 0 then 0 else sint x mod sint y - sint y) \<and>
     sint (MathematiciansRemainder x y) \<le> 0"
proof -
  have y: "y \<noteq> 0" using assms(2) by auto
  have c: "sint (c_rem x y) = sint x mod sint y"
    using c_rem_sint [OF y, of x] assms by (cases "sint x = 0") simp_all
  have b: "0 \<le> sint x mod sint y" "sint x mod sint y < sint y" using assms by auto
  have "sint (c_rem x y - y) = sint x mod sint y - sint y"
    using b c sint_range [of y] by (subst sint_sub) auto
  moreover have "c_rem x y = 0 \<longleftrightarrow> sint x mod sint y = 0" using c by (simp add: sint_zero_iff [symmetric])
  ultimately show ?thesis using assms b by (auto simp: MathematiciansRemainder_def sless_zero Let_def)
qed

text \<open>
  C33: Two places where the remainder functions do not do what their comments promise. The remainder does not
  have the sign of the dividend when both arguments have the same sign: for positive arguments it is
  x mod y - y unless y divides x, a number between -y and 0 (7 rem 3 is -2). And the modulus of the most
  negative dividend is wrong: negating it overflows back to itself, C's % then answers a negative number,
  and the result 5 for a divisor of 3 is not even less than the divisor.
\<close>

theorem remainder_anomalies:
  "(0 \<le> sint x \<and> 0 < sint y \<longrightarrow>
      sint (MathematiciansRemainder x y) = (if sint x mod sint y = 0 then 0 else sint x mod sint y - sint y) \<and>
      sint (MathematiciansRemainder x y) \<le> 0) \<and>
   Mod loud (- (2 ^ 63)) 3 = Inr 5 \<and> sint (- (2 ^ 63) :: int64) mod 3 = 1"
proof (intro conjI impI)
  show "Mod loud (- (2 ^ 63)) 3 = Inr 5" "sint (- (2 ^ 63) :: int64) mod 3 = 1"
    by (simp_all add: Mod_def MathematiciansModulus_def sless_zero c_rem_def Let_def)
qed (use Remainder_positive in blast)+

theorem remainder_anomalies_witness: "sint (MathematiciansRemainder 7 3) = -2"
  using remainder_anomalies [of 7 3] by simp

end
