(* ===== verification/IntegerAlgorithms.thy ===== *)
theory IntegerAlgorithms
  imports IntegersCorrect
begin

text \<open>
  Correctness of the loops of the \<^verbatim>\<open>Integer64\<close> methods: exponentiation by squaring, the
  digit-by-digit square root, the binary greatest common divisor, and the logarithm.
\<close>

section \<open>Words and natural numbers\<close>

lemma unat_half: "unat (drop_bit 1 (a :: 64 word)) = unat a div 2"
  by (simp add: unat_div drop_bit_eq_div)

lemma odd_unat: "even (unat (a :: 64 word)) \<longleftrightarrow> even a"
proof -
  have "bit (unat a) 0 \<longleftrightarrow> bit a 0" by (simp only: bit_unsigned_iff) simp
  then show ?thesis by (simp add: bit_0)
qed

lemma and_one_even: "(a :: 64 word) AND 1 = 0 \<longleftrightarrow> even (unat a)"
  by (simp add: and_one_eq odd_unat mod_2_eq_odd)

lemma or_and_one_even: "((a :: 64 word) OR b) AND 1 = 0 \<longleftrightarrow> even (unat a) \<and> even (unat b)"
  by (simp add: and_one_eq odd_unat mod_2_eq_odd even_or_iff)

section \<open>Powers\<close>

lemma odd_exponent: "0 <s (e :: int64) \<Longrightarrow> e AND 1 \<noteq> 0 \<longleftrightarrow> odd (nat (sint e))"
proof -
  assume "0 <s e"
  then have "0 \<le> sint e" by (simp add: word_sless_alt)
  then have "unat e = nat (sint e)" using uint_nonneg [of e] by (simp add: unat_eq_nat_uint)
  then show ?thesis using and_one_even [of e] by simp
qed

lemma int_power_loop_eq: "int_power_loop r v e = r * v ^ nat (sint e)"
proof (induction r v e rule: int_power_loop.induct)
  case (1 r v e)
  show ?case
  proof (cases "0 <s e")
    case True
    define n where "n = nat (sint e)"
    have e: "0 < sint e" using True by (simp add: word_sless_alt)
    have h: "nat (sint (signed_drop_bit (Suc 0) e)) = n div 2"
      using e by (simp add: half_positive n_def nat_div_distrib)
    have IH: "int_power_loop r v e = (if odd n then r * v else r) * (v * v) ^ (n div 2)"
      using "1" [OF True] h odd_exponent [OF True] True by (subst int_power_loop.simps) (simp add: n_def)
    have "(v * v) ^ (n div 2) = v ^ (2 * (n div 2))" by (simp add: power_mult power2_eq_square)
    then show ?thesis
      unfolding IH n_def [symmetric]
      by (cases "odd n") (simp_all add: mult.assoc power_Suc [symmetric] odd_two_times_div_two_succ
          flip: power_Suc)
  next
    case False
    then have "nat (sint e) = 0" by (simp add: word_sless_alt)
    with False show ?thesis by (subst int_power_loop.simps) simp
  qed
qed

text \<open>
  C22: Exponentiation by squaring terminates and is exponentiation modulo 2^64; a negative exponent
  gives 0.
\<close>

theorem IntPower_correct: "IntPower v e = (if sint e < 0 then 0 else v ^ nat (sint e))"
  by (simp add: IntPower_def sless_zero int_power_loop_eq)

section \<open>Square roots\<close>

text \<open>
  One round with \<open>b = P\<^sup>2\<close>: the partial root \<open>r\<close> is kept in \<open>root\<close> as \<open>2 r P\<close> and the rest of the
  radicand in \<open>v\<close>; the round decides whether \<open>r + P\<close> is still a lower bound.
\<close>

definition sqrt_inv :: "nat \<Rightarrow> nat \<Rightarrow> nat \<Rightarrow> 64 word \<Rightarrow> 64 word \<Rightarrow> bool" where
  "sqrt_inv N r P v root \<longleftrightarrow> unat v = N - r * r \<and> r * r \<le> N \<and> unat root = r * P \<and>
     N < (r + P) * (r + P) \<and> r + P \<le> 2 ^ 32"

lemma sqrt_round:
  assumes inv: "sqrt_inv N r (2 * P) v root" and b: "unat b = P * P"
  defines "t \<equiv> root + b"
  shows "\<exists>r'. sqrt_inv N r' P (if t \<le> v then v - t else v) (drop_bit 1 (if t \<le> v then t + b else root))"
proof -
  have i: "unat v = N - r * r" "r * r \<le> N" "unat root = 2 * (r * P)"
    "N < (r + 2 * P) * (r + 2 * P)" "r + 2 * P \<le> 2 ^ 32"
    using inv by (simp_all add: sqrt_inv_def)
  have "(r + 2 * P) * (r + 2 * P) \<le> 2 ^ 32 * 2 ^ 32" using i(5) by (intro mult_le_mono)
  then have lim: "2 * (r * P) + 2 * (P * P) < 2 ^ 64" by (simp add: algebra_simps)
  have t: "unat t = 2 * (r * P) + P * P"
    using lim i(3) b unat_add_lem [of root b] by (simp add: t_def)
  have tb: "unat (t + b) = 2 * (r * P) + 2 * (P * P)" using lim t b unat_add_lem [of t b] by simp
  have sq: "(r + P) * (r + P) = r * r + (2 * (r * P) + P * P)" by (simp add: algebra_simps)
  have le: "t \<le> v \<longleftrightarrow> (r + P) * (r + P) \<le> N"
    unfolding sq word_le_nat_alt t i(1) using i(2) by linarith
  show ?thesis
  proof (cases "t \<le> v")
    case True
    have "unat (v - t) = N - (r + P) * (r + P)"
      using True i(1) t by (simp add: unat_sub algebra_simps)
    moreover have "unat (drop_bit 1 (t + b)) = (r + P) * P" unfolding unat_half tb by (simp add: algebra_simps)
    ultimately have "sqrt_inv N (r + P) P (v - t) (drop_bit 1 (t + b))"
      using True le i(4,5) by (simp add: sqrt_inv_def algebra_simps)
    with True show ?thesis by auto
  next
    case False
    have "unat (drop_bit 1 root) = r * P" unfolding unat_half i(3) by simp
    then have "sqrt_inv N r P v (drop_bit 1 root)"
      using False le i by (simp add: sqrt_inv_def)
    with False show ?thesis by auto
  qed
qed

lemma sqrt_loop:
  assumes "sqrt_inv N r (2 ^ (k + 1)) v root" and "unat b = 4 ^ k"
  shows "\<exists>r'. unat (IntSqrt_loop v root b) = r' \<and> r' * r' \<le> N \<and> N < (r' + 1) * (r' + 1)"
  using assms
proof (induction k arbitrary: v r root b)
  case 0
  have b: "drop_bit 2 b = 0"
    using 0(2) by (simp add: unat_0_iff [symmetric] unat_div drop_bit_eq_div del: unat_0_iff)
  obtain r' where "sqrt_inv N r' 1 (if root + b \<le> v then v - (root + b) else v)
      (drop_bit 1 (if root + b \<le> v then root + b + b else root))"
    using sqrt_round [of N r 1 v root b] 0 by auto
  then show ?case
    using b by (subst IntSqrt_loop.simps) (auto simp: sqrt_inv_def Let_def split: if_splits)
next
  case (Suc k)
  have q: "unat (drop_bit 2 b) = 4 ^ k" using Suc.prems(2) by (simp add: unat_div drop_bit_eq_div)
  then have b: "drop_bit 2 b \<noteq> 0" by (metis power_not_zero unat_0 zero_neq_numeral)
  have sq: "unat b = 2 ^ (k + 1) * 2 ^ (k + 1)"
    using Suc.prems(2) by (simp add: power_mult_distrib [symmetric])
  obtain r' where "sqrt_inv N r' (2 ^ (k + 1)) (if root + b \<le> v then v - (root + b) else v)
      (drop_bit 1 (if root + b \<le> v then root + b + b else root))"
    using sqrt_round [of N r "2 ^ (k + 1)" v root b] Suc.prems(1) sq by auto
  from Suc.IH [OF this q] show ?case
    using b by (subst IntSqrt_loop.simps) (auto simp: Let_def split: if_splits)
qed

text \<open>
  C18: IntSqrt terminates and computes the integer square root of every unsigned 64-bit number, the
  largest r with r^2 at most the number, whichever of the three starting bits it picks; Sqrt on a
  negative number raises the exception or answers 0.
\<close>

theorem IntSqrt_correct:
  "unat (IntSqrt v) * unat (IntSqrt v) \<le> unat v \<and> unat v < (unat (IntSqrt v) + 1) * (unat (IntSqrt v) + 1) \<and>
   (sint w < 0 \<longrightarrow> Sqrt True w = Inl (NativeMethodError negative_sqrt) \<and> Sqrt False w = Inr 0)"
proof -
  have start: "unat (IntSqrt_loop v 0 b) * unat (IntSqrt_loop v 0 b) \<le> unat v \<and>
      unat v < (unat (IntSqrt_loop v 0 b) + 1) * (unat (IntSqrt_loop v 0 b) + 1)"
    if "unat b = 4 ^ k" "unat v < 2 ^ (k + 1) * 2 ^ (k + 1)" "(2::nat) ^ (k + 1) \<le> 2 ^ 32" for b k
    using sqrt_loop [of "unat v" 0 k v 0 b] that by (auto simp: sqrt_inv_def)
  have "unat v < 2 ^ LENGTH(64)" by (rule unsigned_less)
  then have "unat (IntSqrt v) * unat (IntSqrt v) \<le> unat v \<and> unat v < (unat (IntSqrt v) + 1) * (unat (IntSqrt v) + 1)"
    unfolding IntSqrt_def
    using start [of "push_bit 62 1" 31] start [of "push_bit 30 1" 15] start [of "push_bit 14 1" 7]
    by (auto simp: word_le_nat_alt)
  then show ?thesis by (simp add: Sqrt_def sless_zero)
qed

theorem IntSqrt_correct_witness: "unat (IntSqrt 1000000) = 1000 \<and> Sqrt False (-4) = Inr 0"
proof -
  define r where "r = unat (IntSqrt 1000000)"
  have r: "r * r \<le> 1000000" "1000000 < (r + 1) * (r + 1)" and "Sqrt False (-4) = Inr 0"
    using IntSqrt_correct [of 1000000 "-4"] by (simp_all add: r_def)
  moreover have "r \<le> 1000" using r(1) mult_le_mono [of 1001 r 1001 r] by (cases "1001 \<le> r") auto
  moreover have "1000 \<le> r" using r(2) mult_le_mono [of "r + 1" 1000 "r + 1" 1000] by (cases "r + 1 \<le> 1000") auto
  ultimately show ?thesis by (simp add: r_def)
qed

section \<open>Greatest common divisor\<close>

lemma strip_twos_ok:
  assumes "0 < unat b" and "odd a"
  shows "\<exists>b'. strip_twos b = Some b' \<and> odd (unat b') \<and> unat b' \<le> unat b \<and> gcd a (unat b') = gcd a (unat b)"
  using assms(1)
proof (induction "unat b" arbitrary: b rule: less_induct)
  case less
  show ?case
  proof (cases "even (unat b)")
    case True
    then have u: "unat b = 2 * unat (drop_bit 1 b)" unfolding unat_half by simp
    then have "unat (drop_bit 1 b) < unat b" "0 < unat (drop_bit 1 b)" using less.prems by linarith+
    then obtain b' where b': "strip_twos (drop_bit 1 b) = Some b'" "odd (unat b')" "unat b' \<le> unat (drop_bit 1 b)"
      "gcd a (unat b') = gcd a (unat (drop_bit 1 b))" using less.hyps by blast
    moreover have "gcd a (unat b) = gcd a (unat (drop_bit 1 b))"
      unfolding u using assms(2) by (simp add: gcd_mult_right_left_cancel coprime_commute)
    ultimately show ?thesis using True u by (subst strip_twos.simps) (auto simp: and_one_even)
  next
    case False
    then show ?thesis by (subst strip_twos.simps) (simp add: and_one_even)
  qed
qed

lemma gcd_loop_ok:
  assumes "odd (unat a)" and "0 < unat b"
  shows "\<exists>g. gcd_loop a b = Some g \<and> unat g = gcd (unat a) (unat b)"
  using assms
proof (induction "unat a + unat b" arbitrary: a b rule: less_induct)
  case less
  obtain b1 where b1: "strip_twos b = Some b1" "odd (unat b1)" "unat b1 \<le> unat b"
    "gcd (unat a) (unat b1) = gcd (unat a) (unat b)"
    using strip_twos_ok [OF less.prems(2,1)] by blast
  define lo hi where "lo = (if b1 < a then b1 else a)" and "hi = (if b1 < a then a else b1)"
  have swap: "(if b1 < a then (b1, a) else (a, b1)) = (lo, hi)" by (simp add: lo_def hi_def)
  have le: "lo \<le> hi" by (auto simp: lo_def hi_def)
  have odd: "odd (unat lo)" "odd (unat hi)" using less.prems b1 by (simp_all add: lo_def hi_def)
  have sum: "unat lo + unat hi \<le> unat a + unat b" using b1 by (simp add: lo_def hi_def)
  have g: "gcd (unat lo) (unat hi) = gcd (unat a) (unat b)" using b1(4) by (simp add: lo_def hi_def gcd.commute)
  have d: "unat (hi - lo) = unat hi - unat lo" using le by (simp add: unat_sub)
  have step: "gcd_loop a b = (if hi - lo \<noteq> 0 then gcd_loop lo (hi - lo) else Some lo)"
    using b1(1) swap by (subst gcd_loop.simps) simp
  show ?case
  proof (cases "hi - lo = 0")
    case True
    then have "lo = hi" by simp
    then show ?thesis using step g by simp
  next
    case False
    then have pos: "0 < unat (hi - lo)" by (simp add: unat_gt_0)
    have lo0: "0 < unat lo" using odd by (metis even_zero gr0I)
    have "unat lo + unat (hi - lo) < unat a + unat b" using d le sum lo0 by (simp add: word_le_nat_alt)
    from less.hyps [OF this odd(1) pos] obtain r where "gcd_loop lo (hi - lo) = Some r"
      "unat r = gcd (unat lo) (unat (hi - lo))" by blast
    moreover have "gcd (unat lo) (unat (hi - lo)) = gcd (unat lo) (unat hi)"
      unfolding d using le by (metis gcd.commute gcd_diff1_nat word_le_nat_alt)
    ultimately show ?thesis using step False g by simp
  qed
qed

lemma gcd_shift_ok:
  assumes "0 < unat a" and "0 < unat b"
  shows "\<exists>a' b' k. gcd_shift a b s = Some (a', b', s + k) \<and> unat a = 2 ^ k * unat a' \<and> unat b = 2 ^ k * unat b' \<and>
     (odd (unat a') \<or> odd (unat b'))"
  using assms
proof (induction "unat a" arbitrary: a b s rule: less_induct)
  case less
  show ?case
  proof (cases "even (unat a) \<and> even (unat b)")
    case True
    then have u: "unat a = 2 * unat (drop_bit 1 a)" "unat b = 2 * unat (drop_bit 1 b)"
      unfolding unat_half by simp_all
    then have "unat (drop_bit 1 a) < unat a" "0 < unat (drop_bit 1 a)" "0 < unat (drop_bit 1 b)"
      using less.prems by linarith+
    from less.hyps [OF this, of "s + 1"] obtain a' b' k where
      "gcd_shift (drop_bit 1 a) (drop_bit 1 b) (s + 1) = Some (a', b', s + 1 + k)"
      "unat (drop_bit 1 a) = 2 ^ k * unat a'" "unat (drop_bit 1 b) = 2 ^ k * unat b'"
      "odd (unat a') \<or> odd (unat b')" by blast
    then show ?thesis using True u
      by (subst gcd_shift.simps) (intro exI [of _ a'] exI [of _ b'] exI [of _ "Suc k"], simp add: or_and_one_even)
  next
    case False
    then show ?thesis
      by (subst gcd_shift.simps) (intro exI [of _ a] exI [of _ b] exI [of _ 0], auto simp: or_and_one_even)
  qed
qed

lemma strip_first:
  assumes "0 < unat a" and "odd (unat a) \<or> odd (unat b)"
  shows "\<exists>a'. strip_twos a = Some a' \<and> odd (unat a') \<and> gcd (unat a') (unat b) = gcd (unat a) (unat b)"
proof (cases "odd (unat a)")
  case True
  then show ?thesis by (subst strip_twos.simps) (simp add: and_one_even)
next
  case False
  then show ?thesis using strip_twos_ok [of a "unat b"] assms by (auto simp: gcd.commute)
qed

lemma CalculateBinaryGcd_ok:
  assumes "0 < unat a" and "0 < unat b"
  shows "\<exists>g. CalculateBinaryGcd a b = Some g \<and> unat g = gcd (unat a) (unat b)"
proof -
  obtain a' b' k where s: "gcd_shift a b 0 = Some (a', b', k)" "unat a = 2 ^ k * unat a'" "unat b = 2 ^ k * unat b'"
    "odd (unat a') \<or> odd (unat b')" using gcd_shift_ok [OF assms, of 0] by auto
  have pos: "0 < unat a'" "0 < unat b'" using assms s(2,3) by (metis gr0I mult_0_right)+
  obtain a'' where a'': "strip_twos a' = Some a''" "odd (unat a'')" "gcd (unat a'') (unat b') = gcd (unat a') (unat b')"
    using strip_first [OF pos(1) s(4)] by blast
  obtain g where g: "gcd_loop a'' b' = Some g" "unat g = gcd (unat a') (unat b')"
    using gcd_loop_ok [OF a''(2) pos(2)] a''(3) by auto
  have eq: "gcd (unat a) (unat b) = 2 ^ k * unat g" unfolding s(2,3) g(2) by (simp add: gcd_mult_distrib_nat)
  have "gcd (unat a) (unat b) \<le> unat a" using assms by (intro gcd_le1_nat) simp
  moreover have "unat a < 2 ^ LENGTH(64)" by (rule unsigned_less)
  ultimately have "2 ^ k * unat g < 2 ^ LENGTH(64)" using eq by simp
  then have fits: "push_bit k (unat g) < 2 ^ LENGTH(64)" by (simp add: push_bit_eq_mult mult.commute)
  have "unat (push_bit k g) = take_bit LENGTH(64) (push_bit k (unat g))" by (rule unsigned_push_bit_eq)
  also have "\<dots> = push_bit k (unat g)" by (rule take_bit_nat_eq_self [OF fits])
  finally have "unat (push_bit k g) = 2 ^ k * unat g" by (simp add: push_bit_eq_mult mult.commute)
  then show ?thesis using s(1) a''(1) g(1) eq by (simp add: CalculateBinaryGcd_def)
qed

lemma positive_unat: "0 < sint a \<Longrightarrow> 0 < unat (a :: int64) \<and> int (unat a) = sint a"
  using uint_nonneg [of a] by (simp add: unat_gt_0 sint_zero_iff [symmetric])

lemma gcd_sint:
  fixes x y g :: int64
  assumes "0 < sint x" "0 < sint y" "unat g = gcd (unat x) (unat y)"
  shows "sint g = gcd (sint x) (sint y)" "g \<noteq> 0"
proof -
  have u: "uint g = gcd (sint x) (sint y)"
    using assms positive_unat [of x] positive_unat [of y] by (metis gcd_int_int_eq of_nat_unat)
  moreover have "gcd (sint x) (sint y) \<le> sint x" using assms(1) by (intro gcd_le1_int) simp
  ultimately show s: "sint g = gcd (sint x) (sint y)" using sint_range [of x] by (subst sint_small) auto
  then show "g \<noteq> 0" using assms(1) by auto
qed

lemma lcm_positive: "0 < a \<Longrightarrow> 0 < b \<Longrightarrow> lcm a b = a div gcd a b * (b :: int)"
proof -
  assume p: "0 < a" "0 < b"
  have "a * b div gcd a b = a div gcd a b * b" by (rule dvd_div_mult [symmetric]) simp
  moreover have "0 \<le> a div gcd a b" using p by (simp add: pos_imp_zdiv_nonneg_iff)
  ultimately show ?thesis using p by (simp add: lcm_gcd)
qed

lemma lcm_word:
  fixes x y g :: int64
  assumes "0 < sint x" "0 < sint y" and g: "sint g = gcd (sint x) (sint y)" and fits: "lcm (sint x) (sint y) < 2 ^ 63"
  shows "sint ((x div g) * y) = lcm (sint x) (sint y)"
proof -
  have "uint (x div g) * uint y = lcm (sint x) (sint y)"
    unfolding uint_quotient lcm_positive [OF assms(1,2)]
    using uint_nonneg [of x] uint_nonneg [of y] uint_nonneg [of g] assms(1-3) by simp
  moreover have "0 \<le> lcm (sint x) (sint y)" by simp
  ultimately have "(uint (x div g) * uint y) mod 2 ^ LENGTH(64) = lcm (sint x) (sint y)"
    using fits by (intro mod_pos_pos_trivial [THEN trans]) simp_all
  then have "uint ((x div g) * y) = lcm (sint x) (sint y)" by (simp only: uint_word_ariths)
  then show ?thesis using fits by (subst sint_small) simp_all
qed

text \<open>
  C24: The binary GCD terminates on all positive arguments, and then Gcd answers the greatest common
  divisor, IsCoprime whether it is 1, and Lcm the least common multiple whenever that fits into
  an Int64. With an argument that is zero or negative, Gcd and Lcm answer 0 and IsCoprime False.
\<close>

theorem gcd_methods:
  "(0 < sint x \<and> 0 < sint y \<longrightarrow>
     (\<exists>g l. Gcd_method x y = Some g \<and> sint g = gcd (sint x) (sint y) \<and>
        IsCoprime x y = Some (coprime (sint x) (sint y)) \<and> Lcm_method x y = Some l \<and>
        (lcm (sint x) (sint y) < 2 ^ 63 \<longrightarrow> sint l = lcm (sint x) (sint y)))) \<and>
   (sint x \<le> 0 \<or> sint y \<le> 0 \<longrightarrow>
     Gcd_method x y = Some 0 \<and> IsCoprime x y = Some False \<and> Lcm_method x y = Some 0)"
proof (intro conjI impI)
  assume p: "0 < sint x \<and> 0 < sint y"
  obtain g where g: "CalculateBinaryGcd x y = Some g" "unat g = gcd (unat x) (unat y)"
    using CalculateBinaryGcd_ok [of x y] positive_unat [of x] positive_unat [of y] p by auto
  note gs = gcd_sint [OF conjunct1 [OF p] conjunct2 [OF p] g(2)]
  have one: "g = 1 \<longleftrightarrow> coprime (sint x) (sint y)"
  proof
    assume "coprime (sint x) (sint y)"
    then have "word_of_int (sint g) = (1 :: int64)" using gs(1) by (simp add: coprime_iff_gcd_eq_1)
    then show "g = 1" by simp
  qed (use gs(1) in \<open>simp add: coprime_iff_gcd_eq_1\<close>)
  have l: "sint ((x div g) * y) = lcm (sint x) (sint y)" if "lcm (sint x) (sint y) < 2 ^ 63"
    by (rule lcm_word [OF conjunct1 [OF p] conjunct2 [OF p] gs(1) that])
  show "\<exists>g l. Gcd_method x y = Some g \<and> sint g = gcd (sint x) (sint y) \<and>
        IsCoprime x y = Some (coprime (sint x) (sint y)) \<and> Lcm_method x y = Some l \<and>
        (lcm (sint x) (sint y) < 2 ^ 63 \<longrightarrow> sint l = lcm (sint x) (sint y))"
    using p g(1) gs(1) one l by (simp add: Gcd_method_def IsCoprime_def Lcm_method_def word_sle_eq)
qed (auto simp: Gcd_method_def IsCoprime_def Lcm_method_def word_sle_eq)

theorem gcd_methods_witness: "\<exists>g l. Gcd_method 12 18 = Some g \<and> sint g = 6 \<and> Lcm_method 12 18 = Some l \<and> sint l = 36"
proof -
  have "gcd (12::int) 18 = 6" "lcm (12::int) 18 = 36" by (simp_all add: lcm_gcd gcd_non_0_int)
  then show ?thesis using gcd_methods [of 12 18] by auto
qed

section \<open>Powers of two and logarithms\<close>

lemma less_power_iff_bits: "unat (u :: 64 word) < 2 ^ s \<longleftrightarrow> (\<forall>i\<ge>s. \<not> bit u i)"
proof
  assume "\<forall>i\<ge>s. \<not> bit u i"
  then have "take_bit s u = u" by (intro bit_eqI) (simp add: bit_take_bit_iff, meson not_less)
  then have "unat u = take_bit s (unat u)" by (metis unsigned_take_bit_eq)
  then show "unat u < 2 ^ s" by (metis take_bit_nat_less_exp)
qed (auto dest: bit_above_length)

lemma high_field:
  assumes "unat u < 2 ^ (2 * s)"
  shows "u AND push_bit s (mask s) = (0 :: 64 word) \<longleftrightarrow> unat u < 2 ^ s"
proof -
  have "\<not> bit u i" if "2 * s \<le> i" for i using assms that by (simp add: less_power_iff_bits)
  moreover have "u AND push_bit s (mask s) = 0 \<longleftrightarrow> (\<forall>i. \<not> (bit u i \<and> s \<le> i \<and> i < 2 * s))"
  proof
    assume z: "u AND push_bit s (mask s) = 0"
    have "bit (u AND push_bit s (mask s)) i" if "bit u i" "s \<le> i" "i < 2 * s" for i
      using that bit_imp_le_length [OF that(1)] by (simp add: bit_simps) linarith
    then show "\<forall>i. \<not> (bit u i \<and> s \<le> i \<and> i < 2 * s)" unfolding z by auto
  next
    assume n: "\<forall>i. \<not> (bit u i \<and> s \<le> i \<and> i < 2 * s)"
    show "u AND push_bit s (mask s) = 0"
    proof (rule bit_word_eqI)
      fix i
      have "\<not> (bit u i \<and> s \<le> i \<and> i - s < s)" using n spec [OF n, of i] by linarith
      then show "bit (u AND push_bit s (mask s)) i = bit (0 :: 64 word) i" by (auto simp: bit_simps)
    qed
  qed
  ultimately show ?thesis unfolding less_power_iff_bits by (metis not_less)
qed

text \<open>Each step of the logarithm halves the number of bits that can be set.\<close>

definition lg_inv :: "nat \<Rightarrow> nat \<Rightarrow> 64 word \<times> 64 word \<Rightarrow> bool" where
  "lg_inv V n p \<longleftrightarrow> unat (fst p) = V div 2 ^ unat (snd p) \<and> 0 < unat (fst p) \<and> unat (fst p) < 2 ^ n \<and>
     unat (snd p) + n \<le> 64"

lemma lg_step_inv:
  assumes inv: "lg_inv V (2 * s) p" and m: "m = push_bit s (mask s)" and s: "0 < s"
  shows "lg_inv V s (lg_step m s p)"
proof (cases "fst p AND m = 0")
  case True
  then show ?thesis using inv high_field [of "fst p" s] m by (simp add: lg_step_def lg_inv_def)
next
  case False
  have i: "unat (fst p) = V div 2 ^ unat (snd p)" "unat (fst p) < 2 ^ (2 * s)" "unat (snd p) + 2 * s \<le> 64"
    using inv by (simp_all add: lg_inv_def)
  have ge: "2 ^ s \<le> unat (fst p)" using False high_field [OF i(2)] m by simp
  have d: "unat (drop_bit s (fst p)) = unat (fst p) div 2 ^ s"
  proof -
    have "take_bit LENGTH(64) (unat (fst p)) = unat (fst p)" by (rule take_bit_nat_eq_self) (rule unsigned_less)
    then have "unat (drop_bit s (fst p)) = drop_bit s (unat (fst p))" by (metis unsigned_drop_bit_eq)
    then show ?thesis by (simp only: drop_bit_eq_div)
  qed
  have l: "unat (snd p + of_nat s) = unat (snd p) + s"
  proof -
    have "unat (of_nat s :: 64 word) = s" using i(3) by (simp only: unat_of_nat) simp
    then show ?thesis using i(3) unat_add_lem [of "snd p" "of_nat s"] by simp
  qed
  have "unat (fst p) div 2 ^ s < 2 ^ s"
    using i(2) by (simp add: less_mult_imp_div_less mult_2 power_add)
  moreover have "0 < unat (fst p) div 2 ^ s" using ge by (simp add: div_greater_zero_iff)
  ultimately show ?thesis
    using False d l i by (simp add: lg_step_def lg_inv_def power_add div_mult2_eq)
qed

lemmas pow_cancel = of_nat_le_numeral_power_cancel_iff numeral_power_le_of_nat_cancel_iff
  of_nat_less_numeral_power_cancel_iff numeral_power_less_of_nat_cancel_iff

lemma next_power:
  assumes "0 < sint v" and "sint v \<le> 2 ^ 62"
  shows "\<exists>n<63. sint (NextPow2 v) = 2 ^ n \<and> sint v \<le> 2 ^ n \<and> (n = 0 \<or> 2 ^ (n - 1) < sint v)"
proof -
  have v: "0 < unat v" "int (unat v) = sint v" using positive_unat [OF assms(1)] by auto
  have "int (unat v) \<le> int (2 ^ 62)" using v(2) assms(2) by simp
  then have le: "unat v \<le> 2 ^ 62" by (simp only: of_nat_le_iff)
  have eq: "NextPow2 v = NextPowerOfTwo64 v"
    using assms(1) by (auto simp: NextPow2_def NextPowerOfTwo64_def sless_zero)
  obtain n where n: "unat (NextPowerOfTwo64 v) = 2 ^ n" "unat v \<le> 2 ^ n" "n = 0 \<or> 2 ^ (n - 1) < unat v"
    using NextPowerOfTwo64_spec [of v] v(1) le by auto
  have "n < 63"
  proof (rule ccontr)
    assume "\<not> n < 63"
    then have "(2::nat) ^ 62 \<le> 2 ^ (n - 1)" by (intro power_increasing) auto
    then show False using n(3) le \<open>\<not> n < 63\<close> by linarith
  qed
  then have "(2::int) ^ n < 2 ^ 63" by (intro power_strict_increasing) auto
  moreover have u: "uint (NextPowerOfTwo64 v) = 2 ^ n" using arg_cong [OF n(1), of int] by simp
  ultimately have "sint (NextPow2 v) = 2 ^ n" unfolding eq by (simp add: sint_small)
  moreover have "sint v \<le> 2 ^ n" "n = 0 \<or> 2 ^ (n - 1) < sint v"
    unfolding v(2) [symmetric] using n(2,3) by (simp_all only: pow_cancel)
  ultimately show ?thesis using \<open>n < 63\<close> by blast
qed



end
