(* ===== verification/TextMemory.thy ===== *)
theory TextMemory
  imports StringHash BitTwiddling
begin

text \<open>
  What the string functions use of C: counted loops, the block operations \<^verbatim>\<open>MemCpy\<close> and \<^verbatim>\<open>MemSet\<close>,
  64-bit signed arithmetic, and the bytes of a string under construction, which are uninitialised
  until they are written.

  \<^verbatim>\<open>Int\<close> values are integers; where a computation of the code can leave the range of a 64-bit signed
  integer its result is wrapped by \<open>i64\<close>. A cell of memory is a \<open>byte option\<close>, \<open>None\<close> when nothing has
  been stored in it, and a pointer is a list of cells with an offset into it.
\<close>

section \<open>Definitions\<close>

type_synonym cells = "byte option list"

definition i64 :: "int \<Rightarrow> int" where
  "i64 x = signed_take_bit 63 x"

text \<open>C's division and remainder of signed integers round towards zero.\<close>

definition c_quot :: "int \<Rightarrow> int \<Rightarrow> int" where
  "c_quot x y = sgn x * sgn y * (\<bar>x\<bar> div \<bar>y\<bar>)"

definition c_mod :: "int \<Rightarrow> int \<Rightarrow> int" where
  "c_mod x y = sgn x * (\<bar>x\<bar> mod \<bar>y\<bar>)"

text \<open>\<^verbatim>\<open>for (i = a; i < b; i++) body\<close>\<close>

function for_loop :: "(int \<Rightarrow> 's \<Rightarrow> 's option) \<Rightarrow> int \<Rightarrow> int \<Rightarrow> 's \<Rightarrow> 's option" where
  "for_loop body i b s =
     (if i < b then Option.bind (body i s) (for_loop body (i + 1) b) else Some s)"
  by pat_completeness auto
termination
  by (relation "measure (\<lambda>(body, i, b, s). nat (b - i))") auto

declare for_loop.simps [simp del]

text \<open>A negative length is a huge unsigned number, so the access leaves every object.\<close>

definition mem_cpy :: "'a list \<Rightarrow> int \<Rightarrow> 'a list \<Rightarrow> int \<Rightarrow> int \<Rightarrow> 'a list option" where
  "mem_cpy dst d src s n =
     (if 0 \<le> d \<and> 0 \<le> s \<and> 0 \<le> n \<and> d + n \<le> int (length dst) \<and> s + n \<le> int (length src)
      then Some (take (nat d) dst @ take (nat n) (drop (nat s) src) @ drop (nat (d + n)) dst)
      else None)"

definition mem_set :: "'a list \<Rightarrow> int \<Rightarrow> 'a \<Rightarrow> int \<Rightarrow> 'a list option" where
  "mem_set dst d v n =
     (if 0 \<le> d \<and> 0 \<le> n \<and> d + n \<le> int (length dst)
      then Some (take (nat d) dst @ replicate (nat n) v @ drop (nat (d + n)) dst)
      else None)"

text \<open>The memory of a string: its bytes and the terminating zero. \<open>text_at\<close> reads a byte of it.\<close>

definition text_of :: "bytes \<Rightarrow> cells" where
  "text_of s = map Some s @ [Some 0]"

definition text_at :: "bytes \<Rightarrow> int \<Rightarrow> byte option" where
  "text_at s i = arr_get (s @ [0]) i"

text \<open>A load, which must not read an uninitialised cell.\<close>

definition load :: "cells \<Rightarrow> int \<Rightarrow> byte option" where
  "load t i = do { c \<leftarrow> arr_get t i; c }"

text \<open>The bytes of a finished string; all of them must have been written.\<close>

definition finish :: "int \<times> cells \<Rightarrow> bytes option" where
  "finish r = those (take (nat (fst r)) (snd r))"

section \<open>Arithmetic\<close>

lemma i64_id: "- (2 ^ 63) \<le> x \<Longrightarrow> x < 2 ^ 63 \<Longrightarrow> i64 x = x"
  by (simp add: i64_def signed_take_bit_int_eq_self)

lemma c_quot_nonneg: "0 \<le> x \<Longrightarrow> 0 < y \<Longrightarrow> c_quot x y = x div y"
  by (cases "x = 0") (simp_all add: c_quot_def)

lemma c_mod_nonneg: "0 \<le> x \<Longrightarrow> 0 < y \<Longrightarrow> c_mod x y = x mod y"
  by (cases "x = 0") (simp_all add: c_mod_def)

section \<open>Loops\<close>

lemma for_loop_eq:
  assumes "a \<le> b" and "\<And>i. a \<le> i \<Longrightarrow> i < b \<Longrightarrow> body i (f i) = Some (f (i + 1))"
  shows "for_loop body a b (f a) = Some (f b)"
  using assms
proof (induction "nat (b - a)" arbitrary: a)
  case 0
  then show ?case by (simp add: for_loop.simps)
next
  case (Suc n)
  have "for_loop body (a + 1) b (f (a + 1)) = Some (f b)" using Suc by simp
  moreover have "body a (f a) = Some (f (a + 1))" using Suc.prems Suc.hyps(2) by simp
  moreover have "a < b" using Suc.hyps(2) by simp
  ultimately show ?case by (simp add: for_loop.simps [of body a])
qed

lemma for_loop_nat:
  assumes "\<And>i. i < n \<Longrightarrow> body (int i) (f i) = Some (f (Suc i))" and "s = f 0"
  shows "for_loop body 0 (int n) s = Some (f n)"
proof -
  have "for_loop body 0 (int n) (f (nat 0)) = Some (f (nat (int n)))"
  proof (rule for_loop_eq [of 0 "int n" body "\<lambda>i. f (nat i)"])
    fix i :: int assume "0 \<le> i" "i < int n"
    then show "body i (f (nat i)) = Some (f (nat (i + 1)))"
      using assms(1) [of "nat i"] by (simp add: nat_add_distrib nat_less_iff)
  qed simp
  then show ?thesis using assms(2) by simp
qed

lemma for_loop_empty: "b \<le> a \<Longrightarrow> for_loop body a b s = Some s"
  by (simp add: for_loop.simps)

section \<open>Strings under construction\<close>

text \<open>A buffer whose first bytes are \<open>xs\<close>, with room for \<open>k\<close> more before the terminating zero.\<close>

definition filling :: "bytes \<Rightarrow> nat \<Rightarrow> cells" where
  "filling xs k = map Some xs @ replicate k None @ [Some 0]"

lemma length_filling [simp]: "length (filling xs k) = length xs + k + 1"
  by (simp add: filling_def)

lemma length_text_of [simp]: "length (text_of s) = length s + 1"
  by (simp add: text_of_def)

lemma text_of_filling: "text_of s = filling s 0"
  by (simp add: text_of_def filling_def)

lemma text_at_nth: "i < length s \<Longrightarrow> text_at s (int i) = Some (s ! i)"
  by (simp add: text_at_def arr_get_def nth_append)

lemma text_at_int: "0 \<le> i \<Longrightarrow> i < int (length s) \<Longrightarrow> text_at s i = Some (s ! nat i)"
  by (simp add: text_at_def arr_get_def nth_append nat_less_iff)

lemma text_at_end: "text_at s (int (length s)) = Some 0"
  by (simp add: text_at_def arr_get_def)

lemma load_prefix:
  "take n t = map Some xs \<Longrightarrow> length xs = n \<Longrightarrow> 0 \<le> i \<Longrightarrow> i < int n \<Longrightarrow> load t i = Some (xs ! nat i)"
proof -
  assume *: "take n t = map Some xs" "length xs = n" "0 \<le> i" "i < int n"
  then have "length (take n t) = n" by (metis length_map)
  then have "n \<le> length t" by simp
  moreover have "t ! nat i = Some (xs ! nat i)"
    using * by (metis length_map nat_less_iff nth_map nth_take)
  ultimately show ?thesis using * by (simp add: load_def arr_get_def nat_less_iff)
qed

lemma those_map_Some [simp]: "those (map Some xs) = Some xs"
  by (induction xs) auto

lemma finish_filling: "n = int (length xs) \<Longrightarrow> finish (n, filling xs k) = Some xs"
  by (simp add: finish_def filling_def)

lemma take_text_of: "j + n \<le> length s \<Longrightarrow> take n (drop j (text_of s)) = map Some (take n (drop j s))"
  by (simp add: text_of_def take_map drop_map)

lemma mem_cpy_filling:
  assumes "d = int (length xs)" and "0 \<le> i" and "0 \<le> n" and "i + n \<le> int (length s)" and "nat n \<le> k"
  shows "mem_cpy (filling xs k) d (text_of s) i n = Some (filling (xs @ take (nat n) (drop (nat i) s)) (k - nat n))"
proof -
  have "nat i + nat n \<le> length s" using assms by (simp add: nat_add_distrib [symmetric] nat_le_iff)
  then have t: "take (nat n) (drop (nat i) (text_of s)) = map Some (take (nat n) (drop (nat i) s))"
    by (rule take_text_of)
  have d: "nat (d + n) = length xs + nat n" using assms by (simp add: nat_add_distrib)
  have "drop (length xs + nat n) (filling xs k) = replicate (k - nat n) None @ [Some 0]"
    using assms(5) by (simp add: filling_def)
  then show ?thesis
    using assms unfolding mem_cpy_def t d by (simp add: filling_def)
qed

lemma mem_cpy_whole:
  assumes "d = int (length xs)" and "n = int (length s)" and "length s \<le> k"
  shows "mem_cpy (filling xs k) d (text_of s) 0 n = Some (filling (xs @ s) (k - length s))"
  using mem_cpy_filling [of d xs 0 n s k] assms by simp

lemma mem_set_filling:
  assumes "d = int (length xs)" and "0 \<le> n" and "nat n \<le> k"
  shows "mem_set (filling xs k) d (Some b) n = Some (filling (xs @ replicate (nat n) b) (k - nat n))"
proof -
  have d: "nat (d + n) = length xs + nat n" using assms by (simp add: nat_add_distrib)
  have "drop (length xs + nat n) (filling xs k) = replicate (k - nat n) None @ [Some 0]"
    using assms by (simp add: filling_def)
  then show ?thesis
    using assms unfolding mem_set_def d by (simp add: filling_def)
qed

lemma arr_set_filling:
  assumes "d = int (length xs)"
  shows "arr_set (filling xs (Suc k)) d (Some b) = Some (filling (xs @ [b]) k)"
  using assms by (simp add: arr_set_def filling_def list_update_append)

lemma arr_set_terminator:
  assumes "d = int (length xs)"
  shows "arr_set (filling xs 0) d (Some 0) = Some (filling xs 0)"
  using assms by (simp add: arr_set_def filling_def list_update_append)

lemmas filling_steps = mem_cpy_whole mem_set_filling arr_set_filling arr_set_terminator finish_filling

section \<open>Rounding up a length\<close>

text \<open>\<^verbatim>\<open>NextPowerOfTwo\<close>, on a signed 64-bit integer, whose shifts are arithmetic.\<close>

definition NextPowerOfTwo :: "int64 \<Rightarrow> int64" where
  "NextPowerOfTwo v =
     (let v = v - 1;
          v = v OR signed_drop_bit 1 v;
          v = v OR signed_drop_bit 2 v;
          v = v OR signed_drop_bit 4 v;
          v = v OR signed_drop_bit 8 v;
          v = v OR signed_drop_bit 16 v;
          v = v OR signed_drop_bit 32 v
      in v + 1)"

lemma bit_signed_drop:
  fixes v :: int64
  assumes "\<not> bit v 63"
  shows "signed_drop_bit n v = drop_bit n v"
proof -
  have "\<not> bit v k" if "63 \<le> k" for k
    using assms that bit_imp_le_length [of v k] by (cases "k = 63") auto
  then show ?thesis
    by (intro bit_word_eqI) (auto simp: bit_signed_drop_bit_iff bit_drop_bit_eq not_le)
qed

lemma NextPowerOfTwo_nonneg:
  assumes "0 < sint v"
  shows "NextPowerOfTwo v = NextPowerOfTwo64 v"
proof -
  have b: "\<not> bit (x OR drop_bit n x) 63" if "\<not> bit x 63" for x :: int64 and n
    using that bit_imp_le_length [of x "n + 63"] by (cases n) (auto simp: bit_or_iff bit_drop_bit_eq)
  have "sint (v - 1) = signed_take_bit 63 (sint v - 1)" by (simp add: sint_word_ariths)
  also have "\<dots> = sint v - 1"
    using assms sint_lt [of v] by (intro signed_take_bit_int_eq_self) auto
  finally have "0 \<le> sint (v - 1)" using assms by simp
  then have "\<not> bit (v - 1) 63" using bit_last_iff [of "v - 1"] by simp
  then show ?thesis
    unfolding NextPowerOfTwo_def NextPowerOfTwo64_def Let_def by (simp only: bit_signed_drop b not_False_eq_True)
qed

lemma NextPowerOfTwo_spec:
  assumes "1 \<le> n" and "n \<le> 2 ^ 62"
  shows "n \<le> sint (NextPowerOfTwo (word_of_int n))" and "sint (NextPowerOfTwo (word_of_int n)) < 2 * n"
    and "sint (NextPowerOfTwo (word_of_int n)) \<le> 2 ^ 62"
proof -
  let ?v = "word_of_int n :: int64"
  have u: "unat ?v = nat n" using assms by (simp add: unat_eq_nat_uint uint_word_of_int)
  have s: "sint ?v = n" using assms by (simp add: signed_of_int signed_take_bit_int_eq_self)
  have "1 \<le> unat ?v" "unat ?v \<le> 2 ^ 63" using assms u by (auto simp: nat_le_iff)
  then obtain e where e: "unat (NextPowerOfTwo64 ?v) = 2 ^ e" "unat ?v \<le> 2 ^ e" "e = 0 \<or> 2 ^ (e - 1) < unat ?v"
    using NextPowerOfTwo64_spec [of ?v] by blast
  have "e \<le> 62"
  proof (rule ccontr)
    assume "\<not> e \<le> 62"
    then have "(2::nat) ^ 62 \<le> 2 ^ (e - 1)" by (intro power_increasing) auto
    moreover have "2 ^ (e - 1) < nat n" using e(3) \<open>\<not> e \<le> 62\<close> unfolding u by auto
    ultimately have "2 ^ 62 < nat n" by (rule le_less_trans)
    then show False using assms by (simp add: zless_nat_eq_int_zless)
  qed
  have le: "(2::int) ^ e \<le> 2 ^ 62" using \<open>e \<le> 62\<close> by (intro power_increasing) auto
  have "uint (NextPowerOfTwo64 ?v) = int (2 ^ e)" unfolding e(1) [symmetric] by simp
  moreover have "signed_take_bit 63 ((2::int) ^ e) = 2 ^ e"
  proof (rule signed_take_bit_int_eq_self)
    show "- (2 ^ 63) \<le> (2::int) ^ e" by (rule order_trans [of _ 0]) simp_all
  qed (use le in simp)
  ultimately have p: "sint (NextPowerOfTwo ?v) = 2 ^ e"
    using assms s NextPowerOfTwo_nonneg [of ?v] by (simp add: sint_uint)
  have "(2::int) ^ e < 2 * n"
  proof (cases e)
    case (Suc f)
    then have "2 ^ f < nat n" using e(3) u by simp
    then show ?thesis using Suc by (simp add: zless_nat_eq_int_zless)
  qed (use assms in simp)
  moreover have "n \<le> 2 ^ e" using e(2) u by (simp add: nat_le_iff)
  ultimately show "n \<le> sint (NextPowerOfTwo ?v)" "sint (NextPowerOfTwo ?v) < 2 * n" "sint (NextPowerOfTwo ?v) \<le> 2 ^ 62"
    using p le by simp_all
qed

end
