(* ===== verification/Strings.thy ===== *)
theory Strings
  imports TextMemory
begin

text \<open>
  \<^verbatim>\<open>smilelib/src/string/string_core.c\<close>: construction, concatenation, comparison, substrings and
  searching. A String is its bytes, a possibly \<^verbatim>\<open>NULL\<close> one an option; a function returns \<open>None\<close> when it
  accesses memory outside its objects. The lengths of existing strings are below 2^63; sums and
  differences of arguments wrap.
\<close>

section \<open>Construction\<close>

definition String_IsNullOrEmpty :: "bytes option \<Rightarrow> bool" where
  "String_IsNullOrEmpty str = (case str of None \<Rightarrow> True | Some s \<Rightarrow> int (length s) = 0)"

text \<open>
  The new object has \<^verbatim>\<open>length + 1\<close> bytes of text, of which only the terminator is initialised; for
  no length the shared empty string is returned.
\<close>

definition String_CreateInternal :: "int \<Rightarrow> int \<times> cells" where
  "String_CreateInternal len =
     (if len \<le> 0 then (0, [Some 0]) else (len, replicate (nat len) None @ [Some 0]))"

definition String_Create :: "cells \<Rightarrow> int \<Rightarrow> int \<Rightarrow> bytes option" where
  "String_Create text ofs len =
     (if len \<le> 0 then Some []
      else do { newText \<leftarrow> mem_cpy (replicate (nat len + 1) None) 0 text ofs len;
                newText \<leftarrow> arr_set newText len (Some 0);
                finish (len, newText) })"

definition String_FromC :: "bytes \<Rightarrow> bytes option" where
  "String_FromC text = String_Create (text_of text) 0 (int (length text))"

definition String_CreateRepeat :: "byte \<Rightarrow> int \<Rightarrow> bytes option" where
  "String_CreateRepeat b repeatCount =
     do { let (len, text) = String_CreateInternal repeatCount;
          text \<leftarrow> mem_set text 0 (Some b) repeatCount;
          finish (len, text) }"

section \<open>Concatenation\<close>

definition String_ConcatMany :: "bytes list \<Rightarrow> int \<Rightarrow> bytes option" where
  "String_ConcatMany strs numStrs =
     (if numStrs \<le> 0 then Some []
      else do {
        len \<leftarrow> for_loop (\<lambda>i len. do { s \<leftarrow> arr_get strs i; Some (i64 (len + int (length s))) }) 0 numStrs 0;
        if len \<le> 0 then Some []
        else do {
          let (len, newText) = String_CreateInternal len;
          (newText, dest) \<leftarrow> for_loop (\<lambda>i (newText, dest).
              do { temp \<leftarrow> arr_get strs i;
                   newText \<leftarrow> mem_cpy newText dest (text_of temp) 0 (int (length temp));
                   Some (newText, dest + int (length temp)) }) 0 numStrs (newText, 0);
          newText \<leftarrow> arr_set newText len (Some 0);
          finish (len, newText) } })"

definition String_Join :: "bytes \<Rightarrow> bytes list \<Rightarrow> int \<Rightarrow> bytes option" where
  "String_Join glue strs numStrs =
     (if numStrs \<le> 0 then Some []
      else do {
        len \<leftarrow> for_loop (\<lambda>i len. do { s \<leftarrow> arr_get strs i; Some (i64 (len + int (length s))) }) 0 numStrs 0;
        let len = i64 (len + i64 ((numStrs - 1) * int (length glue)));
        if len \<le> 0 then Some []
        else do {
          let (len, newText) = String_CreateInternal len;
          first \<leftarrow> arr_get strs 0;
          newText \<leftarrow> mem_cpy newText 0 (text_of first) 0 (int (length first));
          (newText, dest) \<leftarrow> for_loop (\<lambda>i (newText, dest).
              do { newText \<leftarrow> mem_cpy newText dest (text_of glue) 0 (int (length glue));
                   let dest = dest + int (length glue);
                   s \<leftarrow> arr_get strs i;
                   newText \<leftarrow> mem_cpy newText dest (text_of s) 0 (int (length s));
                   Some (newText, dest + int (length s)) }) 1 numStrs (newText, int (length first));
          newText \<leftarrow> arr_set newText len (Some 0);
          finish (len, newText) } })"

definition String_Concat :: "bytes option \<Rightarrow> bytes option \<Rightarrow> bytes option" where
  "String_Concat s1 s2 =
     (if s1 = None \<or> s1 = Some [] then (case s2 of Some b \<Rightarrow> Some b | None \<Rightarrow> Some [])
      else if s2 = None \<or> s2 = Some [] then s1
      else do {
        a \<leftarrow> s1; b \<leftarrow> s2;
        let len = i64 (int (length a) + int (length b));
        let (len', newText) = String_CreateInternal len;
        newText \<leftarrow> mem_cpy newText 0 (text_of a) 0 (int (length a));
        newText \<leftarrow> mem_cpy newText (int (length a)) (text_of b) 0 (int (length b));
        newText \<leftarrow> arr_set newText len (Some 0);
        finish (len', newText) })"

definition String_ConcatByte :: "bytes option \<Rightarrow> byte \<Rightarrow> bytes option" where
  "String_ConcatByte str ch =
     (case str of
        Some (c # cs) \<Rightarrow>
          do { let s = c # cs;
               let len = i64 (int (length s) + 1);
               let (len', newText) = String_CreateInternal len;
               newText \<leftarrow> mem_cpy newText 0 (text_of s) 0 (int (length s));
               newText \<leftarrow> arr_set newText (len - 1) (Some ch);
               newText \<leftarrow> arr_set newText len (Some 0);
               finish (len', newText) }
      | _ \<Rightarrow>
          do { let (len, text) = String_CreateInternal 1;
               text \<leftarrow> arr_set text 0 (Some ch);
               finish (len, text) })"

section \<open>Comparison\<close>

text \<open>
  \<^verbatim>\<open>for (i = min; i--; aText++, bText++)\<close>: \<open>Some None\<close> when the loop runs to its end. Comparing the two
  pointers first does not change the result.
\<close>

fun compare_loop :: "bytes \<Rightarrow> bytes \<Rightarrow> int \<Rightarrow> nat \<Rightarrow> int option option" where
  "compare_loop a b k 0 = Some None"
| "compare_loop a b k (Suc i) =
     do { x \<leftarrow> text_at a k; y \<leftarrow> text_at b k;
          if x \<noteq> y then Some (Some (if x < y then -1 else 1)) else compare_loop a b (k + 1) i }"

definition String_Compare :: "bytes option \<Rightarrow> bytes option \<Rightarrow> int option" where
  "String_Compare a b =
     (if String_IsNullOrEmpty a then Some (if String_IsNullOrEmpty b then 0 else -1)
      else if String_IsNullOrEmpty b then Some 1
      else do {
        aText \<leftarrow> a; bText \<leftarrow> b;
        let alen = length aText; let blen = length bText;
        r \<leftarrow> compare_loop aText bText 0 (if alen < blen then alen else blen);
        Some (case r of Some c \<Rightarrow> c | None \<Rightarrow> if alen = blen then 0 else if alen < blen then -1 else 1) })"

text \<open>\<^verbatim>\<open>while (aptr < aend && bptr < bend)\<close>, with the offsets of the pointers in their texts.\<close>

function compare_range_loop ::
  "bytes \<Rightarrow> int \<Rightarrow> int \<Rightarrow> bytes \<Rightarrow> int \<Rightarrow> int \<Rightarrow> (int + int \<times> int) option" where
  "compare_range_loop a aptr aend b bptr bend =
     (if aptr < aend \<and> bptr < bend
      then case text_at a aptr of None \<Rightarrow> None | Some abyte \<Rightarrow>
           case text_at b bptr of None \<Rightarrow> None | Some bbyte \<Rightarrow>
             if abyte \<noteq> bbyte then Some (Inl (if abyte < bbyte then -1 else 1))
             else compare_range_loop a (aptr + 1) aend b (bptr + 1) bend
      else Some (Inr (aptr, bptr)))"
  by pat_completeness auto
termination
  by (relation "measure (\<lambda>(a, aptr, aend, b, bptr, bend). nat (aend - aptr))") auto

declare compare_range_loop.simps [simp del]

definition String_CompareRange ::
  "bytes option \<Rightarrow> int \<Rightarrow> int \<Rightarrow> bytes option \<Rightarrow> int \<Rightarrow> int \<Rightarrow> int option" where
  "String_CompareRange a astart0 alength0 b bstart0 blength0 =
     (let (astart, alength) = (if astart0 < 0 then (0, i64 (alength0 + astart0)) else (astart0, alength0));
          (bstart, blength) = (if bstart0 < 0 then (0, i64 (blength0 + bstart0)) else (bstart0, blength0));
          isEmpty = (\<lambda>s start len. case s of None \<Rightarrow> True
                       | Some t \<Rightarrow> int (length t) = 0 \<or> start \<ge> int (length t) \<or> len \<le> 0)
      in if isEmpty a astart alength then Some (if isEmpty b bstart blength then 0 else -1)
         else if isEmpty b bstart blength then Some (-1)
         else do {
           aText \<leftarrow> a; bText \<leftarrow> b;
           let alength = (if alength > int (length aText) - astart then int (length aText) - astart else alength);
           let blength = (if blength > int (length bText) - bstart then int (length bText) - bstart else blength);
           let aend = astart + alength; let bend = bstart + blength;
           r \<leftarrow> compare_range_loop aText astart aend bText bstart bend;
           Some (case r of Inl c \<Rightarrow> c
                 | Inr (aptr, bptr) \<Rightarrow> if aptr \<noteq> aend then 1 else if bptr \<noteq> bend then -1 else 0) })"

section \<open>Substrings\<close>

definition String_SubstringAt :: "bytes \<Rightarrow> int \<Rightarrow> bytes option" where
  "String_SubstringAt str start =
     (let start = (if start < 0 then 0 else start)
      in if start \<ge> int (length str) then Some []
         else String_Create (text_of str) start (int (length str) - start))"

definition String_Substring :: "bytes \<Rightarrow> int \<Rightarrow> int \<Rightarrow> bytes option" where
  "String_Substring str start len =
     (let (start, len) = (if start < 0 then (0, i64 (len + start)) else (start, len))
      in if start \<ge> int (length str) \<or> len \<le> 0 then Some []
         else let len = (if len > int (length str) - start then int (length str) - start else len)
              in String_Create (text_of str) start len)"

text \<open>
  The two copying loops of \<^verbatim>\<open>String_SubstringByRange\<close>, upwards and downwards through the source.
\<close>

partial_function (option) copy_up :: "bytes \<Rightarrow> int \<Rightarrow> int \<Rightarrow> int \<Rightarrow> cells \<Rightarrow> int \<Rightarrow> (cells \<times> int) option" where
  "copy_up str src srcEnd step text dest =
     (if src < srcEnd
      then Option.bind (text_at str src) (\<lambda>ch.
           Option.bind (arr_set text dest (Some ch)) (\<lambda>text.
           copy_up str (src + step) srcEnd step text (dest + 1)))
      else Some (text, dest))"

partial_function (option) copy_down :: "bytes \<Rightarrow> int \<Rightarrow> int \<Rightarrow> int \<Rightarrow> cells \<Rightarrow> int \<Rightarrow> (cells \<times> int) option" where
  "copy_down str src srcEnd step text dest =
     (if src > srcEnd
      then Option.bind (text_at str src) (\<lambda>ch.
           Option.bind (arr_set text dest (Some ch)) (\<lambda>text.
           copy_down str (src + step) srcEnd step text (dest + 1)))
      else Some (text, dest))"

declare copy_up.simps [code] copy_down.simps [code]

definition substring_up :: "bytes \<Rightarrow> int \<Rightarrow> int \<Rightarrow> int \<Rightarrow> bytes option" where
  "substring_up str start substringLength step =
     do { let resultLength = c_quot substringLength step;
          let (len, text) = String_CreateInternal resultLength;
          (text, dest) \<leftarrow> copy_up str start (start + substringLength) step text 0;
          text \<leftarrow> arr_set text dest (Some 0);
          finish (len, text) }"

definition substring_down :: "bytes \<Rightarrow> int \<Rightarrow> int \<Rightarrow> int \<Rightarrow> bytes option" where
  "substring_down str start substringLength step =
     do { let resultLength = c_quot substringLength (- step);
          let (len, text) = String_CreateInternal resultLength;
          (text, dest) \<leftarrow> copy_down str start (start - substringLength) step text 0;
          text \<leftarrow> arr_set text dest (Some 0);
          finish (len, text) }"

text \<open>
  The clipping of the upward case: \<open>None\<close> when the code returns the empty string, otherwise the
  first index and the length on a step boundary.
\<close>

definition clip_up :: "int \<Rightarrow> int \<Rightarrow> int \<Rightarrow> int \<Rightarrow> (int \<times> int) option" where
  "clip_up len start end step =
     (let substringLength = i64 (end + 1 - start);
          leftover = c_mod substringLength step;
          substringLength = i64 (substringLength + (step - leftover));
          steps = c_quot (i64 (- start)) step;
          start1 = i64 (start + steps * step);
          length1 = i64 (substringLength - steps * step);
          (start2, length2) = (if start1 < 0 then (i64 (start1 + step), i64 (length1 - step)) else (start1, length1));
          (start', length') = (if start < 0 then (start2, length2) else (start, substringLength))
      in if start < 0 \<and> (start' \<ge> len \<or> length' < step) then None
         else if i64 (start' + length') > i64 (len + (step - 1))
         then let length'' = c_quot (i64 (len + (step - 1) - start')) step * step
              in if length'' < step then None else Some (start', length'')
         else Some (start', length'))"

text \<open>The clipping of the downward case, where the step is negative.\<close>

definition clip_down :: "int \<Rightarrow> int \<Rightarrow> int \<Rightarrow> int \<Rightarrow> (int \<times> int) option" where
  "clip_down len start end step =
     (let substringLength = i64 (start + 1 - end);
          leftover = c_mod substringLength (- step);
          substringLength = i64 (substringLength + (- step - leftover));
          steps = c_quot (start - len) (- step);
          start1 = i64 (start - steps * - step);
          length1 = i64 (substringLength - steps * - step);
          (start2, length2) = (if start1 \<ge> len then (i64 (start1 + step), i64 (length1 + step)) else (start1, length1));
          (start', length') = (if start \<ge> len then (start2, length2) else (start, substringLength))
      in if start \<ge> len \<and> (start' < 0 \<or> length' < - step) then None
         else if i64 (start' - length') < - (- step - 1)
         then let length'' = c_quot (i64 (len + (- step - 1) - (len - start' - 1))) (- step) * - step
              in if length'' < - step then None else Some (start', length'')
         else Some (start', length'))"

definition String_SubstringByRange :: "bytes \<Rightarrow> int \<Rightarrow> int \<Rightarrow> int \<Rightarrow> bytes option" where
  "String_SubstringByRange str start end step =
     (let len = int (length str)
      in if step = 1 \<and> start \<le> end then String_Substring str start (i64 (end - start + 1))
         else if start \<le> end then
           if step \<le> 0 \<or> start \<ge> len then Some []
           else case clip_up len start end step of None \<Rightarrow> Some []
                | Some (start', substringLength) \<Rightarrow> substring_up str start' substringLength step
         else
           if step \<ge> 0 \<or> start < 0 then Some []
           else case clip_down len start end step of None \<Rightarrow> Some []
                | Some (start', substringLength) \<Rightarrow> substring_down str start' substringLength step)"

section \<open>Searching\<close>

text \<open>\<open>Some\<close> of the answer; the loop stops at the first byte that differs.\<close>

function is_match_loop :: "bytes \<Rightarrow> bytes \<Rightarrow> int \<Rightarrow> int \<Rightarrow> int \<Rightarrow> bool option" where
  "is_match_loop text pattern start len i =
     (if i < len
      then case text_at pattern i of None \<Rightarrow> None | Some p \<Rightarrow>
           case text_at text (start + i) of None \<Rightarrow> None | Some t \<Rightarrow>
             if p \<noteq> t then Some False else is_match_loop text pattern start len (i + 1)
      else Some True)"
  by pat_completeness auto
termination
  by (relation "measure (\<lambda>(text, pattern, start, len, i). nat (len - i))") auto

declare is_match_loop.simps [simp del]

definition IsMatch :: "bytes \<Rightarrow> bytes \<Rightarrow> int \<Rightarrow> int \<Rightarrow> bool option" where
  "IsMatch text pattern start len = is_match_loop text pattern start len 0"

text \<open>Scanning for the first position of an interval, from below or from above, that satisfies a test.\<close>

function scan_up :: "(int \<Rightarrow> bool option) \<Rightarrow> int \<Rightarrow> int \<Rightarrow> int option" where
  "scan_up test start end =
     (if start < end
      then case test start of None \<Rightarrow> None
           | Some True \<Rightarrow> Some start
           | Some False \<Rightarrow> scan_up test (start + 1) end
      else Some (-1))"
  by pat_completeness auto
termination
  by (relation "measure (\<lambda>(test, start, end). nat (end - start))") auto

function scan_down :: "(int \<Rightarrow> bool option) \<Rightarrow> int \<Rightarrow> int option" where
  "scan_down test start =
     (if start \<ge> 0
      then case test start of None \<Rightarrow> None
           | Some True \<Rightarrow> Some start
           | Some False \<Rightarrow> scan_down test (start - 1)
      else Some (-1))"
  by pat_completeness auto
termination
  by (relation "measure (\<lambda>(test, start). nat (start + 1))") auto

declare scan_up.simps [simp del] scan_down.simps [simp del]

definition String_IndexOf :: "bytes \<Rightarrow> bytes \<Rightarrow> int \<Rightarrow> int option" where
  "String_IndexOf str pattern start =
     (if int (length pattern) > int (length str) then Some (-1)
      else let start = (if start < 0 then 0 else start);
               end = int (length str) - int (length pattern)
           in scan_up (\<lambda>i. IsMatch str pattern i (int (length pattern))) start (end + 1))"

definition String_LastIndexOf :: "bytes \<Rightarrow> bytes \<Rightarrow> int \<Rightarrow> int option" where
  "String_LastIndexOf str pattern start =
     (let slength = int (length str); plength = int (length pattern)
      in if plength > slength \<or> start < plength then Some (-1)
         else let start = start - plength;
                  start = (if start \<ge> slength - plength then slength - plength else start)
              in scan_down (\<lambda>i. IsMatch str pattern i plength) start)"

definition String_Contains :: "bytes \<Rightarrow> bytes \<Rightarrow> bool option" where
  "String_Contains str pattern = do { i \<leftarrow> String_IndexOf str pattern 0; Some (i \<ge> 0) }"

definition String_StartsWithC :: "bytes \<Rightarrow> bytes \<Rightarrow> bool option" where
  "String_StartsWithC str pattern =
     (let len = int (length pattern)
      in if len \<le> int (length str) then IsMatch str pattern 0 len else Some False)"

definition String_StartsWith :: "bytes \<Rightarrow> bytes \<Rightarrow> bool option" where
  "String_StartsWith str pattern =
     (if int (length pattern) \<le> int (length str)
      then IsMatch str pattern 0 (int (length pattern)) else Some False)"

definition String_EndsWithC :: "bytes \<Rightarrow> bytes \<Rightarrow> bool option" where
  "String_EndsWithC str pattern =
     (let len = int (length pattern)
      in if len \<le> int (length str) then IsMatch str pattern (int (length str) - len) len else Some False)"

definition String_EndsWith :: "bytes \<Rightarrow> bytes \<Rightarrow> bool option" where
  "String_EndsWith str pattern =
     (if int (length pattern) \<le> int (length str)
      then IsMatch str pattern (int (length str) - int (length pattern)) (int (length pattern)) else Some False)"

definition String_IndexOfChar :: "bytes \<Rightarrow> byte \<Rightarrow> int \<Rightarrow> int option" where
  "String_IndexOfChar str ch start =
     scan_up (\<lambda>i. do { c \<leftarrow> text_at str i; Some (c = ch) }) start (int (length str))"

definition String_LastIndexOfChar :: "bytes \<Rightarrow> byte \<Rightarrow> int \<Rightarrow> int option" where
  "String_LastIndexOfChar str ch start =
     (let start = (if start \<ge> int (length str) - 1 then int (length str) - 1 else start)
      in scan_down (\<lambda>i. do { c \<leftarrow> text_at str i; Some (c = ch) }) start)"

text \<open>The characters are the first \<open>numChars\<close> of an array; the inner loop stops at a match.\<close>

definition String_IndexOfAnyChar :: "bytes \<Rightarrow> bytes \<Rightarrow> int \<Rightarrow> int \<Rightarrow> int option" where
  "String_IndexOfAnyChar str chars numChars start =
     (let start = (if start < 0 then 0 else start)
      in scan_up (\<lambda>i. do { ch \<leftarrow> text_at str i;
                          k \<leftarrow> scan_up (\<lambda>j. do { c \<leftarrow> arr_get chars j; Some (ch = c) }) 0 numChars;
                          Some (k \<ge> 0) }) start (int (length str)))"

definition String_ContainsNul :: "bytes \<Rightarrow> bool option" where
  "String_ContainsNul str = do { i \<leftarrow> String_IndexOfChar str 0 0; Some (i \<ge> 0) }"

section \<open>Replacing a character\<close>

definition String_ReplaceChar :: "bytes option \<Rightarrow> byte \<Rightarrow> byte \<Rightarrow> bytes option" where
  "String_ReplaceChar str pattern replacement =
     (if String_IsNullOrEmpty str then Some []
      else do {
        s \<leftarrow> str;
        let len = int (length s);
        let (len', newText) = String_CreateInternal len;
        newText \<leftarrow> for_loop (\<lambda>i newText.
            do { ch \<leftarrow> text_at s i;
                 arr_set newText i (Some (if ch = pattern then replacement else ch)) }) 0 len newText;
        newText \<leftarrow> arr_set newText len (Some 0);
        finish (len', newText) })"

definition String_ReplaceCharWithLimit :: "bytes option \<Rightarrow> byte \<Rightarrow> byte \<Rightarrow> int \<Rightarrow> bytes option" where
  "String_ReplaceCharWithLimit str pattern replacement limit =
     (if String_IsNullOrEmpty str then Some []
      else do {
        s \<leftarrow> str;
        let len = int (length s);
        let (len', newText) = String_CreateInternal len;
        (newText, _) \<leftarrow> for_loop (\<lambda>i (newText, limit).
            do { ch \<leftarrow> text_at s i;
                 if ch = pattern \<and> limit > 0
                 then do { newText \<leftarrow> arr_set newText i (Some replacement); Some (newText, limit - 1) }
                 else do { newText \<leftarrow> arr_set newText i (Some ch); Some (newText, limit) } })
            0 len (newText, limit);
        newText \<leftarrow> arr_set newText len (Some 0);
        finish (len', newText) })"

end
