(* ===== verification/StringsCorrect.thy ===== *)
theory StringsCorrect
  imports Strings
begin

text \<open>
  Correctness of the string functions: construction and concatenation against list operations, the
  comparison as a lexicographic order, substrings as slices, and the searches as the first or last
  matching position.
\<close>

section \<open>Construction\<close>

lemma CreateInternal_filling: "0 < n \<Longrightarrow> String_CreateInternal n = (n, filling [] (nat n))"
  by (simp add: String_CreateInternal_def filling_def)

lemma String_Create_cells:
  assumes "0 \<le> ofs" and "n = int (length xs)" and "take (length xs) (drop (nat ofs) t) = map Some xs"
  shows "String_Create t ofs n = Some xs"
proof (cases "xs = []")
  case True
  then show ?thesis using assms by (simp add: String_Create_def)
next
  case False
  have "length (take (length xs) (drop (nat ofs) t)) = length xs" using assms(3) by simp
  then have "length xs \<le> length t - nat ofs" by simp
  then have len: "nat ofs + length xs \<le> length t" using False by (cases xs) auto
  have last: "drop (length xs) (None # replicate (length xs) None) = [None]" by (simp flip: replicate_append_same)
  have m: "mem_cpy (replicate (nat n + 1) None) 0 t ofs n = Some (map Some xs @ [None])"
    using assms len last by (auto simp: mem_cpy_def nat_add_distrib)
  have a: "arr_set (map Some xs @ [None]) n (Some 0) = Some (filling xs 0)"
    using assms(2) by (simp add: arr_set_def filling_def list_update_append)
  show ?thesis
    using False assms(2) a unfolding String_Create_def m by (simp add: finish_filling)
qed

lemma String_Create_text:
  assumes "0 \<le> i" and "0 \<le> n" and "i + n \<le> int (length s)"
  shows "String_Create (text_of s) i n = Some (take (nat n) (drop (nat i) s))"
proof (rule String_Create_cells)
  have *: "nat i + nat n \<le> length s" using assms by linarith
  then have l: "length (take (nat n) (drop (nat i) s)) = nat n" by simp
  then show "n = int (length (take (nat n) (drop (nat i) s)))" using assms by simp
  show "take (length (take (nat n) (drop (nat i) s))) (drop (nat i) (text_of s)) =
      map Some (take (nat n) (drop (nat i) s))"
    unfolding l by (rule take_text_of) (rule *)
qed (rule assms(1))

lemma String_FromC_eq: "String_FromC s = Some s"
  by (simp add: String_FromC_def String_Create_text)

lemma CreateRepeat_eq: "0 \<le> n \<Longrightarrow> String_CreateRepeat b n = Some (replicate (nat n) b)"
proof (cases "n = 0")
  case True
  then show ?thesis
    by (simp add: String_CreateRepeat_def String_CreateInternal_def mem_set_def finish_def)
next
  case False
  assume "0 \<le> n"
  then show ?thesis
    using False by (simp add: String_CreateRepeat_def CreateInternal_filling mem_set_filling finish_filling)
qed

section \<open>Concatenation\<close>

lemma total_length:
  assumes "int (length (concat strs)) < 2 ^ 63"
  shows "for_loop (\<lambda>i len. do { s \<leftarrow> arr_get strs i; Some (i64 (len + int (length s))) }) 0
           (int (length strs)) 0 = Some (int (length (concat strs)))"
proof -
  let ?f = "\<lambda>i. int (length (concat (take i strs)))"
  have le: "?f i \<le> int (length (concat strs))" for i
    by (metis append_take_drop_id concat_append length_append of_nat_le_iff le_add1)
  have "for_loop (\<lambda>i len. do { s \<leftarrow> arr_get strs i; Some (i64 (len + int (length s))) }) 0
           (int (length strs)) 0 = Some (?f (length strs))"
  proof (rule for_loop_nat)
    fix i assume i: "i < length strs"
    have s: "?f (Suc i) = ?f i + int (length (strs ! i))" using i by (simp add: take_Suc_conv_app_nth)
    have "?f (Suc i) < 2 ^ 63" using le [of "Suc i"] assms by linarith
    then show "do { s \<leftarrow> arr_get strs (int i); Some (i64 (?f i + int (length s))) } = Some (?f (Suc i))"
      using i s by (simp add: arr_get_int i64_id)
  qed simp
  then show ?thesis by simp
qed

lemma copy_all:
  assumes "n \<le> length strs" and "k = length (concat (take n strs)) + r"
  shows "for_loop (\<lambda>i (newText, dest).
             do { temp \<leftarrow> arr_get strs i;
                  newText \<leftarrow> mem_cpy newText dest (text_of temp) 0 (int (length temp));
                  Some (newText, dest + int (length temp)) }) 0 (int n) (filling [] k, 0)
         = Some (filling (concat (take n strs)) r, int (length (concat (take n strs))))"
proof -
  let ?g = "\<lambda>i. length (concat (take i strs))"
  let ?f = "\<lambda>i. (filling (concat (take i strs)) (k - ?g i), int (?g i))"
  have le: "?g i \<le> ?g n" if "i \<le> n" for i
  proof -
    have "take i (take n strs) @ drop i (take n strs) = take n strs" by (rule append_take_drop_id)
    then have "concat (take i strs) @ concat (drop i (take n strs)) = concat (take n strs)"
      using that by (metis concat_append min.absorb1 take_take)
    then show ?thesis by (metis le_add1 length_append)
  qed
  have "for_loop (\<lambda>i (newText, dest).
             do { temp \<leftarrow> arr_get strs i;
                  newText \<leftarrow> mem_cpy newText dest (text_of temp) 0 (int (length temp));
                  Some (newText, dest + int (length temp)) }) 0 (int n) (filling [] k, 0) = Some (?f n)"
  proof (rule for_loop_nat)
    fix i assume i: "i < n"
    have c: "concat (take (Suc i) strs) = concat (take i strs) @ strs ! i"
      using i assms(1) by (simp add: take_Suc_conv_app_nth)
    then have "?g i + length (strs ! i) \<le> k" using le [of "Suc i"] i assms(2) by simp
    then show "(case ?f i of (newText, dest) \<Rightarrow>
             do { temp \<leftarrow> arr_get strs (int i);
                  newText \<leftarrow> mem_cpy newText dest (text_of temp) 0 (int (length temp));
                  Some (newText, dest + int (length temp)) }) = Some (?f (Suc i))"
      using i assms(1) c by (simp add: arr_get_int mem_cpy_whole)
  qed simp
  then show ?thesis using assms(2) by simp
qed

lemma ConcatMany_eq:
  assumes "int (length (concat strs)) < 2 ^ 63"
  shows "String_ConcatMany strs (int (length strs)) = Some (concat strs)"
proof (cases "concat strs = []")
  case True
  then show ?thesis using total_length [OF assms] by (auto simp: String_ConcatMany_def)
next
  case False
  let ?n = "int (length (concat strs))"
  have n: "0 < ?n" using False by simp
  have "strs \<noteq> []" using False by auto
  then show ?thesis
    using n copy_all [of "length strs" strs "length (concat strs)" 0] False
    by (simp add: String_ConcatMany_def total_length [OF assms] CreateInternal_filling
        arr_set_terminator finish_filling)
qed

text \<open>The strings with the glue between them.\<close>

fun glued :: "bytes \<Rightarrow> bytes list \<Rightarrow> bytes" where
  "glued g [] = []"
| "glued g [s] = s"
| "glued g (s # t # ss) = s @ g @ glued g (t # ss)"

lemma glued_eq: "glued g (s # ss) = s @ concat (map (\<lambda>t. g @ t) ss)"
  by (induction ss arbitrary: s) simp_all

lemma length_glued: "length (glued g (s # ss)) = length (concat (s # ss)) + length ss * length g"
  unfolding glued_eq by (induction ss) simp_all

lemma length_prefix_concat: "length (concat (take i xs)) \<le> length (concat xs)"
  by (metis append_take_drop_id concat_append le_add1 length_append)

lemma join_copies:
  assumes "strs = s # ss" and "k = length (concat (map (\<lambda>t. g @ t) ss))"
  shows "for_loop (\<lambda>i (newText, dest).
              do { newText \<leftarrow> mem_cpy newText dest (text_of g) 0 (int (length g));
                   let dest = dest + int (length g);
                   s \<leftarrow> arr_get strs i;
                   newText \<leftarrow> mem_cpy newText dest (text_of s) 0 (int (length s));
                   Some (newText, dest + int (length s)) }) 1 (int (length strs)) (filling s k, int (length s))
         = Some (filling (glued g strs) 0, int (length (glued g strs)))"
proof -
  let ?c = "\<lambda>i. concat (map (\<lambda>t. g @ t) (take i ss))"
  let ?F = "\<lambda>i. (filling (s @ ?c i) (k - length (?c i)), int (length (s @ ?c i)))"
  let ?body = "\<lambda>i (newText, dest).
              do { newText \<leftarrow> mem_cpy newText dest (text_of g) 0 (int (length g));
                   let dest = dest + int (length g);
                   s \<leftarrow> arr_get strs i;
                   newText \<leftarrow> mem_cpy newText dest (text_of s) 0 (int (length s));
                   Some (newText, dest + int (length s)) }"
  have le: "length (?c i) \<le> k" for i
    unfolding assms(2) take_map [symmetric] by (rule length_prefix_concat)
  have step: "?body (int (Suc i)) (?F i) = Some (?F (Suc i))" if "i < length ss" for i
  proof -
    have c: "?c (Suc i) = ?c i @ g @ ss ! i" using that by (simp add: take_Suc_conv_app_nth)
    have "length (?c i) + length g + length (ss ! i) \<le> k" using le [of "Suc i"] unfolding c by simp
    moreover have "arr_get strs (int (Suc i)) = Some (ss ! i)"
      using that assms(1) arr_get_int [of "Suc i" strs] by simp
    ultimately show ?thesis unfolding c by (simp add: mem_cpy_whole add.assoc)
  qed
  have "for_loop ?body 1 (int (length strs)) (?F (nat (1 - 1))) = Some (?F (nat (int (length strs) - 1)))"
  proof (rule for_loop_eq [of 1 "int (length strs)" ?body "\<lambda>i. ?F (nat (i - 1))"])
    fix i :: int assume i: "1 \<le> i" "i < int (length strs)"
    then have "int (Suc (nat (i - 1))) = i" "Suc (nat (i - 1)) = nat (i + 1 - 1)" by simp_all
    moreover have "nat (i - 1) < length ss" using i assms(1) by auto
    ultimately show "?body i (?F (nat (i - 1))) = Some (?F (nat (i + 1 - 1)))"
      using step [of "nat (i - 1)"] by metis
  qed (simp add: assms(1))
  then show ?thesis using assms by (simp add: glued_eq)
qed

lemma i64_sum: "0 \<le> x \<Longrightarrow> 0 \<le> y \<Longrightarrow> x + y < 2 ^ 63 \<Longrightarrow> i64 (x + i64 y) = x + y"
  by (simp add: i64_id)

lemma Join_eq:
  assumes "int (length (glued g strs)) < 2 ^ 63"
  shows "String_Join g strs (int (length strs)) = Some (glued g strs)"
proof (cases strs)
  case Nil
  then show ?thesis by (simp add: String_Join_def)
next
  case (Cons s ss)
  have l: "length (glued g strs) = length (concat strs) + length ss * length g"
    unfolding Cons by (rule length_glued)
  then have "int (length (concat strs)) < 2 ^ 63" "int (length ss * length g) < 2 ^ 63"
    using assms zero_le_imp_eq_int [of "int (length ss * length g)"] by linarith+
  then have len: "i64 (int (length (concat strs)) + i64 ((int (length strs) - 1) * int (length g))) =
      int (length (glued g strs))"
  proof -
    have "int (length (concat strs)) + int (length ss * length g) < 2 ^ 63" using assms l by linarith
    then show ?thesis
      using i64_sum [of "int (length (concat strs))" "int (length ss * length g)"] l Cons by simp
  qed
  show ?thesis
  proof (cases "glued g strs = []")
    case True
    then show ?thesis
      using len total_length [OF \<open>int (length (concat strs)) < 2 ^ 63\<close>] by (simp add: String_Join_def Cons)
  next
    case False
    let ?k = "length (concat (map (\<lambda>t. g @ t) ss))"
    have n: "length (glued g strs) = length s + ?k" unfolding Cons glued_eq by simp
    have m: "mem_cpy (filling [] (length (glued g strs))) 0 (text_of s) 0 (int (length s)) = Some (filling s ?k)"
      using mem_cpy_whole [of 0 "[]" "int (length s)" s "length (glued g strs)"] n by simp
    have "arr_get strs 0 = Some s" by (simp add: arr_get_def Cons)
    moreover have "0 < int (length (glued g strs))" using False by simp
    ultimately show ?thesis
      using join_copies [OF Cons refl, of g] m len total_length [OF \<open>int (length (concat strs)) < 2 ^ 63\<close>]
      by (simp add: String_Join_def CreateInternal_filling arr_set_terminator finish_filling Cons)
  qed
qed

definition text_or_empty :: "bytes option \<Rightarrow> bytes" where
  "text_or_empty s = (case s of None \<Rightarrow> [] | Some t \<Rightarrow> t)"

lemma text_or_empty_simps [simp]: "text_or_empty None = []" "text_or_empty (Some t) = t"
  by (simp_all add: text_or_empty_def)

lemma Concat_eq:
  assumes "int (length (text_or_empty s1)) + int (length (text_or_empty s2)) < 2 ^ 63"
  shows "String_Concat s1 s2 = Some (text_or_empty s1 @ text_or_empty s2)"
proof (cases "text_or_empty s1 = [] \<or> text_or_empty s2 = []")
  case True
  then show ?thesis
    by (auto simp: String_Concat_def text_or_empty_def split: option.splits)
next
  case False
  then obtain a b where ab: "s1 = Some a" "s2 = Some b" "a \<noteq> []" "b \<noteq> []"
    by (cases s1; cases s2) auto
  let ?n = "int (length a) + int (length b)"
  have n: "i64 ?n = ?n" using assms ab by (simp add: i64_id)
  have "0 < ?n" using ab(3) by (cases a) auto
  note n = n this
  have c: "String_CreateInternal ?n = (?n, filling [] (length a + length b))"
    using n(2) by (simp add: CreateInternal_filling nat_add_distrib)
  show ?thesis
    using ab n c by (simp add: String_Concat_def mem_cpy_whole arr_set_terminator finish_filling)
qed

lemma ConcatByte_eq:
  assumes "int (length (text_or_empty s)) + 1 < 2 ^ 63"
  shows "String_ConcatByte s ch = Some (text_or_empty s @ [ch])"
proof (cases "text_or_empty s = []")
  case True
  then have "s = None \<or> s = Some []" by (cases s) auto
  then show ?thesis
    by (auto simp: String_ConcatByte_def CreateInternal_filling arr_set_filling finish_filling)
next
  case False
  then obtain c cs where s: "s = Some (c # cs)" by (cases s) (auto simp: neq_Nil_conv)
  let ?n = "int (length (c # cs)) + 1"
  have n: "i64 ?n = ?n" "0 < ?n" using assms s by (simp_all add: i64_id)
  have f: "String_CreateInternal ?n = (?n, filling [] (Suc (length (c # cs))))"
    using n(2) by (simp add: CreateInternal_filling nat_add_distrib)
  have m: "mem_cpy (filling [] (Suc (length (c # cs)))) 0 (text_of (c # cs)) 0 (int (length (c # cs))) =
      Some (filling (c # cs) (Suc 0))"
    using mem_cpy_whole [of 0 "[]" _ "c # cs" "Suc (length (c # cs))"] by simp
  have w: "arr_set (filling (c # cs) (Suc 0)) (?n - 1) (Some ch) = Some (filling ((c # cs) @ [ch]) 0)"
    by (rule arr_set_filling) simp
  show ?thesis
    unfolding String_ConcatByte_def s option.case list.case Let_def n(1) f prod.case m
    using w by (simp add: arr_set_terminator [of _ "c # cs @ [ch]"] finish_filling)
qed

text \<open>
  C35: The functions that build a string from parts write every byte of the result exactly where it
  belongs and none outside it: a repeated byte, two strings (a null one counts as empty), a string and
  a byte, an array of strings, and an array with a glue string between its elements.
\<close>

theorem string_building:
  "(0 \<le> n \<longrightarrow> String_CreateRepeat b n = Some (replicate (nat n) b)) \<and>
   (int (length (text_or_empty s1)) + int (length (text_or_empty s2)) < 2 ^ 63 \<longrightarrow>
     String_Concat s1 s2 = Some (text_or_empty s1 @ text_or_empty s2)) \<and>
   (int (length (text_or_empty s)) + 1 < 2 ^ 63 \<longrightarrow> String_ConcatByte s ch = Some (text_or_empty s @ [ch])) \<and>
   (int (length (concat strs)) < 2 ^ 63 \<longrightarrow> String_ConcatMany strs (int (length strs)) = Some (concat strs)) \<and>
   (int (length (glued g strs)) < 2 ^ 63 \<longrightarrow> String_Join g strs (int (length strs)) = Some (glued g strs))"
  by (intro conjI impI) (rule CreateRepeat_eq Concat_eq ConcatByte_eq ConcatMany_eq Join_eq; assumption)+

theorem string_building_witness:
  "String_CreateRepeat 65 3 = Some [65, 65, 65] \<and>
   String_Concat (Some [65]) None = Some [65] \<and>
   String_ConcatByte (Some [65]) 66 = Some [65, 66] \<and>
   String_ConcatMany [[65], [], [66, 67]] 3 = Some [65, 66, 67] \<and>
   String_Join [44] [[65], [], [66, 67]] 3 = Some [65, 44, 44, 66, 67]"
  using string_building [of 3 65 "Some [65]" None "Some [65]" 66 "[[65], [], [66, 67]]" "[44]"]
  by (simp add: numeral_3_eq_3)

section \<open>Comparison\<close>

abbreviation byte_less :: "(byte \<times> byte) set" where
  "byte_less \<equiv> {(x, y). x < y}"

lemma lexord_asym_byte: "(a, b) \<in> lexord byte_less \<Longrightarrow> (b, a) \<notin> lexord byte_less"
  by (rule lexord_asymmetric) (auto intro: asymI)

text \<open>What a comparison answers, in terms of the lexicographic order of the texts.\<close>

definition orders :: "int \<Rightarrow> bytes \<Rightarrow> bytes \<Rightarrow> bool" where
  "orders r a b \<longleftrightarrow> r \<in> {-1, 0, 1} \<and> (r = 0 \<longleftrightarrow> a = b) \<and> (r = -1 \<longleftrightarrow> (a, b) \<in> lexord byte_less) \<and>
     (r = 1 \<longleftrightarrow> (b, a) \<in> lexord byte_less)"

lemma orders_trivial: "orders 0 a a" "b \<noteq> [] \<Longrightarrow> orders (-1) [] b" "a \<noteq> [] \<Longrightarrow> orders 1 a []"
  by (auto simp: orders_def lexord_irreflexive neq_Nil_conv)

lemma orders_Cons: "orders r a b \<Longrightarrow> orders r (x # a) (x # b)"
  by (auto simp: orders_def)

lemma orders_head: "x < y \<Longrightarrow> orders (-1) (x # a) (y # b)" "y < x \<Longrightarrow> orders 1 (x # a) (y # b)"
  by (auto simp: orders_def)

lemma orders_swap: "orders r a b \<Longrightarrow> orders (- r) b a"
  unfolding orders_def by (elim conjE insertE emptyE) simp_all

lemma orders_unique: "orders r a b \<Longrightarrow> orders q a b \<Longrightarrow> r = q"
  unfolding orders_def by (elim conjE insertE emptyE) simp_all

lemma compare_loop_orders:
  assumes "k \<le> length a" and "k \<le> length b" and "i = min (length a) (length b) - k"
  shows "\<exists>r. compare_loop a b (int k) i = Some r \<and>
     orders (case r of Some c \<Rightarrow> c | None \<Rightarrow> if length a = length b then 0 else if length a < length b then -1 else 1)
       (drop k a) (drop k b)"
  using assms
proof (induction i arbitrary: k)
  case 0
  then have "k = length a \<or> k = length b" by (auto simp: min_def split: if_splits)
  then show ?case
    using 0 orders_trivial(1) [of "[]"] orders_trivial(2) [of "drop k b"] orders_trivial(3) [of "drop k a"]
    by (auto simp: min_def split: if_splits)
next
  case (Suc i)
  then have k: "k < length a" "k < length b" by auto
  have d: "drop k a = a ! k # drop (Suc k) a" "drop k b = b ! k # drop (Suc k) b"
    using k by (simp_all add: Cons_nth_drop_Suc)
  show ?case
  proof (cases "a ! k = b ! k")
    case True
    have i: "i = min (length a) (length b) - Suc k" using Suc.prems(3) by simp
    have "compare_loop a b (int k) (Suc i) = compare_loop a b (int (Suc k)) i"
      using True k by (simp add: text_at_nth add.commute)
    then show ?thesis
      using Suc.IH [of "Suc k"] k i True unfolding d by (metis Suc_leI orders_Cons)
  next
    case False
    then have "a ! k < b ! k \<or> b ! k < a ! k" by auto
    then show ?thesis
      using False k unfolding d by (auto simp: text_at_nth intro: orders_head)
  qed
qed

lemma Compare_orders: "\<exists>r. String_Compare a b = Some r \<and> orders r (text_or_empty a) (text_or_empty b)"
proof (cases "text_or_empty a = [] \<or> text_or_empty b = []")
  case True
  then show ?thesis
    using orders_trivial
    by (cases a; cases b) (auto simp: String_Compare_def String_IsNullOrEmpty_def)
next
  case False
  then obtain s t where st: "a = Some s" "b = Some t" "s \<noteq> []" "t \<noteq> []" by (cases a; cases b) auto
  have m: "(if length s < length t then length s else length t) = min (length s) (length t)" by auto
  obtain r where "compare_loop s t 0 (min (length s) (length t)) = Some r"
     "orders (case r of Some c \<Rightarrow> c | None \<Rightarrow> if length s = length t then 0 else if length s < length t then -1 else 1) s t"
    using compare_loop_orders [of 0 s t] by auto
  then show ?thesis using st by (simp add: String_Compare_def String_IsNullOrEmpty_def m Let_def)
qed

text \<open>
  C34: String_Compare never reads outside the strings and answers 0, -1 or 1 exactly when the texts
  are equal, the first precedes the second, or the second precedes the first, in the lexicographic
  order of unsigned bytes (a null string counts as empty); exchanging the arguments negates it.
\<close>

theorem String_Compare_correct:
  "\<exists>r. String_Compare a b = Some r \<and> String_Compare b a = Some (- r) \<and>
     (r = 0 \<longleftrightarrow> text_or_empty a = text_or_empty b) \<and>
     (r = -1 \<longleftrightarrow> (text_or_empty a, text_or_empty b) \<in> lexord byte_less) \<and>
     (r = 1 \<longleftrightarrow> (text_or_empty b, text_or_empty a) \<in> lexord byte_less)"
proof -
  obtain r where r: "String_Compare a b = Some r" "orders r (text_or_empty a) (text_or_empty b)"
    using Compare_orders by blast
  obtain q where q: "String_Compare b a = Some q" "orders q (text_or_empty b) (text_or_empty a)"
    using Compare_orders by blast
  have "q = - r" using orders_swap [OF r(2)] q(2) by (rule orders_unique [symmetric])
  with r q show ?thesis by (simp add: orders_def)
qed

end
