(* ===== verification/StringSearch.thy ===== *)
theory StringSearch
  imports StringsCorrect
begin

text \<open>
  The search functions of \<^verbatim>\<open>string_core.c\<close>: the position they answer is the first (or last) one at
  which the pattern occurs, and every text access is inside its string.
\<close>

section \<open>Specifications\<close>

definition occurs_at :: "bytes \<Rightarrow> bytes \<Rightarrow> nat \<Rightarrow> bool" where
  "occurs_at p s k \<longleftrightarrow> k + length p \<le> length s \<and> take (length p) (drop k s) = p"

text \<open>The first position from \<open>a\<close> to before \<open>b\<close> with the property, or -1; and the last one.\<close>

definition first_at :: "(int \<Rightarrow> bool) \<Rightarrow> int \<Rightarrow> int \<Rightarrow> int \<Rightarrow> bool" where
  "first_at P a b r \<longleftrightarrow>
     (r = -1 \<and> (\<forall>i. a \<le> i \<and> i < b \<longrightarrow> \<not> P i)) \<or> (a \<le> r \<and> r < b \<and> P r \<and> (\<forall>i. a \<le> i \<and> i < r \<longrightarrow> \<not> P i))"

definition last_at :: "(int \<Rightarrow> bool) \<Rightarrow> int \<Rightarrow> int \<Rightarrow> bool" where
  "last_at P b r \<longleftrightarrow>
     (r = -1 \<and> (\<forall>i. 0 \<le> i \<and> i \<le> b \<longrightarrow> \<not> P i)) \<or> (0 \<le> r \<and> r \<le> b \<and> P r \<and> (\<forall>i. r < i \<and> i \<le> b \<longrightarrow> \<not> P i))"

section \<open>Scanning\<close>

lemma scan_up_first:
  assumes "\<And>i. a \<le> i \<Longrightarrow> i < b \<Longrightarrow> test i = Some (P i)"
  shows "\<exists>r. scan_up test a b = Some r \<and> first_at P a b r"
  using assms
proof (induction "nat (b - a)" arbitrary: a)
  case 0
  then show ?case by (auto simp: scan_up.simps first_at_def)
next
  case (Suc n)
  then have ab: "a < b" by simp
  show ?case
  proof (cases "P a")
    case True
    then show ?thesis using ab Suc.prems [of a] by (subst scan_up.simps) (auto simp: first_at_def)
  next
    case False
    have "n = nat (b - (a + 1))" using Suc.hyps(2) by simp
    then obtain r where r: "scan_up test (a + 1) b = Some r" "first_at P (a + 1) b r"
      using Suc.hyps(1) [of "a + 1"] Suc.prems by auto
    have "a + 1 \<le> i" if "a \<le> i" "P i" for i using False that by (cases "i = a") auto
    then have "first_at P a b r" using r(2) unfolding first_at_def by (smt (verit))
    moreover have "scan_up test a b = Some r"
      using ab Suc.prems [of a] r(1) False by (subst scan_up.simps) simp
    ultimately show ?thesis by blast
  qed
qed

lemma scan_down_last:
  assumes "\<And>i. 0 \<le> i \<Longrightarrow> i \<le> b \<Longrightarrow> test i = Some (P i)"
  shows "\<exists>r. scan_down test b = Some r \<and> last_at P b r"
  using assms
proof (induction "nat (b + 1)" arbitrary: b)
  case 0
  then show ?case by (auto simp: scan_down.simps last_at_def)
next
  case (Suc n)
  then have b: "0 \<le> b" by simp
  show ?case
  proof (cases "P b")
    case True
    then show ?thesis using b Suc.prems [of b] by (subst scan_down.simps) (auto simp: last_at_def)
  next
    case False
    have "n = nat (b - 1 + 1)" using Suc.hyps(2) by simp
    then obtain r where r: "scan_down test (b - 1) = Some r" "last_at P (b - 1) r"
      using Suc.hyps(1) [of "b - 1"] Suc.prems by auto
    have "i \<le> b - 1" if "i \<le> b" "P i" for i using False that by (cases "i = b") auto
    then have "last_at P b r" using r(2) unfolding last_at_def by (smt (verit))
    moreover have "scan_down test b = Some r"
      using b Suc.prems [of b] r(1) False by (subst scan_down.simps) simp
    ultimately show ?thesis by blast
  qed
qed

lemma is_match_loop_eq:
  assumes "0 \<le> i" and "i \<le> int (length p)" and "0 \<le> k" and "k + int (length p) \<le> int (length s)"
  shows "is_match_loop s p k (int (length p)) i =
     Some (\<forall>j. i \<le> j \<and> j < int (length p) \<longrightarrow> p ! nat j = s ! nat (k + j))"
  using assms
proof (induction "nat (int (length p) - i)" arbitrary: i)
  case 0
  then show ?case by (auto simp: is_match_loop.simps)
next
  case (Suc n)
  then have i: "i < int (length p)" by simp
  have IH: "is_match_loop s p k (int (length p)) (i + 1) =
     Some (\<forall>j. i + 1 \<le> j \<and> j < int (length p) \<longrightarrow> p ! nat j = s ! nat (k + j))"
    using Suc i by simp
  have "(\<forall>j. i \<le> j \<and> j < int (length p) \<longrightarrow> p ! nat j = s ! nat (k + j)) \<longleftrightarrow>
      p ! nat i = s ! nat (k + i) \<and> (\<forall>j. i + 1 \<le> j \<and> j < int (length p) \<longrightarrow> p ! nat j = s ! nat (k + j))"
    using i by (metis add1_zle_eq order_le_less)
  then show ?case
    using i Suc.prems IH by (subst is_match_loop.simps) (simp add: text_at_int)
qed

lemma IsMatch_occurs:
  assumes "k + length p \<le> length s"
  shows "IsMatch s p (int k) (int (length p)) = Some (occurs_at p s k)"
proof -
  have "(\<forall>j. 0 \<le> j \<and> j < int (length p) \<longrightarrow> p ! nat j = s ! nat (int k + j)) \<longleftrightarrow> (\<forall>j<length p. p ! j = s ! (k + j))"
  proof (intro iffI allI impI)
    fix j assume "\<forall>j. 0 \<le> j \<and> j < int (length p) \<longrightarrow> p ! nat j = s ! nat (int k + j)" "j < length p"
    then show "p ! j = s ! (k + j)" by (metis nat_int of_nat_0_le_iff of_nat_add of_nat_less_iff)
  next
    fix j :: int assume "\<forall>j<length p. p ! j = s ! (k + j)" "0 \<le> j \<and> j < int (length p)"
    then show "p ! nat j = s ! nat (int k + j)" by (simp add: nat_add_distrib nat_less_iff)
  qed
  also have "\<dots> \<longleftrightarrow> occurs_at p s k"
    using assms by (auto simp: occurs_at_def list_eq_iff_nth_eq)
  finally show ?thesis
    using is_match_loop_eq [of 0 p "int k" s] assms by (simp add: IsMatch_def)
qed

lemma IsMatch_test:
  assumes "0 \<le> i" and "i + int (length p) \<le> int (length s)"
  shows "IsMatch s p i (int (length p)) = Some (occurs_at p s (nat i))"
  using IsMatch_occurs [of "nat i" p s] assms by simp

section \<open>Patterns\<close>

lemma IndexOf_first:
  "\<exists>r. String_IndexOf s p start = Some r \<and>
     first_at (\<lambda>i. occurs_at p s (nat i)) (max start 0) (int (length s) - int (length p) + 1) r"
proof (cases "length p > length s")
  case True
  then show ?thesis by (auto simp: String_IndexOf_def first_at_def)
next
  case False
  have m: "(if start < 0 then 0 else start) = max start 0" by simp
  obtain r where "scan_up (\<lambda>i. IsMatch s p i (int (length p))) (max start 0) (int (length s) - int (length p) + 1) = Some r"
    "first_at (\<lambda>i. occurs_at p s (nat i)) (max start 0) (int (length s) - int (length p) + 1) r"
    using scan_up_first [of "max start 0" "int (length s) - int (length p) + 1"
        "\<lambda>i. IsMatch s p i (int (length p))" "\<lambda>i. occurs_at p s (nat i)"]
    by (auto simp: IsMatch_test)
  then show ?thesis using False by (simp add: String_IndexOf_def m del: if_splits)
qed

lemma LastIndexOf_last:
  "\<exists>r. String_LastIndexOf s p start = Some r \<and>
     last_at (\<lambda>i. occurs_at p s (nat i)) (min start (int (length s)) - int (length p)) r"
proof (cases "int (length p) > int (length s) \<or> start < int (length p)")
  case True
  then show ?thesis by (auto simp: String_LastIndexOf_def last_at_def)
next
  case False
  let ?b = "min start (int (length s)) - int (length p)"
  have m: "(let start = start - int (length p) in if start \<ge> int (length s) - int (length p)
      then int (length s) - int (length p) else start) = ?b" by (simp add: Let_def)
  obtain r where "scan_down (\<lambda>i. IsMatch s p i (int (length p))) ?b = Some r"
    "last_at (\<lambda>i. occurs_at p s (nat i)) ?b r"
    using scan_down_last [of ?b "\<lambda>i. IsMatch s p i (int (length p))" "\<lambda>i. occurs_at p s (nat i)"]
    by (auto simp: IsMatch_test)
  then show ?thesis using False m by (simp add: String_LastIndexOf_def Let_def)
qed

lemma Contains_eq: "String_Contains s p = Some (\<exists>k. occurs_at p s k)"
proof -
  let ?P = "\<lambda>i. occurs_at p s (nat i)" and ?e = "int (length s) - int (length p) + 1"
  obtain r where r: "String_IndexOf s p 0 = Some r" "first_at ?P 0 ?e r"
    using IndexOf_first [of s p 0] by auto
  have "(0 \<le> r) = (\<exists>k. occurs_at p s k)"
  proof
    assume "\<exists>k. occurs_at p s k"
    then obtain k where k: "occurs_at p s k" by blast
    then have "0 \<le> int k" "int k < ?e" "?P (int k)" by (auto simp: occurs_at_def)
    then show "0 \<le> r" using r(2) unfolding first_at_def by blast
  qed (use r(2) in \<open>auto simp: first_at_def\<close>)
  then show ?thesis using r(1) by (simp add: String_Contains_def)
qed

lemma occurs_at_start: "occurs_at p s 0 \<longleftrightarrow> (\<exists>b. s = p @ b)"
proof
  assume "occurs_at p s 0"
  then have "s = p @ drop (length p) s" by (metis append_take_drop_id drop_0 occurs_at_def)
  then show "\<exists>b. s = p @ b" ..
qed (auto simp: occurs_at_def)

lemma occurs_at_end:
  assumes "length p \<le> length s"
  shows "occurs_at p s (length s - length p) \<longleftrightarrow> (\<exists>a. s = a @ p)"
proof
  assume "occurs_at p s (length s - length p)"
  then have "drop (length s - length p) s = p" using assms by (simp add: occurs_at_def)
  then have "s = take (length s - length p) s @ p" by (metis append_take_drop_id)
  then show "\<exists>a. s = a @ p" ..
qed (auto simp: occurs_at_def)

lemma StartsWith_eq: "String_StartsWith s p = Some (\<exists>b. s = p @ b)"
  using IsMatch_occurs [of 0 p s] occurs_at_start [of p s] by (auto simp: String_StartsWith_def)

lemma EndsWith_eq: "String_EndsWith s p = Some (\<exists>a. s = a @ p)"
proof (cases "length p \<le> length s")
  case True
  then have "int (length s) - int (length p) = int (length s - length p)" by simp
  then show ?thesis
    using True IsMatch_occurs [of "length s - length p" p s] occurs_at_end [OF True] by (simp add: String_EndsWith_def)
qed (auto simp: String_EndsWith_def)

text \<open>
  C19: String_IndexOf answers the first position from start on at which the pattern occurs in the
  string, String_LastIndexOf the last one at which the pattern ends at or before start, and both -1
  when there is none; String_Contains, String_StartsWith and String_EndsWith (and their variants for
  C strings) agree with them. None of them reads outside its arguments, for any start.
\<close>

theorem string_search:
  "(\<exists>r. String_IndexOf s p start = Some r \<and>
      first_at (\<lambda>i. occurs_at p s (nat i)) (max start 0) (int (length s) - int (length p) + 1) r) \<and>
   (\<exists>r. String_LastIndexOf s p start = Some r \<and>
      last_at (\<lambda>i. occurs_at p s (nat i)) (min start (int (length s)) - int (length p)) r) \<and>
   String_Contains s p = Some (\<exists>k. occurs_at p s k) \<and>
   String_StartsWith s p = Some (\<exists>b. s = p @ b) \<and> String_StartsWithC s p = Some (\<exists>b. s = p @ b) \<and>
   String_EndsWith s p = Some (\<exists>a. s = a @ p) \<and> String_EndsWithC s p = Some (\<exists>a. s = a @ p)"
  using IndexOf_first LastIndexOf_last Contains_eq StartsWith_eq EndsWith_eq StartsWith_eq [of s p] EndsWith_eq [of s p]
  by (simp add: String_StartsWithC_def String_StartsWith_def String_EndsWithC_def String_EndsWith_def Let_def)

section \<open>Characters\<close>

lemma test_char: "0 \<le> i \<Longrightarrow> i < int (length s) \<Longrightarrow>
    do { c \<leftarrow> text_at s i; Some (f c) } = Some (f (s ! nat i))"
  by (simp add: text_at_int)

lemma scan_members:
  "\<exists>k. scan_up (\<lambda>j. do { c \<leftarrow> arr_get chars j; Some (ch = c) }) 0 (int (length chars)) = Some k \<and>
     (k \<ge> 0 \<longleftrightarrow> ch \<in> set chars)"
proof -
  let ?P = "\<lambda>j. ch = chars ! nat j"
  obtain k where k: "scan_up (\<lambda>j. do { c \<leftarrow> arr_get chars j; Some (ch = c) }) 0 (int (length chars)) = Some k"
    "first_at ?P 0 (int (length chars)) k"
    using scan_up_first [of 0 "int (length chars)" "\<lambda>j. do { c \<leftarrow> arr_get chars j; Some (ch = c) }" ?P]
    by (auto simp: arr_get_range)
  have "k \<ge> 0 \<longleftrightarrow> ch \<in> set chars"
  proof
    assume "ch \<in> set chars"
    then obtain j where "j < length chars" "ch = chars ! j" by (auto simp: in_set_conv_nth)
    then have "0 \<le> int j" "int j < int (length chars)" "?P (int j)" by auto
    then show "k \<ge> 0" using k(2) unfolding first_at_def by blast
  qed (use k(2) in \<open>auto simp: first_at_def nat_less_iff\<close>)
  then show ?thesis using k(1) by blast
qed

text \<open>
  C37: The character searches answer the first or last position with a matching byte in the interval
  they search. String_IndexOfChar does so only for a start that is not negative: it does not clip its
  start, and from a negative one it reads in front of the text.
\<close>

theorem character_search:
  "(0 \<le> start \<longrightarrow> (\<exists>r. String_IndexOfChar s ch start = Some r \<and>
      first_at (\<lambda>i. s ! nat i = ch) start (int (length s)) r)) \<and>
   (start < 0 \<longrightarrow> String_IndexOfChar s ch start = None) \<and>
   (\<exists>r. String_LastIndexOfChar s ch start = Some r \<and>
      last_at (\<lambda>i. s ! nat i = ch) (min start (int (length s) - 1)) r) \<and>
   (\<exists>r. String_IndexOfAnyChar s chars (int (length chars)) start = Some r \<and>
      first_at (\<lambda>i. s ! nat i \<in> set chars) (max start 0) (int (length s)) r)"
proof (intro conjI impI)
  assume "0 \<le> start"
  then show "\<exists>r. String_IndexOfChar s ch start = Some r \<and> first_at (\<lambda>i. s ! nat i = ch) start (int (length s)) r"
    unfolding String_IndexOfChar_def by (intro scan_up_first) (simp add: text_at_int)
next
  assume "start < 0"
  then show "String_IndexOfChar s ch start = None"
    unfolding String_IndexOfChar_def by (subst scan_up.simps) (simp add: text_at_def arr_get_def)
next
  have "(if start \<ge> int (length s) - 1 then int (length s) - 1 else start) = min start (int (length s) - 1)" by simp
  then show "\<exists>r. String_LastIndexOfChar s ch start = Some r \<and>
      last_at (\<lambda>i. s ! nat i = ch) (min start (int (length s) - 1)) r"
    unfolding String_LastIndexOfChar_def Let_def by (simp only:) (intro scan_down_last, simp add: text_at_int)
next
  have "(if start < 0 then 0 else start) = max start 0" by simp
  moreover have "do { c \<leftarrow> text_at s i;
       k \<leftarrow> scan_up (\<lambda>j. do { d \<leftarrow> arr_get chars j; Some (c = d) }) 0 (int (length chars));
       Some (k \<ge> 0) } = Some (s ! nat i \<in> set chars)" if "max start 0 \<le> i" "i < int (length s)" for i
    using scan_members [of chars "s ! nat i"] that by (auto simp: text_at_int)
  ultimately show "\<exists>r. String_IndexOfAnyChar s chars (int (length chars)) start = Some r \<and>
      first_at (\<lambda>i. s ! nat i \<in> set chars) (max start 0) (int (length s)) r"
    unfolding String_IndexOfAnyChar_def Let_def by (simp only:) (intro scan_up_first)
qed

theorem character_search_witness:
  "(\<exists>r. String_IndexOfChar [1, 2, 1] 1 1 = Some r \<and> first_at (\<lambda>i. [1, 2, 1] ! nat i = (1 :: byte)) 1 3 r) \<and>
   String_IndexOfChar [1, 2, 1] 1 (-1) = None"
  using character_search [of 1 "[1, 2, 1]" 1 "[]"] character_search [of "-1" "[1, 2, 1]" 1 "[]"] by simp

section \<open>Comparing ranges\<close>

text \<open>The bytes of a string at the positions of a range, after the clipping of the code.\<close>

definition range_of :: "bytes option \<Rightarrow> int \<Rightarrow> int \<Rightarrow> bytes" where
  "range_of s start len = (let s = text_or_empty s; b = min (start + len) (int (length s))
     in if max start 0 < b then take (nat (b - max start 0)) (drop (nat start) s) else [])"

lemma compare_range_loop_orders:
  assumes "0 \<le> i" "i \<le> aend" "aend \<le> int (length a)" "0 \<le> j" "j \<le> bend" "bend \<le> int (length b)"
  shows "\<exists>r. compare_range_loop a i aend b j bend = Some r \<and>
     orders (case r of Inl c \<Rightarrow> c | Inr (p, q) \<Rightarrow> if p \<noteq> aend then 1 else if q \<noteq> bend then -1 else 0)
       (take (nat (aend - i)) (drop (nat i) a)) (take (nat (bend - j)) (drop (nat j) b))"
  using assms
proof (induction "nat (aend - i)" arbitrary: i j)
  case 0
  then have "i = aend" by simp
  then show ?case
    using 0 orders_trivial(1) [of "[]"] orders_trivial(2) [of "take (nat (bend - j)) (drop (nat j) b)"]
    by (subst compare_range_loop.simps) (auto simp: nat_less_iff)
next
  case (Suc n)
  then have i: "i < aend" and n: "n = nat (aend - (i + 1))" by simp_all
  have da: "take (nat (aend - i)) (drop (nat i) a) = a ! nat i # take (nat (aend - (i + 1))) (drop (nat (i + 1)) a)"
  proof -
    have "nat i < length a" "nat (aend - i) = Suc (nat (aend - (i + 1)))" "nat (i + 1) = Suc (nat i)"
      using i Suc.prems by (auto simp: nat_less_iff)
    then show ?thesis by (simp add: Cons_nth_drop_Suc [symmetric])
  qed
  show ?case
  proof (cases "j < bend")
    case False
    then have "j = bend" using Suc.prems by simp
    then show ?thesis
      using i orders_trivial(3) [of "take (nat (aend - i)) (drop (nat i) a)"] unfolding da
      by (subst compare_range_loop.simps) auto
  next
    case True
    have db: "take (nat (bend - j)) (drop (nat j) b) = b ! nat j # take (nat (bend - (j + 1))) (drop (nat (j + 1)) b)"
    proof -
      have "nat j < length b" "nat (bend - j) = Suc (nat (bend - (j + 1)))" "nat (j + 1) = Suc (nat j)"
        using True Suc.prems by (auto simp: nat_less_iff)
      then show ?thesis by (simp add: Cons_nth_drop_Suc [symmetric])
    qed
    have t: "text_at a i = Some (a ! nat i)" "text_at b j = Some (b ! nat j)"
      using i True Suc.prems by (auto intro: text_at_int)
    show ?thesis
    proof (cases "a ! nat i = b ! nat j")
      case eq: True
      have "compare_range_loop a i aend b j bend = compare_range_loop a (i + 1) aend b (j + 1) bend"
        using i True t eq by (subst compare_range_loop.simps) simp
      moreover obtain r where "compare_range_loop a (i + 1) aend b (j + 1) bend = Some r"
        "orders (case r of Inl c \<Rightarrow> c | Inr (p, q) \<Rightarrow> if p \<noteq> aend then 1 else if q \<noteq> bend then -1 else 0)
          (take (nat (aend - (i + 1))) (drop (nat (i + 1)) a)) (take (nat (bend - (j + 1))) (drop (nat (j + 1)) b))"
        using Suc.hyps(1) [of "i + 1" "j + 1"] n Suc.prems i True by auto
      ultimately show ?thesis unfolding da db eq using orders_Cons by metis
    next
      case False
      then have "a ! nat i < b ! nat j \<or> b ! nat j < a ! nat i" by auto
      then show ?thesis
        using i True t False unfolding da db
        by (subst compare_range_loop.simps) (auto intro: orders_head)
    qed
  qed
qed

text \<open>
  String_CompareRange answers the lexicographic order of the two ranges, clipped to their strings
  (a null string counts as empty), with one exception: when only the second range is empty it answers
  -1 as well, as if the first one preceded it.
\<close>

lemma String_CompareRange_correct:
  assumes "- (2 ^ 63) \<le> astart + alength" and "astart + alength < 2 ^ 63"
    and "- (2 ^ 63) \<le> bstart + blength" and "bstart + blength < 2 ^ 63"
  shows "\<exists>r. String_CompareRange a astart alength b bstart blength = Some r \<and>
    (if range_of a astart alength \<noteq> [] \<and> range_of b bstart blength = [] then r = -1
     else orders r (range_of a astart alength) (range_of b bstart blength))"
proof -
  define A Al where "A = max astart 0" and "Al = (if astart < 0 then alength + astart else alength)"
  define B Bl where "B = max bstart 0" and "Bl = (if bstart < 0 then blength + bstart else blength)"
  have w: "(if astart < 0 then (0, i64 (alength + astart)) else (astart, alength)) = (A, Al)"
    "(if bstart < 0 then (0, i64 (blength + bstart)) else (bstart, blength)) = (B, Bl)"
    using assms by (simp_all add: A_def Al_def B_def Bl_def i64_id add.commute)
  let ?e = "\<lambda>s start len. case s of None \<Rightarrow> True
      | Some t \<Rightarrow> int (length t) = 0 \<or> start \<ge> int (length t) \<or> len \<le> 0"
  have ra: "range_of a astart alength = [] \<longleftrightarrow> ?e a A Al"
    by (auto simp: range_of_def Let_def A_def Al_def max_def min_def split: option.splits)
  have rb: "range_of b bstart blength = [] \<longleftrightarrow> ?e b B Bl"
    by (auto simp: range_of_def Let_def B_def Bl_def max_def min_def split: option.splits)
  show ?thesis
  proof (cases "?e a A Al \<or> ?e b B Bl")
    case True
    then show ?thesis
      unfolding String_CompareRange_def w Let_def prod.case
      using ra rb orders_trivial by auto
  next
    case False
    then obtain s t where st: "a = Some s" "b = Some t" by (cases a; cases b) auto
    have range: "0 \<le> A" "A < int (length s)" "0 < Al" "0 \<le> B" "B < int (length t)" "0 < Bl"
      using False st by (auto simp: A_def B_def)
    define Ae Be where "Ae = A + (if Al > int (length s) - A then int (length s) - A else Al)"
      and "Be = B + (if Bl > int (length t) - B then int (length t) - B else Bl)"
    have ends: "A \<le> Ae" "Ae \<le> int (length s)" "B \<le> Be" "Be \<le> int (length t)"
      using range by (simp_all add: Ae_def Be_def)
    have r: "range_of a astart alength = take (nat (Ae - A)) (drop (nat A) s)"
      "range_of b bstart blength = take (nat (Be - B)) (drop (nat B) t)"
      using range st by (auto simp: range_of_def Let_def A_def Al_def Ae_def B_def Bl_def Be_def max_def min_def add.commute)
    obtain q where "compare_range_loop s A Ae t B Be = Some q"
      "orders (case q of Inl c \<Rightarrow> c | Inr (p, p') \<Rightarrow> if p \<noteq> Ae then 1 else if p' \<noteq> Be then -1 else 0)
        (range_of a astart alength) (range_of b bstart blength)"
      using compare_range_loop_orders [of A Ae s B Be t] range ends unfolding r by auto
    then show ?thesis
      using False ra rb
      unfolding String_CompareRange_def w Let_def prod.case st Option.bind_lunit Ae_def [symmetric] Be_def [symmetric]
      by simp
  qed
qed

lemma String_CompareRange_correct_witness:
  "\<exists>r. String_CompareRange (Some [1, 2]) 0 2 (Some [1, 3]) 0 2 = Some r \<and> orders r [1, 2] [1, 3]"
  using String_CompareRange_correct [of 0 2 0 2 "Some [1, 2]" "Some [1, 3]"] by (simp add: range_of_def numeral_2_eq_2)

end
