(* ===== verification/Substrings.thy ===== *)
theory Substrings
  imports StringsCorrect
begin

text \<open>
  The substring functions against \<^term>\<open>nths\<close>: a substring consists of the bytes at the positions
  of a set, in ascending order, and the clipping of the arguments to the string does not show in it.
\<close>

section \<open>Bytes at a set of positions\<close>

lemma nths_cong: "(\<And>i. i < length xs \<Longrightarrow> i \<in> A \<longleftrightarrow> i \<in> B) \<Longrightarrow> nths xs A = nths xs B"
  by (auto simp: nths_def dest: set_zip_rightD intro!: arg_cong [of _ _ "map fst"] filter_cong)

lemma nths_interval: "nths xs {a..<a + n} = take n (drop a xs)"
proof -
  have "(+) a ` {..<n} = {a..<a + n}"
  proof (intro set_eqI iffI)
    fix x assume "x \<in> {a..<a + n}"
    then have "x = a + (x - a)" "x - a \<in> {..<n}" by auto
    then show "x \<in> (+) a ` {..<n}" by (rule image_eqI)
  qed auto
  then show ?thesis using nths_drop [of a xs "{..<n}"] by simp
qed

lemma nths_insert_above:
  assumes "\<forall>a\<in>A. a < x" and "x < length s"
  shows "nths s (insert x A) = nths s A @ [s ! x]"
proof -
  have split: "nths s B = nths (take x s) B @ (if x \<in> B then [s ! x] else []) @ nths (drop (Suc x) s) {j. j + Suc x \<in> B}" for B
  proof -
    have "nths s B = nths (take x s @ s ! x # drop (Suc x) s) B" using assms(2) by (simp add: Cons_nth_drop_Suc)
    also have "\<dots> = nths (take x s) B @ (if x \<in> B then [s ! x] else []) @ nths (drop (Suc x) s) {j. j + Suc x \<in> B}"
      using assms(2) by (simp add: nths_append nths_Cons min_absorb2)
    finally show ?thesis .
  qed
  have "nths (take x s) (insert x A) = nths (take x s) A" by (rule nths_cong) auto
  moreover have "{j. j + Suc x \<in> insert x A} = {}" "{j. j + Suc x \<in> A} = {}" "x \<notin> A" using assms(1) by auto
  ultimately show ?thesis using split [of "insert x A"] split [of A] by simp
qed

lemma nths_progression:
  assumes "0 < m" and "\<forall>j<k. a + j * m < length s"
  shows "nths s {a + j * m | j. j < k} = map (\<lambda>j. s ! (a + j * m)) [0..<k]"
  using assms(2)
proof (induction k)
  case (Suc k)
  have "{a + j * m | j. j < Suc k} = insert (a + k * m) {a + j * m | j. j < k}" by (auto simp: less_Suc_eq)
  moreover have "\<forall>x\<in>{a + j * m | j. j < k}. x < a + k * m" using assms(1) by auto
  ultimately show ?case using Suc nths_insert_above [of "{a + j * m | j. j < k}" "a + k * m" s] by simp
qed simp

section \<open>Contiguous substrings\<close>

lemma slice_eq:
  assumes "0 \<le> start" and "0 \<le> len" and "start + len \<le> int (length s)"
  shows "take (nat len) (drop (nat start) s) = nths s {p. start \<le> int p \<and> int p < start + len}"
proof -
  have "{p. start \<le> int p \<and> int p < start + len} = {nat start..<nat start + nat len}"
    using assms by auto
  then show ?thesis by (simp add: nths_interval)
qed

lemma Substring_eq:
  assumes *: "- (2 ^ 63) \<le> start + len \<and> start + len < 2 ^ 63"
  shows "String_Substring s start len = Some (nths s {p. start \<le> int p \<and> int p < start + len})"
proof -
  define a n where "a = max start 0" and "n = (if start < 0 then len + start else len)"
  have w: "i64 (len + start) = len + start" using * by (simp add: i64_id add.commute)
  have e: "{p. start \<le> int p \<and> int p < start + len} = {p. a \<le> int p \<and> int p < a + n}" by (auto simp: a_def n_def)
  have a: "(if start < 0 then (0, i64 (len + start)) else (start, len)) = (a, n)" by (simp add: a_def n_def w)
  define n' where "n' = (if n > int (length s) - a then int (length s) - a else n)"
  show ?thesis
  proof (cases "a \<ge> int (length s) \<or> n \<le> 0")
    case True
    then have "nths s {p. a \<le> int p \<and> int p < a + n} = nths s {}" by (intro nths_cong) auto
    with True show ?thesis unfolding e String_Substring_def a by simp
  next
    case False
    have "nths s {p. a \<le> int p \<and> int p < a + n} = nths s {p. a \<le> int p \<and> int p < a + n'}"
      by (intro nths_cong) (auto simp: n'_def)
    moreover have "0 \<le> a" "0 \<le> n'" "a + n' \<le> int (length s)" using False by (auto simp: a_def n'_def)
    ultimately show ?thesis
      using False unfolding e String_Substring_def a by (simp add: String_Create_text slice_eq n'_def)
  qed
qed

lemma SubstringAt_eq: "String_SubstringAt s start = Some (nths s {p. start \<le> int p})"
proof -
  define a where "a = max start 0"
  have a: "(if start < 0 then 0 else start) = a" "0 \<le> a" by (simp_all add: a_def)
  have e: "nths s {p. start \<le> int p} = nths s {p. a \<le> int p \<and> int p < a + (int (length s) - a)}"
    by (intro nths_cong) (auto simp: a_def)
  show ?thesis
  proof (cases "a \<ge> int (length s)")
    case True
    then have "nths s {p. start \<le> int p} = nths s {}" by (intro nths_cong) (auto simp: a_def)
    with True show ?thesis by (simp add: String_SubstringAt_def a)
  next
    case False
    then show ?thesis
      using a(2) slice_eq [of a "int (length s) - a" s] unfolding e
      by (simp add: String_SubstringAt_def a String_Create_text del: take_all_iff take_all)
  qed
qed



section \<open>Substrings by a step\<close>

lemma copy_up_filling:
  assumes "0 < step" and "0 \<le> src" and "k = 0 \<or> src + int (k - 1) * step < int (length s)"
  shows "copy_up s src (src + int k * step) step (filling xs (k + r)) (int (length xs)) =
     Some (filling (xs @ map (\<lambda>j. s ! nat (src + int j * step)) [0..<k]) r, int (length xs + k))"
  using assms(2,3)
proof (induction k arbitrary: src xs)
  case 0
  then show ?case by (simp add: copy_up.simps)
next
  case (Suc k)
  have p: "0 \<le> int k * step" "src + int k * step < int (length s)" using Suc.prems(2) assms(1) by simp_all
  have e: "int (Suc k) * step = int k * step + step" by (simp add: algebra_simps)
  have src: "src < int (length s)" "src < src + int (Suc k) * step" unfolding e using p assms(1) by linarith+
  have "map (\<lambda>j. s ! nat (src + int j * step)) [0..<Suc k] =
      s ! nat src # map (\<lambda>j. s ! nat (src + step + int j * step)) [0..<k]"
    by (simp add: upt_conv_Cons map_Suc_upt [symmetric] algebra_simps del: upt_Suc)
  moreover have "k = 0 \<or> src + step + int (k - 1) * step < int (length s)"
    using Suc.prems(2) by (cases k) (simp_all add: algebra_simps)
  ultimately show ?case
    using Suc.IH [of "src + step" "xs @ [s ! nat src]"] Suc.prems(1) src assms(1)
    by (subst copy_up.simps) (simp add: text_at_int arr_set_filling algebra_simps)
qed

lemma copy_down_filling:
  assumes "0 < m" and "src < int (length s)" and "k = 0 \<or> 0 \<le> src - int (k - 1) * m"
  shows "copy_down s src (src - int k * m) (- m) (filling xs (k + r)) (int (length xs)) =
     Some (filling (xs @ map (\<lambda>j. s ! nat (src - int j * m)) [0..<k]) r, int (length xs + k))"
  using assms(2,3)
proof (induction k arbitrary: src xs)
  case 0
  then show ?case by (simp add: copy_down.simps)
next
  case (Suc k)
  have p: "0 \<le> int k * m" "0 \<le> src - int k * m" using Suc.prems(2) assms(1) by simp_all
  have e: "int (Suc k) * m = int k * m + m" by (simp add: algebra_simps)
  have src: "0 \<le> src" "src > src - int (Suc k) * m" unfolding e using p assms(1) by linarith+
  have "map (\<lambda>j. s ! nat (src - int j * m)) [0..<Suc k] =
      s ! nat src # map (\<lambda>j. s ! nat (src - m - int j * m)) [0..<k]"
    by (simp add: upt_conv_Cons map_Suc_upt [symmetric] algebra_simps del: upt_Suc)
  moreover have "k = 0 \<or> 0 \<le> src - m - int (k - 1) * m"
    using Suc.prems(2) by (cases k) (simp_all add: algebra_simps)
  ultimately show ?case
    using Suc.IH [of "src - m" "xs @ [s ! nat src]"] Suc.prems(1) src assms(1)
    by (subst copy_down.simps) (simp add: text_at_int arr_set_filling algebra_simps)
qed

lemma substring_up_eq:
  assumes "0 < step" and "0 \<le> a" and "0 < k" and "a + int (k - 1) * step < int (length s)"
  shows "substring_up s a (int k * step) step = Some (map (\<lambda>j. s ! nat (a + int j * step)) [0..<k])"
proof -
  have q: "c_quot (int k * step) step = int k" using assms(1) by (simp add: c_quot_nonneg)
  have c: "String_CreateInternal (int k) = (int k, filling [] k)" using assms(3) by (simp add: CreateInternal_filling)
  show ?thesis
    using assms copy_up_filling [of step a k s "[]" 0]
    by (simp add: substring_up_def q c arr_set_terminator finish_filling)
qed

lemma substring_down_eq:
  assumes "0 < m" and "a < int (length s)" and "0 < k" and "0 \<le> a - int (k - 1) * m"
  shows "substring_down s a (int k * m) (- m) = Some (map (\<lambda>j. s ! nat (a - int j * m)) [0..<k])"
proof -
  have q: "c_quot (int k * m) m = int k" using assms(1) by (simp add: c_quot_nonneg)
  have c: "String_CreateInternal (int k) = (int k, filling [] k)" using assms(3) by (simp add: CreateInternal_filling)
  show ?thesis
    using assms copy_down_filling [of m a s k "[]" 0]
    by (simp add: substring_down_def q c arr_set_terminator finish_filling)
qed

text \<open>
  The number of characters the code takes: one more than the number of whole steps between the ends,
  with the end itself counted in, which is one too many when the step divides that distance.
\<close>

lemma step_boundary:
  fixes d step :: int
  assumes "0 < step"
  shows "d + (step - d mod step) = (d div step + 1) * step"
  using minus_mod_eq_mult_div [of d step] by (simp add: algebra_simps)

text \<open>The first index, on the step, that lies in the string.\<close>

lemma first_step:
  fixes x step :: int
  assumes "0 < step" and "0 < x"
  defines "j \<equiv> (if - x + x div step * step < 0 then x div step + 1 else x div step)"
  shows "0 \<le> - x + j * step" and "- x + j * step < step" and "0 \<le> j"
proof -
  define q r where "q = x div step" and "r = x mod step"
  have x: "x = q * step + r" by (simp add: q_def r_def)
  have r: "0 \<le> r" "r < step" using assms(1) by (simp_all add: r_def)
  have "0 \<le> q" using assms(1,2) by (simp add: q_def pos_imp_zdiv_nonneg_iff)
  moreover have "- x + j * step = (if r = 0 then 0 else step - r)" "j = (if r = 0 then q else q + 1)"
    using r unfolding j_def q_def [symmetric] x by (simp_all add: algebra_simps)
  ultimately show "0 \<le> - x + j * step" "- x + j * step < step" "0 \<le> j" using r assms(1) by simp_all
qed

lemma div_mult_bounds:
  fixes x step :: int
  assumes "0 < step"
  shows "x div step * step \<le> x" "x - step < x div step * step"
  using assms minus_mod_eq_div_mult [of x step] pos_mod_sign [of step x] pos_mod_bound [of step x] by linarith+

lemma div_less_iff_int:
  fixes x n step :: int
  assumes "0 < step"
  shows "x div step < n \<longleftrightarrow> x < n * step"
proof
  assume "x div step < n"
  then have "(x div step + 1) * step \<le> n * step" using assms by (intro mult_right_mono) auto
  then show "x < n * step" using div_mult_bounds(2) [OF assms, of x] by (simp add: algebra_simps)
next
  assume *: "x < n * step"
  show "x div step < n"
  proof (rule ccontr)
    assume "\<not> x div step < n"
    then have "n * step \<le> x div step * step" using assms by (intro mult_right_mono) auto
    then show False using * div_mult_bounds(1) [OF assms, of x] by linarith
  qed
qed

text \<open>
  Clipping a progression to a string: with the first index in the string \<open>a\<close>, the number of terms is
  bounded by the terms left and by the room in the string.
\<close>

lemma clipped_progression:
  fixes start step a len K j0 :: int
  assumes step: "0 < step" and a: "a = start + j0 * step" "0 \<le> a" "a < step \<or> j0 = 0" and "0 \<le> j0"
    and p: "0 \<le> p" "p < len"
  shows "(\<exists>j. 0 \<le> j \<and> j \<le> K \<and> p = start + j * step) \<longleftrightarrow>
    (\<exists>j. 0 \<le> j \<and> j < min (K + 1 - j0) ((len - 1 - a) div step + 1) \<and> p = a + j * step)"
proof
  assume "\<exists>j. 0 \<le> j \<and> j \<le> K \<and> p = start + j * step"
  then obtain j where j: "0 \<le> j" "j \<le> K" "p = start + j * step" by blast
  have pa: "p = a + (j - j0) * step" using j(3) a(1) by (simp add: algebra_simps)
  have "0 \<le> j - j0"
  proof (rule ccontr)
    assume neg: "\<not> 0 \<le> j - j0"
    then have "(j - j0) * step \<le> (-1) * step" using step by (intro mult_right_mono) auto
    then have "p \<le> a - step" using pa by simp
    then show False using a(3) p(1) neg j(1) by auto
  qed
  moreover have "(j - j0) * step \<le> len - 1 - a" using pa p by simp
  then have "j - j0 \<le> (len - 1 - a) div step" using div_less_iff_int [OF step] not_less by metis
  ultimately show "\<exists>j. 0 \<le> j \<and> j < min (K + 1 - j0) ((len - 1 - a) div step + 1) \<and> p = a + j * step"
    using pa j(2) by (intro exI [of _ "j - j0"]) auto
next
  assume "\<exists>j. 0 \<le> j \<and> j < min (K + 1 - j0) ((len - 1 - a) div step + 1) \<and> p = a + j * step"
  then obtain j where "0 \<le> j" "j < K + 1 - j0" "p = a + j * step" by auto
  then show "\<exists>j. 0 \<le> j \<and> j \<le> K \<and> p = start + j * step"
    using a(1) \<open>0 \<le> j0\<close> by (intro exI [of _ "j0 + j"]) (auto simp: algebra_simps)
qed

lemma room_iff:
  fixes a n len step :: int
  assumes "0 < step"
  shows "a + n * step > len + (step - 1) \<longleftrightarrow> n > (len - 1 - a) div step + 1"
    and "(len + (step - 1) - a) div step = (len - 1 - a) div step + 1"
proof -
  show q: "(len + (step - 1) - a) div step = (len - 1 - a) div step + 1"
    using assms div_add_self2 [of step "len - 1 - a"] by (simp add: algebra_simps)
  have "a + n * step > len + (step - 1) \<longleftrightarrow> n * step > len + (step - 1) - a" by auto
  also have "\<dots> \<longleftrightarrow> n > (len + (step - 1) - a) div step"
    using div_less_iff_int [OF assms] by simp
  finally show "a + n * step > len + (step - 1) \<longleftrightarrow> n > (len - 1 - a) div step + 1" unfolding q .
qed

text \<open>All arguments in this range leave no room for an overflow in the computation of the ends.\<close>

abbreviation moderate :: "int \<Rightarrow> bool" where
  "moderate x \<equiv> - (2 ^ 60) \<le> x \<and> x \<le> 2 ^ 60"

lemma i64_literal: "- 9223372036854775808 \<le> x \<Longrightarrow> x < 9223372036854775808 \<Longrightarrow> i64 x = x"
  by (rule i64_id) simp_all

lemma clip_end:
  assumes "0 < step" and "0 \<le> a" and "a < len" and "0 < n" and "n * step \<le> 2 ^ 62"
    and "a \<le> 2 ^ 60" and "step \<le> 2 ^ 60" and "len \<le> 2 ^ 60"
  shows "(if i64 (a + n * step) > i64 (len + (step - 1))
     then let l = c_quot (i64 (len + (step - 1) - a)) step * step in if l < step then None else Some (a, l)
     else Some (a, n * step)) =
    Some (a, min n ((len - 1 - a) div step + 1) * step)"
    and "0 < (len - 1 - a) div step + 1"
proof -
  define c where "c = (len - 1 - a) div step + 1"
  have "0 \<le> (len - 1 - a) div step" using assms by (simp add: pos_imp_zdiv_nonneg_iff)
  then show c: "0 < (len - 1 - a) div step + 1" by simp
  have n: "0 < n * step" using assms(1,4) by simp
  have w: "i64 (a + n * step) = a + n * step" "i64 (len + (step - 1)) = len + (step - 1)"
    "i64 (len + (step - 1) - a) = len + (step - 1) - a"
    using assms(1-4) n assms(5-8) [simplified] by (intro i64_literal; linarith)+
  have q: "c_quot (len + (step - 1) - a) step = c"
    using assms room_iff(2) [OF assms(1), of len a] by (simp add: c_def c_quot_nonneg)
  have "step \<le> c * step" using c assms(1) mult_right_mono [of 1 c step] by (simp add: c_def)
  then show "(if i64 (a + n * step) > i64 (len + (step - 1))
     then let l = c_quot (i64 (len + (step - 1) - a)) step * step in if l < step then None else Some (a, l)
     else Some (a, n * step)) = Some (a, min n ((len - 1 - a) div step + 1) * step)"
    unfolding w q Let_def room_iff(1) [OF assms(1)] c_def [symmetric] by (auto simp: min_def)
qed

lemma clip_up_eq:
  assumes "0 < step" and "start \<le> end" and "start < len" and "0 \<le> len"
    and "moderate start" and "moderate end" and "moderate step" and "moderate len"
  obtains j0 where "0 \<le> j0" and "0 \<le> start + j0 * step" and "start + j0 * step < step \<or> j0 = 0"
    and "clip_up len start end step =
      (let a = start + j0 * step; k = min ((end + 1 - start) div step + 1 - j0) ((len - 1 - a) div step + 1)
       in if k \<le> 0 then None else Some (a, k * step))"
proof -
  define d where "d = end + 1 - start"
  define K where "K = d div step"
  have d: "0 < d" "d \<le> 2 ^ 61 + 1" using assms by (simp_all add: d_def)
  note Kb = div_mult_bounds [OF assms(1), of d, folded K_def]
  have "c_mod d step = d mod step" using d assms(1) by (simp add: c_mod_nonneg)
  then have sub: "i64 (i64 d + (step - c_mod (i64 d) step)) = (K + 1) * step"
  proof -
    have "i64 d = d" using d by (simp add: i64_id)
    moreover have "d + (step - d mod step) = (K + 1) * step" using step_boundary [OF assms(1), of d] by (simp add: K_def)
    moreover have "i64 ((K + 1) * step) = (K + 1) * step"
      using Kb d assms by (intro i64_id) (simp_all add: algebra_simps)
    ultimately show ?thesis using \<open>c_mod d step = d mod step\<close> by simp
  qed
  have K: "0 \<le> K" "(K + 1) * step \<le> 2 ^ 62"
    using d Kb assms by (simp_all add: K_def pos_imp_zdiv_nonneg_iff algebra_simps)
  show thesis
  proof (cases "start < 0")
    case False
    have "clip_up len start end step = Some (start, min (K + 1) ((len - 1 - start) div step + 1) * step)"
      using False clip_end(1) [of step start len "K + 1"] assms K
      unfolding clip_up_def d_def [symmetric] sub Let_def by simp
    moreover have "0 < min (K + 1) ((len - 1 - start) div step + 1)"
      using False clip_end(2) [of step start len "K + 1"] assms K by simp
    ultimately show thesis
      using False by (intro that [of 0]) (simp_all add: Let_def not_le del: min_less_iff_conj flip: d_def K_def)
  next
    case True
    define q where "q = - start div step"
    define j0 where "j0 = (if start + q * step < 0 then q + 1 else q)"
    define a where "a = start + j0 * step"
    have a: "0 \<le> a" "a < step" "0 \<le> j0"
      using first_step [OF assms(1), of "- start"] True unfolding a_def j0_def q_def by simp_all
    have qb: "q * step \<le> - start" "- start - step < q * step" using div_mult_bounds [OF assms(1), of "- start"] by (simp_all add: q_def)
    have k0: "0 \<le> (K + 1) * step" using K(1) assms(1) by simp
    note b = assms(5-8) [simplified] K(2) [simplified]
    have n: "(K + 1) * step - j0 * step = (K + 1 - j0) * step" by (simp add: algebra_simps)
    have st: "c_quot (i64 (- start)) step = q" using True assms by (simp add: q_def c_quot_nonneg i64_id)
    have w: "i64 (start + q * step) = start + q * step" "i64 ((K + 1) * step - q * step) = (K + 1) * step - q * step"
      using qb assms(1,2) k0 b True by (intro i64_literal; linarith)+
    have w': "i64 (start + q * step + step) = start + q * step + step"
      "i64 ((K + 1) * step - q * step - step) = (K + 1) * step - q * step - step"
      using qb assms(1,2) k0 b True by (intro i64_literal; linarith)+
    have pair: "(if start + q * step < 0 then (start + q * step + step, (K + 1) * step - q * step - step)
        else (start + q * step, (K + 1) * step - q * step)) = (a, (K + 1 - j0) * step)"
      by (simp add: a_def j0_def algebra_simps)
    have small: "(K + 1 - j0) * step < step \<longleftrightarrow> K + 1 - j0 \<le> 0"
      using assms(1) mult_less_cancel_right_pos [OF assms(1), of "K + 1 - j0" 1] by auto
    have clip: "clip_up len start end step =
        (if a \<ge> len \<or> K + 1 - j0 \<le> 0 then None
         else if i64 (a + (K + 1 - j0) * step) > i64 (len + (step - 1))
         then let l = c_quot (i64 (len + (step - 1) - a)) step * step in if l < step then None else Some (a, l)
         else Some (a, (K + 1 - j0) * step))"
      using True small unfolding clip_up_def d_def [symmetric] sub Let_def st w w' pair prod.case by simp
    have "clip_up len start end step =
      (let k = min (K + 1 - j0) ((len - 1 - a) div step + 1) in if k \<le> 0 then None else Some (a, k * step))"
    proof (cases "a \<ge> len \<or> K + 1 - j0 \<le> 0")
      case True
      have "(len - 1 - a) div step + 1 \<le> 0" if "a \<ge> len"
        using that div_less_iff_int [OF assms(1), of "len - 1 - a" 0] by simp
      with True show ?thesis unfolding clip by (auto simp: Let_def min_le_iff_disj)
    next
      case False
      have "0 \<le> j0 * step" using a(3) assms(1) by simp
      then have "(K + 1 - j0) * step \<le> 2 ^ 62" using K(2) n by linarith
      then show ?thesis
        using False clip_end [of step a len "K + 1 - j0"] a assms unfolding clip by (auto simp: Let_def min_le_iff_disj)
    qed
    then show thesis
      using a unfolding a_def by (intro that [of j0]) (simp_all add: Let_def flip: d_def K_def)
  qed
qed

lemma clip_end_down:
  assumes "0 < m" and "0 \<le> a" and "a < len" and "0 < n" and "n * m \<le> 2 ^ 62"
    and "m \<le> 2 ^ 60" and "len \<le> 2 ^ 60"
  shows "(if i64 (a - n * m) < - (m - 1)
     then let l = c_quot (i64 (len + (m - 1) - (len - a - 1))) m * m in if l < m then None else Some (a, l)
     else Some (a, n * m)) = Some (a, min n (a div m + 1) * m)"
    and "0 < a div m + 1"
proof -
  have "0 \<le> a div m" using assms by (simp add: pos_imp_zdiv_nonneg_iff)
  then show c: "0 < a div m + 1" by simp
  have n: "0 < n * m" using assms(1,4) by simp
  have w: "i64 (a - n * m) = a - n * m" "i64 (len + (m - 1) - (len - a - 1)) = a + m"
    using assms(1-4) n assms(5-7) [simplified] by (subst i64_literal; linarith)+
  have q: "c_quot (a + m) m = a div m + 1" using assms by (simp add: c_quot_nonneg div_add_self2)
  have "m \<le> (a div m + 1) * m" using c assms(1) mult_right_mono [of 1 "a div m + 1" m] by simp
  moreover have "a - n * m < - (m - 1) \<longleftrightarrow> (a + m - 1) div m < n"
    using div_less_iff_int [OF assms(1), of "a + m - 1" n] by auto
  moreover have "(a + m - 1) div m = (a - 1) div m + 1"
    using assms(1) div_add_self2 [of m "a - 1"] by (simp add: algebra_simps)
  moreover have "(a - 1) div m \<le> a div m" "a div m \<le> (a - 1) div m + 1"
  proof -
    show "(a - 1) div m \<le> a div m" using assms(1) by (simp add: zdiv_mono1)
    have "a div m \<le> (a + m - 1) div m" using assms(1) by (simp add: zdiv_mono1)
    then show "a div m \<le> (a - 1) div m + 1" using \<open>(a + m - 1) div m = (a - 1) div m + 1\<close> by simp
  qed
  ultimately show "(if i64 (a - n * m) < - (m - 1)
     then let l = c_quot (i64 (len + (m - 1) - (len - a - 1))) m * m in if l < m then None else Some (a, l)
     else Some (a, n * m)) = Some (a, min n (a div m + 1) * m)"
    unfolding w q Let_def by (auto simp: min_def)
qed

lemma clip_down_eq:
  assumes "0 < m" and "end < start" and "0 \<le> start" and "0 \<le> len"
    and "moderate start" and "moderate end" and "moderate m" and "moderate len"
  obtains j0 where "0 \<le> j0" and "start - j0 * m < len" and "len - 1 - (start - j0 * m) < m \<or> j0 = 0"
    and "clip_down len start end (- m) =
      (let a = start - j0 * m; k = min ((start + 1 - end) div m + 1 - j0) (a div m + 1)
       in if k \<le> 0 then None else Some (a, k * m))"
proof -
  define d where "d = start + 1 - end"
  define K where "K = d div m"
  have d: "0 < d" "d \<le> 2 ^ 61 + 1" using assms by (simp_all add: d_def)
  note Kb = div_mult_bounds [OF assms(1), of d, folded K_def]
  have K: "0 \<le> K" "(K + 1) * m \<le> 2 ^ 62"
    using d Kb assms by (simp_all add: K_def pos_imp_zdiv_nonneg_iff algebra_simps)
  have k0: "0 \<le> (K + 1) * m" using K(1) assms(1) by simp
  have sub: "i64 (i64 d + (- (- m) - c_mod (i64 d) (- (- m)))) = (K + 1) * m"
  proof -
    have "i64 d = d" using d by (simp add: i64_id)
    moreover have "d + (m - d mod m) = (K + 1) * m" using step_boundary [OF assms(1), of d] by (simp add: K_def)
    moreover have "i64 ((K + 1) * m) = (K + 1) * m" using k0 K(2) [simplified] by (intro i64_literal; linarith)
    ultimately show ?thesis using d assms(1) by (simp add: c_mod_nonneg)
  qed
  show thesis
  proof (cases "start \<ge> len")
    case False
    have "clip_down len start end (- m) = (if i64 (start - (K + 1) * m) < - (m - 1)
       then let l = c_quot (i64 (len + (m - 1) - (len - start - 1))) m * m in if l < m then None else Some (start, l)
       else Some (start, (K + 1) * m))"
      using False unfolding clip_down_def d_def [symmetric] sub Let_def by simp
    then have "clip_down len start end (- m) = Some (start, min (K + 1) (start div m + 1) * m)"
      using False clip_end_down(1) [of m start len "K + 1"] assms K by simp
    moreover have "0 < min (K + 1) (start div m + 1)"
      using False clip_end_down(2) [of m start len "K + 1"] assms K by simp
    ultimately show thesis
      using False by (intro that [of 0]) (simp_all add: Let_def not_le del: min_less_iff_conj flip: d_def K_def)
  next
    case True
    define q where "q = (start - len) div m"
    define a where "a = start - (q + 1) * m"
    have qb: "q * m \<le> start - len" "start - len - m < q * m"
      using div_mult_bounds [OF assms(1), of "start - len"] by (simp_all add: q_def)
    have q0: "0 \<le> q" using True assms(1) by (simp add: q_def pos_imp_zdiv_nonneg_iff)
    have am: "a = start - q * m - m" by (simp add: a_def algebra_simps)
    have a: "a < len" "len - 1 - a < m" using qb unfolding am by linarith+
    note b = assms(5-8) [simplified] K(2) [simplified]
    have st: "c_quot (start - len) (- (- m)) = q" using True assms by (simp add: q_def c_quot_nonneg)
    have w: "i64 (start - q * - (- m)) = start - q * m" "i64 ((K + 1) * m - q * - (- m)) = (K + 1) * m - q * m"
      "i64 (start - q * m + - m) = a" "i64 ((K + 1) * m - q * m + - m) = (K + 1 - (q + 1)) * m"
      using qb assms(1-4) k0 b True q0 unfolding am by (subst i64_literal; simp add: algebra_simps; linarith)+
    have small: "(K + 1 - (q + 1)) * m < m \<longleftrightarrow> K + 1 - (q + 1) \<le> 0"
      using assms(1) mult_less_cancel_right_pos [OF assms(1), of "K + 1 - (q + 1)" 1] by auto
    have ge: "start - q * m \<ge> len" using qb by linarith
    have clip: "clip_down len start end (- m) =
        (if a < 0 \<or> K + 1 - (q + 1) \<le> 0 then None
         else if i64 (a - (K + 1 - (q + 1)) * m) < - (m - 1)
         then let l = c_quot (i64 (len + (m - 1) - (len - a - 1))) m * m in if l < m then None else Some (a, l)
         else Some (a, (K + 1 - (q + 1)) * m))"
      using True ge small unfolding clip_down_def d_def [symmetric] sub Let_def st w prod.case by simp
    have "clip_down len start end (- m) =
      (let k = min (K + 1 - (q + 1)) (a div m + 1) in if k \<le> 0 then None else Some (a, k * m))"
    proof (cases "a < 0 \<or> K + 1 - (q + 1) \<le> 0")
      case True
      have "a div m + 1 \<le> 0" if "a < 0" using that div_less_iff_int [OF assms(1), of a 0] by simp
      with True show ?thesis unfolding clip by (auto simp: Let_def min_le_iff_disj)
    next
      case False
      have "0 \<le> (q + 1) * m" using q0 assms(1) by simp
      moreover have "(K + 1) * m - (q + 1) * m = (K + 1 - (q + 1)) * m" by (simp add: algebra_simps)
      ultimately have "(K + 1 - (q + 1)) * m \<le> 2 ^ 62" using K(2) by linarith
      then show ?thesis
        using False clip_end_down [of m a len "K + 1 - (q + 1)"] a assms unfolding clip
        by (auto simp: Let_def min_le_iff_disj)
    qed
    then show thesis
      using a q0 unfolding a_def by (intro that [of "q + 1"]) (simp_all add: Let_def flip: d_def K_def)
  qed
qed

lemma nths_terms:
  fixes a step k :: int
  assumes "0 < step" and "0 \<le> a" and "0 < k" and "a + (k - 1) * step < int (length s)"
  shows "nths s {p. \<exists>j. 0 \<le> j \<and> j < k \<and> int p = a + j * step} = map (\<lambda>j. s ! nat (a + int j * step)) [0..<nat k]"
proof -
  have e: "nat (a + int j * step) = nat a + j * nat step" for j
    using assms(1,2) by (simp add: nat_add_distrib nat_mult_distrib)
  have "{p. \<exists>j. 0 \<le> j \<and> j < k \<and> int p = a + j * step} = {nat a + j * nat step | j. j < nat k}"
  proof (intro set_eqI iffI)
    fix p assume "p \<in> {p. \<exists>j. 0 \<le> j \<and> j < k \<and> int p = a + j * step}"
    then obtain j where j: "0 \<le> j" "j < k" "int p = a + j * step" by blast
    then have "p = nat a + nat j * nat step"
      using e [of "nat j"] by (metis int_nat_eq nat_int)
    with j show "p \<in> {nat a + j * nat step | j. j < nat k}" by (auto simp: zless_nat_eq_int_zless)
  next
    fix p assume "p \<in> {nat a + j * nat step | j. j < nat k}"
    then obtain j where "j < nat k" "p = nat a + j * nat step" by blast
    then show "p \<in> {p. \<exists>j. 0 \<le> j \<and> j < k \<and> int p = a + j * step}"
      using assms(1,2) by (auto intro!: exI [of _ "int j"])
  qed
  moreover have "\<forall>j<nat k. nat a + j * nat step < length s"
  proof (intro allI impI)
    fix j assume "j < nat k"
    then have "int j * step \<le> (k - 1) * step" using assms(1) by (intro mult_right_mono) auto
    then have "a + int j * step < int (length s)" using assms(4) by linarith
    then have "nat (a + int j * step) < length s" using assms(1,2) by (simp add: nat_less_iff)
    then show "nat a + j * nat step < length s" unfolding e .
  qed
  ultimately show ?thesis using nths_progression [of "nat step" "nat k" "nat a" s] assms(1) by (simp add: e)
qed

lemma terms_reversed:
  fixes a m k :: int
  assumes "0 < k"
  shows "(\<exists>j. 0 \<le> j \<and> j < k \<and> p = a - j * m) \<longleftrightarrow> (\<exists>j. 0 \<le> j \<and> j < k \<and> p = (a - (k - 1) * m) + j * m)"
proof
  assume "\<exists>j. 0 \<le> j \<and> j < k \<and> p = a - j * m"
  then obtain j where "0 \<le> j" "j < k" "p = a - j * m" by blast
  then show "\<exists>j. 0 \<le> j \<and> j < k \<and> p = (a - (k - 1) * m) + j * m"
    by (intro exI [of _ "k - 1 - j"]) (auto simp: algebra_simps)
next
  assume "\<exists>j. 0 \<le> j \<and> j < k \<and> p = (a - (k - 1) * m) + j * m"
  then obtain j where "0 \<le> j" "j < k" "p = (a - (k - 1) * m) + j * m" by blast
  then show "\<exists>j. 0 \<le> j \<and> j < k \<and> p = a - j * m"
    by (intro exI [of _ "k - 1 - j"]) (auto simp: algebra_simps)
qed

lemma ByRange_up:
  assumes "1 < step" and "start \<le> end" and "moderate start" and "moderate end" and "moderate step"
    and "int (length s) \<le> 2 ^ 60"
  shows "String_SubstringByRange s start end step =
    Some (nths s {p. \<exists>j. 0 \<le> j \<and> j \<le> (end + 1 - start) div step \<and> int p = start + j * step})"
    (is "_ = Some (nths s ?S)")
proof (cases "start \<ge> int (length s)")
  case True
  have "nths s ?S = nths s {}"
  proof (rule nths_cong)
    fix p assume p: "p < length s"
    have "int p \<noteq> start + j * step" if "0 \<le> j" for j
    proof -
      have "0 \<le> j * step" using that assms(1) by simp
      then show ?thesis using p True by linarith
    qed
    then show "p \<in> ?S \<longleftrightarrow> p \<in> {}" by auto
  qed
  then show ?thesis using True assms by (simp add: String_SubstringByRange_def)
next
  case False
  define len where "len = int (length s)"
  have len: "start < len" "0 \<le> len" "moderate len" "0 < step" using False assms by (simp_all add: len_def)
  obtain j0 where j0: "0 \<le> j0" "0 \<le> start + j0 * step" "start + j0 * step < step \<or> j0 = 0"
    and clip: "clip_up len start end step =
      (let a = start + j0 * step; k = min ((end + 1 - start) div step + 1 - j0) ((len - 1 - a) div step + 1)
       in if k \<le> 0 then None else Some (a, k * step))"
    using clip_up_eq [of step start "end" len] len assms by metis
  define a where "a = start + j0 * step"
  define k where "k = min ((end + 1 - start) div step + 1 - j0) ((len - 1 - a) div step + 1)"
  have S: "nths s ?S = nths s {p. \<exists>j. 0 \<le> j \<and> j < k \<and> int p = a + j * step}"
  proof (rule nths_cong)
    fix p assume "p < length s"
    then show "p \<in> ?S \<longleftrightarrow> p \<in> {p. \<exists>j. 0 \<le> j \<and> j < k \<and> int p = a + j * step}"
      using clipped_progression [of step a start j0 "int p" len "(end + 1 - start) div step"] j0 len
      by (simp add: a_def k_def len_def)
  qed
  have branch: "String_SubstringByRange s start end step =
      (if k \<le> 0 then Some [] else substring_up s a (k * step) step)"
    using False assms clip
    by (simp add: String_SubstringByRange_def Let_def len_def [symmetric] flip: a_def k_def)
  show ?thesis
  proof (cases "k \<le> 0")
    case True
    then have "nths s {p. \<exists>j. 0 \<le> j \<and> j < k \<and> int p = a + j * step} = nths s {}" by (intro nths_cong) auto
    then show ?thesis using True branch S by simp
  next
    case False
    have "k - 1 \<le> (len - 1 - a) div step" by (simp add: k_def)
    then have "(k - 1) * step \<le> (len - 1 - a) div step * step" using len(4) by (intro mult_right_mono) auto
    then have room: "a + (k - 1) * step < int (length s)"
      using div_mult_bounds(1) [OF len(4), of "len - 1 - a"] by (simp add: len_def)
    have "substring_up s a (int (nat k) * step) step = Some (map (\<lambda>j. s ! nat (a + int j * step)) [0..<nat k])"
      using False len(4) room j0(2) by (intro substring_up_eq) (auto simp: a_def of_nat_diff)
    then show ?thesis using False branch S nths_terms [of step a k s] len(4) j0(2) room by (simp add: a_def)
  qed
qed

lemma rev_terms:
  assumes "0 < k"
  shows "rev (map (\<lambda>j. f (a - (k - 1) * m + int j * m)) [0..<nat k]) = map (\<lambda>j. f (a - int j * m)) [0..<nat (k::int)]"
proof (rule nth_equalityI)
  fix i assume "i < length (rev (map (\<lambda>j. f (a - (k - 1) * m + int j * m)) [0..<nat k]))"
  then have i: "i < nat k" by simp
  then have "int (nat k - Suc i) = k - 1 - int i" using assms by (simp add: of_nat_diff)
  then show "rev (map (\<lambda>j. f (a - (k - 1) * m + int j * m)) [0..<nat k]) ! i = map (\<lambda>j. f (a - int j * m)) [0..<nat k] ! i"
    using i by (simp add: rev_nth algebra_simps)
qed simp

lemma ByRange_down:
  assumes "0 < m" and "end < start" and "moderate start" and "moderate end" and "moderate m"
    and "int (length s) \<le> 2 ^ 60"
  shows "String_SubstringByRange s start end (- m) =
    Some (rev (nths s {p. \<exists>j. 0 \<le> j \<and> j \<le> (start + 1 - end) div m \<and> int p = start - j * m}))"
    (is "_ = Some (rev (nths s ?S))")
proof (cases "start < 0")
  case True
  have "nths s ?S = nths s {}"
  proof (rule nths_cong)
    fix p assume p: "p < length s"
    have "int p \<noteq> start - j * m" if "0 \<le> j" for j
    proof -
      have "0 \<le> j * m" using that assms(1) by simp
      then show ?thesis using p True by linarith
    qed
    then show "p \<in> ?S \<longleftrightarrow> p \<in> {}" by auto
  qed
  then show ?thesis using True assms by (simp add: String_SubstringByRange_def)
next
  case False
  define len where "len = int (length s)"
  have len: "0 \<le> start" "0 \<le> len" "moderate len" using False assms by (simp_all add: len_def)
  obtain j0 where j0: "0 \<le> j0" "start - j0 * m < len" "len - 1 - (start - j0 * m) < m \<or> j0 = 0"
    and clip: "clip_down len start end (- m) =
      (let a = start - j0 * m; k = min ((start + 1 - end) div m + 1 - j0) (a div m + 1)
       in if k \<le> 0 then None else Some (a, k * m))"
    using clip_down_eq [of m "end" start len] len assms by metis
  define a where "a = start - j0 * m"
  define k where "k = min ((start + 1 - end) div m + 1 - j0) (a div m + 1)"
  have S: "nths s ?S = nths s {p. \<exists>j. 0 \<le> j \<and> j < k \<and> int p = a - j * m}"
  proof (rule nths_cong)
    fix p assume "p < length s"
    then have "(\<exists>j. 0 \<le> j \<and> j \<le> (start + 1 - end) div m \<and> len - 1 - int p = len - 1 - start + j * m) \<longleftrightarrow>
      (\<exists>j. 0 \<le> j \<and> j < min ((start + 1 - end) div m + 1 - j0) ((len - 1 - (len - 1 - a)) div m + 1) \<and>
        len - 1 - int p = len - 1 - a + j * m)"
      using j0 assms(1) by (intro clipped_progression) (auto simp: a_def len_def)
    moreover have "len - 1 - int p = len - 1 - x + y \<longleftrightarrow> int p = x - y" for x y by auto
    ultimately show "p \<in> ?S \<longleftrightarrow> p \<in> {p. \<exists>j. 0 \<le> j \<and> j < k \<and> int p = a - j * m}" by (simp add: k_def)
  qed
  have branch: "String_SubstringByRange s start end (- m) =
      (if k \<le> 0 then Some [] else substring_down s a (k * m) (- m))"
    using False assms clip
    by (simp add: String_SubstringByRange_def Let_def len_def [symmetric] flip: a_def k_def)
  show ?thesis
  proof (cases "k \<le> 0")
    case True
    then have "nths s {p. \<exists>j. 0 \<le> j \<and> j < k \<and> int p = a - j * m} = nths s {}" by (intro nths_cong) auto
    then show ?thesis using True branch S by simp
  next
    case False
    then have k: "0 < k" by simp
    have "k - 1 \<le> a div m" by (simp add: k_def)
    then have "(k - 1) * m \<le> a div m * m" using assms(1) by (intro mult_right_mono) auto
    then have low: "0 \<le> a - (k - 1) * m" using div_mult_bounds(1) [OF assms(1), of a] by linarith
    have high: "a < int (length s)" using j0(2) by (simp add: a_def len_def)
    have d: "substring_down s a (int (nat k) * m) (- m) = Some (map (\<lambda>j. s ! nat (a - int j * m)) [0..<nat k])"
      using k assms(1) low high by (intro substring_down_eq) (auto simp: of_nat_diff)
    have "nths s {p. \<exists>j. 0 \<le> j \<and> j < k \<and> int p = a - j * m} =
        map (\<lambda>j. s ! nat (a - (k - 1) * m + int j * m)) [0..<nat k]"
      unfolding terms_reversed [OF k] using nths_terms [of m "a - (k - 1) * m" k s] assms(1) k low high by simp
    then have "rev (nths s ?S) = map (\<lambda>j. s ! nat (a - int j * m)) [0..<nat k]"
      unfolding S using rev_terms [OF k, of "\<lambda>x. s ! nat x" a m] by simp
    then show ?thesis using branch d k by simp
  qed
qed



end
