(* ===== verification/StringBuilders.thy ===== *)
theory StringBuilders
  imports StringsCorrect
begin

text \<open>
  The StringBuilder (\<^verbatim>\<open>smilelib/src/string/stringbuilder.c\<close>, \<^verbatim>\<open>smilelib/include/smile/stringbuilder.h\<close>): a
  growing buffer with its length and capacity. A heap-allocated buffer has one byte more than its
  capacity (\<^verbatim>\<open>GC_MALLOC_TEXT\<close>), a buffer on the stack exactly its capacity.

  The functions of the string library use a builder only through what \<open>text_sink\<close> states of it.
\<close>

section \<open>Definitions\<close>

record StringBuilder =
  sb_text :: cells
  sb_length :: int
  sb_max :: int

text \<open>\<^verbatim>\<open>GC_MALLOC_TEXT(len)\<close>; a negative length asks for more memory than there is.\<close>

definition malloc_text :: "int \<Rightarrow> cells option" where
  "malloc_text len = (if len < 0 then None else Some (replicate (nat len + 1) None))"

abbreviation next_power :: "int \<Rightarrow> int" where
  "next_power n \<equiv> sint (NextPowerOfTwo (word_of_int n))"

definition StringBuilder_InitWithSize :: "int \<Rightarrow> StringBuilder option" where
  "StringBuilder_InitWithSize initialSize =
     do { let initialSize = (if initialSize < 256 then 256 else initialSize);
          let initialSize = next_power initialSize;
          newText \<leftarrow> malloc_text initialSize;
          newText \<leftarrow> arr_set newText 0 (Some 0);
          Some \<lparr>sb_text = newText, sb_length = 0, sb_max = initialSize\<rparr> }"

definition StringBuilder_CreateWithSize :: "int \<Rightarrow> StringBuilder option" where
  "StringBuilder_CreateWithSize initialSize = StringBuilder_InitWithSize initialSize"

definition StringBuilder_Create :: "StringBuilder option" where
  "StringBuilder_Create = StringBuilder_CreateWithSize 256"

definition StringBuilder_Init :: "StringBuilder option" where
  "StringBuilder_Init = StringBuilder_InitWithSize 256"

text \<open>\<^verbatim>\<open>DECLARE_INLINE_STRINGBUILDER\<close> and \<^verbatim>\<open>INIT_INLINE_STRINGBUILDER\<close>: a buffer on the stack.\<close>

definition INIT_INLINE_STRINGBUILDER :: "nat \<Rightarrow> StringBuilder option" where
  "INIT_INLINE_STRINGBUILDER bufSize =
     do { newText \<leftarrow> arr_set (replicate bufSize None) 0 (Some 0);
          Some \<lparr>sb_text = newText, sb_length = 0, sb_max = int bufSize\<rparr> }"

definition StringBuilder_CreateFromBytes :: "cells \<Rightarrow> int \<Rightarrow> int \<Rightarrow> StringBuilder option" where
  "StringBuilder_CreateFromBytes text start len =
     do { let len = (if len < 0 then 0 else len);
          let initialSize = i64 (len + 1);
          let initialSize = (if initialSize < 256 then 256 else initialSize);
          let initialSize = next_power initialSize;
          newText \<leftarrow> malloc_text initialSize;
          newText \<leftarrow> mem_cpy newText 0 text start len;
          newText \<leftarrow> arr_set newText len (Some 0);
          Some \<lparr>sb_text = newText, sb_length = len, sb_max = initialSize\<rparr> }"

definition StringBuilder_CreateFromString :: "bytes \<Rightarrow> StringBuilder option" where
  "StringBuilder_CreateFromString str = StringBuilder_CreateFromBytes (text_of str) 0 (int (length str))"

definition StringBuilder_CreateFromSubstring :: "bytes \<Rightarrow> int \<Rightarrow> int \<Rightarrow> StringBuilder option" where
  "StringBuilder_CreateFromSubstring str start len = StringBuilder_CreateFromBytes (text_of str) start len"

definition StringBuilder_Grow :: "StringBuilder \<Rightarrow> int \<Rightarrow> StringBuilder option" where
  "StringBuilder_Grow sb len =
     (if i64 (sb_length sb + len) < sb_max sb then Some sb
      else do { let newMax = next_power (i64 (sb_length sb + len));
                newText \<leftarrow> malloc_text newMax;
                newText \<leftarrow> mem_cpy newText 0 (sb_text sb) 0 (sb_length sb + 1);
                Some (sb\<lparr>sb_text := newText, sb_max := newMax\<rparr>) })"

definition StringBuilder_Append :: "StringBuilder \<Rightarrow> cells \<Rightarrow> int \<Rightarrow> int \<Rightarrow> StringBuilder option" where
  "StringBuilder_Append sb text start len =
     (if len \<le> 0 then Some sb
      else do { sb \<leftarrow> StringBuilder_Grow sb len;
                newText \<leftarrow> mem_cpy (sb_text sb) (sb_length sb) text start len;
                newText \<leftarrow> arr_set newText (sb_length sb + len) (Some 0);
                Some (sb\<lparr>sb_text := newText, sb_length := sb_length sb + len\<rparr>) })"

definition StringBuilder_AppendByte :: "StringBuilder \<Rightarrow> byte \<Rightarrow> StringBuilder option" where
  "StringBuilder_AppendByte sb ch =
     do { sb \<leftarrow> StringBuilder_Grow sb 1;
          newText \<leftarrow> arr_set (sb_text sb) (sb_length sb) (Some ch);
          newText \<leftarrow> arr_set newText (sb_length sb + 1) (Some 0);
          Some (sb\<lparr>sb_text := newText, sb_length := sb_length sb + 1\<rparr>) }"

definition StringBuilder_AppendRepeat :: "StringBuilder \<Rightarrow> byte \<Rightarrow> int \<Rightarrow> StringBuilder option" where
  "StringBuilder_AppendRepeat sb ch len =
     (if len \<le> 0 then Some sb
      else do { sb \<leftarrow> StringBuilder_Grow sb len;
                newText \<leftarrow> mem_set (sb_text sb) (sb_length sb) (Some ch) len;
                newText \<leftarrow> arr_set newText (sb_length sb + len) (Some 0);
                Some (sb\<lparr>sb_text := newText, sb_length := sb_length sb + len\<rparr>) })"

text \<open>
  \<^verbatim>\<open>StringBuilder_AppendUnicode\<close>: the branches make room for their bytes and store them one by one,
  \<^verbatim>\<open>sb->text[sb->length++] = b\<close>, without a terminator.
\<close>

definition put_byte :: "byte \<Rightarrow> StringBuilder \<Rightarrow> StringBuilder option" where
  "put_byte b sb =
     do { newText \<leftarrow> arr_set (sb_text sb) (sb_length sb) (Some b);
          Some (sb\<lparr>sb_text := newText, sb_length := sb_length sb + 1\<rparr>) }"

definition make_room :: "int \<Rightarrow> StringBuilder \<Rightarrow> StringBuilder option" where
  "make_room n sb = (if sb_length sb + n \<ge> sb_max sb then StringBuilder_Grow sb n else Some sb)"

definition StringBuilder_AppendUnicode :: "StringBuilder \<Rightarrow> 32 word \<Rightarrow> StringBuilder option" where
  "StringBuilder_AppendUnicode sb code =
     (if code < 0x80 then
        do { sb \<leftarrow> make_room 1 sb;
             put_byte (ucast code) sb }
      else if code < 0x800 then
        do { sb \<leftarrow> make_room 2 sb;
             sb \<leftarrow> put_byte (ucast (drop_bit 6 code OR 0xC0)) sb;
             put_byte (ucast ((code AND 0x3F) OR 0x80)) sb }
      else if code < 0x10000 then
        do { sb \<leftarrow> make_room 3 sb;
             sb \<leftarrow> put_byte (ucast (drop_bit 12 code OR 0xE0)) sb;
             sb \<leftarrow> put_byte (ucast ((drop_bit 6 code AND 0x3F) OR 0x80)) sb;
             put_byte (ucast ((code AND 0x3F) OR 0x80)) sb }
      else if code < 0x110000 then
        do { sb \<leftarrow> make_room 4 sb;
             sb \<leftarrow> put_byte (ucast (drop_bit 18 code OR 0xF0)) sb;
             sb \<leftarrow> put_byte (ucast ((drop_bit 12 code AND 0x3F) OR 0x80)) sb;
             sb \<leftarrow> put_byte (ucast ((drop_bit 6 code AND 0x3F) OR 0x80)) sb;
             put_byte (ucast ((code AND 0x3F) OR 0x80)) sb }
      else
        do { let code = (0xFFFD :: 32 word);
             sb \<leftarrow> make_room 3 sb;
             sb \<leftarrow> put_byte (ucast (drop_bit 12 code OR 0xE0)) sb;
             sb \<leftarrow> put_byte (ucast ((drop_bit 6 code AND 0x3F) OR 0x80)) sb;
             put_byte (ucast ((code AND 0x3F) OR 0x80)) sb })"

definition StringBuilder_ToString :: "StringBuilder \<Rightarrow> bytes option" where
  "StringBuilder_ToString sb = String_Create (sb_text sb) 0 (sb_length sb)"

definition StringBuilder_SetLength :: "StringBuilder \<Rightarrow> int \<Rightarrow> StringBuilder option" where
  "StringBuilder_SetLength sb len =
     (if len < sb_length sb
      then do { newText \<leftarrow> arr_set (sb_text sb) len (Some 0);
                Some (sb\<lparr>sb_length := len, sb_text := newText\<rparr>) }
      else if len > sb_length sb then StringBuilder_AppendRepeat sb 0 (i64 (len - sb_length sb))
      else Some sb)"

definition StringBuilder_At :: "StringBuilder \<Rightarrow> int \<Rightarrow> byte option" where
  "StringBuilder_At sb index = load (sb_text sb) index"

definition StringBuilder_SetAt :: "StringBuilder \<Rightarrow> int \<Rightarrow> byte \<Rightarrow> StringBuilder option" where
  "StringBuilder_SetAt sb index value =
     do { newText \<leftarrow> arr_set (sb_text sb) index (Some value); Some (sb\<lparr>sb_text := newText\<rparr>) }"

definition StringBuilder_Clear :: "StringBuilder \<Rightarrow> StringBuilder option" where
  "StringBuilder_Clear sb = StringBuilder_SetLength sb 0"

definition StringBuilder_AppendString :: "StringBuilder \<Rightarrow> bytes \<Rightarrow> StringBuilder option" where
  "StringBuilder_AppendString sb str = StringBuilder_Append sb (text_of str) 0 (int (length str))"

definition StringBuilder_AppendSubstring :: "StringBuilder \<Rightarrow> bytes \<Rightarrow> int \<Rightarrow> int \<Rightarrow> StringBuilder option" where
  "StringBuilder_AppendSubstring sb str start len = StringBuilder_Append sb (text_of str) start len"

definition StringBuilder_AppendStringBuilder :: "StringBuilder \<Rightarrow> StringBuilder \<Rightarrow> StringBuilder option" where
  "StringBuilder_AppendStringBuilder dest src = StringBuilder_Append dest (sb_text src) 0 (sb_length src)"

definition StringBuilder_AppendStringBuilderSubstring ::
  "StringBuilder \<Rightarrow> StringBuilder \<Rightarrow> int \<Rightarrow> int \<Rightarrow> StringBuilder option" where
  "StringBuilder_AppendStringBuilderSubstring dest src start len = StringBuilder_Append dest (sb_text src) start len"

definition String_CreateFromUnicode :: "32 word \<Rightarrow> bytes option" where
  "String_CreateFromUnicode code =
     do { sb \<leftarrow> INIT_INLINE_STRINGBUILDER 16;
          sb \<leftarrow> StringBuilder_AppendUnicode sb code;
          StringBuilder_ToString sb }"

section \<open>The interface\<close>

text \<open>
  What its clients rely on: \<open>holds xs sb\<close>, the builder contains the text \<open>xs\<close>, and is kept by every
  operation as long as the text stays below the limit.
\<close>

definition text_limit :: int where
  "text_limit = 2 ^ 62"

locale text_sink =
  fixes holds :: "bytes \<Rightarrow> 'b \<Rightarrow> bool"
    and append :: "'b \<Rightarrow> cells \<Rightarrow> int \<Rightarrow> int \<Rightarrow> 'b option"
    and append_byte :: "'b \<Rightarrow> byte \<Rightarrow> 'b option"
    and to_string :: "'b \<Rightarrow> bytes option"
  assumes append_cells: "\<lbrakk>holds xs sb; 0 \<le> i; take (length ys) (drop (nat i) t) = map Some ys;
      int (length xs + length ys) \<le> text_limit\<rbrakk>
      \<Longrightarrow> \<exists>sb'. append sb t i (int (length ys)) = Some sb' \<and> holds (xs @ ys) sb'"
    and append_byte_ok: "\<lbrakk>holds xs sb; int (length xs) + 1 \<le> text_limit\<rbrakk>
      \<Longrightarrow> \<exists>sb'. append_byte sb b = Some sb' \<and> holds (xs @ [b]) sb'"
    and to_string_ok: "holds xs sb \<Longrightarrow> to_string sb = Some xs"
begin

lemma append_slice:
  assumes "holds xs sb" and "0 \<le> i" and "0 \<le> n" and "i + n \<le> int (length s)"
    and "int (length xs) + n \<le> text_limit"
  shows "\<exists>sb'. append sb (text_of s) i n = Some sb' \<and> holds (xs @ take (nat n) (drop (nat i) s)) sb'"
proof -
  have "nat i + nat n \<le> length s" using assms by linarith
  moreover from this have "length (take (nat n) (drop (nat i) s)) = nat n" by simp
  ultimately show ?thesis
    using append_cells [of xs sb i "take (nat n) (drop (nat i) s)" "text_of s"] take_text_of [of "nat i" "nat n" s] assms
    by simp
qed

lemma append_string:
  assumes "holds xs sb" and "int (length xs + length s) \<le> text_limit"
  shows "\<exists>sb'. append sb (text_of s) 0 (int (length s)) = Some sb' \<and> holds (xs @ s) sb'"
  using append_slice [OF assms(1), of 0 "int (length s)" s] assms(2) by simp

text \<open>A loop that appends one piece per round collects the concatenation of the pieces.\<close>

lemma for_loop_pieces:
  assumes body: "\<And>i xs sb. i < n \<Longrightarrow> holds xs sb \<Longrightarrow> int (length xs + length (piece i)) \<le> text_limit
      \<Longrightarrow> \<exists>sb'. body (int i) sb = Some sb' \<and> holds (xs @ piece i) sb'"
    and "holds xs sb" and "int (length xs + length (concat (map piece [0..<n]))) \<le> text_limit"
  shows "\<exists>sb'. for_loop body 0 (int n) sb = Some sb' \<and> holds (xs @ concat (map piece [0..<n])) sb'"
proof -
  have *: "\<exists>sb'. for_loop body (int j) (int n) sb = Some sb' \<and> holds (xs @ concat (map piece [j..<n])) sb'"
    if "j \<le> n" "holds xs sb" "int (length xs + length (concat (map piece [j..<n]))) \<le> text_limit" for j xs sb
    using that
  proof (induction "n - j" arbitrary: j xs sb)
    case 0
    then show ?case by (simp add: for_loop.simps)
  next
    case (Suc m)
    then have j: "j < n" by simp
    have up: "[j..<n] = j # [Suc j..<n]" using j by (rule upt_conv_Cons)
    then have len: "length (concat (map piece [j..<n])) = length (piece j) + length (concat (map piece [Suc j..<n]))" by simp
    then obtain sb1 where 1: "body (int j) sb = Some sb1" "holds (xs @ piece j) sb1"
      using body [OF j Suc.prems(2)] Suc.prems(3) by auto
    have "m = n - Suc j" "Suc j \<le> n" using Suc.hyps(2) j by auto
    then obtain sb2 where "for_loop body (int (Suc j)) (int n) sb1 = Some sb2"
      "holds ((xs @ piece j) @ concat (map piece [Suc j..<n])) sb2"
      using Suc.hyps(1) [of "Suc j" "xs @ piece j" sb1] 1(2) Suc.prems(3) len by auto
    then show ?case using 1 j up by (subst for_loop.simps) (simp add: add.commute)
  qed
  show ?thesis using * [of 0 xs sb] assms(2,3) by simp
qed

end

section \<open>The invariant\<close>

definition sb_holds :: "bytes \<Rightarrow> StringBuilder \<Rightarrow> bool" where
  "sb_holds xs sb \<longleftrightarrow> sb_length sb = int (length xs) \<and> length xs < length (sb_text sb) \<and>
     sb_max sb \<le> int (length (sb_text sb)) \<and> take (length xs) (sb_text sb) = map Some xs"

lemma take_prefix_map:
  "take n t = map Some xs \<Longrightarrow> length xs = n \<Longrightarrow> n \<le> length t \<and> t = map Some xs @ drop n t"
  by (metis append_take_drop_id length_map length_take min.absorb_iff2 min.commute)

lemma Builder_Grow_ok:
  assumes h: "sb_holds xs sb" and "0 < n" and "int (length xs) + n \<le> text_limit"
  shows "\<exists>sb'. StringBuilder_Grow sb n = Some sb' \<and> sb_holds xs sb' \<and> int (length xs) + n < int (length (sb_text sb'))"
proof -
  have len: "sb_length sb = int (length xs)" using h by (simp add: sb_holds_def)
  have w: "i64 (int (length xs) + n) = int (length xs) + n" using assms by (simp add: i64_id text_limit_def)
  show ?thesis
  proof (cases "int (length xs) + n < sb_max sb")
    case True
    then show ?thesis using h w len by (auto simp: StringBuilder_Grow_def sb_holds_def)
  next
    case False
    let ?m = "next_power (int (length xs) + n)"
    have m: "int (length xs) + n \<le> ?m"
      using NextPowerOfTwo_spec(1) [of "int (length xs) + n"] assms by (simp add: text_limit_def)
    then have a: "malloc_text ?m = Some (replicate (nat ?m + 1) None)" using assms(2) by (simp add: malloc_text_def)
    let ?new = "take (Suc (length xs)) (sb_text sb) @ replicate (nat ?m - length xs) None"
    have s: "length xs < length (sb_text sb)" using h by (simp add: sb_holds_def)
    have c: "mem_cpy (replicate (nat ?m + 1) None) 0 (sb_text sb) 0 (int (length xs) + 1) = Some ?new"
      using s m assms(2) by (simp add: mem_cpy_def nat_add_distrib del: replicate_Suc)
    have "sb_holds xs (sb\<lparr>sb_text := ?new, sb_max := ?m\<rparr>)"
      using h s m assms(2) by (auto simp: sb_holds_def)
    then show ?thesis using False m s assms(2) c unfolding StringBuilder_Grow_def len w Let_def a by auto
  qed
qed

lemma write_ok:
  assumes "sb_holds xs sb" and "int (length xs) + int (length ys) < int (length (sb_text sb))"
  shows "sb_holds (xs @ ys) (sb\<lparr>sb_text := (take (length xs) (sb_text sb) @ map Some ys @
       drop (length xs + length ys) (sb_text sb)), sb_length := int (length xs) + int (length ys)\<rparr>)"
    and "sb_holds (xs @ ys) (sb\<lparr>sb_text := (take (length xs) (sb_text sb) @ map Some ys @
       drop (length xs + length ys) (sb_text sb))[length xs + length ys := Some 0],
       sb_length := int (length xs) + int (length ys)\<rparr>)"
  using assms by (auto simp: sb_holds_def)

lemma Append_cells:
  assumes h: "sb_holds xs sb" and i: "0 \<le> i" and t: "take (length ys) (drop (nat i) t) = map Some ys"
    and lim: "int (length xs + length ys) \<le> text_limit"
  shows "\<exists>sb'. StringBuilder_Append sb t i (int (length ys)) = Some sb' \<and> sb_holds (xs @ ys) sb'"
proof (cases "ys = []")
  case True
  then show ?thesis using h by (simp add: StringBuilder_Append_def)
next
  case False
  then obtain sb1 where g: "StringBuilder_Grow sb (int (length ys)) = Some sb1" "sb_holds xs sb1"
    "int (length xs) + int (length ys) < int (length (sb_text sb1))"
    using Builder_Grow_ok [OF h, of "int (length ys)"] lim by auto
  have "length (take (length ys) (drop (nat i) t)) = length ys" using t by simp
  then have "nat i + length ys \<le> length t" using False by (cases ys) auto
  moreover have l: "sb_length sb1 = int (length xs)" using g(2) by (simp add: sb_holds_def)
  ultimately have m: "mem_cpy (sb_text sb1) (sb_length sb1) t i (int (length ys)) =
      Some (take (length xs) (sb_text sb1) @ map Some ys @ drop (length xs + length ys) (sb_text sb1))"
    using g(3) i t by (simp add: mem_cpy_def nat_add_distrib)
  show ?thesis
    using False g m l write_ok(2) [OF g(2,3)]
    by (simp add: StringBuilder_Append_def arr_set_def nat_add_distrib)
qed

lemma AppendByte_ok:
  assumes h: "sb_holds xs sb" and lim: "int (length xs) + 1 \<le> text_limit"
  shows "\<exists>sb'. StringBuilder_AppendByte sb b = Some sb' \<and> sb_holds (xs @ [b]) sb'"
proof -
  obtain sb1 where g: "StringBuilder_Grow sb 1 = Some sb1" "sb_holds xs sb1"
    "int (length xs) + 1 < int (length (sb_text sb1))"
    using Builder_Grow_ok [OF h, of 1] lim by auto
  have "sb_length sb1 = int (length xs)" using g(2) by (simp add: sb_holds_def)
  moreover have "(sb_text sb1)[length xs := Some b] =
      take (length xs) (sb_text sb1) @ map Some [b] @ drop (length xs + length [b]) (sb_text sb1)"
    using g(3) by (simp add: upd_conv_take_nth_drop)
  ultimately show ?thesis
    using g write_ok(2) [of xs sb1 "[b]"]
    by (simp add: StringBuilder_AppendByte_def arr_set_def nat_add_distrib add.commute)
qed

lemma AppendRepeat_ok:
  assumes h: "sb_holds xs sb" and lim: "int (length xs) + n \<le> text_limit"
  shows "\<exists>sb'. StringBuilder_AppendRepeat sb b n = Some sb' \<and> sb_holds (xs @ replicate (nat n) b) sb'"
proof (cases "0 < n")
  case False
  then show ?thesis using h by (simp add: StringBuilder_AppendRepeat_def)
next
  case True
  then obtain sb1 where g: "StringBuilder_Grow sb n = Some sb1" "sb_holds xs sb1"
    "int (length xs) + n < int (length (sb_text sb1))"
    using Builder_Grow_ok [OF h True lim] by auto
  have l: "sb_length sb1 = int (length xs)" using g(2) by (simp add: sb_holds_def)
  have "mem_set (sb_text sb1) (sb_length sb1) (Some b) n = Some (take (length xs) (sb_text sb1) @
      map Some (replicate (nat n) b) @ drop (length xs + length (replicate (nat n) b)) (sb_text sb1))"
    using g(3) l True by (simp add: mem_set_def nat_add_distrib)
  then show ?thesis
    using True g l write_ok(2) [of xs sb1 "replicate (nat n) b"]
    by (simp add: StringBuilder_AppendRepeat_def arr_set_def nat_add_distrib)
qed

lemma ToString_ok: "sb_holds xs sb \<Longrightarrow> StringBuilder_ToString sb = Some xs"
  unfolding StringBuilder_ToString_def sb_holds_def by (intro String_Create_cells) auto

interpretation sb: text_sink sb_holds StringBuilder_Append StringBuilder_AppendByte StringBuilder_ToString
  by unfold_locales (simp_all add: Append_cells AppendByte_ok ToString_ok)

section \<open>Creation, truncation and access\<close>

lemma InitWithSize_ok:
  assumes "n \<le> 2 ^ 62"
  shows "\<exists>sb. StringBuilder_InitWithSize n = Some sb \<and> sb_holds [] sb"
proof -
  define k where "k = (if n < 256 then 256 else n)"
  have k: "k \<le> next_power k" "256 \<le> k" using NextPowerOfTwo_spec(1) [of k] assms by (auto simp: k_def)
  then have "malloc_text (next_power k) = Some (replicate (nat (next_power k) + 1) None)" by (simp add: malloc_text_def)
  then show ?thesis
    using k unfolding StringBuilder_InitWithSize_def k_def [symmetric] Let_def
    by (simp add: arr_set_def sb_holds_def)
qed

lemma Create_ok: "\<exists>sb. StringBuilder_Create = Some sb \<and> sb_holds [] sb"
  by (simp add: StringBuilder_Create_def StringBuilder_CreateWithSize_def InitWithSize_ok)

lemma inline_ok: "0 < n \<Longrightarrow> \<exists>sb. INIT_INLINE_STRINGBUILDER n = Some sb \<and> sb_holds [] sb"
  by (simp add: INIT_INLINE_STRINGBUILDER_def arr_set_def sb_holds_def)

lemma CreateFromBytes_ok:
  assumes "0 \<le> i" and "take (length ys) (drop (nat i) t) = map Some ys" and "int (length ys) < 2 ^ 62"
    and "i + int (length ys) \<le> int (length t)"
  shows "\<exists>sb. StringBuilder_CreateFromBytes t i (int (length ys)) = Some sb \<and> sb_holds ys sb"
proof -
  define k where "k = (if int (length ys) + 1 < 256 then 256 else int (length ys) + 1)"
  have k: "k \<le> next_power k" "256 \<le> k" "int (length ys) < k"
    using NextPowerOfTwo_spec(1) [of k] assms(3) by (auto simp: k_def)
  then have a: "malloc_text (next_power k) = Some (replicate (nat (next_power k) + 1) None)" by (simp add: malloc_text_def)
  have w: "i64 (int (length ys) + 1) = int (length ys) + 1" using assms(3) by (simp add: i64_id)
  have len: "(if int (length ys) < 0 then 0 else int (length ys)) = int (length ys)" by simp
  have room: "length ys < nat (next_power k)" using k by linarith
  let ?new = "map Some ys @ replicate (Suc (nat (next_power k)) - length ys) None"
  have m: "mem_cpy (replicate (nat (next_power k) + 1) None) 0 t i (int (length ys)) = Some ?new"
    using assms room by (auto simp: mem_cpy_def nat_add_distrib simp del: replicate_Suc)
  show ?thesis
    unfolding StringBuilder_CreateFromBytes_def Let_def len w k_def [symmetric] a Option.bind_lunit m
    using room k by (simp add: arr_set_def sb_holds_def)
qed

lemma SetLength_ok:
  assumes h: "sb_holds xs sb" and "0 \<le> n" and "n \<le> text_limit"
  shows "\<exists>sb'. StringBuilder_SetLength sb n = Some sb' \<and>
    sb_holds (take (nat n) xs @ replicate (nat n - length xs) 0) sb'"
proof -
  have l: "sb_length sb = int (length xs)" using h by (simp add: sb_holds_def)
  consider "n < int (length xs)" | "n = int (length xs)" | "int (length xs) < n" by linarith
  then show ?thesis
  proof cases
    case 1
    let ?t = "sb_text sb"
    have k: "nat n < length xs" using 1 assms(2) by linarith
    have "take (nat n) ?t = take (nat n) (take (length xs) ?t)" using k by (simp add: min_absorb2)
    also have "\<dots> = map Some (take (nat n) xs)" using h by (simp add: sb_holds_def take_map)
    finally show ?thesis
      using 1 h l k assms(2) by (simp add: StringBuilder_SetLength_def arr_set_def sb_holds_def min_absorb2)
  next
    case 2
    then show ?thesis using h l by (simp add: StringBuilder_SetLength_def)
  next
    case 3
    have "i64 (n - int (length xs)) = n - int (length xs)" using assms 3 by (simp add: i64_id text_limit_def)
    moreover have "nat (n - int (length xs)) = nat n - length xs" by linarith
    moreover have "take (nat n) xs = xs" using 3 by simp
    ultimately show ?thesis
      using AppendRepeat_ok [OF h, of "n - int (length xs)" 0] assms 3 l
      by (simp add: StringBuilder_SetLength_def)
  qed
qed

lemma At_ok: "sb_holds xs sb \<Longrightarrow> 0 \<le> i \<Longrightarrow> i < int (length xs) \<Longrightarrow> StringBuilder_At sb i = Some (xs ! nat i)"
  unfolding StringBuilder_At_def sb_holds_def by (auto intro: load_prefix)

lemma SetAt_ok:
  assumes "sb_holds xs sb" and "0 \<le> i" and "i < int (length xs)"
  shows "\<exists>sb'. StringBuilder_SetAt sb i b = Some sb' \<and> sb_holds (xs[nat i := b]) sb'"
  using assms by (auto simp: StringBuilder_SetAt_def arr_set_def sb_holds_def take_update_swap map_update nat_less_iff)

section \<open>Sequences of operations\<close>

datatype sb_op =
    AppendOp bytes int int
  | AppendByteOp byte
  | AppendRepeatOp byte int
  | AppendSelfOp
  | SetLengthOp int
  | SetAtOp int byte

fun sb_step :: "StringBuilder \<Rightarrow> sb_op \<Rightarrow> StringBuilder option" where
  "sb_step sb (AppendOp s start len) = StringBuilder_AppendSubstring sb s start len"
| "sb_step sb (AppendByteOp b) = StringBuilder_AppendByte sb b"
| "sb_step sb (AppendRepeatOp b n) = StringBuilder_AppendRepeat sb b n"
| "sb_step sb AppendSelfOp = StringBuilder_AppendStringBuilder sb sb"
| "sb_step sb (SetLengthOp n) = StringBuilder_SetLength sb n"
| "sb_step sb (SetAtOp i b) = StringBuilder_SetAt sb i b"

fun sb_run :: "StringBuilder \<Rightarrow> sb_op list \<Rightarrow> StringBuilder option" where
  "sb_run sb [] = Some sb"
| "sb_run sb (p # ps) = do { sb \<leftarrow> sb_step sb p; sb_run sb ps }"

text \<open>The same operations on a list of bytes; \<open>None\<close> for arguments outside their domain or a text too long.\<close>

definition within_limit :: "bytes \<Rightarrow> bytes option" where
  "within_limit xs = (if int (length xs) \<le> text_limit then Some xs else None)"

fun text_step :: "bytes \<Rightarrow> sb_op \<Rightarrow> bytes option" where
  "text_step xs (AppendOp s start len) =
     (if len \<le> 0 then Some xs
      else if 0 \<le> start \<and> start + len \<le> int (length s)
      then within_limit (xs @ take (nat len) (drop (nat start) s)) else None)"
| "text_step xs (AppendByteOp b) = within_limit (xs @ [b])"
| "text_step xs (AppendRepeatOp b n) = within_limit (xs @ replicate (nat n) b)"
| "text_step xs AppendSelfOp = within_limit (xs @ xs)"
| "text_step xs (SetLengthOp n) =
     (if 0 \<le> n \<and> n \<le> text_limit then Some (take (nat n) xs @ replicate (nat n - length xs) 0) else None)"
| "text_step xs (SetAtOp i b) = (if 0 \<le> i \<and> i < int (length xs) then Some (xs[nat i := b]) else None)"

fun text_run :: "bytes \<Rightarrow> sb_op list \<Rightarrow> bytes option" where
  "text_run xs [] = Some xs"
| "text_run xs (p # ps) = do { ys \<leftarrow> text_step xs p; text_run ys ps }"

lemma sb_step_ok:
  assumes h: "sb_holds xs sb" and s: "text_step xs p = Some ys"
  shows "\<exists>sb'. sb_step sb p = Some sb' \<and> sb_holds ys sb'"
proof (cases p)
  case (AppendOp t start len)
  show ?thesis
  proof (cases "len \<le> 0")
    case True
    then show ?thesis using h s AppendOp by (simp add: StringBuilder_AppendSubstring_def StringBuilder_Append_def)
  next
    case False
    then have "0 \<le> start" "start + len \<le> int (length t)" "ys = xs @ take (nat len) (drop (nat start) t)"
      "int (length ys) \<le> text_limit"
      using s AppendOp by (auto simp: within_limit_def split: if_splits)
    moreover from this False have "int (length xs) + len \<le> text_limit" by (auto simp: min_def split: if_splits)
    ultimately show ?thesis
      using sb.append_slice [OF h, of start len t] False AppendOp by (simp add: StringBuilder_AppendSubstring_def)
  qed
next
  case (AppendByteOp b)
  then show ?thesis using AppendByte_ok [OF h, of b] s by (auto simp: within_limit_def split: if_splits)
next
  case (AppendRepeatOp b n)
  then have y: "ys = xs @ replicate (nat n) b" "int (length xs + nat n) \<le> text_limit"
    using s by (auto simp: within_limit_def split: if_splits)
  then have "int (length xs) + n \<le> text_limit" by linarith
  then show ?thesis using AppendRepeat_ok [OF h, of n b] y(1) AppendRepeatOp by simp
next
  case AppendSelfOp
  then have y: "ys = xs @ xs" "int (length xs + length xs) \<le> text_limit"
    using s by (auto simp: within_limit_def split: if_splits)
  then show ?thesis
    using Append_cells [OF h, of 0 xs "sb_text sb"] h AppendSelfOp
    by (simp add: StringBuilder_AppendStringBuilder_def sb_holds_def)
next
  case (SetLengthOp n)
  then show ?thesis using SetLength_ok [OF h, of n] s by (auto split: if_splits)
next
  case (SetAtOp i b)
  then show ?thesis using SetAt_ok [OF h, of i b] s by (auto split: if_splits)
qed

lemma sb_run_ok:
  assumes "sb_holds xs sb" and "text_run xs ps = Some ys"
  shows "\<exists>sb'. sb_run sb ps = Some sb' \<and> sb_holds ys sb'"
  using assms
proof (induction ps arbitrary: xs sb)
  case (Cons p ps)
  then obtain zs where z: "text_step xs p = Some zs" "text_run zs ps = Some ys" by (auto split: bind_splits)
  then obtain sb1 where "sb_step sb p = Some sb1" "sb_holds zs sb1" using sb_step_ok Cons.prems(1) by blast
  then show ?case using Cons.IH z(2) by simp
qed simp

text \<open>
  C7: A StringBuilder is a list of bytes. Whatever sequence of appends (of substrings, bytes, repeated
  bytes, its own text), truncations, extensions and byte stores is run on a new builder, on the heap or
  in a buffer on the stack, it stays within its buffer through every growth, and the string it turns
  into is the list that the same operations give.
\<close>

theorem StringBuilder_refines_list:
  assumes "text_run [] ps = Some ys"
  shows "(\<exists>sb sb'. StringBuilder_Create = Some sb \<and> sb_run sb ps = Some sb' \<and> StringBuilder_ToString sb' = Some ys) \<and>
    (\<forall>n>0. \<exists>sb sb'. INIT_INLINE_STRINGBUILDER n = Some sb \<and> sb_run sb ps = Some sb' \<and>
       StringBuilder_ToString sb' = Some ys)"
proof (intro conjI allI impI)
  obtain sb where sb: "StringBuilder_Create = Some sb" "sb_holds [] sb" using Create_ok by blast
  then show "\<exists>sb sb'. StringBuilder_Create = Some sb \<and> sb_run sb ps = Some sb' \<and> StringBuilder_ToString sb' = Some ys"
    using sb_run_ok [OF sb(2) assms] sb.to_string_ok by blast
next
  fix n :: nat assume "0 < n"
  then obtain sb where sb: "INIT_INLINE_STRINGBUILDER n = Some sb" "sb_holds [] sb" using inline_ok by blast
  then show "\<exists>sb sb'. INIT_INLINE_STRINGBUILDER n = Some sb \<and> sb_run sb ps = Some sb' \<and>
       StringBuilder_ToString sb' = Some ys"
    using sb_run_ok [OF sb(2) assms] sb.to_string_ok by blast
qed

theorem StringBuilder_refines_list_witness:
  "\<exists>sb sb'. INIT_INLINE_STRINGBUILDER 2 = Some sb \<and>
     sb_run sb [AppendOp [1, 2, 3] 1 2, AppendByteOp 9, AppendSelfOp, SetAtOp 0 7, SetLengthOp 5] = Some sb' \<and>
     StringBuilder_ToString sb' = Some [7, 3, 9, 2, 3]"
proof -
  have "text_run [] [AppendOp [1, 2, 3] 1 2, AppendByteOp 9, AppendSelfOp, SetAtOp 0 7, SetLengthOp 5] =
      Some [7, 3, 9, 2, 3]"
    by code_simp
  from StringBuilder_refines_list [OF this] show ?thesis by (meson zero_less_numeral)
qed

end
