(* ===== verification/StringSplitting.thy ===== *)
theory StringSplitting
  imports StringSearch Substrings StringBuilders
begin

text \<open>
  Cutting a string at the occurrences of a pattern: replacing, splitting and counting
  (\<^verbatim>\<open>String_Replace\<close> of \<^verbatim>\<open>smilelib/src/string/string_core.c\<close>, \<^verbatim>\<open>String_SplitWithOptions\<close>, \<^verbatim>\<open>String_CountOf\<close>,
  \<^verbatim>\<open>String_Before\<close> and its relatives of \<^verbatim>\<open>smilelib/src/string/string_extra.c\<close>), and the managed array
  that collects the pieces (\<^verbatim>\<open>smilelib/include/smile/array.h\<close>).
\<close>

section \<open>The managed array\<close>

text \<open>
  The data buffer has \<^verbatim>\<open>_max\<close> slots of \<^verbatim>\<open>itemSize\<close> bytes; a slot holds nothing until it is written.
  An allocation of a negative number of slots, or of 2^63 bytes or more, does not succeed. The flag
  \<^verbatim>\<open>isAtomic\<close> only tells the collector whether to look for pointers in the buffer.
\<close>

record 'a Array =
  a_data :: "'a option list"
  a_itemSize :: int
  a_isAtomic :: bool
  a_length :: int
  a_max :: int

definition alloc_slots :: "int \<Rightarrow> int \<Rightarrow> 'a option list option" where
  "alloc_slots itemSize n = (if 0 \<le> n \<and> itemSize * n < 2 ^ 63 then Some (replicate (nat n) None) else None)"

definition Array_Init :: "int \<Rightarrow> int \<Rightarrow> bool \<Rightarrow> 'a Array option" where
  "Array_Init itemSize max0 isAtomic =
     do { slots \<leftarrow> alloc_slots itemSize max0;
          Some \<lparr>a_data = slots, a_itemSize = itemSize, a_isAtomic = isAtomic, a_length = 0, a_max = max0\<rparr> }"

definition Array_Resize :: "'a Array \<Rightarrow> int \<Rightarrow> 'a Array option" where
  "Array_Resize array newMax =
     do { let copyMax = (if newMax < a_max array then newMax else a_max array);
          slots \<leftarrow> alloc_slots (a_itemSize array) newMax;
          newData \<leftarrow> mem_cpy slots 0 (a_data array) 0 copyMax;
          Some (array\<lparr>a_data := newData, a_max := newMax\<rparr>) }"

definition Array_At :: "'a Array \<Rightarrow> int \<Rightarrow> 'a option" where
  "Array_At array index = Option.bind (arr_get (a_data array) index) id"

definition Array_Length :: "'a Array \<Rightarrow> int" where
  "Array_Length array = a_length array"

text \<open>\<^verbatim>\<open>*Array_Push(array) = v\<close>\<close>

definition Array_Push :: "'a Array \<Rightarrow> 'a \<Rightarrow> 'a Array option" where
  "Array_Push array v =
     do { array \<leftarrow> (if a_length array \<ge> a_max array then Array_Resize array (i64 (a_max array * 2)) else Some array);
          newData \<leftarrow> arr_set (a_data array) (a_length array) (Some v);
          Some (array\<lparr>a_data := newData, a_length := a_length array + 1\<rparr>) }"

definition Array_Pop :: "'a Array \<Rightarrow> 'a Array" where
  "Array_Pop array = (if a_length array > 0 then array\<lparr>a_length := a_length array - 1\<rparr> else array)"

text \<open>The items a caller reads from the result: the first \<^verbatim>\<open>length\<close> slots.\<close>

definition array_items :: "'a Array \<Rightarrow> 'a list option" where
  "array_items array = those (take (nat (a_length array)) (a_data array))"

section \<open>Definitions\<close>

text \<open>
  The loop of \<^verbatim>\<open>String_Replace\<close> (no limit) and \<^verbatim>\<open>String_ReplaceWithLimit\<close>: the builder and the end of the
  last replacement when no further one is made.
\<close>

partial_function (option) replace_loop ::
  "bytes \<Rightarrow> bytes \<Rightarrow> bytes \<Rightarrow> int option \<Rightarrow> StringBuilder \<Rightarrow> int \<Rightarrow> int \<Rightarrow> (StringBuilder \<times> int) option" where
  "replace_loop str pattern r limit sb lastEnd index =
     (if (case limit of Some l \<Rightarrow> l \<le> 0 | None \<Rightarrow> False) then Some (sb, lastEnd)
      else Option.bind (String_IndexOf str pattern index) (\<lambda>index.
        if index < 0 then Some (sb, lastEnd)
        else Option.bind (if index > lastEnd
                          then StringBuilder_Append sb (text_of str) lastEnd (index - lastEnd) else Some sb) (\<lambda>sb.
             Option.bind (StringBuilder_Append sb (text_of r) 0 (int (length r))) (\<lambda>sb.
             replace_loop str pattern r (map_option (\<lambda>l. l - 1) limit) sb
               (index + int (length pattern)) (index + int (length pattern))))))"

declare replace_loop.simps [code]

definition replace_with :: "int option \<Rightarrow> bytes option \<Rightarrow> bytes option \<Rightarrow> bytes option \<Rightarrow> bytes option" where
  "replace_with limit str pattern replacement =
     (if String_IsNullOrEmpty str then Some []
      else if String_IsNullOrEmpty pattern then str
      else do {
        s \<leftarrow> str; p \<leftarrow> pattern;
        let r = (case replacement of Some t \<Rightarrow> t | None \<Rightarrow> []);
        sb \<leftarrow> INIT_INLINE_STRINGBUILDER 256;
        (sb, lastEnd) \<leftarrow> replace_loop s p r limit sb 0 0;
        sb \<leftarrow> (if lastEnd < int (length s)
               then StringBuilder_Append sb (text_of s) lastEnd (int (length s) - lastEnd) else Some sb);
        StringBuilder_ToString sb })"

definition String_Replace :: "bytes option \<Rightarrow> bytes option \<Rightarrow> bytes option \<Rightarrow> bytes option" where
  "String_Replace str pattern replacement = replace_with None str pattern replacement"

definition String_ReplaceWithLimit :: "bytes option \<Rightarrow> bytes option \<Rightarrow> bytes option \<Rightarrow> int \<Rightarrow> bytes option" where
  "String_ReplaceWithLimit str pattern replacement limit = replace_with (Some limit) str pattern replacement"

text \<open>The loop of \<^verbatim>\<open>String_SplitWithOptions\<close> for a pattern that is not empty.\<close>

partial_function (option) split_loop ::
  "bytes \<Rightarrow> bytes \<Rightarrow> bool \<Rightarrow> int \<Rightarrow> bytes Array \<Rightarrow> int \<Rightarrow> (bytes Array \<times> int \<times> int) option" where
  "split_loop str pattern removeEmpty limit array startIndex =
     (if limit \<le> 0 then Some (array, limit, startIndex)
      else Option.bind (String_IndexOf str pattern startIndex) (\<lambda>splitIndex.
        if splitIndex < 0 then Some (array, limit, startIndex)
        else Option.bind
          (if splitIndex = startIndex
           then if removeEmpty then Some (array, limit)
                else Option.bind (Array_Push array []) (\<lambda>array. Some (array, limit - 1))
           else Option.bind (String_Substring str startIndex (splitIndex - startIndex)) (\<lambda>piece.
                Option.bind (Array_Push array piece) (\<lambda>array. Some (array, limit - 1))))
          (\<lambda>(array, limit). split_loop str pattern removeEmpty limit array (splitIndex + int (length pattern)))))"

declare split_loop.simps [code]

text \<open>The loop for an empty pattern: one piece per character.\<close>

function split_chars :: "bytes \<Rightarrow> int \<Rightarrow> bytes Array \<Rightarrow> int \<Rightarrow> (bytes Array \<times> int \<times> int) option" where
  "split_chars str limit array startIndex =
     (if limit > 0 \<and> startIndex < int (length str)
      then Option.bind (String_Substring str startIndex 1) (\<lambda>piece.
           Option.bind (Array_Push array piece) (\<lambda>array. split_chars str (limit - 1) array (startIndex + 1)))
      else Some (array, limit, startIndex))"
  by pat_completeness auto
termination
  by (relation "measure (\<lambda>(str, limit, array, startIndex). nat limit)") auto

declare split_chars.simps [simp del]

definition int_max :: int where
  "int_max = 2 ^ 63 - 1"

definition String_SplitWithOptions :: "bytes \<Rightarrow> bytes option \<Rightarrow> int \<Rightarrow> bool \<Rightarrow> bytes Array option" where
  "String_SplitWithOptions str pattern limit removeEmpty =
     do { let limit = (if limit < 0 then int_max else limit);
          array \<leftarrow> Array_Init 8 64 False;
          (array, limit, startIndex) \<leftarrow>
            (case pattern of
               Some (c # cs) \<Rightarrow> split_loop str (c # cs) removeEmpty limit array 0
             | _ \<Rightarrow> split_chars str limit array 0);
          if limit > 0 \<and> int (length str) = 0 then Array_Push array []
          else if startIndex < int (length str)
          then do { piece \<leftarrow> (if startIndex > 0
                              then String_Substring str startIndex (int (length str) - startIndex) else Some str);
                    Array_Push array piece }
          else Some array }"

definition String_Split :: "bytes \<Rightarrow> bytes option \<Rightarrow> bytes Array option" where
  "String_Split str pattern = String_SplitWithOptions str pattern (-1) False"

partial_function (option) count_loop :: "bytes \<Rightarrow> bytes \<Rightarrow> int \<Rightarrow> int \<Rightarrow> int option" where
  "count_loop str pattern n index =
     Option.bind (String_IndexOf str pattern index) (\<lambda>index.
       if index < 0 then Some n else count_loop str pattern (n + 1) (index + int (length pattern)))"

declare count_loop.simps [code]

definition String_CountOf :: "bytes option \<Rightarrow> bytes option \<Rightarrow> int option" where
  "String_CountOf str pattern =
     (if String_IsNullOrEmpty pattern \<or> String_IsNullOrEmpty str then Some 0
      else do { s \<leftarrow> str; p \<leftarrow> pattern; count_loop s p 0 0 })"

definition String_After :: "bytes \<Rightarrow> bytes option \<Rightarrow> int \<Rightarrow> bytes option" where
  "String_After str pattern start =
     (if String_IsNullOrEmpty pattern then Some str
      else do { p \<leftarrow> pattern;
                index \<leftarrow> String_IndexOf str p start;
                if index < 0 then Some [] else String_SubstringAt str (index + int (length p)) })"

definition String_Before :: "bytes \<Rightarrow> bytes option \<Rightarrow> int \<Rightarrow> bytes option" where
  "String_Before str pattern start =
     (if String_IsNullOrEmpty pattern then Some str
      else do { p \<leftarrow> pattern;
                index \<leftarrow> String_IndexOf str p start;
                if index < 0 then Some [] else String_Substring str 0 index })"

definition String_AfterLast :: "bytes \<Rightarrow> bytes option \<Rightarrow> int \<Rightarrow> bytes option" where
  "String_AfterLast str pattern start =
     (if String_IsNullOrEmpty pattern then Some str
      else do { p \<leftarrow> pattern;
                index \<leftarrow> String_LastIndexOf str p start;
                if index < 0 then Some [] else String_SubstringAt str (index + int (length p)) })"

definition String_BeforeLast :: "bytes \<Rightarrow> bytes option \<Rightarrow> int \<Rightarrow> bytes option" where
  "String_BeforeLast str pattern start =
     (if String_IsNullOrEmpty pattern then Some str
      else do { p \<leftarrow> pattern;
                index \<leftarrow> String_LastIndexOf str p start;
                if index < 0 then Some [] else String_Substring str 0 index })"

section \<open>Pieces\<close>

text \<open>
  The pieces between the leftmost occurrences of a pattern that do not overlap, of which at most
  \<open>lim\<close> are used.
\<close>

definition active :: "int option \<Rightarrow> bool" where
  "active lim = (case lim of Some l \<Rightarrow> 0 < l | None \<Rightarrow> True)"

fun cons_first :: "'a \<Rightarrow> 'a list list \<Rightarrow> 'a list list" where
  "cons_first c [] = [[c]]"
| "cons_first c (x # xs) = (c # x) # xs"

function pieces :: "bytes \<Rightarrow> int option \<Rightarrow> bytes \<Rightarrow> bytes list" where
  "pieces p lim s =
     (case s of [] \<Rightarrow> [[]]
      | c # cs \<Rightarrow>
          if active lim \<and> p \<noteq> [] \<and> take (length p) s = p
          then [] # pieces p (map_option (\<lambda>l. l - 1) lim) (drop (length p) s)
          else cons_first c (pieces p lim cs))"
  by pat_completeness auto
termination
  by (relation "measure (\<lambda>(p, lim, s). length s)") (auto simp: diff_less)

declare pieces.simps [simp del]

lemma pieces_nonempty [simp]: "pieces p lim s \<noteq> []"
proof (cases s)
  case (Cons c cs)
  then show ?thesis by (subst pieces.simps) (auto elim: cons_first.elims split: if_splits)
qed (simp add: pieces.simps)

lemma pieces_Nil [simp]: "pieces p lim [] = [[]]"
  by (simp add: pieces.simps)

lemma pieces_inactive: "\<not> active lim \<Longrightarrow> pieces p lim s = [s]"
  by (induction s) (simp_all add: pieces.simps [of p lim "_ # _"])

text \<open>Prepending text to the first piece.\<close>

definition prefix_first :: "bytes \<Rightarrow> bytes list \<Rightarrow> bytes list" where
  "prefix_first t ps = (t @ hd ps) # tl ps"

lemma cons_first_prefix: "ps \<noteq> [] \<Longrightarrow> cons_first c (prefix_first t ps) = prefix_first (c # t) ps"
  by (simp add: prefix_first_def)

lemma prefix_first_Nil: "ps \<noteq> [] \<Longrightarrow> prefix_first [] ps = ps"
  by (simp add: prefix_first_def)

lemma pieces_skip:
  assumes "i \<le> k" and "k \<le> length s" and "\<And>j. i \<le> j \<Longrightarrow> j < k \<Longrightarrow> \<not> occurs_at p s j"
  shows "pieces p lim (drop i s) = prefix_first (take (k - i) (drop i s)) (pieces p lim (drop k s))"
  using assms
proof (induction "k - i" arbitrary: i)
  case 0
  then show ?case by (simp add: prefix_first_Nil)
next
  case (Suc n)
  then have i: "i < k" "i < length s" by simp_all
  have d: "drop i s = s ! i # drop (Suc i) s" using i by (simp add: Cons_nth_drop_Suc)
  have n: "\<not> (take (length p) (drop i s) = p \<and> p \<noteq> [])"
  proof
    assume *: "take (length p) (drop i s) = p \<and> p \<noteq> []"
    then have "i + length p \<le> length s" by (metis add.commute i(2) length_drop length_take less_imp_le_nat min.absorb_iff2 Nat.le_diff_conv2)
    then show False using * Suc.prems(3) [of i] i by (simp add: occurs_at_def)
  qed
  have "pieces p lim (drop i s) = cons_first (s ! i) (pieces p lim (drop (Suc i) s))"
    unfolding d by (subst pieces.simps) (use n in \<open>auto simp: d\<close>)
  also have "pieces p lim (drop (Suc i) s) = prefix_first (take (k - Suc i) (drop (Suc i) s)) (pieces p lim (drop k s))"
    using Suc by (intro Suc.hyps(1)) auto
  finally show ?case using i by (simp add: cons_first_prefix d Suc_diff_Suc [symmetric])
qed

lemma pieces_occurs:
  assumes "occurs_at p s k" and "p \<noteq> []" and "active lim"
  shows "pieces p lim (drop k s) = [] # pieces p (map_option (\<lambda>l. l - 1) lim) (drop (k + length p) s)"
proof -
  have o: "k + length p \<le> length s" "take (length p) (drop k s) = p" using assms(1) by (simp_all add: occurs_at_def)
  then obtain c cs where d: "drop k s = c # cs" using assms(2) by (cases "drop k s") auto
  have "pieces p lim (c # cs) = [] # pieces p (map_option (\<lambda>l. l - 1) lim) (drop (length p) (c # cs))"
    using o(2) assms(2,3) unfolding d by (subst pieces.simps) simp
  then show ?thesis unfolding d [symmetric] by (simp add: add.commute)
qed

lemma pieces_none:
  assumes "i \<le> length s" and "\<And>j. i \<le> j \<Longrightarrow> \<not> occurs_at p s j"
  shows "pieces p lim (drop i s) = [drop i s]"
  using pieces_skip [of i "length s" s p lim] assms by (simp add: prefix_first_def)

lemma length_cons_first [simp]: "ps \<noteq> [] \<Longrightarrow> length (cons_first c ps) = length ps"
  by (cases ps) simp_all

lemma length_pieces: "p \<noteq> [] \<Longrightarrow> length (pieces p lim s) \<le> Suc (length s)"
proof (induction "length s" arbitrary: s lim rule: less_induct)
  case less
  show ?case
  proof (cases s)
    case (Cons c cs)
    let ?lim = "map_option (\<lambda>l. l - 1) lim"
    have d: "length (drop (length p) s) < length s" using less.prems Cons by (cases p) auto
    then have "length (pieces p ?lim (drop (length p) s)) \<le> Suc (length (drop (length p) s))"
      using less.prems by (intro less.hyps)
    then have "length (pieces p ?lim (drop (length p) s)) \<le> length s" using d by linarith
    moreover have "length (pieces p lim cs) \<le> length s" using less.hyps [of cs lim] less.prems Cons by simp
    ultimately show ?thesis using Cons by (simp add: pieces.simps [of p lim "c # cs"])
  qed simp
qed

lemma pieces_unlimited: "p \<noteq> [] \<Longrightarrow> int (length s) \<le> l \<Longrightarrow> pieces p (Some l) s = pieces p None s"
proof (induction "length s" arbitrary: s l rule: less_induct)
  case less
  show ?case
  proof (cases s)
    case (Cons c cs)
    have d: "length (drop (length p) s) < length s" using less.prems Cons by (cases p) auto
    then have "pieces p (Some (l - 1)) (drop (length p) s) = pieces p None (drop (length p) s)"
      using less.prems by (intro less.hyps) linarith+
    moreover have "pieces p (Some l) cs = pieces p None cs" using less.prems Cons by (intro less.hyps) simp_all
    ultimately show ?thesis using less.prems Cons by (simp add: pieces.simps [of p _ "c # cs"] active_def)
  qed simp
qed

lemma IndexOf_cases:
  assumes "p \<noteq> []"
  obtains (none) "String_IndexOf s p (int i) = Some (-1)" and "\<And>k. i \<le> k \<Longrightarrow> \<not> occurs_at p s k"
  | (found) k where "String_IndexOf s p (int i) = Some (int k)" and "i \<le> k" and "occurs_at p s k"
      and "\<And>j. i \<le> j \<Longrightarrow> j < k \<Longrightarrow> \<not> occurs_at p s j"
proof -
  let ?e = "int (length s) - int (length p) + 1"
  obtain r where r: "String_IndexOf s p (int i) = Some r" "first_at (\<lambda>i. occurs_at p s (nat i)) (int i) ?e r"
    using IndexOf_first [of s p "int i"] by auto
  show thesis
  proof (cases "r = -1")
    case True
    have "\<not> occurs_at p s k" if "i \<le> k" for k
    proof
      assume o: "occurs_at p s k"
      then have "int i \<le> int k \<and> int k < ?e" using that by (auto simp: occurs_at_def)
      moreover have "\<forall>j. int i \<le> j \<and> j < ?e \<longrightarrow> \<not> occurs_at p s (nat j)" using r(2) True by (auto simp: first_at_def)
      ultimately show False using o by (metis nat_int)
    qed
    then show thesis using none r(1) True by blast
  next
    case False
    then have f: "int i \<le> r" "occurs_at p s (nat r)" "\<forall>j. int i \<le> j \<and> j < r \<longrightarrow> \<not> occurs_at p s (nat j)"
      using r(2) by (auto simp: first_at_def)
    show thesis
    proof (rule found [of "nat r"])
      show "String_IndexOf s p (int i) = Some (int (nat r))" using r(1) f(1) by simp
      show "i \<le> nat r" using f(1) by linarith
      show "occurs_at p s (nat r)" by (rule f(2))
      show "\<not> occurs_at p s j" if "i \<le> j" "j < nat r" for j
        using f(3) [THEN spec, of "int j"] that by (simp add: zless_nat_eq_int_zless)
    qed
  qed
qed

section \<open>Replacing\<close>

lemma glued_prefix_first: "ps \<noteq> [] \<Longrightarrow> glued r (prefix_first t ps) = t @ glued r ps"
  by (cases ps; cases "tl ps") (simp_all add: prefix_first_def)

lemma glued_Nil_Cons: "ps \<noteq> [] \<Longrightarrow> glued r ([] # ps) = r @ glued r ps"
  by (cases ps) simp_all

lemma glued_pieces: "glued p (pieces p lim s) = s"
proof (induction p lim s rule: pieces.induct)
  case (1 p lim s)
  show ?case
  proof (cases s)
    case (Cons c cs)
    show ?thesis
    proof (cases "active lim \<and> p \<noteq> [] \<and> take (length p) s = p")
      case True
      then have "glued p (pieces p lim s) = p @ drop (length p) s"
        using 1(1) [OF Cons] Cons by (subst pieces.simps) (simp add: glued_Nil_Cons)
      also have "\<dots> = s" using True by (metis append_take_drop_id)
      finally show ?thesis .
    next
      case False
      have cf: "ps \<noteq> [] \<Longrightarrow> cons_first c ps = prefix_first [c] ps" for ps by (cases ps) (simp_all add: prefix_first_def)
      show ?thesis
        using 1(2) [OF Cons False] False Cons by (subst pieces.simps) (auto simp: cf glued_prefix_first)
    qed
  qed simp
qed

lemma replace_loop_ok:
  assumes "p \<noteq> []" and "i \<le> length s" and "sb_holds xs sb"
    and "int (length xs + length (glued r (pieces p lim (drop i s)))) \<le> text_limit"
  shows "\<exists>sb' e ys. replace_loop s p r lim sb (int i) (int i) = Some (sb', int e) \<and> e \<le> length s \<and>
    sb_holds ys sb' \<and> ys @ drop e s = xs @ glued r (pieces p lim (drop i s))"
  using assms(2-)
proof (induction "length s - i" arbitrary: i xs sb lim rule: less_induct)
  case less
  have inactive: "(case lim of Some l \<Rightarrow> l \<le> 0 | None \<Rightarrow> False) \<longleftrightarrow> \<not> active lim"
    by (cases lim) (simp_all add: active_def not_less)
  show ?case
  proof (cases "active lim")
    case False
    then show ?thesis
      using less.prems unfolding replace_loop.simps [of s p r lim] inactive
      by (intro exI [of _ sb] exI [of _ i] exI [of _ xs]) (simp add: pieces_inactive)
  next
    case True
    show ?thesis
    proof (cases rule: IndexOf_cases [OF assms(1), of s i, case_names none found])
      case none
      then show ?thesis
        using less.prems True unfolding replace_loop.simps [of s p r lim] inactive
        by (intro exI [of _ sb] exI [of _ i] exI [of _ xs]) (simp add: pieces_none)
    next
      case (found k)
      let ?lim = "map_option (\<lambda>l. l - 1) lim" and ?k = "k + length p"
      have kl: "?k \<le> length s" using found(3) by (simp add: occurs_at_def)
      let ?t = "take (k - i) (drop i s)"
      have g: "glued r (pieces p lim (drop i s)) = ?t @ r @ glued r (pieces p ?lim (drop ?k s))"
        using pieces_skip [OF found(2) _ found(4), of lim] pieces_occurs [OF found(3) assms(1) True] kl
        by (simp add: glued_prefix_first glued_Nil_Cons)
      have lt: "min (length s - i) (k - i) = k - i" using kl found(2) by simp
      have lim: "int (length xs) + int (k - i) + int (length r) + int (length (glued r (pieces p ?lim (drop ?k s)))) \<le> text_limit"
        using less.prems(3) unfolding g by (simp add: lt)
      obtain sb1 where 1: "(if int k > int i then StringBuilder_Append sb (text_of s) (int i) (int k - int i) else Some sb) = Some sb1"
        "sb_holds (xs @ ?t) sb1"
      proof (cases "i < k")
        case True
        have "\<exists>sb'. StringBuilder_Append sb (text_of s) (int i) (int (k - i)) = Some sb' \<and>
            sb_holds (xs @ take (nat (int (k - i))) (drop (nat (int i)) s)) sb'"
          using lim kl found(2) by (intro sb.append_slice [OF less.prems(2)]) auto
        then show thesis using that True found(2) by (auto simp: of_nat_diff [symmetric] simp del: of_nat_diff)
      next
        case False
        then show thesis using that less.prems(2) by simp
      qed
      obtain sb2 where 2: "StringBuilder_Append sb1 (text_of r) 0 (int (length r)) = Some sb2" "sb_holds ((xs @ ?t) @ r) sb2"
        using sb.append_string [OF 1(2), of r] lim by (auto simp: lt)
      have "length s - ?k < length s - i" using kl found(2) assms(1) by (cases p) auto
      moreover have "int (length ((xs @ ?t) @ r) + length (glued r (pieces p ?lim (drop ?k s)))) \<le> text_limit"
        using lim by (simp add: lt)
      ultimately obtain sb3 e ys where 3: "replace_loop s p r ?lim sb2 (int ?k) (int ?k) = Some (sb3, int e)" "e \<le> length s"
        "sb_holds ys sb3" "ys @ drop e s = ((xs @ ?t) @ r) @ glued r (pieces p ?lim (drop ?k s))"
        using less.hyps [OF _ kl 2(2)] by blast
      have "replace_loop s p r lim sb (int i) (int i) = Some (sb3, int e)"
        using found(1) 1(1) 2(1) 3(1) True unfolding replace_loop.simps [of s p r lim] inactive by simp
      then show ?thesis using 3(2-4) g by auto
    qed
  qed
qed

lemma replace_with_eq:
  assumes "int (length (glued (text_or_empty r) (pieces p lim s))) \<le> text_limit" and "p \<noteq> []" and "s \<noteq> []"
  shows "replace_with lim (Some s) (Some p) r = Some (glued (text_or_empty r) (pieces p lim s))"
proof -
  let ?r = "text_or_empty r"
  have r: "(case r of Some t \<Rightarrow> t | None \<Rightarrow> []) = ?r" by (cases r) simp_all
  obtain sb where sb: "INIT_INLINE_STRINGBUILDER 256 = Some sb" "sb_holds [] sb" using inline_ok [of 256] by auto
  obtain sb1 e ys where 1: "replace_loop s p ?r lim sb 0 0 = Some (sb1, int e)" "e \<le> length s" "sb_holds ys sb1"
    "ys @ drop e s = glued ?r (pieces p lim s)"
    using replace_loop_ok [OF assms(2) _ sb(2), of 0 s ?r lim] assms(1) by auto
  have "int (length (ys @ drop e s)) \<le> text_limit" using assms(1) 1(4) by simp
  then have lim: "int (length ys) + int (length s - e) \<le> text_limit" by simp
  obtain sb2 where 2: "(if int e < int (length s)
        then StringBuilder_Append sb1 (text_of s) (int e) (int (length s) - int e) else Some sb1) = Some sb2"
    "sb_holds (ys @ drop e s) sb2"
  proof (cases "e < length s")
    case True
    then show thesis
      using that sb.append_slice [OF 1(3), of "int e" "int (length s) - int e" s] lim
      by (auto simp: of_nat_diff nat_diff_distrib)
  next
    case False
    then show thesis using that 1(3) by simp
  qed
  show ?thesis
    using sb(1) 1(1) 2 1(4) assms(2,3) sb.to_string_ok [OF 2(2)]
    by (simp add: replace_with_def String_IsNullOrEmpty_def r)
qed

text \<open>
  C13: Replacing a pattern (all of its occurrences, or at most a given number of them) is cutting the
  string at the leftmost occurrences that do not overlap and joining the pieces with the replacement;
  joining them with the pattern itself gives the string back. The loops end and stay within their
  buffers whatever the replacement, as long as the result is shorter than 2^62 bytes; a null or empty
  string gives the empty string, a null or empty pattern the string itself.
\<close>

theorem String_Replace_correct:
  "(s \<noteq> [] \<and> p \<noteq> [] \<longrightarrow>
     (int (length (glued (text_or_empty r) (pieces p None s))) \<le> text_limit \<longrightarrow>
        String_Replace (Some s) (Some p) r = Some (glued (text_or_empty r) (pieces p None s))) \<and>
     (int (length (glued (text_or_empty r) (pieces p (Some n) s))) \<le> text_limit \<longrightarrow>
        String_ReplaceWithLimit (Some s) (Some p) r n = Some (glued (text_or_empty r) (pieces p (Some n) s)))) \<and>
   glued p (pieces p lim s) = s \<and>
   String_Replace None pat r = Some [] \<and> String_Replace (Some s) None r = Some s"
  by (auto simp: String_Replace_def String_ReplaceWithLimit_def replace_with_eq glued_pieces)
     (auto simp: replace_with_def String_IsNullOrEmpty_def)

theorem String_Replace_correct_witness:
  "String_Replace (Some [1, 2, 2, 2, 3]) (Some [2, 2]) (Some [7]) = Some [1, 7, 2, 3]"
proof -
  have "glued [7] (pieces [2, 2] None [1, 2, 2, 2, 3]) = [1, 7, 2, 3]" by code_simp
  then show ?thesis
    using String_Replace_correct [of "[1, 2, 2, 2, 3]" "[2, 2]" "Some [7]" 0 None None] by (simp add: text_limit_def)
qed

section \<open>Splitting\<close>

text \<open>What the managed array promises: it holds the items pushed so far, within its buffer.\<close>

definition array_holds :: "'a list \<Rightarrow> 'a Array \<Rightarrow> bool" where
  "array_holds xs a \<longleftrightarrow>
     a_length a = int (length xs) \<and> a_max a = int (length (a_data a)) \<and> 0 < a_max a \<and>
     0 \<le> a_itemSize a \<and> a_itemSize a < 2 ^ 16 \<and> a_length a \<le> a_max a \<and> take (length xs) (a_data a) = map Some xs"

lemma array_holds_At: "array_holds xs a \<Longrightarrow> i < length xs \<Longrightarrow> Array_At a (int i) = Some (xs ! i)"
  by (auto simp: array_holds_def Array_At_def arr_get_def dest!: arg_cong [where f = "\<lambda>ys. ys ! i"])

lemma array_holds_items: "array_holds xs a \<Longrightarrow> array_items a = Some xs"
  by (simp add: array_holds_def array_items_def)

lemma alloc_slots_ok:
  assumes "0 \<le> n" and "n < 2 ^ 47" and "0 \<le> size0" and "size0 < 2 ^ 16"
  shows "alloc_slots size0 n = Some (replicate (nat n) None)"
proof -
  have "size0 * n \<le> (2 ^ 16 - 1) * (2 ^ 47 - 1)" using assms by (intro mult_mono) simp_all
  also have "\<dots> < 2 ^ 63" by simp
  finally show ?thesis using assms(1) by (simp add: alloc_slots_def)
qed

lemma Array_Init_ok:
  assumes "0 < n" and "n < 2 ^ 47" and "0 \<le> size0" and "size0 < 2 ^ 16"
  shows "\<exists>a. Array_Init size0 n atomic = Some a \<and> array_holds [] a"
  using assms by (simp add: Array_Init_def array_holds_def alloc_slots_ok [simplified])

lemma Array_grow_ok:
  assumes "array_holds xs a" and "int (length xs) < 2 ^ 46"
  shows "\<exists>a'. (if a_length a \<ge> a_max a then Array_Resize a (i64 (a_max a * 2)) else Some a) = Some a' \<and>
    array_holds xs a' \<and> a_length a' < a_max a'"
proof (cases "a_length a \<ge> a_max a")
  case True
  let ?n = "length xs"
  have a: "a_max a = int ?n" "0 < ?n" "length (a_data a) = ?n" "a_data a = map Some xs" "a_length a = int ?n"
    using assms(1) True by (auto simp: array_holds_def)
  have w: "i64 (int ?n * 2) = int ?n * 2" using assms(2) by (simp add: i64_id)
  let ?d = "map Some xs @ drop ?n (replicate (2 * ?n) None)"
  have s: "alloc_slots (a_itemSize a) (int ?n * 2) = Some (replicate (nat (int ?n * 2)) None)"
    using assms by (intro alloc_slots_ok) (simp_all add: array_holds_def)
  have i: "0 \<le> a_itemSize a" "a_itemSize a < 2 ^ 16" using assms(1) by (simp_all add: array_holds_def)
  have "mem_cpy (replicate (nat (int ?n * 2)) None) 0 (a_data a) 0 (int ?n) = Some ?d"
    by (simp add: mem_cpy_def a nat_mult_distrib mult.commute)
  then have "Array_Resize a (i64 (a_max a * 2)) = Some (a\<lparr>a_data := ?d, a_max := int ?n * 2\<rparr>)"
    using a(1,2) by (simp add: Array_Resize_def w s)
  then show ?thesis using True a(1,2,5) i by (simp add: array_holds_def)
next
  case False
  then show ?thesis using assms by simp
qed

lemma Array_Push_ok:
  assumes "array_holds xs a" and "int (length xs) < 2 ^ 46"
  shows "\<exists>a'. Array_Push a v = Some a' \<and> array_holds (xs @ [v]) a'"
proof -
  obtain b where b: "(if a_length a \<ge> a_max a then Array_Resize a (i64 (a_max a * 2)) else Some a) = Some b"
    "array_holds xs b" "a_length b < a_max b"
    using Array_grow_ok [OF assms] by blast
  let ?d = "(a_data b)[length xs := Some v]"
  have l: "length xs < length (a_data b)" using b(2,3) by (simp add: array_holds_def)
  then have "take (Suc (length xs)) ?d = take (length xs) (a_data b) @ [Some v]"
    by (simp add: take_Suc_conv_app_nth)
  moreover have "arr_set (a_data b) (a_length b) (Some v) = Some ?d"
    using b(2) l by (simp add: array_holds_def arr_set_def)
  ultimately show ?thesis using b l by (auto simp: Array_Push_def array_holds_def)
qed

lemma Array_Pop_ok: "array_holds (xs @ [v]) a \<Longrightarrow> array_holds xs (Array_Pop a)"
  by (auto simp: array_holds_def Array_Pop_def dest: arg_cong [where f = "take (length xs)"])


text \<open>The pieces an option keeps, and the loop that collects them.\<close>

definition kept :: "bool \<Rightarrow> bytes list \<Rightarrow> bytes list" where
  "kept removeEmpty ps = filter (\<lambda>x. removeEmpty \<longrightarrow> x \<noteq> []) ps"

lemma kept_append: "kept re (xs @ ys) = kept re xs @ kept re ys"
  by (simp add: kept_def)

definition counts_as :: "bool \<Rightarrow> int \<Rightarrow> nat \<Rightarrow> int option \<Rightarrow> bool" where
  "counts_as removeEmpty limit rest lim \<longleftrightarrow>
     (if removeEmpty then lim = None \<and> int rest < limit else lim = Some limit)"

lemma Substring_slice:
  assumes "i \<le> k" and "int k < 2 ^ 63"
  shows "String_Substring s (int i) (int k - int i) = Some (take (k - i) (drop i s))"
proof -
  have "nths s {p. int i \<le> int p \<and> int p < int k} = nths s {i..<i + (k - i)}" using assms(1) by (intro nths_cong) auto
  then show ?thesis using assms(2) by (simp add: Substring_eq nths_interval)
qed

lemma SubstringAt_drop: "String_SubstringAt s (int i) = Some (drop i s)"
proof -
  have "nths s {p. int i \<le> int p} = nths s {i..<i + (length s - i)}" by (intro nths_cong) auto
  then show ?thesis by (simp add: SubstringAt_eq nths_interval)
qed

lemma split_step:
  assumes "array_holds xs a" and "int (length xs) < 2 ^ 46" and "i \<le> k" and "k \<le> length s" and "int (length s) < 2 ^ 45"
  shows "\<exists>a'. (if int k = int i
           then if re then Some (a, lim) else Option.bind (Array_Push a []) (\<lambda>array. Some (array, lim - 1))
           else Option.bind (String_Substring s (int i) (int k - int i)) (\<lambda>piece.
                Option.bind (Array_Push a piece) (\<lambda>array. Some (array, lim - 1)))) =
         Some (a', if i = k \<and> re then lim else lim - 1) \<and>
       array_holds (xs @ kept re [take (k - i) (drop i s)]) a'"
proof (cases "i = k")
  case True
  then show ?thesis using Array_Push_ok [OF assms(1,2), of "[]"] assms(1) by (auto simp: kept_def)
next
  case False
  have "String_Substring s (int i) (int k - int i) = Some (take (k - i) (drop i s))"
    using assms(3-5) by (intro Substring_slice) simp_all
  moreover obtain a' where "Array_Push a (take (k - i) (drop i s)) = Some a'" "array_holds (xs @ [take (k - i) (drop i s)]) a'"
    using Array_Push_ok [OF assms(1,2)] by blast
  ultimately show ?thesis using False assms(3,4) by (auto simp: kept_def)
qed

lemma split_loop_ok:
  assumes "p \<noteq> []" and len: "int (length s) < 2 ^ 45" and "i \<le> length s" and "array_holds xs a"
    and "int (length xs + (length s - i)) < 2 ^ 46" and "counts_as re limit (length s - i) lim"
  shows "\<exists>a' limit' e zs. split_loop s p re limit a (int i) = Some (a', limit', int e) \<and> e \<le> length s \<and>
    array_holds (xs @ kept re zs) a' \<and> zs @ [drop e s] = pieces p lim (drop i s)"
  using assms(3-)
proof (induction "length s - i" arbitrary: i xs a limit lim rule: less_induct)
  case less
  have inactive: "limit \<le> 0 \<longleftrightarrow> \<not> active lim"
    using less.prems(4) by (auto simp: counts_as_def active_def split: if_splits)
  show ?case
  proof (cases "active lim")
    case False
    then show ?thesis
      using less.prems inactive unfolding split_loop.simps [of s p re limit]
      by (intro exI [of _ a] exI [of _ limit] exI [of _ i] exI [of _ "[]"]) (simp add: pieces_inactive kept_def)
  next
    case True
    show ?thesis
    proof (cases rule: IndexOf_cases [OF assms(1), of s i, case_names none found])
      case none
      then show ?thesis
        using less.prems True inactive unfolding split_loop.simps [of s p re limit]
        by (intro exI [of _ a] exI [of _ limit] exI [of _ i] exI [of _ "[]"]) (simp add: pieces_none kept_def)
    next
      case (found k)
      let ?lim = "map_option (\<lambda>l. l - 1) lim" and ?k = "k + length p" and ?t = "take (k - i) (drop i s)"
      let ?limit = "if i = k \<and> re then limit else limit - 1"
      have kl: "?k \<le> length s" using found(3) by (simp add: occurs_at_def)
      have p: "0 < length p" using assms(1) by simp
      have g: "pieces p lim (drop i s) = ?t # pieces p ?lim (drop ?k s)"
        using pieces_skip [OF found(2) _ found(4), of lim] pieces_occurs [OF found(3) assms(1) True] kl
        by (simp add: prefix_first_def)
      obtain a1 where 1: "(if int k = int i
           then if re then Some (a, limit) else Option.bind (Array_Push a []) (\<lambda>array. Some (array, limit - 1))
           else Option.bind (String_Substring s (int i) (int k - int i)) (\<lambda>piece.
                Option.bind (Array_Push a piece) (\<lambda>array. Some (array, limit - 1)))) = Some (a1, ?limit)"
        "array_holds (xs @ kept re [?t]) a1"
        using split_step [OF less.prems(2) _ found(2) _ len, of re limit] less.prems(3) kl by auto
      have "length (kept re [?t]) \<le> 1" by (simp add: kept_def)
      then have "length (xs @ kept re [?t]) + (length s - ?k) \<le> length xs + (length s - i)"
        using kl found(2) p unfolding length_append by linarith
      then have "int (length (xs @ kept re [?t]) + (length s - ?k)) < 2 ^ 46" using less.prems(3) by linarith
      moreover have "length s - ?k < length s - i" using kl found(2) p by linarith
      moreover have "counts_as re ?limit (length s - ?k) ?lim"
        using less.prems(4) kl found(2) p by (auto simp: counts_as_def split: if_splits)
      ultimately obtain a2 limit2 e zs where 2: "split_loop s p re ?limit a1 (int ?k) = Some (a2, limit2, int e)" "e \<le> length s"
        "array_holds ((xs @ kept re [?t]) @ kept re zs) a2" "zs @ [drop e s] = pieces p ?lim (drop ?k s)"
        using less.hyps [OF _ kl 1(2)] by blast
      have "split_loop s p re limit a (int i) = Some (a2, limit2, int e)"
        using found(1) 1(1) 2(1) True inactive unfolding split_loop.simps [of s p re limit a] by (simp add: Let_def)
      moreover have "array_holds (xs @ kept re (?t # zs)) a2" using 2(3) kept_append [of re "[?t]" zs] by simp
      ultimately show ?thesis using 2(2,4) g by (metis append_Cons)
    qed
  qed
qed


text \<open>The last piece is stored only when it is not empty, unless the string itself is empty.\<close>

definition split_result :: "bytes \<Rightarrow> bytes list \<Rightarrow> bytes list" where
  "split_result s ps = (if s \<noteq> [] \<and> last ps = [] then butlast ps else ps)"

lemma split_options_ok:
  assumes "p \<noteq> []" and "s \<noteq> []" and "int (length s) < 2 ^ 45"
    and "counts_as re (if limit < 0 then int_max else limit) (length s) lim"
  shows "\<exists>a. String_SplitWithOptions s (Some p) limit re = Some a \<and>
    array_holds (kept re (split_result s (pieces p lim s))) a"
proof -
  let ?limit = "if limit < 0 then int_max else limit"
  obtain a :: "bytes Array" where a: "Array_Init 8 64 False = Some a" "array_holds [] a" using Array_Init_ok [of 64 8 False] by auto
  obtain a1 limit1 e zs where 1: "split_loop s p re ?limit a 0 = Some (a1, limit1, int e)" "e \<le> length s"
    "array_holds (kept re zs) a1" "zs @ [drop e s] = pieces p lim s"
    using split_loop_ok [OF assms(1,3) _ a(2), of 0 re ?limit lim] assms(3,4) by auto
  have run: "String_SplitWithOptions s (Some p) limit re =
      (if e < length s
       then Option.bind (if e > 0 then String_Substring s (int e) (int (length s) - int e) else Some s) (Array_Push a1)
       else Some a1)"
    using a(1) 1(1) assms(1,2) by (cases p) (simp_all add: String_SplitWithOptions_def Let_def)
  have last: "last (pieces p lim s) = drop e s" "butlast (pieces p lim s) = zs" by (simp_all flip: 1(4))
  show ?thesis
  proof (cases "e < length s")
    case True
    have l: "int (length (kept re zs)) < 2 ^ 46"
    proof -
      have "length zs \<le> length s" using length_pieces [OF assms(1), of lim s] by (simp flip: 1(4))
      then have "length (kept re zs) \<le> length s" by (simp add: kept_def le_trans [OF length_filter_le])
      then show ?thesis using assms(3) by simp
    qed
    have "(if e > 0 then String_Substring s (int e) (int (length s) - int e) else Some s) = Some (drop e s)"
      using Substring_slice [of e "length s" s] 1(2) assms(3) by simp
    moreover obtain b where "Array_Push a1 (drop e s) = Some b" "array_holds (kept re zs @ [drop e s]) b"
      using Array_Push_ok [OF 1(3) l] by blast
    moreover have "split_result s (pieces p lim s) = zs @ [drop e s]"
      using True last(1) by (simp add: split_result_def 1(4))
    ultimately show ?thesis using run True by (simp add: kept_def)
  next
    case False
    then have "split_result s (pieces p lim s) = zs" using last assms(2) by (simp add: split_result_def)
    then show ?thesis using run False 1(3) by simp
  qed
qed


lemma split_chars_ok:
  assumes "array_holds xs a" and "i \<le> length s" and "int (length xs + (length s - i)) < 2 ^ 46" and "int (length s) < 2 ^ 45"
  shows "\<exists>a' limit' e. split_chars s limit a (int i) = Some (a', limit', int e) \<and> e = min (length s) (i + nat limit) \<and>
    array_holds (xs @ map (\<lambda>c. [c]) (take (e - i) (drop i s))) a'"
  using assms
proof (induction "nat limit" arbitrary: i xs a limit)
  case 0
  then show ?case by (subst split_chars.simps) simp
next
  case (Suc n)
  show ?case
  proof (cases "i < length s")
    case True
    have "String_Substring s (int i) (int (Suc i) - int i) = Some [s ! i]"
      using Substring_slice [of i "Suc i" s] True Suc.prems(4) by (simp add: take_Suc_conv_app_nth hd_drop_conv_nth)
    moreover obtain b where b: "Array_Push a [s ! i] = Some b" "array_holds (xs @ [[s ! i]]) b"
      using Array_Push_ok [OF Suc.prems(1)] Suc.prems(3) by auto
    moreover have n: "n = nat (limit - 1)" "0 < limit" using Suc.hyps(2) by linarith+
    moreover obtain a' limit' e where e: "split_chars s (limit - 1) b (int (Suc i)) = Some (a', limit', int e)"
      "e = min (length s) (Suc i + nat (limit - 1))"
      "array_holds ((xs @ [[s ! i]]) @ map (\<lambda>c. [c]) (take (e - Suc i) (drop (Suc i) s))) a'"
      using Suc.hyps(1) [OF n(1) b(2), of "Suc i"] True Suc.prems(3,4) by auto
    moreover have "take (e - i) (drop i s) = s ! i # take (e - Suc i) (drop (Suc i) s)"
      using True e(2) n by (simp add: Cons_nth_drop_Suc [symmetric] take_Cons' del: Cons_nth_drop_Suc)
    ultimately show ?thesis using True by (subst split_chars.simps) (auto simp: add.commute)
  next
    case False
    then show ?thesis using Suc.prems by (subst split_chars.simps) simp
  qed
qed

lemma split_chars_all:
  assumes "int (length s) < 2 ^ 45" and "s \<noteq> []"
  shows "\<exists>a. String_SplitWithOptions s (Some []) (-1) re = Some a \<and> array_holds (map (\<lambda>c. [c]) s) a"
proof -
  obtain a :: "bytes Array" where a: "Array_Init 8 64 False = Some a" "array_holds [] a" using Array_Init_ok [of 64 8 False] by auto
  have m: "min (length s) (nat int_max) = length s" using assms(1) by (simp add: int_max_def)
  obtain a' limit' where "split_chars s int_max a 0 = Some (a', limit', int (length s))" "array_holds (map (\<lambda>c. [c]) s) a'"
    using split_chars_ok [OF a(2), of 0 s int_max] assms(1) m by auto
  then show ?thesis using a(1) assms(2) by (simp add: String_SplitWithOptions_def)
qed

text \<open>Counting.\<close>

lemma count_loop_ok:
  assumes "p \<noteq> []" and "i \<le> length s"
  shows "count_loop s p n (int i) = Some (n + int (length (pieces p None (drop i s))) - 1)"
  using assms(2)
proof (induction "length s - i" arbitrary: i n rule: less_induct)
  case less
  show ?case
  proof (cases rule: IndexOf_cases [OF assms(1), of s i, case_names none found])
    case none
    then show ?thesis using less.prems by (subst count_loop.simps) (simp add: pieces_none)
  next
    case (found k)
    let ?k = "k + length p"
    have kl: "?k \<le> length s" using found(3) by (simp add: occurs_at_def)
    have d: "length s - ?k < length s - i" using kl found(2) assms(1) by (cases p) auto
    have "pieces p None (drop i s) = take (k - i) (drop i s) # pieces p None (drop ?k s)"
      using pieces_skip [OF found(2) _ found(4), of None] pieces_occurs [OF found(3) assms(1), of None] kl
      by (simp add: prefix_first_def active_def)
    then show ?thesis
      using less.hyps [OF d kl, of "n + 1"] found(1) by (subst count_loop.simps) simp
  qed
qed


section \<open>What splitting and counting compute\<close>

definition split_limit :: "int \<Rightarrow> int option" where
  "split_limit limit = (if limit < 0 then None else Some limit)"

lemma kept_split_result: "ps \<noteq> [] \<Longrightarrow> kept True (split_result s ps) = filter (\<lambda>x. x \<noteq> []) ps"
  by (cases ps rule: rev_cases) (auto simp: kept_def split_result_def)

lemma split_plain:
  assumes "p \<noteq> []" and "s \<noteq> []" and "int (length s) < 2 ^ 45"
  shows "\<exists>a. String_SplitWithOptions s (Some p) limit False = Some a \<and>
    array_holds (split_result s (pieces p (split_limit limit) s)) a"
proof -
  have "pieces p (Some (if limit < 0 then int_max else limit)) s = pieces p (split_limit limit) s"
    using assms by (simp add: split_limit_def pieces_unlimited int_max_def)
  moreover have "kept False ps = ps" for ps by (simp add: kept_def)
  ultimately show ?thesis
    using split_options_ok [OF assms, of False limit "Some (if limit < 0 then int_max else limit)"] by (simp add: counts_as_def)
qed

lemma split_nonempty:
  assumes "p \<noteq> []" and "s \<noteq> []" and "int (length s) < 2 ^ 45"
  shows "\<exists>a. String_SplitWithOptions s (Some p) (-1) True = Some a \<and>
    array_holds (filter (\<lambda>x. x \<noteq> []) (pieces p None s)) a"
  using split_options_ok [OF assms, of True "-1" None] assms(3) by (simp add: counts_as_def int_max_def kept_split_result)

lemma split_empty_string:
  "\<exists>a. String_SplitWithOptions [] (Some (c # cs)) (-1) re = Some a \<and> array_holds [[]] a"
proof -
  obtain a :: "bytes Array" where a: "Array_Init 8 64 False = Some a" "array_holds [] a" using Array_Init_ok [of 64 8 False] by auto
  have "String_IndexOf [] (c # cs) 0 = Some (-1)"
    by (cases rule: IndexOf_cases [of "c # cs" "[]" 0, case_names p none found]) (auto simp: occurs_at_def)
  then have "split_loop [] (c # cs) re int_max a 0 = Some (a, int_max, 0)" by (simp add: split_loop.simps [of "[]"])
  then show ?thesis using a Array_Push_ok [OF a(2), of "[]"] by (simp add: String_SplitWithOptions_def int_max_def)
qed

text \<open>
  C17: Splitting a string yields the pieces between the leftmost occurrences of the pattern that do not
  overlap. A limit of n makes n cuts (so up to n + 1 pieces), a negative one all of them; a last piece
  that is empty is left out; with the option to remove empty entries exactly the pieces that are not
  empty remain, except that splitting an empty string still gives one empty piece. An empty pattern cuts
  between all bytes. The array that collects the pieces grows as needed and stays within its buffer.
\<close>

theorem String_Split_correct:
  assumes "int (length s) < 2 ^ 45" and "s \<noteq> []" and "p \<noteq> []"
  shows "(\<exists>a. String_SplitWithOptions s (Some p) limit False = Some a \<and>
            array_holds (split_result s (pieces p (split_limit limit) s)) a) \<and>
    (\<exists>a. String_SplitWithOptions s (Some p) (-1) True = Some a \<and>
            array_holds (filter (\<lambda>x. x \<noteq> []) (pieces p None s)) a) \<and>
    (\<exists>a. String_Split s (Some []) = Some a \<and> array_holds (map (\<lambda>c. [c]) s) a) \<and>
    (\<exists>a. String_SplitWithOptions [] (Some p) (-1) removeEmpty = Some a \<and> array_holds [[]] a)"
proof (intro conjI)
  show "\<exists>a. String_Split s (Some []) = Some a \<and> array_holds (map (\<lambda>c. [c]) s) a"
    unfolding String_Split_def by (rule split_chars_all [OF assms(1,2)])
  show "\<exists>a. String_SplitWithOptions [] (Some p) (-1) removeEmpty = Some a \<and> array_holds [[]] a"
    using split_empty_string assms(3) by (cases p) auto
qed (rule split_plain split_nonempty, use assms in simp_all)+

theorem String_Split_correct_witness:
  "\<exists>a. String_SplitWithOptions [49, 44, 50, 44, 51] (Some [44]) 1 False = Some a \<and>
     array_items a = Some [[49], [50, 44, 51]] \<and> a_length a = 2"
proof -
  have r: "split_result [49, 44, 50, 44, 51] (pieces [44] (split_limit 1) [49, 44, 50, 44, 51]) = [[49], [50, 44, 51]]"
    by code_simp
  obtain a where a: "String_SplitWithOptions [49, 44, 50, 44, 51] (Some [44]) 1 False = Some a"
    "array_holds [[49], [50, 44, 51]] a"
    using String_Split_correct [of "[49, 44, 50, 44, 51]" "[44]" 1] unfolding r by auto
  then show ?thesis using array_holds_items [OF a(2)] by (simp add: array_holds_def)
qed

text \<open>
  C38: Counting a pattern and looking around it: the count is the number of cuts splitting would make;
  when the pattern occurs at or after the start, the part before its first occurrence there, the pattern
  and the part after it make up the string; when it does not occur both parts are empty (also the part
  before, for which the comment in the source promises the whole string).
\<close>

theorem String_around_correct:
  assumes "p \<noteq> []" and "int (length s) < 2 ^ 63"
  shows "String_CountOf (Some s) (Some p) = Some (int (length (pieces p None s)) - 1) \<and>
    (if \<exists>k \<ge> i. occurs_at p s k
     then \<exists>u v. String_Before s (Some p) (int i) = Some u \<and> String_After s (Some p) (int i) = Some v \<and>
       u @ p @ v = s \<and> i \<le> length u \<and> (\<forall>j. i \<le> j \<and> j < length u \<longrightarrow> \<not> occurs_at p s j)
     else String_Before s (Some p) (int i) = Some [] \<and> String_After s (Some p) (int i) = Some [])"
proof (cases rule: IndexOf_cases [OF assms(1), of s i, case_names none found])
  have c: "String_CountOf (Some s) (Some p) = Some (int (length (pieces p None s)) - 1)"
    using count_loop_ok [OF assms(1), of 0 s 0] assms(1) by (auto simp: String_CountOf_def String_IsNullOrEmpty_def)
  {
    case none
    then show ?thesis using c assms(1) by (auto simp: String_Before_def String_After_def String_IsNullOrEmpty_def)
  next
    case (found k)
    have o: "k + length p \<le> length s" "take (length p) (drop k s) = p" using found(3) by (simp_all add: occurs_at_def)
    have "String_Before s (Some p) (int i) = Some (take k s)"
      using Substring_slice [of 0 k s] o(1) assms found(1) by (simp add: String_Before_def String_IsNullOrEmpty_def)
    moreover have "String_After s (Some p) (int i) = Some (drop (k + length p) s)"
      using SubstringAt_drop [of s "k + length p"] assms found(1) by (simp add: String_After_def String_IsNullOrEmpty_def)
    moreover have "take k s @ p @ drop (k + length p) s = s"
      using o by (metis add.commute append_take_drop_id drop_drop)
    moreover have "length (take k s) = k" using o(1) by simp
    ultimately show ?thesis using c found(2-4) by (metis (no_types, lifting))
  }
qed

theorem String_around_correct_witness:
  "String_CountOf (Some [7, 7, 7]) (Some [7, 7]) = Some 1 \<and> String_Before [1, 2] (Some [3]) 0 = Some []"
proof -
  have "pieces [7, 7] None [7, 7, 7] = [[], [7]]" by code_simp
  moreover have "\<not> occurs_at [3] [1, 2] k" for k by (cases k; cases "k - 1") (auto simp: occurs_at_def)
  ultimately show ?thesis
    using String_around_correct [of "[7, 7]" "[7, 7, 7]" 0] String_around_correct [of "[3]" "[1, 2]" 0] by simp
qed


end
