(* ===== verification/Utf8.thy ===== *)
theory Utf8
  imports StringBuilders
begin

text \<open>
  UTF-8: reading a code point from a string (\<^verbatim>\<open>smilelib/src/string/string_unicode.c\<close>) undoes
  \<^verbatim>\<open>StringBuilder_AppendUnicode\<close>.
\<close>

section \<open>Definitions\<close>

text \<open>
  Both functions return the code point, or -1 for an illegal sequence, with the updated index. They
  differ in how they report that a three-byte sequence is cut off.
\<close>

definition String_ExtractUnicodeCharacter :: "bytes \<Rightarrow> int \<Rightarrow> (int \<times> int) option" where
  "String_ExtractUnicodeCharacter str index =
     do { c1 \<leftarrow> text_at str index;
          let index = index + 1;
          if c1 < 0x80 then Some (uint c1, index)
          else if c1 < 0xC2 then Some (-1, index)
          else if c1 < 0xE0 then
            if index \<ge> int (length str) then Some (-1, index)
            else do { c2 \<leftarrow> text_at str index;
                      let index = index + 1;
                      if c2 AND 0xC0 \<noteq> 0x80 then Some (-1, index)
                      else Some (push_bit 6 (uint c1) + uint c2 - 0x3080, index) }
          else if c1 < 0xF0 then
            if index \<ge> int (length str) - 1 then Some (0xFFFD, int (length str))
            else do { c2 \<leftarrow> text_at str index;
                      c3 \<leftarrow> text_at str (index + 1);
                      let index = index + 2;
                      if c2 AND 0xC0 \<noteq> 0x80 then Some (-1, index)
                      else if c3 AND 0xC0 \<noteq> 0x80 then Some (-1, index)
                      else if c1 = 0xE0 \<and> c2 < 0xA0 then Some (-1, index)
                      else Some (push_bit 12 (uint c1) + push_bit 6 (uint c2) + uint c3 - 0xE2080, index) }
          else if c1 < 0xF5 then
            if index \<ge> int (length str) - 2 then Some (-1, int (length str))
            else do { c2 \<leftarrow> text_at str index;
                      c3 \<leftarrow> text_at str (index + 1);
                      c4 \<leftarrow> text_at str (index + 2);
                      let index = index + 3;
                      if c2 AND 0xC0 \<noteq> 0x80 then Some (-1, index)
                      else if c3 AND 0xC0 \<noteq> 0x80 then Some (-1, index)
                      else if c4 AND 0xC0 \<noteq> 0x80 then Some (-1, index)
                      else if c1 = 0xF0 \<and> c2 < 0x90 then Some (-1, index)
                      else if c1 = 0xF4 \<and> c2 \<ge> 0x90 then Some (-1, index)
                      else Some (push_bit 18 (uint c1) + push_bit 12 (uint c2) + push_bit 6 (uint c3) +
                             uint c4 - 0x3C82080, index) }
          else Some (-1, index) }"

definition String_ExtractUnicodeCharacterInternal :: "bytes \<Rightarrow> int \<Rightarrow> int \<Rightarrow> (int \<times> int) option" where
  "String_ExtractUnicodeCharacterInternal str start end =
     do { c1 \<leftarrow> text_at str start;
          let text = start + 1;
          if c1 < 0x80 then Some (uint c1, text)
          else if c1 < 0xC2 then Some (-1, text)
          else if c1 < 0xE0 then
            if text \<ge> end then Some (-1, text)
            else do { c2 \<leftarrow> text_at str text;
                      let text = text + 1;
                      if c2 AND 0xC0 \<noteq> 0x80 then Some (-1, text)
                      else Some (push_bit 6 (uint c1) + uint c2 - 0x3080, text) }
          else if c1 < 0xF0 then
            if text \<ge> end - 1 then Some (-1, end)
            else do { c2 \<leftarrow> text_at str text;
                      c3 \<leftarrow> text_at str (text + 1);
                      let text = text + 2;
                      if c2 AND 0xC0 \<noteq> 0x80 then Some (-1, text)
                      else if c3 AND 0xC0 \<noteq> 0x80 then Some (-1, text)
                      else if c1 = 0xE0 \<and> c2 < 0xA0 then Some (-1, text)
                      else Some (push_bit 12 (uint c1) + push_bit 6 (uint c2) + uint c3 - 0xE2080, text) }
          else if c1 < 0xF5 then
            if text \<ge> end - 2 then Some (-1, end)
            else do { c2 \<leftarrow> text_at str text;
                      c3 \<leftarrow> text_at str (text + 1);
                      c4 \<leftarrow> text_at str (text + 2);
                      let text = text + 3;
                      if c2 AND 0xC0 \<noteq> 0x80 then Some (-1, text)
                      else if c3 AND 0xC0 \<noteq> 0x80 then Some (-1, text)
                      else if c4 AND 0xC0 \<noteq> 0x80 then Some (-1, text)
                      else if c1 = 0xF0 \<and> c2 < 0x90 then Some (-1, text)
                      else if c1 = 0xF4 \<and> c2 \<ge> 0x90 then Some (-1, text)
                      else Some (push_bit 18 (uint c1) + push_bit 12 (uint c2) + push_bit 6 (uint c3) +
                             uint c4 - 0x3C82080, text) }
          else Some (-1, text) }"

section \<open>The bytes of a code point\<close>

abbreviation tail_byte :: "32 word \<Rightarrow> byte" where
  "tail_byte x \<equiv> ucast ((x AND 0x3F) OR 0x80)"

definition utf8 :: "32 word \<Rightarrow> bytes" where
  "utf8 code =
     (if code < 0x80 then [ucast code]
      else if code < 0x800 then [ucast (drop_bit 6 code OR 0xC0), tail_byte code]
      else if code < 0x10000 then
        [ucast (drop_bit 12 code OR 0xE0), tail_byte (drop_bit 6 code), tail_byte code]
      else [ucast (drop_bit 18 code OR 0xF0), tail_byte (drop_bit 12 code), tail_byte (drop_bit 6 code), tail_byte code])"

lemma disjoint_bits:
  fixes x c :: "'a::len word"
  assumes "unat x < 2 ^ k" and "take_bit k c = 0"
  shows "x AND c = 0"
proof (rule bit_word_eqI)
  fix n assume "n < LENGTH('a)"
  have "\<not> bit c n" if "n < k" using that assms(2) bit_take_bit_iff [of k c n] by simp
  moreover have "\<not> bit x n" if "k \<le> n" using bit_above_length [OF assms(1) that] .
  ultimately show "bit (x AND c) n \<longleftrightarrow> bit 0 n" by (cases "n < k") (auto simp: bit_and_iff)
qed

lemma or_is_plus:
  fixes x c :: "'a::len word"
  assumes "unat x < 2 ^ k" and "take_bit k c = 0"
  shows "x OR c = x + c"
  using disjoint_bits [OF assms] by (rule disjunctive_add_eq_or [symmetric])

lemma unat_low6: "unat ((x :: 32 word) AND 0x3F) = unat x mod 64"
proof -
  have "x AND 0x3F = take_bit 6 x" by (simp add: take_bit_eq_mask mask_eq_exp_minus_1)
  then show ?thesis by (simp add: unsigned_take_bit_eq) (simp add: take_bit_eq_mod)
qed

lemma lead_byte:
  fixes x c :: "32 word"
  assumes "unat x < 2 ^ k" and "take_bit k c = 0" and "unat x + unat c < 256"
  shows "unat (ucast (x OR c) :: byte) = unat x + unat c"
  using assms(3) unfolding or_is_plus [OF assms(1,2)]
  by (simp add: unsigned_ucast_eq take_bit_eq_mod unat_word_ariths)

lemma tail_byte_facts:
  "unat (tail_byte x) = 0x80 + unat x mod 64" "tail_byte x AND 0xC0 = 0x80"
proof -
  have m: "unat (x AND 0x3F) < 2 ^ 6" by (simp add: unat_low6)
  then show u: "unat (tail_byte x) = 0x80 + unat x mod 64"
    using lead_byte [where x = "x AND 0x3F" and k = 6 and c = "0x80"] by (simp add: unat_low6)
  let ?z = "of_nat (unat x mod 64) :: byte"
  have z: "unat ?z = unat x mod 64" by (simp add: unat_of_nat)
  have "tail_byte x = ?z + 0x80"
    unfolding word_unat_eq_iff u by (simp add: z unat_word_ariths)
  also have "\<dots> = ?z OR 0x80" by (rule or_is_plus [where k = 6, symmetric]) (simp_all add: z)
  finally have "tail_byte x AND 0xC0 = (?z AND 0xC0) OR 0x80" by (simp add: word_ao_dist)
  moreover have "?z AND 0xC0 = 0" by (rule disjoint_bits [where k = 6]) (simp_all add: z)
  ultimately show "tail_byte x AND 0xC0 = 0x80" by simp
qed

lemma uint_tail: "uint (tail_byte x) = 0x80 + uint x mod 64"
  using arg_cong [OF tail_byte_facts(1) [of x], of int] by (simp add: zmod_int)

lemma uint_drop: "uint (drop_bit k (w :: 32 word)) = uint w div 2 ^ k"
  using uint_bounded [of w] by (simp add: unsigned_drop_bit_eq) (simp add: drop_bit_eq_div take_bit_int_eq_self)

lemma uint_lead:
  fixes code c :: "32 word"
  assumes "uint code div 2 ^ k < 2 ^ j" and "take_bit j c = 0" and "uint code div 2 ^ k + uint c < 256"
  shows "uint (ucast (drop_bit k code OR c) :: byte) = uint code div 2 ^ k + uint c"
proof -
  have i: "int (unat (drop_bit k code)) = uint code div 2 ^ k" by (simp add: uint_drop)
  then have "unat (drop_bit k code) < 2 ^ j" using assms(1) by (metis of_nat_less_iff of_nat_numeral of_nat_power)
  moreover have "int (unat (drop_bit k code) + unat c) < 256" using assms(3) i by simp
  then have "unat (drop_bit k code) + unat c < 256" by linarith
  ultimately have "unat (ucast (drop_bit k code OR c) :: byte) = unat (drop_bit k code) + unat c"
    using assms(2) by (intro lead_byte)
  then have "int (unat (ucast (drop_bit k code OR c) :: byte)) = int (unat (drop_bit k code)) + int (unat c)" by simp
  then show ?thesis using i by simp
qed

section \<open>Appending\<close>

definition sb_room :: "bytes \<Rightarrow> nat \<Rightarrow> StringBuilder \<Rightarrow> bool" where
  "sb_room xs k sb \<longleftrightarrow> sb_holds xs sb \<and> length xs + k < length (sb_text sb)"

lemma put_byte_ok: "sb_room xs (Suc k) sb \<Longrightarrow> \<exists>sb'. put_byte b sb = Some sb' \<and> sb_room (xs @ [b]) k sb'"
proof -
  assume r: "sb_room xs (Suc k) sb"
  have "(sb_text sb)[length xs := Some b] =
      take (length xs) (sb_text sb) @ map Some [b] @ drop (length xs + length [b]) (sb_text sb)"
    using r by (simp add: upd_conv_take_nth_drop sb_room_def)
  then show ?thesis
    using r write_ok(1) [of xs sb "[b]"]
    by (auto simp: put_byte_def sb_room_def sb_holds_def arr_set_def add.commute)
qed

lemma make_room_ok:
  assumes "sb_holds xs sb" and "0 < k" and "int (length xs) + int k \<le> text_limit"
  shows "\<exists>sb'. make_room (int k) sb = Some sb' \<and> sb_room xs k sb'"
  using assms Builder_Grow_ok [OF assms(1), of "int k"] by (auto simp: make_room_def sb_room_def sb_holds_def)

lemma put_bytes_ok:
  "sb_room xs 1 sb \<Longrightarrow> \<exists>sb'. put_byte b1 sb = Some sb' \<and> sb_holds (xs @ [b1]) sb'"
  "sb_room xs 2 sb \<Longrightarrow> \<exists>sb'. Option.bind (put_byte b1 sb) (put_byte b2) = Some sb' \<and> sb_holds (xs @ [b1, b2]) sb'"
  "sb_room xs 3 sb \<Longrightarrow> \<exists>sb'. Option.bind (put_byte b1 sb) (\<lambda>sb. Option.bind (put_byte b2 sb) (put_byte b3)) = Some sb' \<and>
     sb_holds (xs @ [b1, b2, b3]) sb'"
  "sb_room xs 4 sb \<Longrightarrow> \<exists>sb'. Option.bind (put_byte b1 sb) (\<lambda>sb. Option.bind (put_byte b2 sb)
     (\<lambda>sb. Option.bind (put_byte b3 sb) (put_byte b4))) = Some sb' \<and> sb_holds (xs @ [b1, b2, b3, b4]) sb'"
proof -
  have 1: "\<exists>sb'. put_byte b1 sb = Some sb' \<and> sb_holds (xs @ [b1]) sb'" if "sb_room xs 1 sb" for xs sb b1
    using put_byte_ok [of xs 0 sb b1] that by (auto simp: sb_room_def)
  have 2: "\<exists>sb'. Option.bind (put_byte b1 sb) (put_byte b2) = Some sb' \<and> sb_holds (xs @ [b1, b2]) sb'"
    if "sb_room xs 2 sb" for xs sb b1 b2
    using put_byte_ok [of xs 1 sb b1] that 1 [of "xs @ [b1]"] by (fastforce simp: numeral_2_eq_2)
  have 3: "\<exists>sb'. Option.bind (put_byte b1 sb) (\<lambda>sb. Option.bind (put_byte b2 sb) (put_byte b3)) = Some sb' \<and>
      sb_holds (xs @ [b1, b2, b3]) sb'" if "sb_room xs 3 sb" for xs sb b1 b2 b3
    using put_byte_ok [of xs 2 sb b1] that 2 [of "xs @ [b1]" _ b2 b3] by (fastforce simp: numeral_3_eq_3 numeral_2_eq_2)
  have 4: "\<exists>sb'. Option.bind (put_byte b1 sb) (\<lambda>sb. Option.bind (put_byte b2 sb)
      (\<lambda>sb. Option.bind (put_byte b3 sb) (put_byte b4))) = Some sb' \<and> sb_holds (xs @ [b1, b2, b3, b4]) sb'"
    if "sb_room xs 4 sb" for xs sb b1 b2 b3 b4
  proof -
    have "sb_room xs (Suc 3) sb" using that by simp
    then show ?thesis using put_byte_ok [of xs 3 sb b1] 3 [of "xs @ [b1]" _ b2 b3 b4] by fastforce
  qed
  show "sb_room xs 1 sb \<Longrightarrow> \<exists>sb'. put_byte b1 sb = Some sb' \<and> sb_holds (xs @ [b1]) sb'" by (rule 1)
  show "sb_room xs 2 sb \<Longrightarrow> \<exists>sb'. Option.bind (put_byte b1 sb) (put_byte b2) = Some sb' \<and> sb_holds (xs @ [b1, b2]) sb'" by (rule 2)
  show "sb_room xs 3 sb \<Longrightarrow> \<exists>sb'. Option.bind (put_byte b1 sb) (\<lambda>sb. Option.bind (put_byte b2 sb) (put_byte b3)) = Some sb' \<and>
     sb_holds (xs @ [b1, b2, b3]) sb'" by (rule 3)
  show "sb_room xs 4 sb \<Longrightarrow> \<exists>sb'. Option.bind (put_byte b1 sb) (\<lambda>sb. Option.bind (put_byte b2 sb)
     (\<lambda>sb. Option.bind (put_byte b3 sb) (put_byte b4))) = Some sb' \<and> sb_holds (xs @ [b1, b2, b3, b4]) sb'" by (rule 4)
qed

lemma AppendUnicode_ok:
  assumes h: "sb_holds xs sb" and lim: "int (length xs) + 4 \<le> text_limit"
  shows "\<exists>sb'. StringBuilder_AppendUnicode sb code = Some sb' \<and>
    sb_holds (xs @ utf8 (if code < 0x110000 then code else 0xFFFD)) sb'"
proof -
  have room: "\<exists>sb'. make_room (int k) sb = Some sb' \<and> sb_room xs k sb'" if "0 < k" "k \<le> 4" for k
    using make_room_ok [OF h that(1)] that(2) lim by simp
  obtain s1 s2 s3 s4 where "make_room 1 sb = Some s1" "sb_room xs 1 s1" "make_room 2 sb = Some s2" "sb_room xs 2 s2"
    "make_room 3 sb = Some s3" "sb_room xs 3 s3" "make_room 4 sb = Some s4" "sb_room xs 4 s4"
    using room [of 1] room [of 2] room [of 3] room [of 4] by auto
  note rooms = this
  have "\<not> code < b" if "\<not> code < 0x110000" "b \<le> 0x110000" for b
    using that by (meson less_le_trans)
  then have "\<not> code < 0x80 \<and> \<not> code < 0x800 \<and> \<not> code < 0x10000" if "\<not> code < 0x110000"
    using that by simp
  then show ?thesis
    using rooms unfolding StringBuilder_AppendUnicode_def utf8_def Let_def
    using put_bytes_ok(1) [of xs s1] put_bytes_ok(2) [of xs s2] put_bytes_ok(3) [of xs s3] put_bytes_ok(4) [of xs s4]
    by simp
qed

section \<open>Reading back\<close>

lemma text_at_middle: "j < length bs \<Longrightarrow> text_at (xs @ bs @ ys) (int (length xs) + int j) = Some (bs ! j)"
  using text_at_nth [of "length xs + j" "xs @ bs @ ys"] by (simp add: nth_append)

lemma text_at_bytes:
  assumes "s = xs @ bs @ ys" and "i = int (length xs)"
  shows "0 < length bs \<Longrightarrow> text_at s i = Some (bs ! 0)"
    and "1 < length bs \<Longrightarrow> text_at s (i + 1) = Some (bs ! 1)"
    and "2 < length bs \<Longrightarrow> text_at s (i + 2) = Some (bs ! 2)"
    and "3 < length bs \<Longrightarrow> text_at s (i + 3) = Some (bs ! 3)"
  using text_at_middle [of 0 bs xs ys] text_at_middle [of 1 bs xs ys] text_at_middle [of 2 bs xs ys]
    text_at_middle [of 3 bs xs ys] assms by simp_all

lemma code_below: "code < c \<Longrightarrow> uint code < uint c" "\<not> code < c \<Longrightarrow> uint c \<le> uint code" for c :: "32 word"
  by (simp_all add: word_less_def)

lemma Extract_one:
  assumes "code < 0x80" and "s = xs @ utf8 code @ ys" and "i = int (length xs)"
  shows "String_ExtractUnicodeCharacter s i = Some (uint code, i + 1)"
    and "String_ExtractUnicodeCharacterInternal s i e = Some (uint code, i + 1)"
proof -
  have u: "uint (ucast code :: byte) = uint code"
    using code_below(1) [OF assms(1)] by (simp add: unsigned_ucast_eq take_bit_int_eq_self)
  then have "(ucast code :: byte) < 0x80" using code_below(1) [OF assms(1)] by (simp add: word_less_def)
  moreover have "text_at s i = Some (ucast code)" using text_at_bytes(1) [OF assms(2,3)] assms(1) by (simp add: utf8_def)
  ultimately show "String_ExtractUnicodeCharacter s i = Some (uint code, i + 1)"
    "String_ExtractUnicodeCharacterInternal s i e = Some (uint code, i + 1)"
    using u by (simp_all add: String_ExtractUnicodeCharacter_def String_ExtractUnicodeCharacterInternal_def Let_def)
qed

lemma Extract_two:
  assumes c: "\<not> code < 0x80" "code < 0x800" and s: "s = xs @ utf8 code @ ys" "i = int (length xs)"
    and e: "e = int (length xs + length (utf8 code @ zs))"
  shows "String_ExtractUnicodeCharacter s i = Some (uint code, i + 2)"
    and "String_ExtractUnicodeCharacterInternal s i e = Some (uint code, i + 2)"
proof -
  let ?c1 = "ucast (drop_bit 6 code OR 0xC0) :: byte" and ?c2 = "tail_byte code"
  have r: "0x80 \<le> uint code" "uint code < 0x800" using code_below(2) [OF c(1)] code_below(1) [OF c(2)] by simp_all
  have c1: "uint ?c1 = uint code div 64 + 0xC0" using r uint_lead [of code 6 5 "0xC0"] by simp
  have c2: "uint ?c2 = 0x80 + uint code mod 64" by (rule uint_tail)
  have lt: "\<not> ?c1 < 0x80" "\<not> ?c1 < 0xC2" "?c1 < 0xE0" using r c1 by (simp_all add: word_less_def)
  have u: "utf8 code = [?c1, ?c2]" using c by (simp add: utf8_def)
  have t: "text_at s i = Some ?c1" "text_at s (i + 1) = Some ?c2"
    using text_at_bytes(1,2) [OF s] by (simp_all add: u)
  have v: "push_bit 6 (uint ?c1) + uint ?c2 - 0x3080 = uint code"
    unfolding c1 c2 push_bit_eq_mult using mult_div_mod_eq [of 64 "uint code"] by simp
  have n: "\<not> i + 1 \<ge> int (length s)" "\<not> i + 1 \<ge> e" using s e u by simp_all
  show "String_ExtractUnicodeCharacter s i = Some (uint code, i + 2)"
    "String_ExtractUnicodeCharacterInternal s i e = Some (uint code, i + 2)"
    using t lt v n tail_byte_facts(2) [of code]
    by (simp_all add: String_ExtractUnicodeCharacter_def String_ExtractUnicodeCharacterInternal_def Let_def)
qed

lemma digit_64: "M = 64 * (M div 64) + M mod (64 :: int)"
  by simp

lemma div_64:
  "N div 64 div 64 = (N :: int) div 4096" "N div 4096 div 64 = N div 262144"
  by (simp_all add: zdiv_zmult2_eq [symmetric])

lemma three_digits:
  "(N div 4096 + 0xE0) * 4096 + (0x80 + N div 64 mod 64) * 64 + (0x80 + N mod 64) - 0xE2080 = (N :: int)"
proof -
  have "(p + 0xE0) * 4096 + (0x80 + s) * 64 + (0x80 + r) - 0xE2080 = M"
    if "M = 64 * q + r" "q = 64 * p + s" for M p q r s :: int using that by simp
  from this [OF digit_64 [of N] digit_64 [of "N div 64"]] show ?thesis unfolding div_64 .
qed

lemma four_digits:
  "(N div 262144 + 0xF0) * 262144 + (0x80 + N div 4096 mod 64) * 4096 + (0x80 + N div 64 mod 64) * 64 +
     (0x80 + N mod 64) - 0x3C82080 = (N :: int)"
proof -
  have "(u + 0xF0) * 262144 + (0x80 + w) * 4096 + (0x80 + s) * 64 + (0x80 + r) - 0x3C82080 = M"
    if "M = 64 * q + r" "q = 64 * p + s" "p = 64 * u + w" for M p q r s u w :: int using that by simp
  from this [OF digit_64 [of N] digit_64 [of "N div 64"], unfolded div_64, OF digit_64 [of "N div 4096"]]
  show ?thesis unfolding div_64 .
qed

lemma Extract_three:
  assumes c: "\<not> code < 0x800" "code < 0x10000" and s: "s = xs @ utf8 code @ ys" "i = int (length xs)"
    and e: "e = int (length xs + length (utf8 code @ zs))"
  shows "String_ExtractUnicodeCharacter s i = Some (uint code, i + 3)"
    and "String_ExtractUnicodeCharacterInternal s i e = Some (uint code, i + 3)"
proof -
  let ?c1 = "ucast (drop_bit 12 code OR 0xE0) :: byte" and ?c2 = "tail_byte (drop_bit 6 code)" and ?c3 = "tail_byte code"
  have r: "0x800 \<le> uint code" "uint code < 0x10000" using code_below(2) [OF c(1)] code_below(1) [OF c(2)] by simp_all
  have c1: "uint ?c1 = uint code div 4096 + 0xE0" using r uint_lead [of code 12 4 "0xE0"] by simp
  have c2: "uint ?c2 = 0x80 + uint code div 64 mod 64" by (simp add: uint_tail uint_drop)
  have c3: "uint ?c3 = 0x80 + uint code mod 64" by (rule uint_tail)
  have lt: "\<not> ?c1 < 0x80" "\<not> ?c1 < 0xC2" "\<not> ?c1 < 0xE0" "?c1 < 0xF0" using r c1 by (simp_all add: word_less_def)
  have dm: "uint code div 64 div 64 = uint code div 4096" by (simp add: zdiv_zmult2_eq [symmetric])
  have "\<not> (?c1 = 0xE0 \<and> ?c2 < 0xA0)"
  proof
    assume *: "?c1 = 0xE0 \<and> ?c2 < 0xA0"
    then have "uint code div 4096 = 0" using c1 by simp
    then have "uint code div 64 mod 64 = uint code div 64" using dm by (metis mod_div_trivial div_by_0 mod_eq_self_iff_div_eq_0)
    moreover have "0x20 \<le> uint code div 64" using r(1) by simp
    ultimately show False using * c2 by (simp add: word_less_def)
  qed
  note ov = this
  have nz: "\<not> code < 0x80" using c(1) less_trans [of code "0x80" "0x800"] by auto
  have u: "utf8 code = [?c1, ?c2, ?c3]" using c nz by (simp add: utf8_def)
  have t: "text_at s i = Some ?c1" "text_at s (i + 1) = Some ?c2" "text_at s (i + 2) = Some ?c3"
    using text_at_bytes(1,2,3) [OF s] by (simp_all add: u)
  have v: "push_bit 12 (uint ?c1) + push_bit 6 (uint ?c2) + uint ?c3 - 0xE2080 = uint code"
    using three_digits [of "uint code"] by (simp add: c1 c2 c3 push_bit_eq_mult)
  have n: "\<not> i + 1 \<ge> int (length s) - 1" "\<not> i + 1 \<ge> e - 1" using s e u by simp_all
  have a: "i + 1 + 1 = i + 2" "i + 1 + 2 = i + 3" by simp_all
  show "String_ExtractUnicodeCharacter s i = Some (uint code, i + 3)"
    "String_ExtractUnicodeCharacterInternal s i e = Some (uint code, i + 3)"
    unfolding String_ExtractUnicodeCharacter_def String_ExtractUnicodeCharacterInternal_def Let_def a t Option.bind_lunit v
    using lt n ov tail_byte_facts(2) by auto
qed

lemma Extract_four:
  assumes c: "\<not> code < 0x10000" "code < 0x110000" and s: "s = xs @ utf8 code @ ys" "i = int (length xs)"
    and e: "e = int (length xs + length (utf8 code @ zs))"
  shows "String_ExtractUnicodeCharacter s i = Some (uint code, i + 4)"
    and "String_ExtractUnicodeCharacterInternal s i e = Some (uint code, i + 4)"
proof -
  let ?c1 = "ucast (drop_bit 18 code OR 0xF0) :: byte" and ?c2 = "tail_byte (drop_bit 12 code)"
    and ?c3 = "tail_byte (drop_bit 6 code)" and ?c4 = "tail_byte code"
  have r: "0x10000 \<le> uint code" "uint code < 0x110000" using code_below(2) [OF c(1)] code_below(1) [OF c(2)] by simp_all
  have c1: "uint ?c1 = uint code div 262144 + 0xF0" using r uint_lead [of code 18 3 "0xF0"] by simp
  have c2: "uint ?c2 = 0x80 + uint code div 4096 mod 64" by (simp add: uint_tail uint_drop)
  have c3: "uint ?c3 = 0x80 + uint code div 64 mod 64" by (simp add: uint_tail uint_drop)
  have c4: "uint ?c4 = 0x80 + uint code mod 64" by (rule uint_tail)
  have lt: "\<not> ?c1 < 0x80" "\<not> ?c1 < 0xC2" "\<not> ?c1 < 0xE0" "\<not> ?c1 < 0xF0" "?c1 < 0xF5"
    using r c1 by (simp_all add: word_less_def)
  have dm: "uint code div 64 div 64 = uint code div 4096" "uint code div 4096 div 64 = uint code div 262144"
    by (simp_all add: zdiv_zmult2_eq [symmetric])
  have m: "uint code div 4096 = 64 * (uint code div 262144) + uint code div 4096 mod 64"
    unfolding dm(2) [symmetric] by simp
  have ov: "\<not> (?c1 = 0xF0 \<and> ?c2 < 0x90)" "\<not> (?c1 = 0xF4 \<and> ?c2 \<ge> 0x90)"
  proof -
    have b: "0x10 \<le> uint code div 4096" "uint code div 4096 < 0x110" using r by simp_all
    show "\<not> (?c1 = 0xF0 \<and> ?c2 < 0x90)"
    proof
      assume *: "?c1 = 0xF0 \<and> ?c2 < 0x90"
      then have "uint code div 262144 = 0" using c1 by simp
      then show False using * c2 m b by (simp add: word_less_def)
    qed
    show "\<not> (?c1 = 0xF4 \<and> ?c2 \<ge> 0x90)"
    proof
      assume *: "?c1 = 0xF4 \<and> ?c2 \<ge> 0x90"
      then have "uint code div 262144 = 4" using c1 by simp
      then show False using * c2 m b by (simp add: word_le_def)
    qed
  qed
  have nz: "\<not> code < 0x80" "\<not> code < 0x800"
    using c(1) less_trans [of code "0x80" "0x10000"] less_trans [of code "0x800" "0x10000"] by auto
  have u: "utf8 code = [?c1, ?c2, ?c3, ?c4]" using c nz by (simp add: utf8_def)
  have t: "text_at s i = Some ?c1" "text_at s (i + 1) = Some ?c2" "text_at s (i + 2) = Some ?c3" "text_at s (i + 3) = Some ?c4"
    using text_at_bytes [OF s] by (simp_all add: u)
  have v: "push_bit 18 (uint ?c1) + push_bit 12 (uint ?c2) + push_bit 6 (uint ?c3) + uint ?c4 - 0x3C82080 = uint code"
    using four_digits [of "uint code"] by (simp add: c1 c2 c3 c4 push_bit_eq_mult)
  have n: "\<not> i + 1 \<ge> int (length s) - 2" "\<not> i + 1 \<ge> e - 2" using s e u by simp_all
  have a: "i + 1 + 1 = i + 2" "i + 1 + 2 = i + 3" "i + 1 + 3 = i + 4" by simp_all
  show "String_ExtractUnicodeCharacter s i = Some (uint code, i + 4)"
    "String_ExtractUnicodeCharacterInternal s i e = Some (uint code, i + 4)"
    unfolding String_ExtractUnicodeCharacter_def String_ExtractUnicodeCharacterInternal_def Let_def a t Option.bind_lunit v
    using lt n ov tail_byte_facts(2) by auto
qed

lemma length_utf8: "length (utf8 code) = (if code < 0x80 then 1 else if code < 0x800 then 2 else if code < 0x10000 then 3 else 4)"
  by (simp add: utf8_def)

lemma Extract_utf8:
  assumes "code < 0x110000" and "s = xs @ utf8 code @ ys" and "i = int (length xs)"
    and "e = int (length xs + length (utf8 code @ zs))"
  shows "String_ExtractUnicodeCharacter s i = Some (uint code, i + int (length (utf8 code)))"
    and "String_ExtractUnicodeCharacterInternal s i e = Some (uint code, i + int (length (utf8 code)))"
  using Extract_one [OF _ assms(2,3)] Extract_two [OF _ _ assms(2-4)] Extract_three [OF _ _ assms(2-4)]
    Extract_four [OF _ assms(1-4)]
  by (simp_all add: length_utf8)

text \<open>
  C12: UTF-8 round trip. Appending a code point below 0x110000 to a StringBuilder adds between one and
  four bytes, and both functions that read a code point from a string, started where those bytes
  begin, return that code point and the position behind them, whatever precedes and follows; a larger
  code is replaced by U+FFFD.
\<close>

theorem utf8_roundtrip:
  assumes "sb_holds xs sb" and "int (length xs) + 4 \<le> text_limit"
  shows "\<exists>bs sb'. StringBuilder_AppendUnicode sb code = Some sb' \<and> StringBuilder_ToString sb' = Some (xs @ bs) \<and>
    1 \<le> length bs \<and> length bs \<le> 4 \<and>
    (\<forall>ys. String_ExtractUnicodeCharacter (xs @ bs @ ys) (int (length xs)) =
        Some (if code < 0x110000 then uint code else 0xFFFD, int (length xs + length bs)) \<and>
      String_ExtractUnicodeCharacterInternal (xs @ bs @ ys) (int (length xs)) (int (length (xs @ bs @ ys))) =
        Some (if code < 0x110000 then uint code else 0xFFFD, int (length xs + length bs)))"
proof -
  define k where "k = (if code < 0x110000 then code else 0xFFFD)"
  have k: "k < 0x110000" "uint k = (if code < 0x110000 then uint code else 0xFFFD)" by (simp_all add: k_def)
  obtain sb' where "StringBuilder_AppendUnicode sb code = Some sb'" "sb_holds (xs @ utf8 k) sb'"
    using AppendUnicode_ok [OF assms, of code] by (auto simp: k_def)
  then show ?thesis
    using Extract_utf8 [OF k(1) refl refl, of _ xs _] sb.to_string_ok [of "xs @ utf8 k"] k(2)
    by (intro exI [of _ "utf8 k"] exI [of _ sb']) (simp add: length_utf8)
qed

theorem utf8_roundtrip_witness:
  "\<exists>bs sb'. Option.bind StringBuilder_Create (\<lambda>sb. StringBuilder_AppendUnicode sb 0x20AC) = Some sb' \<and>
     StringBuilder_ToString sb' = Some bs \<and> String_ExtractUnicodeCharacter bs 0 = Some (0x20AC, int (length bs))"
proof -
  obtain sb where sb: "StringBuilder_Create = Some sb" "sb_holds [] sb" using Create_ok by blast
  have "int (length ([] :: bytes)) + 4 \<le> text_limit" by (simp add: text_limit_def)
  from utf8_roundtrip [OF sb(2) this, of "0x20AC"] obtain bs sb' where
    "StringBuilder_AppendUnicode sb 0x20AC = Some sb'" "StringBuilder_ToString sb' = Some bs"
    "\<forall>ys. String_ExtractUnicodeCharacter (bs @ ys) 0 = Some (0x20AC, int (length bs))"
    by auto
  then show ?thesis using sb(1) by (metis append_Nil2 Option.bind_lunit)
qed

end
