(* ===== verification/StringNumbers.thy ===== *)
theory StringNumbers
  imports StringsCorrect Integers
begin

text \<open>
  Numbers as text: \<^verbatim>\<open>smilelib/src/string/string_createfromint.c\<close> and \<^verbatim>\<open>smilelib/src/string/string_parse.c\<close>.
  \<^verbatim>\<open>Int64\<close> and \<^verbatim>\<open>UInt64\<close> values are 64-bit words, whose arithmetic wraps around.
\<close>

section \<open>Printing\<close>

text \<open>\<^verbatim>\<open>_digits\<close>\<close>

definition digits_table :: bytes where
  "digits_table = map of_nat [48..<58] @ map of_nat [65..<91]"

definition BUFFER_SIZE :: int where
  "BUFFER_SIZE = 128"

partial_function (option) digits_loop :: "cells \<Rightarrow> int \<Rightarrow> 64 word \<Rightarrow> 64 word \<Rightarrow> (cells \<times> int) option" where
  "digits_loop buffer dest value numericBase =
     (if value \<noteq> 0
      then Option.bind (arr_get digits_table (uint (value mod numericBase))) (\<lambda>ch.
           Option.bind (arr_set buffer (dest - 1) (Some ch)) (\<lambda>buffer.
           digits_loop buffer (dest - 1) (value div numericBase) numericBase))
      else Some (buffer, dest))"

declare digits_loop.simps [code]

definition String_CreateFromIntegerInternal :: "cells \<Rightarrow> 64 word \<Rightarrow> 64 word \<Rightarrow> (cells \<times> int) option" where
  "String_CreateFromIntegerInternal buffer value numericBase =
     (if value = 0
      then do { buffer \<leftarrow> arr_set buffer (BUFFER_SIZE - 1) (Some 48); Some (buffer, BUFFER_SIZE - 1) }
      else digits_loop buffer BUFFER_SIZE value numericBase)"

text \<open>\<open>Some None\<close> is the C pointer \<^verbatim>\<open>NULL\<close>.\<close>

definition String_CreateFromInteger :: "64 word \<Rightarrow> int \<Rightarrow> bool \<Rightarrow> bytes option option" where
  "String_CreateFromInteger value numericBase includeSign =
     (if numericBase < 2 \<or> numericBase > 36 then Some None
      else do { let negative = (sint value < 0);
                let value = (if negative then - value else value);
                (buffer, dest) \<leftarrow>
                  String_CreateFromIntegerInternal (replicate (nat BUFFER_SIZE) None) value (of_int numericBase);
                (buffer, dest) \<leftarrow>
                  (if negative then do { buffer \<leftarrow> arr_set buffer (dest - 1) (Some 45); Some (buffer, dest - 1) }
                   else if includeSign then do { buffer \<leftarrow> arr_set buffer (dest - 1) (Some 43); Some (buffer, dest - 1) }
                   else Some (buffer, dest));
                s \<leftarrow> String_Create buffer dest (BUFFER_SIZE - dest);
                Some (Some s) })"

definition String_CreateFromUnsignedInteger :: "64 word \<Rightarrow> int \<Rightarrow> bytes option option" where
  "String_CreateFromUnsignedInteger value numericBase =
     (if numericBase < 2 \<or> numericBase > 36 then Some None
      else do { (buffer, dest) \<leftarrow>
                  String_CreateFromIntegerInternal (replicate (nat BUFFER_SIZE) None) value (of_int numericBase);
                s \<leftarrow> String_Create buffer dest (BUFFER_SIZE - dest);
                Some (Some s) })"

section \<open>Parsing\<close>

function skip_space :: "bytes \<Rightarrow> int \<Rightarrow> int option" where
  "skip_space s index =
     (if index < int (length s)
      then Option.bind (text_at s index) (\<lambda>ch. if ch \<le> 32 then skip_space s (index + 1) else Some index)
      else Some index)"
  by pat_completeness auto
termination by (relation "measure (\<lambda>(s, index). nat (int (length s) - index))") auto

declare skip_space.simps [simp del]

text \<open>The cases of the \<^verbatim>\<open>switch\<close>: the value of a digit, 99 for any other character.\<close>

definition digit_value :: "byte \<Rightarrow> int" where
  "digit_value ch =
     (if 48 \<le> ch \<and> ch \<le> 57 then uint ch - 48
      else if 65 \<le> ch \<and> ch \<le> 90 then uint ch - 55
      else if 97 \<le> ch \<and> ch \<le> 122 then uint ch - 87
      else 99)"

definition is_separator :: "byte \<Rightarrow> bool" where
  "is_separator ch \<longleftrightarrow> ch = 39 \<or> ch = 34 \<or> ch = 95"

text \<open>The result: the index after the digits, the value, and the number of digits.\<close>

function ParseIntegerInternal :: "bytes \<Rightarrow> int \<Rightarrow> int \<Rightarrow> 64 word \<Rightarrow> int \<Rightarrow> (int \<times> 64 word \<times> int) option" where
  "ParseIntegerInternal s i numericBase value digits =
     (if i < int (length s)
      then Option.bind (text_at s i) (\<lambda>ch.
           if is_separator ch then ParseIntegerInternal s (i + 1) numericBase value digits
           else let digitValue = digit_value ch
                in if digitValue \<ge> numericBase then Some (i + 1, value, digits)
                   else ParseIntegerInternal s (i + 1) numericBase (value * of_int numericBase + of_int digitValue) (digits + 1))
      else Some (i, value, digits))"
  by pat_completeness auto
termination by (relation "measure (\<lambda>(s, i, _). nat (int (length s) - i))") auto

declare ParseIntegerInternal.simps [simp del]

definition String_ParseInteger :: "bytes option \<Rightarrow> int \<Rightarrow> (bool \<times> 64 word) option" where
  "String_ParseInteger str numericBase =
     (case str of
        None \<Rightarrow> Some (False, 0)
      | Some s \<Rightarrow>
        if numericBase < 2 \<or> numericBase > 36 \<or> s = [] then Some (False, 0)
        else do { index \<leftarrow> skip_space s 0;
                  ch \<leftarrow> text_at s index;
                  let (neg, index) =
                    (if index < int (length s) \<and> ch = 43 then (False, index + 1)
                     else if index < int (length s) \<and> ch = 45 then (True, index + 1)
                     else (False, index));
                  (index, uvalue, digits) \<leftarrow> ParseIntegerInternal s index numericBase 0 0;
                  index \<leftarrow> skip_space s index;
                  Some (if digits = 0 \<or> index \<noteq> int (length s) then (False, 0)
                        else (True, if neg then - uvalue else uvalue)) })"

text \<open>\<^verbatim>\<open>matches_at\<close> is the test for the rest of a word, in either case of its letters.\<close>

fun matches_at :: "bytes \<Rightarrow> int \<Rightarrow> (byte \<times> byte) list \<Rightarrow> bool option" where
  "matches_at s i [] = Some True"
| "matches_at s i ((x, y) # cs) =
     (if i < int (length s)
      then Option.bind (text_at s i) (\<lambda>ch. if ch = x \<or> ch = y then matches_at s (i + 1) cs else Some False)
      else Some False)"

definition String_ParseBool :: "bytes \<Rightarrow> (bool \<times> bool) option" where
  "String_ParseBool s =
     do { index \<leftarrow> skip_space s 0;
          if index = int (length s) then Some (False, False)
          else do {
            ch \<leftarrow> text_at s index;
            (index, result) \<leftarrow>
              (if ch = 48 then Some (index + 1, False)
               else if ch = 49 then Some (index + 1, True)
               else if ch = 116 \<or> ch = 84
               then do { w \<leftarrow> matches_at s (index + 1) [(114, 82), (117, 85), (101, 69)];
                         Some (if w then index + 4 else index + 1, True) }
               else if ch = 102 \<or> ch = 70
               then do { w \<leftarrow> matches_at s (index + 1) [(97, 65), (108, 76), (115, 83), (101, 69)];
                         Some (if w then index + 5 else index + 1, False) }
               else Some (index, False));
            index \<leftarrow> skip_space s index;
            Some (if index = int (length s) then (True, result) else (False, False)) } }"

section \<open>Digits\<close>

function digits :: "nat \<Rightarrow> nat \<Rightarrow> nat list" where
  "digits b v = (if v = 0 \<or> b < 2 then [] else digits b (v div b) @ [v mod b])"
  by pat_completeness auto
termination by (relation "measure snd") auto

declare digits.simps [simp del]

definition digit_char :: "nat \<Rightarrow> byte" where
  "digit_char d = (if d < 10 then of_nat (48 + d) else of_nat (55 + d))"

definition number_text :: "nat \<Rightarrow> nat \<Rightarrow> bytes" where
  "number_text b v = (if v = 0 then [48] else map digit_char (digits b v))"

lemma digits_bounded: "d \<in> set (digits b v) \<Longrightarrow> d < b"
proof (induction b v rule: digits.induct)
  case (1 b v)
  then show ?case by (subst (asm) (2) digits.simps) (auto split: if_splits)
qed

lemma digits_value: "2 \<le> b \<Longrightarrow> foldl (\<lambda>n d. n * b + d) 0 (digits b v) = v"
proof (induction b v rule: digits.induct)
  case (1 b v)
  then show ?case by (subst digits.simps) auto
qed

lemma length_digits: "2 \<le> b \<Longrightarrow> v < 2 ^ n \<Longrightarrow> length (digits b v) \<le> n"
proof (induction n arbitrary: v)
  case 0
  then show ?case by (simp add: digits.simps)
next
  case (Suc n)
  have "v div b \<le> v div 2" using Suc.prems(1) by (intro div_le_mono2) auto
  then have "v div b < 2 ^ n" using Suc.prems(2) by simp
  then show ?case using Suc.IH [of "v div b"] Suc.prems(1) by (subst digits.simps) simp
qed

lemma digits_nonempty: "0 < v \<Longrightarrow> 2 \<le> b \<Longrightarrow> digits b v \<noteq> []"
  by (simp add: digits.simps [of b v])

lemma small_digit_cases: "d < 36 \<Longrightarrow> d \<in> set [0..<36]"
  by simp

lemma digit_char_table: "d < 36 \<Longrightarrow> arr_get digits_table (int d) = Some (digit_char d)"
proof -
  have "\<forall>d \<in> set [0..<36]. arr_get digits_table (int d) = Some (digit_char d)" by code_simp
  then show "d < 36 \<Longrightarrow> arr_get digits_table (int d) = Some (digit_char d)" using small_digit_cases by blast
qed

lemma digit_char_facts:
  assumes "d < 36"
  shows "digit_value (digit_char d) = int d" and "\<not> is_separator (digit_char d)" and "32 < digit_char d"
    and "digit_char d \<noteq> 43" and "digit_char d \<noteq> 45"
proof -
  have "\<forall>d \<in> set [0..<36]. digit_value (digit_char d) = int d \<and> \<not> is_separator (digit_char d) \<and> 32 < digit_char d \<and>
      digit_char d \<noteq> 43 \<and> digit_char d \<noteq> 45" by code_simp
  then show "digit_value (digit_char d) = int d" "\<not> is_separator (digit_char d)" "32 < digit_char d"
    "digit_char d \<noteq> 43" "digit_char d \<noteq> 45" using small_digit_cases [OF assms] by blast+
qed

section \<open>Printing writes the digits\<close>

text \<open>The buffer is filled from its end: \<open>xs\<close> are the last bytes of it.\<close>

definition filled_back :: "cells \<Rightarrow> int \<Rightarrow> bytes \<Rightarrow> bool" where
  "filled_back buffer dest xs \<longleftrightarrow>
     length buffer = nat BUFFER_SIZE \<and> 0 \<le> dest \<and> dest = BUFFER_SIZE - int (length xs) \<and> drop (nat dest) buffer = map Some xs"

lemma filled_back_put:
  assumes "filled_back buffer dest xs" and "0 < dest"
  shows "\<exists>buffer'. arr_set buffer (dest - 1) (Some c) = Some buffer' \<and> filled_back buffer' (dest - 1) (c # xs)"
proof -
  have n: "nat dest = Suc (nat (dest - 1))" "nat (dest - 1) < length buffer" using assms by (auto simp: filled_back_def)
  let ?b = "buffer[nat (dest - 1) := Some c]"
  have "drop (nat (dest - 1)) ?b = Some c # drop (nat dest) buffer"
    using n by (metis Cons_nth_drop_Suc drop_update_cancel length_list_update lessI nth_list_update_eq)
  then have "filled_back ?b (dest - 1) (c # xs)" using assms by (auto simp: filled_back_def)
  moreover have "arr_set buffer (dest - 1) (Some c) = Some ?b" using assms n(2) by (simp add: arr_set_def)
  ultimately show ?thesis by blast
qed

lemma filled_back_Create: "filled_back buffer dest xs \<Longrightarrow> String_Create buffer dest (BUFFER_SIZE - dest) = Some xs"
  by (rule String_Create_cells) (auto simp: filled_back_def)

lemma word_nat_arith:
  fixes v b :: "64 word"
  shows "uint (v mod b) = int (unat v mod unat b)" "unat (v div b) = unat v div unat b"
  by (simp_all add: uint_mod unat_div zmod_int)

lemma digits_loop_ok:
  assumes "filled_back buffer dest xs" and "2 \<le> unat b" and "unat b \<le> 36" and "unat v < 2 ^ n" and "int n \<le> dest"
  shows "\<exists>buffer' dest'. digits_loop buffer dest v b = Some (buffer', dest') \<and>
    filled_back buffer' dest' (map digit_char (digits (unat b) (unat v)) @ xs) \<and> dest - int n \<le> dest'"
  using assms
proof (induction n arbitrary: buffer dest xs v)
  case 0
  then have "v = 0" by (simp add: unat_eq_zero)
  then show ?case using 0(1) by (subst digits_loop.simps) (simp add: digits.simps)
next
  case (Suc n)
  show ?case
  proof (cases "v = 0")
    case True
    then show ?thesis using Suc.prems(1) by (subst digits_loop.simps) (simp add: digits.simps)
  next
    case False
    let ?c = "digit_char (unat v mod unat b)"
    have "unat v mod unat b < unat b" using Suc.prems(2) by (intro mod_less_divisor) linarith
    then have m: "unat v mod unat b < 36" using Suc.prems(3) by linarith
    obtain buf1 where 1: "arr_set buffer (dest - 1) (Some ?c) = Some buf1" "filled_back buf1 (dest - 1) (?c # xs)"
      using filled_back_put [OF Suc.prems(1), of ?c] Suc.prems(5) by auto
    have "unat v div unat b \<le> unat v div 2" using Suc.prems(2) by (intro div_le_mono2) auto
    then have "unat (v div b) < 2 ^ n" using Suc.prems(4) by (simp add: word_nat_arith)
    then obtain buf2 dest2 where 2: "digits_loop buf1 (dest - 1) (v div b) b = Some (buf2, dest2)"
      "filled_back buf2 dest2 (map digit_char (digits (unat b) (unat (v div b))) @ ?c # xs)" "dest - 1 - int n \<le> dest2"
      using Suc.IH [OF 1(2) Suc.prems(2,3), of "v div b"] Suc.prems(5) by auto
    have "digits_loop buffer dest v b = Some (buf2, dest2)"
      using False 1(1) 2(1) digit_char_table [OF m] by (subst digits_loop.simps) (simp add: word_nat_arith)
    moreover have "digits (unat b) (unat v) = digits (unat b) (unat v div unat b) @ [unat v mod unat b]"
      using False Suc.prems(2) by (subst digits.simps) (simp add: unat_eq_zero)
    ultimately show ?thesis using 2(2,3) by (simp add: word_nat_arith)
  qed
qed

lemma CreateFromIntegerInternal_ok:
  assumes "2 \<le> b" and "b \<le> 36"
  shows "\<exists>buffer dest. String_CreateFromIntegerInternal (replicate (nat BUFFER_SIZE) None) v (of_int b) = Some (buffer, dest) \<and>
    filled_back buffer dest (number_text (nat b) (unat v)) \<and> 0 < dest"
proof -
  let ?e = "replicate (nat BUFFER_SIZE) None :: cells"
  have e: "filled_back ?e BUFFER_SIZE []" by (simp add: filled_back_def BUFFER_SIZE_def)
  have nb: "2 \<le> nat b" "nat b \<le> 36" using assms by linarith+
  have b: "unat (of_int b :: 64 word) = nat b"
    using assms by (simp add: unat_eq_nat_uint uint_word_of_int take_bit_int_eq_self)
  show ?thesis
  proof (cases "v = 0")
    case True
    then show ?thesis using filled_back_put [OF e, of 48]
      by (auto simp: String_CreateFromIntegerInternal_def number_text_def BUFFER_SIZE_def)
  next
    case False
    have "unat v < 2 ^ 64" using unsigned_less [of v, where 'a = nat] by simp
    then obtain buffer dest where "digits_loop ?e BUFFER_SIZE v (of_int b) = Some (buffer, dest)"
      "filled_back buffer dest (map digit_char (digits (nat b) (unat v)))" "BUFFER_SIZE - 64 \<le> dest"
      using digits_loop_ok [OF e, of "of_int b" v 64] b nb by (auto simp: BUFFER_SIZE_def)
    then show ?thesis using False
      by (auto simp: String_CreateFromIntegerInternal_def number_text_def unat_eq_zero BUFFER_SIZE_def)
  qed
qed


section \<open>Parsing reads them back\<close>

lemma skip_space_stop: "i < length s \<Longrightarrow> 32 < s ! i \<Longrightarrow> skip_space s (int i) = Some (int i)"
  by (subst skip_space.simps) (auto simp: text_at_nth dest: leD)

lemma skip_space_end: "skip_space s (int (length s)) = Some (int (length s))"
  by (subst skip_space.simps) simp

lemma parse_digits_ok:
  assumes "drop i s = map digit_char ds @ junk" and "\<And>d. d \<in> set ds \<Longrightarrow> int d < b" and "b \<le> 36"
  shows "ParseIntegerInternal s (int i) b acc n =
    ParseIntegerInternal s (int (i + length ds)) b (foldl (\<lambda>v d. v * of_int b + of_nat d) acc ds) (n + int (length ds))"
  using assms
proof (induction ds arbitrary: i acc n)
  case (Cons d ds)
  have d: "d < 36" "int d < b" using Cons.prems(2) [of d] Cons.prems(3) by auto
  have e: "drop i s = digit_char d # map digit_char ds @ junk" using Cons.prems(1) by simp
  have "i < length s" using e by (cases "i < length s") auto
  moreover have "s ! i = digit_char d" using e by (rule nth_via_drop)
  moreover have "drop (Suc i) s = map digit_char ds @ junk" using e by (metis drop_Suc list.sel(3) tl_drop)
  ultimately have i: "i < length s" "s ! i = digit_char d" "drop (Suc i) s = map digit_char ds @ junk" by simp_all
  have "ParseIntegerInternal s (int i) b acc n =
      ParseIntegerInternal s (int (Suc i)) b (acc * of_int b + of_nat d) (n + 1)"
    using i(1,2) d digit_char_facts(1,2) [OF d(1)]
    by (subst ParseIntegerInternal.simps) (simp add: text_at_nth Let_def add.commute)
  then show ?case using Cons.IH [OF i(3), of "acc * of_int b + of_nat d" "n + 1"] Cons.prems(2,3) by (simp add: ac_simps)
qed simp

lemma foldl_word: "foldl (\<lambda>v d. v * of_nat b + of_nat d) (of_nat n :: 64 word) ds = of_nat (foldl (\<lambda>n d. n * b + d) n ds)"
  by (induction ds arbitrary: n) (simp_all flip: of_nat_mult of_nat_add)

text \<open>The digits of a number, whatever they are preceded by, and at most one other byte after them.\<close>

definition ends_number :: "int \<Rightarrow> bytes \<Rightarrow> bool" where
  "ends_number b junk \<longleftrightarrow> (case junk of [] \<Rightarrow> True | [c] \<Rightarrow> \<not> is_separator c \<and> b \<le> digit_value c | _ \<Rightarrow> False)"

lemma number_text_digits:
  assumes "2 \<le> b"
  shows "\<exists>ds. number_text b v = map digit_char ds \<and> (\<forall>d \<in> set ds. d < b) \<and> ds \<noteq> [] \<and> foldl (\<lambda>n d. n * b + d) 0 ds = v"
proof (cases "v = 0")
  case True
  then show ?thesis using assms by (intro exI [of _ "[0]"]) (simp add: number_text_def digit_char_def)
next
  case False
  then show ?thesis
    using assms digits_bounded [of _ b v] digits_value [of b v] digits_nonempty [of v b]
    by (intro exI [of _ "digits b v"]) (auto simp: number_text_def)
qed

lemma parse_number_ok:
  assumes "drop i s = number_text (nat b) (unat v) @ junk" and "2 \<le> b" and "b \<le> 36" and "ends_number b junk"
  shows "\<exists>n > 0. ParseIntegerInternal s (int i) b 0 0 = Some (int (length s), v, n)"
proof -
  have nb: "2 \<le> nat b" using assms(2) by linarith
  obtain ds where ds: "number_text (nat b) (unat v) = map digit_char ds" "\<And>d. d \<in> set ds \<Longrightarrow> d < nat b" "ds \<noteq> []"
    "foldl (\<lambda>n d. n * nat b + d) 0 ds = unat v"
    using number_text_digits [OF nb, of "unat v"] by blast
  have w: "foldl (\<lambda>v d. v * of_int b + of_nat d) 0 ds = v"
    using foldl_word [of "nat b" 0 ds] ds(4) assms(2) by simp
  have l: "length s = i + length ds + length junk"
    using assms(1) ds(1,3) by (metis add.assoc append_is_Nil_conv drop_eq_Nil le_add_diff_inverse length_append length_drop length_map
        map_is_Nil_conv nat_le_linear)
  have "ParseIntegerInternal s (int i) b 0 0 = ParseIntegerInternal s (int (i + length ds)) b v (int (length ds))"
    using parse_digits_ok [of i s ds junk b 0 0] assms(1,3) ds(1) w ds(2) by fastforce
  also have "\<dots> = Some (int (length s), v, int (length ds))"
  proof (cases junk)
    case Nil
    then show ?thesis using l by (subst ParseIntegerInternal.simps) simp
  next
    case (Cons c cs)
    then have c: "cs = []" "\<not> is_separator c" "b \<le> digit_value c" using assms(4) by (auto simp: ends_number_def split: list.splits)
    have "drop (i + length ds) s = [c]" using assms(1) Cons c(1) ds(1) by (metis append_eq_conv_conj drop_drop length_map add.commute)
    then have "i + length ds < length s" "s ! (i + length ds) = c" using l Cons by (auto dest: nth_via_drop)
    then show ?thesis using c l Cons
      by (subst ParseIntegerInternal.simps) (simp add: text_at_nth Let_def del: of_nat_add)
  qed
  finally show ?thesis using ds(3) by auto
qed


lemma number_text_first:
  assumes "2 \<le> b" and "b \<le> 36"
  shows "\<exists>d cs. number_text (nat b) v = digit_char d # cs \<and> d < 36"
proof -
  have nb: "2 \<le> nat b" using assms(1) by linarith
  obtain ds where ds: "number_text (nat b) v = map digit_char ds" "\<forall>d \<in> set ds. d < nat b" "ds \<noteq> []"
    using number_text_digits [OF nb, of v] by blast
  then show ?thesis using assms(2) by (cases ds) auto
qed

lemma parse_ok:
  assumes "s = pre @ number_text (nat b) (unat u) @ junk" and "pre = [] \<or> pre = [43] \<or> pre = [45]"
    and "2 \<le> b" and "b \<le> 36" and "ends_number b junk"
  shows "String_ParseInteger (Some s) b = Some (True, if pre = [45] then - u else u)"
proof -
  let ?i = "length pre"
  obtain d cs where d: "number_text (nat b) (unat u) = digit_char d # cs" "d < 36"
    using number_text_first [OF assms(3,4)] by blast
  note f = digit_char_facts(3-5) [OF d(2)]
  have s0: "s \<noteq> []" "32 < s ! 0" "s ! 0 = (if pre = [] then digit_char d else hd pre)"
    using assms(1,2) d(1) f(1) by (auto simp: nth_append)
  have skip: "skip_space s 0 = Some 0" using skip_space_stop [of 0 s] s0(1,2) by simp
  have at: "text_at s 0 = Some (s ! 0)" using text_at_nth [of 0 s] s0(1) by simp
  have "drop ?i s = number_text (nat b) (unat u) @ junk" using assms(1) by simp
  then obtain n where n: "0 < n" "ParseIntegerInternal s (int ?i) b 0 0 = Some (int (length s), u, n)"
    using parse_number_ok [OF _ assms(3-5)] by blast
  have sg: "(if 0 < int (length s) \<and> s ! 0 = 43 then (False, 0 + 1)
      else if 0 < int (length s) \<and> s ! 0 = 45 then (True, 0 + 1) else (False, 0)) = (pre = [45], int ?i)"
    using s0 assms(2) f by auto
  show ?thesis
    using skip at n sg assms(3,4) s0(1) by (simp add: String_ParseInteger_def skip_space_end Let_def)
qed

definition sign_text :: "64 word \<Rightarrow> bool \<Rightarrow> bytes" where
  "sign_text v includeSign = (if sint v < 0 then [45] else if includeSign then [43] else [])"

definition magnitude :: "64 word \<Rightarrow> 64 word" where
  "magnitude v = (if sint v < 0 then - v else v)"

lemma CreateFromInteger_ok:
  assumes "2 \<le> b" and "b \<le> 36"
  shows "String_CreateFromInteger v b includeSign = Some (Some (sign_text v includeSign @ number_text (nat b) (unat (magnitude v))))"
proof -
  obtain buffer dest where 1: "String_CreateFromIntegerInternal (replicate (nat BUFFER_SIZE) None) (magnitude v) (of_int b) = Some (buffer, dest)"
    "filled_back buffer dest (number_text (nat b) (unat (magnitude v)))" "0 < dest"
    using CreateFromIntegerInternal_ok [OF assms, of "magnitude v"] by blast
  obtain b1 where b1: "arr_set buffer (dest - 1) (Some 45) = Some b1" "filled_back b1 (dest - 1) (45 # number_text (nat b) (unat (magnitude v)))"
    using filled_back_put [OF 1(2,3)] by blast
  obtain b2 where b2: "arr_set buffer (dest - 1) (Some 43) = Some b2" "filled_back b2 (dest - 1) (43 # number_text (nat b) (unat (magnitude v)))"
    using filled_back_put [OF 1(2,3)] by blast
  show ?thesis
    using assms 1(1) b1(1) b2(1) filled_back_Create [OF 1(2)] filled_back_Create [OF b1(2)] filled_back_Create [OF b2(2)]
    by (simp add: String_CreateFromInteger_def sign_text_def magnitude_def Let_def split: if_splits)
qed

lemma CreateFromUnsigned_ok:
  assumes "2 \<le> b" and "b \<le> 36"
  shows "String_CreateFromUnsignedInteger v b = Some (Some (number_text (nat b) (unat v)))"
proof -
  obtain buffer dest where 1: "String_CreateFromIntegerInternal (replicate (nat BUFFER_SIZE) None) v (of_int b) = Some (buffer, dest)"
    "filled_back buffer dest (number_text (nat b) (unat v))"
    using CreateFromIntegerInternal_ok [OF assms, of v] by blast
  then show ?thesis using assms filled_back_Create [OF 1(2)] by (simp add: String_CreateFromUnsignedInteger_def)
qed

text \<open>
  C11: Every 64-bit integer printed in any base from 2 to 36, with or without a plus sign, is its digits in that
  base after its sign, fits the buffer, and is read back as the same integer, the most negative one
  included; the same holds for unsigned integers. The reader is more liberal than it should be: one
  character after the digits that is no digit of the base is swallowed, and the number is accepted.
\<close>

theorem integer_text_roundtrip:
  assumes "2 \<le> b" and "b \<le> 36"
  shows "(\<exists>s. String_CreateFromInteger v b includeSign = Some (Some s) \<and>
      s = sign_text v includeSign @ number_text (nat b) (unat (magnitude v)) \<and>
      String_ParseInteger (Some s) b = Some (True, v) \<and>
      (\<forall>c. \<not> is_separator c \<and> b \<le> digit_value c \<longrightarrow> String_ParseInteger (Some (s @ [c])) b = Some (True, v))) \<and>
    (\<exists>s. String_CreateFromUnsignedInteger v b = Some (Some s) \<and> s = number_text (nat b) (unat v) \<and>
      String_ParseInteger (Some s) b = Some (True, v))"
proof (intro conjI)
  let ?s = "sign_text v includeSign @ number_text (nat b) (unat (magnitude v))"
  have p: "String_ParseInteger (Some (?s @ junk)) b = Some (True, v)" if "ends_number b junk" for junk
    using parse_ok [of "?s @ junk" "sign_text v includeSign" b "magnitude v" junk] assms that
    by (auto simp: sign_text_def magnitude_def split: if_splits)
  show "\<exists>s. String_CreateFromInteger v b includeSign = Some (Some s) \<and>
      s = sign_text v includeSign @ number_text (nat b) (unat (magnitude v)) \<and>
      String_ParseInteger (Some s) b = Some (True, v) \<and>
      (\<forall>c. \<not> is_separator c \<and> b \<le> digit_value c \<longrightarrow> String_ParseInteger (Some (s @ [c])) b = Some (True, v))"
    using p [of "[]"] p [of "[c]" for c] CreateFromInteger_ok [OF assms, of v includeSign] by (simp add: ends_number_def)
  show "\<exists>s. String_CreateFromUnsignedInteger v b = Some (Some s) \<and> s = number_text (nat b) (unat v) \<and>
      String_ParseInteger (Some s) b = Some (True, v)"
    using parse_ok [of "number_text (nat b) (unat v)" "[]" b v "[]"] CreateFromUnsigned_ok [OF assms] assms by (simp add: ends_number_def)
qed

theorem integer_text_roundtrip_witness:
  "String_ParseInteger (Some [45, 49, 50, 120]) 10 = Some (True, - 12)"
proof -
  have t: "sign_text (- 12) False @ number_text (nat 10) (unat (magnitude (- 12))) = [45, 49, 50]" by code_simp
  have c: "\<not> is_separator 120 \<and> 10 \<le> digit_value 120" by code_simp
  show ?thesis using integer_text_roundtrip [of 10 "- 12" False] c unfolding t by auto
qed


end
