(* ===== verification/ListStore.thy ===== *)
theory ListStore
  imports TextMemory
begin

text \<open>
  The list cells of the language and the functions on them that change no links
  (\<^verbatim>\<open>smilelib/src/smiletypes/smilelist.c\<close>, \<^verbatim>\<open>smilelist.h\<close>, \<^verbatim>\<open>smilenull.c\<close>). Lists are mutable: cells live in a
  store, may be shared, may end in any object, and may form cycles.
\<close>

section \<open>Objects and cells\<close>

text \<open>
  A reference to an object: the Null object, a list cell, or an object of another kind. A store is the
  sequence of the cells allocated so far; a cell is addressed by its position. Null has the layout of a
  cell whose two fields point to Null itself; an object of another kind has no such fields.
\<close>

datatype 'v obj = NullObj | Cell nat | Val 'v

record 'v SmileListInt =
  cell_a :: "'v obj"
  cell_d :: "'v obj"

type_synonym 'v store = "'v SmileListInt list"

fun is_list :: "'v obj \<Rightarrow> bool" where
  "is_list (Cell i) = True"
| "is_list NullObj = False"
| "is_list (Val v) = False"

fun is_null :: "'v obj \<Rightarrow> bool" where
  "is_null NullObj = True"
| "is_null (Cell i) = False"
| "is_null (Val v) = False"

fun get_a :: "'v store \<Rightarrow> 'v obj \<Rightarrow> 'v obj option" where
  "get_a h NullObj = Some NullObj"
| "get_a h (Cell i) = (if i < length h then Some (cell_a (h ! i)) else None)"
| "get_a h (Val v) = None"

fun get_d :: "'v store \<Rightarrow> 'v obj \<Rightarrow> 'v obj option" where
  "get_d h NullObj = Some NullObj"
| "get_d h (Cell i) = (if i < length h then Some (cell_d (h ! i)) else None)"
| "get_d h (Val v) = None"

text \<open>Storing Null in the \<open>d\<close> field of Null changes nothing; storing anything else there would break Null.\<close>

fun set_d :: "'v store \<Rightarrow> 'v obj \<Rightarrow> 'v obj \<Rightarrow> 'v store option" where
  "set_d h NullObj x = (if is_null x then Some h else None)"
| "set_d h (Cell i) x = (if i < length h then Some (h[i := (h ! i)\<lparr>cell_d := x\<rparr>]) else None)"
| "set_d h (Val v) x = None"

definition SmileList_Cons :: "'v store \<Rightarrow> 'v obj \<Rightarrow> 'v obj \<Rightarrow> 'v store \<times> 'v obj" where
  "SmileList_Cons h a d = (h @ [\<lparr>cell_a = a, cell_d = d\<rparr>], Cell (length h))"

definition SmileList_Rest :: "'v store \<Rightarrow> 'v obj \<Rightarrow> 'v obj option" where
  "SmileList_Rest h list = Option.bind (get_d h list) (\<lambda>d. Some (if is_list d then d else NullObj))"

definition SmileList_First :: "'v store \<Rightarrow> 'v obj \<Rightarrow> 'v obj option" where
  "SmileList_First h list = get_a h list"

definition LIST_APPEND ::
  "'v store \<Rightarrow> 'v obj \<Rightarrow> 'v obj \<Rightarrow> 'v obj \<Rightarrow> ('v store \<times> 'v obj \<times> 'v obj) option" where
  "LIST_APPEND h head tail newElement =
     (let (h, c) = SmileList_Cons h newElement NullObj
      in if is_null head then Some (h, c, c)
         else Option.bind (set_d h tail c) (\<lambda>h. Some (h, head, c)))"

section \<open>Traversals\<close>

fun create_list_loop ::
  "'v store \<Rightarrow> 'v obj \<Rightarrow> 'v obj \<Rightarrow> 'v obj list \<Rightarrow> nat \<Rightarrow> ('v store \<times> 'v obj) option" where
  "create_list_loop h head tail objects 0 = Some (h, head)"
| "create_list_loop h head tail [] (Suc n) = None"
| "create_list_loop h head tail (x # objects) (Suc n) =
     Option.bind (LIST_APPEND h head tail x) (\<lambda>(h, head, tail). create_list_loop h head tail objects n)"

definition SmileList_CreateListFromArray :: "'v store \<Rightarrow> 'v obj list \<Rightarrow> int \<Rightarrow> ('v store \<times> 'v obj) option" where
  "SmileList_CreateListFromArray h objects numObjects = create_list_loop h NullObj NullObj objects (nat numObjects)"

text \<open>The loops over the cells of a list: where the list ends, and the number of its cells.\<close>

partial_function (option) length_loop :: "'v store \<Rightarrow> 'v obj \<Rightarrow> int \<Rightarrow> ('v obj \<times> int) option" where
  "length_loop h list n =
     (if is_list list then Option.bind (get_d h list) (\<lambda>d. length_loop h d (n + 1)) else Some (list, n))"

declare length_loop.simps [code]

definition SmileList_Length :: "'v store \<Rightarrow> 'v obj \<Rightarrow> int option" where
  "SmileList_Length h list = Option.bind (length_loop h list 0) (\<lambda>(list, n). Some (if is_null list then n else -1))"

definition IsNormallyStructuredList :: "'v store \<Rightarrow> 'v obj \<Rightarrow> bool option" where
  "IsNormallyStructuredList h list = Option.bind (length_loop h list 0) (\<lambda>(list, n). Some (is_null list))"

text \<open>\<open>Some None\<close> is the C pointer \<^verbatim>\<open>NULL\<close>.\<close>

partial_function (option) cell_at_loop :: "'v store \<Rightarrow> 'v obj \<Rightarrow> int \<Rightarrow> int \<Rightarrow> 'v obj option option" where
  "cell_at_loop h list index n =
     (if is_list list
      then if index = n then Some (Some list)
           else Option.bind (get_d h list) (\<lambda>d. cell_at_loop h d index (n + 1))
      else Some None)"

declare cell_at_loop.simps [code]

definition SmileList_CellAt :: "'v store \<Rightarrow> 'v obj \<Rightarrow> int \<Rightarrow> 'v obj option option" where
  "SmileList_CellAt h list index = (if index < 0 then Some None else cell_at_loop h list index 0)"

text \<open>Copies. The last component is what is stored through \<^verbatim>\<open>newTail\<close>, \<open>None\<close> when nothing is.\<close>

partial_function (option) clone_range_loop ::
  "'v store \<Rightarrow> 'v obj \<Rightarrow> int \<Rightarrow> 'v obj \<Rightarrow> 'v obj \<Rightarrow> ('v store \<times> 'v obj \<times> 'v obj \<times> 'v obj) option" where
  "clone_range_loop h list len destHead destTail =
     (if is_list list \<and> len \<noteq> 0
      then Option.bind (get_a h list) (\<lambda>a.
           Option.bind (LIST_APPEND h destHead destTail a) (\<lambda>(h, destHead, destTail).
           Option.bind (get_d h list) (\<lambda>d. clone_range_loop h d (len - 1) destHead destTail)))
      else Some (h, list, destHead, destTail))"

declare clone_range_loop.simps [code]

definition SmileList_CloneRange ::
  "'v store \<Rightarrow> 'v obj \<Rightarrow> int \<Rightarrow> int \<Rightarrow> ('v store \<times> 'v obj \<times> 'v obj option) option" where
  "SmileList_CloneRange h list start len =
     (let (start, len) = (if start < 0 then (0, i64 (len + start)) else (start, len))
      in if len \<le> 0 then Some (h, NullObj, None)
         else Option.bind (SmileList_CellAt h list start) (\<lambda>r.
           case r of
             None \<Rightarrow> Some (h, NullObj, None)
           | Some list \<Rightarrow>
               if \<not> is_list list then Some (h, list, None)
               else Option.bind (clone_range_loop h list len NullObj NullObj) (\<lambda>(h, list, destHead, destTail).
                    Option.bind (set_d h destTail (if is_list list then NullObj else list)) (\<lambda>h.
                    Some (h, destHead, Some destTail)))))"

partial_function (option) clone_reverse_loop ::
  "'v store \<Rightarrow> 'v obj \<Rightarrow> 'v obj \<Rightarrow> 'v obj \<Rightarrow> ('v store \<times> 'v obj \<times> 'v obj) option" where
  "clone_reverse_loop h list destHead destTail =
     (if is_list list
      then Option.bind (get_a h list) (\<lambda>a.
           case SmileList_Cons h a destHead of (h, newCell) \<Rightarrow>
           Option.bind (get_d h list) (\<lambda>d.
             clone_reverse_loop h d newCell (if is_null destTail then newCell else destTail)))
      else Some (h, destHead, destTail))"

declare clone_reverse_loop.simps [code]

definition SmileList_CloneReverse :: "'v store \<Rightarrow> 'v obj \<Rightarrow> ('v store \<times> 'v obj \<times> 'v obj) option" where
  "SmileList_CloneReverse h list = clone_reverse_loop h list NullObj NullObj"

section \<open>Reversing and thinning out in place\<close>

partial_function (option) reverse_loop ::
  "'v store \<Rightarrow> 'v obj \<Rightarrow> 'v obj \<Rightarrow> 'v obj \<Rightarrow> ('v store \<times> 'v obj \<times> 'v obj) option" where
  "reverse_loop h list destHead destTail =
     (if is_list list
      then Option.bind (get_d h list) (\<lambda>next.
           if is_null destHead
           then Option.bind (set_d h list NullObj) (\<lambda>h. reverse_loop h next list list)
           else Option.bind (set_d h list destHead) (\<lambda>h. reverse_loop h next list destTail))
      else Some (h, destHead, destTail))"

declare reverse_loop.simps [code]

definition SmileList_Reverse :: "'v store \<Rightarrow> 'v obj \<Rightarrow> ('v store \<times> 'v obj \<times> 'v obj) option" where
  "SmileList_Reverse h list = reverse_loop h list NullObj NullObj"

fun skip_cells :: "'v store \<Rightarrow> 'v obj \<Rightarrow> nat \<Rightarrow> 'v obj option" where
  "skip_cells h list 0 = Some list"
| "skip_cells h list (Suc n) = Option.bind (SmileList_Rest h list) (\<lambda>list. skip_cells h list n)"

partial_function (option) stepping_loop ::
  "'v store \<Rightarrow> 'v obj \<Rightarrow> int \<Rightarrow> 'v obj \<Rightarrow> 'v obj \<Rightarrow> ('v store \<times> 'v obj \<times> 'v obj) option" where
  "stepping_loop h list step destHead destTail =
     (if is_list list
      then if is_null destTail
           then Option.bind (skip_cells h list (nat step)) (\<lambda>next. stepping_loop h next step list list)
           else Option.bind (set_d h destTail list) (\<lambda>h.
                Option.bind (skip_cells h list (nat step)) (\<lambda>next. stepping_loop h next step destHead list))
      else Some (h, destHead, destTail))"

declare stepping_loop.simps [code]

definition SmileList_ApplyStepping :: "'v store \<Rightarrow> 'v obj \<Rightarrow> int \<Rightarrow> ('v store \<times> 'v obj) option" where
  "SmileList_ApplyStepping h list step =
     (if step \<le> 1 then Some (h, list)
      else Option.bind (stepping_loop h list step NullObj NullObj) (\<lambda>(h, destHead, destTail).
           Option.bind (set_d h destTail NullObj) (\<lambda>h. Some (h, destHead))))"

section \<open>Walks that notice cycles\<close>

text \<open>
  The loop shared by the functions that detect cycles: the tortoise advances by one cell, the hare by two,
  and \<open>body\<close> is what the function does with the cell of the tortoise.
\<close>

partial_function (option) tortoise_loop ::
  "('v store \<Rightarrow> 's \<Rightarrow> 'v obj \<Rightarrow> ('v store \<times> 's) option) \<Rightarrow> ('v store \<Rightarrow> 'v obj \<Rightarrow> 'v obj option) \<Rightarrow>
   'v store \<Rightarrow> 's \<Rightarrow> 'v obj \<Rightarrow> 'v obj \<Rightarrow> ('v store \<times> 's \<times> 'v obj \<times> 'v obj) option" where
  "tortoise_loop body rest h s tortoise hare =
     (if tortoise \<noteq> hare \<and> is_list tortoise
      then Option.bind (body h s tortoise) (\<lambda>(h, s).
           Option.bind (get_d h tortoise) (\<lambda>tortoise.
           Option.bind (rest h hare) (\<lambda>hare.
           Option.bind (rest h hare) (\<lambda>hare. tortoise_loop body rest h s tortoise hare))))
      else Some (h, s, tortoise, hare))"

declare tortoise_loop.simps [code]

definition tortoise_walk ::
  "('v store \<Rightarrow> 's \<Rightarrow> 'v obj \<Rightarrow> ('v store \<times> 's) option) \<Rightarrow> ('v store \<Rightarrow> 'v obj \<Rightarrow> 'v obj option) \<Rightarrow>
   'v store \<Rightarrow> 's \<Rightarrow> 'v obj \<Rightarrow> ('v store \<times> 's \<times> 'v obj \<times> 'v obj) option" where
  "tortoise_walk body rest h s list =
     Option.bind (body h s list) (\<lambda>(h, s).
     Option.bind (get_d h list) (\<lambda>tortoise.
     Option.bind (rest h tortoise) (\<lambda>hare. tortoise_loop body rest h s tortoise hare)))"

definition length_body :: "'v store \<Rightarrow> int \<Rightarrow> 'v obj \<Rightarrow> ('v store \<times> int) option" where
  "length_body h len tortoise = Some (h, len + 1)"

definition SmileList_SafeLength :: "'v store \<Rightarrow> 'v obj \<Rightarrow> int option" where
  "SmileList_SafeLength h list =
     (if \<not> is_list list then Some 0
      else Option.bind (tortoise_walk length_body SmileList_Rest h 0 list) (\<lambda>(h, len, tortoise, hare).
           Some (if \<not> is_list tortoise then len else -1)))"

definition tail_body :: "'v store \<Rightarrow> 'v obj \<Rightarrow> 'v obj \<Rightarrow> ('v store \<times> 'v obj) option" where
  "tail_body h lst tortoise = Some (h, tortoise)"

definition SmileList_SafeTail :: "'v store \<Rightarrow> 'v obj \<Rightarrow> 'v obj option option" where
  "SmileList_SafeTail h list =
     (if \<not> is_list list then Some (Some list)
      else Option.bind (tortoise_walk tail_body SmileList_Rest h list list) (\<lambda>(h, lst, tortoise, hare).
           Some (if \<not> is_list tortoise then Some lst else None)))"

definition clone_body ::
  "'v store \<Rightarrow> 'v obj \<times> 'v obj \<Rightarrow> 'v obj \<Rightarrow> ('v store \<times> 'v obj \<times> 'v obj) option" where
  "clone_body h dest tortoise =
     Option.bind (get_a h tortoise) (\<lambda>a. LIST_APPEND h (fst dest) (snd dest) a)"

definition SmileList_SafeClone ::
  "'v store \<Rightarrow> 'v obj \<Rightarrow> ('v store \<times> 'v obj option \<times> 'v obj option) option" where
  "SmileList_SafeClone h list =
     (if \<not> is_list list then Some (h, Some NullObj, None)
      else Option.bind (tortoise_walk clone_body SmileList_Rest h (NullObj, NullObj) list)
             (\<lambda>(h, (destHead, destTail), tortoise, hare).
           Some (h, if \<not> is_list tortoise then Some destHead else None, Some destTail)))"

definition no_body :: "'v store \<Rightarrow> unit \<Rightarrow> 'v obj \<Rightarrow> ('v store \<times> unit) option" where
  "no_body h s tortoise = Some (h, s)"

definition checked_rest :: "'v store \<Rightarrow> 'v obj \<Rightarrow> 'v obj option" where
  "checked_rest h hare = (if is_list hare then get_d h hare else Some NullObj)"

definition SmileList_IsWellFormed :: "'v store \<Rightarrow> 'v obj \<Rightarrow> bool option" where
  "SmileList_IsWellFormed h probableList =
     (if \<not> is_list probableList then Some (is_null probableList)
      else Option.bind (tortoise_walk no_body checked_rest h () probableList) (\<lambda>(h, s, tortoise, hare).
           Some (is_null tortoise)))"

definition SmileList_HasCycle :: "'v store \<Rightarrow> 'v obj \<Rightarrow> bool option" where
  "SmileList_HasCycle h probableList =
     (if \<not> is_list probableList then Some False
      else Option.bind (tortoise_walk no_body SmileList_Rest h () probableList) (\<lambda>(h, s, tortoise, hare).
           Some (is_list tortoise \<and> tortoise = hare)))"

end
