(* ===== verification/Lists.thy ===== *)
theory Lists
  imports ListStore
begin

text \<open>
  What the list functions compute, over paths of cells in the store: lengths, positions, copies, and
  reversal and thinning in place.
\<close>

section \<open>Paths\<close>

text \<open>\<open>path h x cs y\<close>: following the \<open>d\<close> fields from \<open>x\<close> visits the cells \<open>cs\<close> and arrives at \<open>y\<close>.\<close>

fun path :: "'v store \<Rightarrow> 'v obj \<Rightarrow> nat list \<Rightarrow> 'v obj \<Rightarrow> bool" where
  "path h x [] y \<longleftrightarrow> x = y"
| "path h x (c # cs) y \<longleftrightarrow> x = Cell c \<and> c < length h \<and> path h (cell_d (h ! c)) cs y"

definition items :: "'v store \<Rightarrow> nat list \<Rightarrow> 'v obj list" where
  "items h cs = map (\<lambda>c. cell_a (h ! c)) cs"

lemma items_simps [simp]:
  "items h [] = []" "items h (c # cs) = cell_a (h ! c) # items h cs"
  "items h (cs @ ds) = items h cs @ items h ds" "length (items h cs) = length cs"
  by (simp_all add: items_def)

lemma items_rev: "items h (rev cs) = rev (items h cs)"
  by (simp add: items_def rev_map)

lemma path_append [simp]: "path h x (cs @ ds) y \<longleftrightarrow> (\<exists>z. path h x cs z \<and> path h z ds y)"
  by (induction cs arbitrary: x) auto

lemma path_cells: "path h x cs y \<Longrightarrow> set cs \<subseteq> {..<length h}"
  by (induction cs arbitrary: x) auto

lemma path_frame: "(\<And>c. c \<in> set cs \<Longrightarrow> c < length h' \<and> cell_d (h' ! c) = cell_d (h ! c)) \<Longrightarrow> path h x cs y \<Longrightarrow> path h' x cs y"
  by (induction cs arbitrary: x) auto

lemma path_update [simp]: "i \<notin> set cs \<Longrightarrow> path (h[i := c]) x cs y = path h x cs y"
  by (induction cs arbitrary: x) auto

lemma path_grow: "path h x cs y \<Longrightarrow> path (h @ h') x cs y"
  by (induction cs arbitrary: x) (auto simp: nth_append)

lemma path_unique:
  assumes "path h x cs y" and "path h x ds z" and "\<not> is_list y" and "\<not> is_list z"
  shows "cs = ds \<and> y = z"
  using assms
proof (induction cs arbitrary: x ds)
  case Nil
  then show ?case by (cases ds) auto
next
  case (Cons c cs)
  then show ?case by (cases ds) auto
qed

lemma path_distinct:
  assumes "path h x cs y" and "\<not> is_list y"
  shows "distinct cs"
proof (rule ccontr)
  assume "\<not> distinct cs"
  then obtain us vs ws c where "cs = us @ [c] @ vs @ [c] @ ws" by (metis not_distinct_decomp)
  then have "path h (Cell c) (c # vs @ c # ws) y" "path h (Cell c) (c # ws) y" using assms(1) by auto
  then show False using path_unique [of h "Cell c" "c # vs @ c # ws" y "c # ws" y] assms(2) by simp
qed

text \<open>A list: a path that does not end in a cell.\<close>

definition list_at :: "'v store \<Rightarrow> 'v obj \<Rightarrow> nat list \<Rightarrow> 'v obj \<Rightarrow> bool" where
  "list_at h x cs y \<longleftrightarrow> path h x cs y \<and> \<not> is_list y"

lemma list_at_Nil [simp]: "list_at h x [] y \<longleftrightarrow> x = y \<and> \<not> is_list y"
  by (auto simp: list_at_def)

lemma list_at_Cons [simp]:
  "list_at h x (c # cs) y \<longleftrightarrow> x = Cell c \<and> c < length h \<and> list_at h (cell_d (h ! c)) cs y"
  by (auto simp: list_at_def)

lemma list_at_distinct: "list_at h x cs y \<Longrightarrow> distinct cs"
  by (auto simp: list_at_def intro: path_distinct)

lemma list_at_bound: "list_at h x cs y \<Longrightarrow> c \<in> set cs \<Longrightarrow> c < length h"
  using path_cells by (fastforce simp: list_at_def)

lemma list_at_grow: "list_at h x cs y \<Longrightarrow> list_at (h @ h') x cs y"
  by (simp add: list_at_def path_grow)

text \<open>A store that only gained cells.\<close>

definition extends :: "'v store \<Rightarrow> 'v store \<Rightarrow> bool" where
  "extends h h' \<longleftrightarrow> (\<exists>k. h' = h @ k)"

lemma extends_refl [simp]: "extends h h"
  by (simp add: extends_def)

lemma extends_trans: "extends h h' \<Longrightarrow> extends h' h'' \<Longrightarrow> extends h h''"
  by (auto simp: extends_def)

lemma extends_list_at: "extends h h' \<Longrightarrow> list_at h x cs y \<Longrightarrow> list_at h' x cs y"
  by (auto simp: extends_def intro: list_at_grow)

lemma extends_nth: "extends h h' \<Longrightarrow> c < length h \<Longrightarrow> h' ! c = h ! c"
  by (auto simp: extends_def nth_append)

lemma extends_length: "extends h h' \<Longrightarrow> length h \<le> length h'"
  by (auto simp: extends_def)

section \<open>Lengths and positions\<close>

lemma length_loop_ok: "list_at h x cs y \<Longrightarrow> length_loop h x n = Some (y, n + int (length cs))"
proof (induction cs arbitrary: x n)
  case Nil
  then show ?case by (subst length_loop.simps) simp
next
  case (Cons c cs)
  then show ?case using Cons.IH [of "cell_d (h ! c)" "n + 1"] by (subst length_loop.simps) simp
qed

lemma cell_at_loop_ok:
  "list_at h x cs y \<Longrightarrow> n \<le> index \<Longrightarrow>
   cell_at_loop h x index n = Some (if index - n < int (length cs) then Some (Cell (cs ! nat (index - n))) else None)"
proof (induction cs arbitrary: x n)
  case Nil
  then show ?case by (subst cell_at_loop.simps) auto
next
  case (Cons c cs)
  show ?case
  proof (cases "index = n")
    case True
    then show ?thesis using Cons.prems by (subst cell_at_loop.simps) simp
  next
    case False
    then have "nat (index - n) = Suc (nat (index - (n + 1)))" using Cons.prems(2) by linarith
    then show ?thesis
      using Cons.IH [of "cell_d (h ! c)" "n + 1"] Cons.prems False by (subst cell_at_loop.simps) auto
  qed
qed

lemma SmileList_CellAt_ok:
  "list_at h x cs y \<Longrightarrow>
   SmileList_CellAt h x index = Some (if 0 \<le> index \<and> index < int (length cs) then Some (Cell (cs ! nat index)) else None)"
  by (simp add: SmileList_CellAt_def cell_at_loop_ok [where n = 0])

section \<open>Copies\<close>

text \<open>
  A copy under construction: new cells only, holding \<open>xs\<close>, from \<open>head\<close> to \<open>tail\<close>; the old store is a part
  of the new one.
\<close>

definition copying :: "'v store \<Rightarrow> 'v store \<Rightarrow> 'v obj \<Rightarrow> 'v obj \<Rightarrow> 'v obj list \<Rightarrow> bool" where
  "copying h0 h head tail xs \<longleftrightarrow>
     extends h0 h \<and> (\<exists>cs. path h head cs NullObj \<and> items h cs = xs \<and> (\<forall>c \<in> set cs. length h0 \<le> c) \<and>
       tail = (if cs = [] then NullObj else Cell (last cs)))"

lemma copying_start [simp]: "copying h0 h0 NullObj NullObj []"
  by (auto simp: copying_def intro: exI [of _ "[]"])

lemma copying_extends: "copying h0 h head tail xs \<Longrightarrow> extends h0 h"
  by (simp add: copying_def)

lemma copying_append:
  assumes "copying h0 h head tail xs"
  shows "\<exists>h' head' tail'. LIST_APPEND h head tail x = Some (h', head', tail') \<and> copying h0 h' head' tail' (xs @ [x])"
proof -
  obtain k cs where h: "h = h0 @ k" and cs: "path h head cs NullObj" "items h cs = xs" "\<forall>c \<in> set cs. length h0 \<le> c"
    "tail = (if cs = [] then NullObj else Cell (last cs))"
    using assms by (auto simp: copying_def extends_def)
  let ?c = "\<lparr>cell_a = x, cell_d = NullObj\<rparr>"
  show ?thesis
  proof (cases cs rule: rev_cases)
    case Nil
    then show ?thesis
      using cs h by (auto simp: LIST_APPEND_def SmileList_Cons_def copying_def extends_def intro!: exI [of _ "[length h]"])
  next
    case (snoc bs b)
    have b: "b < length h" and n: "head \<noteq> NullObj" using cs(1) snoc by (cases bs; auto)+
    let ?h = "(h @ [?c])[b := (h ! b)\<lparr>cell_d := Cell (length h)\<rparr>]"
    have d: "distinct cs" using path_distinct [OF cs(1)] by simp
    have e: "?h = h0 @ ((k @ [?c])[b - length h0 := (h ! b)\<lparr>cell_d := Cell (length h)\<rparr>])"
      using h cs(3) snoc by (simp add: list_update_append)
    have "path h head bs (Cell b)" using cs(1) snoc by auto
    then have "path ?h head bs (Cell b)" using d snoc by (simp add: path_grow)
    then have p: "path ?h head (cs @ [length h]) NullObj" using b snoc by (simp add: nth_append)
    have "items ?h cs = xs"
      using cs(2) path_cells [OF cs(1)] b by (auto simp: items_def nth_append nth_list_update)
    then have i: "items ?h (cs @ [length h]) = xs @ [x]" using b by (simp add: nth_append)
    have "LIST_APPEND h head tail x = Some (?h, head, Cell (length h))"
      using n b snoc cs(4) by (cases head) (simp_all add: LIST_APPEND_def SmileList_Cons_def nth_append)
    moreover have "copying h0 ?h head (Cell (length h)) (xs @ [x])"
      unfolding copying_def extends_def using e p i cs(3) h by (intro conjI exI [of _ "cs @ [length h]"]) auto
    ultimately show ?thesis by blast
  qed
qed

lemma create_list_loop_ok:
  assumes "copying h0 h head tail xs" and "n \<le> length objs"
  shows "\<exists>h' head' tail'. create_list_loop h head tail objs n = Some (h', head') \<and>
    copying h0 h' head' tail' (xs @ take n objs)"
  using assms
proof (induction n arbitrary: h head tail xs objs)
  case 0
  then show ?case by auto
next
  case (Suc n)
  then obtain x ys where o: "objs = x # ys" by (cases objs) auto
  obtain h1 hd1 tl1 where 1: "LIST_APPEND h head tail x = Some (h1, hd1, tl1)" "copying h0 h1 hd1 tl1 (xs @ [x])"
    using copying_append [OF Suc.prems(1)] by blast
  then show ?case using Suc.IH [OF 1(2), of ys] Suc.prems(2) o by auto
qed

lemma clone_range_loop_ok:
  assumes "list_at h0 x cs y" and "copying h0 h head tail xs" and "0 \<le> len"
  shows "\<exists>h' head' tail' r. clone_range_loop h x len head tail = Some (h', r, head', tail') \<and>
    copying h0 h' head' tail' (xs @ take (nat len) (items h0 cs)) \<and>
    (if int (length cs) \<le> len then r = y else is_list r)"
  using assms
proof (induction cs arbitrary: x h head tail xs len)
  case Nil
  then show ?case by (subst clone_range_loop.simps) auto
next
  case (Cons c cs)
  show ?case
  proof (cases "len = 0")
    case True
    then show ?thesis using Cons.prems by (subst clone_range_loop.simps) auto
  next
    case False
    have e: "extends h0 h" using Cons.prems(2) by (simp add: copying_def)
    have c: "x = Cell c" "c < length h0" "list_at h0 (cell_d (h0 ! c)) cs y" using Cons.prems(1) by auto
    obtain h1 hd1 tl1 where 1: "LIST_APPEND h head tail (cell_a (h0 ! c)) = Some (h1, hd1, tl1)"
      "copying h0 h1 hd1 tl1 (xs @ [cell_a (h0 ! c)])"
      using copying_append [OF Cons.prems(2)] by blast
    have e1: "extends h0 h1" using 1(2) by (simp add: copying_def)
    have l: "c < length h" "c < length h1" using c(2) extends_length [OF e] extends_length [OF e1] by auto
    have n: "nat len = Suc (nat (len - 1))" using Cons.prems(3) False by linarith
    obtain h2 hd2 tl2 r where 2: "clone_range_loop h1 (cell_d (h0 ! c)) (len - 1) hd1 tl1 = Some (h2, r, hd2, tl2)"
      "copying h0 h2 hd2 tl2 ((xs @ [cell_a (h0 ! c)]) @ take (nat (len - 1)) (items h0 cs))"
      "if int (length cs) \<le> len - 1 then r = y else is_list r"
      using Cons.IH [OF c(3) 1(2), of "len - 1"] Cons.prems(3) False by auto
    have "clone_range_loop h x len head tail = Some (h2, r, hd2, tl2)"
      using False c(1,2) 1(1) 2(1) l extends_nth [OF e] extends_nth [OF e1] by (subst clone_range_loop.simps) simp
    then show ?thesis using 2(2,3)
      by (intro exI [of _ h2] exI [of _ hd2] exI [of _ tl2] exI [of _ r]) (auto simp: n split: if_splits)
  qed
qed


lemma copying_list_at: "copying h0 h head tail xs \<Longrightarrow> \<exists>cs. list_at h head cs NullObj \<and> items h cs = xs"
  by (auto simp: copying_def list_at_def)

text \<open>Replacing the end of a copy.\<close>

lemma copying_end:
  assumes "copying h0 h head tail xs" and "xs \<noteq> []" and "\<not> is_list y"
  shows "\<exists>h' cs. set_d h tail y = Some h' \<and> extends h0 h' \<and> list_at h' head cs y \<and> items h' cs = xs \<and> tail = Cell (last cs)"
proof -
  obtain k cs where h: "h = h0 @ k" and cs: "path h head cs NullObj" "items h cs = xs" "\<forall>c \<in> set cs. length h0 \<le> c"
    "tail = (if cs = [] then NullObj else Cell (last cs))"
    using assms(1) by (auto simp: copying_def extends_def)
  obtain bs b where snoc: "cs = bs @ [b]" using cs(2) assms(2) by (cases cs rule: rev_cases) auto
  have b: "b < length h" "b \<notin> set bs" using cs(1) path_distinct [OF cs(1)] snoc by auto
  let ?h = "h[b := (h ! b)\<lparr>cell_d := y\<rparr>]"
  have "?h = h0 @ (k[b - length h0 := (h ! b)\<lparr>cell_d := y\<rparr>])" using h cs(3) snoc by (simp add: list_update_append)
  then have "extends h0 ?h" by (auto simp: extends_def)
  moreover have "list_at ?h head cs y" using cs(1) snoc b assms(3) by (auto simp: list_at_def)
  moreover have "items ?h cs = xs" using cs(2) b by (auto simp: items_def nth_list_update)
  ultimately show ?thesis using b snoc cs(4) by auto
qed

lemma nth_list_at:
  assumes "list_at h x cs y" and "i < length cs"
  shows "list_at h (Cell (cs ! i)) (drop i cs) y"
  using assms
proof (induction i arbitrary: x cs)
  case 0
  then show ?case by (cases cs) auto
next
  case (Suc i)
  then show ?case by (cases cs) auto
qed

lemma CloneRange_ok:
  assumes "list_at h x cs y" and "0 \<le> start" and "start < int (length cs)" and "0 < len"
  shows "\<exists>h' head tail ds z. SmileList_CloneRange h x start len = Some (h', head, Some tail) \<and> extends h h' \<and>
    list_at h' head ds z \<and> items h' ds = take (nat len) (drop (nat start) (items h cs)) \<and> tail = Cell (last ds) \<and>
    z = (if int (length cs) \<le> start + len then y else NullObj)"
proof -
  let ?i = "nat start" and ?ys = "take (nat len) (items h (drop (nat start) cs))"
  have l: "list_at h (Cell (cs ! ?i)) (drop ?i cs) y" using assms by (intro nth_list_at) auto
  obtain h1 hd1 tl1 r where 1: "clone_range_loop h (Cell (cs ! ?i)) len NullObj NullObj = Some (h1, r, hd1, tl1)"
    "copying h h1 hd1 tl1 ?ys" "if int (length (drop ?i cs)) \<le> len then r = y else is_list r"
    using clone_range_loop_ok [OF l copying_start, of len] assms(4) by auto
  let ?z = "if is_list r then NullObj else r"
  have z: "?z = (if int (length cs) \<le> start + len then y else NullObj)"
    using 1(3) assms(1-3) by (auto simp: list_at_def split: if_splits)
  have "length ?ys > 0" using assms by simp
  then have n: "?ys \<noteq> []" by blast
  have nl: "\<not> is_list ?z" by simp
  obtain h2 ds where 2: "set_d h1 tl1 ?z = Some h2" "extends h h2" "list_at h2 hd1 ds ?z" "items h2 ds = ?ys" "tl1 = Cell (last ds)"
    using copying_end [OF 1(2) n nl] by blast
  have "SmileList_CloneRange h x start len = Some (h2, hd1, Some tl1)"
    using assms 1(1) 2(1) SmileList_CellAt_ok [OF assms(1), of start] by (simp add: SmileList_CloneRange_def)
  then show ?thesis using 2 z by (auto simp: items_def drop_map)
qed

lemma clone_reverse_loop_ok:
  assumes "list_at h0 x cs y" and "extends h0 h" and "list_at h head ds NullObj" and "items h ds = xs"
    and "tail = (if ds = [] then NullObj else Cell (last ds))"
  shows "\<exists>h' head' tail' es. clone_reverse_loop h x head tail = Some (h', head', tail') \<and> extends h0 h' \<and>
    list_at h' head' es NullObj \<and> items h' es = rev (items h0 cs) @ xs \<and> tail' = (if es = [] then NullObj else Cell (last es))"
  using assms
proof (induction cs arbitrary: x h head tail ds xs)
  case Nil
  then show ?case by (subst clone_reverse_loop.simps) auto
next
  case (Cons c cs)
  let ?a = "cell_a (h0 ! c)" and ?n = "Cell (length h)"
  let ?h = "h @ [\<lparr>cell_a = ?a, cell_d = head\<rparr>]"
  have c: "x = Cell c" "c < length h0" "list_at h0 (cell_d (h0 ! c)) cs y" using Cons.prems(1) by auto
  have l: "c < length h" "h ! c = h0 ! c" using c(2) extends_length extends_nth Cons.prems(2) by force+
  have 1: "extends h0 ?h" using Cons.prems(2) by (auto simp: extends_def)
  have 2: "list_at ?h ?n (length h # ds) NullObj" using Cons.prems(3) by (simp add: nth_append list_at_grow)
  have 3: "items ?h (length h # ds) = ?a # xs"
    using Cons.prems(3,4) list_at_bound by (force simp: items_def nth_append)
  let ?t = "if is_null tail then ?n else tail"
  have 4: "?t = (if length h # ds = [] then NullObj else Cell (last (length h # ds)))" using Cons.prems(5) by simp
  have "clone_reverse_loop h x head tail = clone_reverse_loop ?h (cell_d (h0 ! c)) ?n ?t"
    using c(1) l by (subst clone_reverse_loop.simps) (simp add: SmileList_Cons_def nth_append)
  then show ?case using Cons.IH [OF c(3) 1 2 3 4] by simp
qed


section \<open>Changing links in place\<close>

text \<open>Only \<open>d\<close> fields of cells in \<open>S\<close> have changed.\<close>

definition relinked :: "nat set \<Rightarrow> 'v store \<Rightarrow> 'v store \<Rightarrow> bool" where
  "relinked S h h' \<longleftrightarrow>
     length h' = length h \<and> (\<forall>c < length h. cell_a (h' ! c) = cell_a (h ! c) \<and> (c \<notin> S \<longrightarrow> h' ! c = h ! c))"

lemma relinked_refl [simp]: "relinked S h h"
  by (simp add: relinked_def)

lemma relinked_trans: "relinked S h h' \<Longrightarrow> relinked T h' h'' \<Longrightarrow> relinked (S \<union> T) h h''"
  by (simp add: relinked_def)

lemma relinked_mono: "relinked S h h' \<Longrightarrow> S \<subseteq> T \<Longrightarrow> relinked T h h'"
  by (auto simp: relinked_def)

lemma relinked_update: "c \<in> S \<Longrightarrow> relinked S h (h[c := (h ! c)\<lparr>cell_d := x\<rparr>])"
  by (cases "c < length h") (auto simp: relinked_def nth_list_update)

lemma relinked_items: "relinked S h h' \<Longrightarrow> set cs \<subseteq> {..<length h} \<Longrightarrow> items h' cs = items h cs"
  by (auto simp: relinked_def items_def)

lemma relinked_path: "relinked S h h' \<Longrightarrow> path h x cs y \<Longrightarrow> set cs \<inter> S = {} \<Longrightarrow> path h' x cs y"
  by (rule path_frame [of cs h' h]) (use path_cells [of h x cs y] in \<open>auto simp: relinked_def\<close>)

lemma relinked_list_at: "relinked S h h' \<Longrightarrow> list_at h x cs y \<Longrightarrow> set cs \<inter> S = {} \<Longrightarrow> list_at h' x cs y"
  by (auto simp: list_at_def relinked_path)

lemma reverse_loop_ok:
  assumes "list_at h x cs y" and "list_at h head ds NullObj" and "set cs \<inter> set ds = {}"
    and "tail = (if ds = [] then NullObj else Cell (last ds))"
  shows "\<exists>h' head' tail'. reverse_loop h x head tail = Some (h', head', tail') \<and> relinked (set cs) h h' \<and>
    list_at h' head' (rev cs @ ds) NullObj \<and> tail' = (if rev cs @ ds = [] then NullObj else Cell (last (rev cs @ ds)))"
  using assms
proof (induction cs arbitrary: x h head tail ds)
  case Nil
  then show ?case by (subst reverse_loop.simps) auto
next
  case (Cons c cs)
  have c: "x = Cell c" "c < length h" "list_at h (cell_d (h ! c)) cs y" "c \<notin> set cs" "c \<notin> set ds"
    using Cons.prems list_at_distinct [OF Cons.prems(1)] by auto
  let ?h = "h[c := (h ! c)\<lparr>cell_d := head\<rparr>]" and ?t = "if is_null head then Cell c else tail"
  have r: "relinked {c} h ?h" by (simp add: relinked_update)
  have 1: "list_at ?h (cell_d (h ! c)) cs y" using relinked_list_at [OF r c(3)] c(4) by simp
  have 2: "list_at ?h (Cell c) (c # ds) NullObj" using relinked_list_at [OF r Cons.prems(2)] c(2,5) by simp
  have hd: "is_null head \<longleftrightarrow> ds = []" using Cons.prems(2) by (cases ds) auto
  have "reverse_loop h x head tail = reverse_loop ?h (cell_d (h ! c)) (Cell c) ?t"
    using c(1,2) by (subst reverse_loop.simps) (cases head; simp)
  moreover have "set cs \<inter> set (c # ds) = {}" using Cons.prems(3) c(4) by auto
  moreover have "?t = (if c # ds = [] then NullObj else Cell (last (c # ds)))" using Cons.prems(4) hd by simp
  ultimately obtain h' head' tail' where 3: "reverse_loop h x head tail = Some (h', head', tail')" "relinked (set cs) ?h h'"
    "list_at h' head' (rev cs @ c # ds) NullObj" "tail' = Cell (last (rev cs @ c # ds))"
    using Cons.IH [OF 1 2] by auto
  then show ?case using relinked_trans [OF r 3(2)] by simp
qed

text \<open>
  A list under construction from existing cells: the links between its cells are in place, the \<open>d\<close> field of
  its last cell is not.
\<close>

definition linked :: "'v store \<Rightarrow> 'v obj \<Rightarrow> nat list \<Rightarrow> 'v obj \<Rightarrow> bool" where
  "linked h head out tail \<longleftrightarrow>
     (if out = [] then head = NullObj \<and> tail = NullObj
      else path h head (butlast out) tail \<and> tail = Cell (last out) \<and> last out < length h) \<and> distinct out"

lemma linked_Nil [simp]: "linked h NullObj [] NullObj"
  by (simp add: linked_def)

lemma linked_empty: "linked h head out tail \<Longrightarrow> is_null tail \<longleftrightarrow> out = []" "linked h head out tail \<Longrightarrow> is_list tail \<longleftrightarrow> out \<noteq> []"
  by (auto simp: linked_def split: if_splits)

lemma linked_append:
  assumes "linked h head out tail" and "c < length h" and "c \<notin> set out"
  shows "\<exists>h'. (if is_list tail then set_d h tail (Cell c) else Some h) = Some h' \<and>
    linked h' (if is_list tail then head else Cell c) (out @ [c]) (Cell c) \<and> relinked (set out) h h'"
proof (cases out rule: rev_cases)
  case Nil
  then show ?thesis using assms by (auto simp: linked_def)
next
  case (snoc bs b)
  have l: "path h head bs (Cell b)" "tail = Cell b" "b < length h" "b \<notin> set bs" "distinct out"
    using assms(1) snoc by (auto simp: linked_def)
  let ?h = "h[b := (h ! b)\<lparr>cell_d := Cell c\<rparr>]"
  have "path ?h head out (Cell c)" using l snoc by auto
  then have "linked ?h head (out @ [c]) (Cell c)" using assms(2,3) l(5) by (simp add: linked_def)
  moreover have "relinked (set out) h ?h" using snoc by (intro relinked_update) simp
  ultimately show ?thesis using l by simp
qed

lemma linked_finish:
  assumes "linked h head out tail"
  shows "\<exists>h'. set_d h tail NullObj = Some h' \<and> list_at h' head out NullObj \<and> relinked (set out) h h'"
proof (cases out rule: rev_cases)
  case Nil
  then show ?thesis using assms by (auto simp: linked_def)
next
  case (snoc bs b)
  have l: "path h head bs (Cell b)" "tail = Cell b" "b < length h" "b \<notin> set bs"
    using assms(1) snoc by (auto simp: linked_def)
  let ?h = "h[b := (h ! b)\<lparr>cell_d := NullObj\<rparr>]"
  have "list_at ?h head out NullObj" using l snoc by (auto simp: list_at_def)
  moreover have "relinked (set out) h ?h" using snoc by (intro relinked_update) simp
  ultimately show ?thesis using l by auto
qed


text \<open>Every n-th item of a list, from the first on.\<close>

function every :: "nat \<Rightarrow> 'a list \<Rightarrow> 'a list" where
  "every n [] = []"
| "every n (x # xs) = x # every n (drop (n - 1) xs)"
  by pat_completeness auto
termination by (relation "measure (length \<circ> snd)") auto

lemma every_drop: "cs \<noteq> [] \<Longrightarrow> 0 < n \<Longrightarrow> every n cs = hd cs # every n (drop n cs)"
  by (cases cs; cases n) auto

lemma set_every: "set (every n xs) \<subseteq> set xs"
  by (induction n xs rule: every.induct) (auto dest: in_set_dropD)

lemma skip_cells_ok:
  assumes "list_at h x cs y" and "cs \<noteq> []" and "0 < n"
  shows "\<exists>x' y'. skip_cells h x n = Some x' \<and> list_at h x' (drop n cs) y'"
  using assms
proof (induction n arbitrary: x cs)
  case (Suc n)
  then obtain c ds where c: "cs = c # ds" "x = Cell c" "c < length h" "list_at h (cell_d (h ! c)) ds y"
    by (cases cs) auto
  have null: "skip_cells h NullObj m = Some NullObj" for m by (induction m) (simp_all add: SmileList_Rest_def)
  show ?case
  proof (cases "ds = []")
    case True
    then show ?thesis using c null [of n] by (simp add: SmileList_Rest_def)
  next
    case False
    then have l: "is_list (cell_d (h ! c))" using c(4) by (cases ds) auto
    show ?thesis
    proof (cases n)
      case 0
      then show ?thesis using c l by (auto simp: SmileList_Rest_def)
    next
      case (Suc m)
      then show ?thesis using Suc.IH [OF c(4) False] c l by (simp add: SmileList_Rest_def)
    qed
  qed
qed simp

lemma stepping_loop_ok:
  assumes "list_at h x cs y" and "linked h head out tail" and "set out \<inter> set cs = {}" and "0 < step"
  shows "\<exists>h' head' tail'. stepping_loop h x step head tail = Some (h', head', tail') \<and>
    linked h' head' (out @ every (nat step) cs) tail' \<and> relinked (set out \<union> set cs) h h'"
  using assms
proof (induction "length cs" arbitrary: x cs y h head tail out rule: less_induct)
  case less
  show ?case
  proof (cases cs)
    case Nil
    then show ?thesis using less.prems by (subst stepping_loop.simps) auto
  next
    case (Cons c ds)
    let ?n = "nat step"
    have c: "x = Cell c" "c < length h" "c \<notin> set out" using less.prems Cons by auto
    obtain h1 where 1: "(if is_list tail then set_d h tail (Cell c) else Some h) = Some h1"
      "linked h1 (if is_list tail then head else Cell c) (out @ [c]) (Cell c)" "relinked (set out) h h1"
      using linked_append [OF less.prems(2) c(2,3)] by blast
    have l1: "list_at h1 x cs y" using relinked_list_at [OF 1(3) less.prems(1)] less.prems(3) by blast
    obtain x' y' where 2: "skip_cells h1 x ?n = Some x'" "list_at h1 x' (drop ?n cs) y'"
      using skip_cells_ok [OF l1, of ?n] Cons less.prems(4) by auto
    have d: "distinct cs" by (rule list_at_distinct [OF less.prems(1)])
    have "set (drop ?n cs) \<subseteq> set ds"
      using less.prems(4) Cons by (cases ?n) (auto dest: in_set_dropD)
    then have "set (out @ [c]) \<inter> set (drop ?n cs) = {}" using less.prems(3) d Cons by auto
    then obtain h2 head2 tail2 where 3: "stepping_loop h1 x' step (if is_list tail then head else Cell c) (Cell c) = Some (h2, head2, tail2)"
      "linked h2 head2 ((out @ [c]) @ every ?n (drop ?n cs)) tail2" "relinked (set (out @ [c]) \<union> set (drop ?n cs)) h1 h2"
      using less.hyps [OF _ 2(2) 1(2) _ less.prems(4)] less.prems(4) Cons by auto
    have "stepping_loop h x step head tail = Some (h2, head2, tail2)"
      using c(1) 1(1) 2(1) 3(1) linked_empty [OF less.prems(2)] by (subst stepping_loop.simps) (auto split: if_splits)
    moreover have "out @ every ?n cs = (out @ [c]) @ every ?n (drop ?n cs)"
      using every_drop [of cs ?n] Cons less.prems(4) by simp
    moreover have "relinked (set out \<union> set cs) h h2"
      by (rule relinked_mono [OF relinked_trans [OF 1(3) 3(3)]]) (use Cons in \<open>auto dest: in_set_dropD\<close>)
    ultimately show ?thesis using 3(2) by auto
  qed
qed


lemma ApplyStepping_ok:
  assumes "list_at h x cs y" and "1 < step"
  shows "\<exists>h' x'. SmileList_ApplyStepping h x step = Some (h', x') \<and> list_at h' x' (every (nat step) cs) NullObj \<and>
    relinked (set cs) h h'"
proof -
  obtain h1 head tail where 1: "stepping_loop h x step NullObj NullObj = Some (h1, head, tail)"
    "linked h1 head (every (nat step) cs) tail" "relinked (set cs) h h1"
    using stepping_loop_ok [OF assms(1) linked_Nil, of step] assms(2) by auto
  obtain h2 where 2: "set_d h1 tail NullObj = Some h2" "list_at h2 head (every (nat step) cs) NullObj"
    "relinked (set (every (nat step) cs)) h1 h2"
    using linked_finish [OF 1(2)] by blast
  have "relinked (set cs) h h2"
    by (rule relinked_mono [OF relinked_trans [OF 1(3) 2(3)]]) (use set_every [of "nat step" cs] in auto)
  then show ?thesis using assms(2) 1(1) 2(1,2) by (simp add: SmileList_ApplyStepping_def)
qed

section \<open>What the functions compute\<close>

text \<open>
  C20: Reversing a list in place and keeping every n-th cell of it: the result consists of the cells of the
  list itself, in reverse order, or at the distances asked for; their contents are unchanged and no
  other cell of the store is touched. Reversing also reports the new last cell. What followed the last cell
  is dropped in favour of Null.
\<close>

theorem SmileList_Reverse_correct:
  assumes "list_at h x cs y"
  shows "(\<exists>h' x' t. SmileList_Reverse h x = Some (h', x', t) \<and> list_at h' x' (rev cs) NullObj \<and>
           items h' (rev cs) = rev (items h cs) \<and> relinked (set cs) h h' \<and> (cs \<noteq> [] \<longrightarrow> t = Cell (hd cs))) \<and>
    (1 < step \<longrightarrow> (\<exists>h' x'. SmileList_ApplyStepping h x step = Some (h', x') \<and>
           list_at h' x' (every (nat step) cs) NullObj \<and> relinked (set cs) h h'))"
proof (intro conjI impI)
  obtain h' x' t where r: "SmileList_Reverse h x = Some (h', x', t)" "relinked (set cs) h h'" "list_at h' x' (rev cs) NullObj"
    "t = (if rev cs = [] then NullObj else Cell (last (rev cs)))"
    using reverse_loop_ok [OF assms, of NullObj "[]" NullObj] by (auto simp: SmileList_Reverse_def)
  have "items h' (rev cs) = rev (items h cs)"
    using relinked_items [OF r(2), of "rev cs"] list_at_bound [OF assms] by (auto simp: items_rev)
  then show "\<exists>h' x' t. SmileList_Reverse h x = Some (h', x', t) \<and> list_at h' x' (rev cs) NullObj \<and>
      items h' (rev cs) = rev (items h cs) \<and> relinked (set cs) h h' \<and> (cs \<noteq> [] \<longrightarrow> t = Cell (hd cs))"
    using r by (auto simp: last_rev)
qed (rule ApplyStepping_ok [OF assms])

text \<open>Three cells in the store, the list being cells 2, 0, 1.\<close>

definition sample_store :: "int store" where
  "sample_store = [\<lparr>cell_a = Val 20, cell_d = Cell 1\<rparr>, \<lparr>cell_a = Val 30, cell_d = NullObj\<rparr>, \<lparr>cell_a = Val 10, cell_d = Cell 0\<rparr>]"

lemma sample_list: "list_at sample_store (Cell 2) [2, 0, 1] NullObj"
  by (simp add: sample_store_def)

theorem SmileList_Reverse_correct_witness:
  "\<exists>h' x' t. SmileList_Reverse sample_store (Cell 2) = Some (h', x', t) \<and> items h' [1, 0, 2] = [Val 30, Val 20, Val 10] \<and>
     list_at h' x' [1, 0, 2] NullObj \<and> t = Cell 2"
  using SmileList_Reverse_correct [OF sample_list, of 2] by (auto simp: sample_store_def)




end
