(* ===== verification/ListCycles.thy ===== *)
theory ListCycles
  imports Lists
begin

text \<open>
  The functions that walk a list with a tortoise and a hare: they end on every store, also when the list
  runs into a cycle, and tell the two cases apart.
\<close>

section \<open>The sequence of cells\<close>

text \<open>\<open>succ_d\<close> follows a \<open>d\<close> field and stays where there is none to follow; \<open>at_d h x k\<close> is the k-th object.\<close>

definition succ_d :: "'v store \<Rightarrow> 'v obj \<Rightarrow> 'v obj" where
  "succ_d h x = (case x of Cell i \<Rightarrow> cell_d (h ! i) | _ \<Rightarrow> x)"

definition at_d :: "'v store \<Rightarrow> 'v obj \<Rightarrow> nat \<Rightarrow> 'v obj" where
  "at_d h x k = (succ_d h ^^ k) x"

lemma at_d_0 [simp]: "at_d h x 0 = x"
  by (simp add: at_d_def)

lemma at_d_Suc: "at_d h x (Suc k) = succ_d h (at_d h x k)"
  by (simp add: at_d_def)

lemma at_d_add: "at_d h x (j + k) = at_d h (at_d h x j) k"
  by (simp add: at_d_def add.commute [of j k] funpow_add)

text \<open>All references lead to allocated cells.\<close>

definition valid_ref :: "'v store \<Rightarrow> 'v obj \<Rightarrow> bool" where
  "valid_ref h x = (case x of Cell i \<Rightarrow> i < length h | _ \<Rightarrow> True)"

definition store_ok :: "'v store \<Rightarrow> bool" where
  "store_ok h = (\<forall>c \<in> set h. valid_ref h (cell_a c) \<and> valid_ref h (cell_d c))"

lemma valid_ref_cases: "valid_ref h x \<Longrightarrow> is_list x \<Longrightarrow> (\<And>i. x = Cell i \<Longrightarrow> i < length h \<Longrightarrow> thesis) \<Longrightarrow> thesis"
  by (cases x) (auto simp: valid_ref_def)

lemma valid_succ_d: "store_ok h \<Longrightarrow> valid_ref h x \<Longrightarrow> valid_ref h (succ_d h x)"
  by (cases x) (auto simp: succ_d_def store_ok_def valid_ref_def [of h "Cell i" for i])

lemma valid_at_d: "store_ok h \<Longrightarrow> valid_ref h x \<Longrightarrow> valid_ref h (at_d h x k)"
  by (induction k) (auto simp: at_d_Suc intro: valid_succ_d)

lemma succ_d_end: "\<not> is_list x \<Longrightarrow> succ_d h x = x"
  by (cases x) (auto simp: succ_d_def)

lemma at_d_stay: "\<not> is_list x \<Longrightarrow> at_d h x k = x"
  by (induction k) (simp_all add: at_d_Suc succ_d_end)

lemma at_d_end: "\<not> is_list (at_d h x j) \<Longrightarrow> j \<le> k \<Longrightarrow> at_d h x k = at_d h x j"
  using at_d_add [of h x j "k - j"] at_d_stay [of "at_d h x j" h] by simp

lemma at_d_is_list_mono: "is_list (at_d h x k) \<Longrightarrow> j \<le> k \<Longrightarrow> is_list (at_d h x j)"
  using at_d_end by metis

text \<open>A list that ends, and one that never does.\<close>

definition cyclic :: "'v store \<Rightarrow> 'v obj \<Rightarrow> bool" where
  "cyclic h x \<longleftrightarrow> (\<forall>k. is_list (at_d h x k))"

lemma list_at_at_d: "list_at h x cs y \<Longrightarrow> k \<le> length cs \<Longrightarrow> at_d h x k = (if k = length cs then y else Cell (cs ! k))"
proof (induction cs arbitrary: x k)
  case (Cons c cs)
  show ?case
  proof (cases k)
    case (Suc j)
    then show ?thesis using Cons at_d_add [of h x 1 j] by (simp add: at_d_Suc succ_d_def)
  qed (use Cons in auto)
qed simp

lemma list_at_not_cyclic: "list_at h x cs y \<Longrightarrow> \<not> cyclic h x"
  using list_at_at_d [of h x cs y "length cs"] by (auto simp: cyclic_def list_at_def)

lemma not_cyclic_list_at:
  assumes "store_ok h" and "valid_ref h x" and "\<not> cyclic h x"
  shows "\<exists>cs y. list_at h x cs y"
proof -
  obtain k where "\<not> is_list (at_d h x k)" using assms(3) by (auto simp: cyclic_def)
  then show ?thesis using assms(2)
  proof (induction k arbitrary: x)
    case 0
    then show ?case by (intro exI [of _ "[]"]) auto
  next
    case (Suc k)
    show ?case
    proof (cases "is_list x")
      case True
      then obtain i where i: "x = Cell i" "i < length h" using Suc.prems(2) by (auto elim: valid_ref_cases)
      have "\<not> is_list (at_d h (succ_d h x) k)" using Suc.prems(1) at_d_add [of h x 1 k] by (simp add: at_d_Suc)
      then obtain cs y where "list_at h (succ_d h x) cs y" using Suc.IH valid_succ_d [OF assms(1) Suc.prems(2)] by blast
      then have "list_at h x (i # cs) y" using i by (simp add: succ_d_def)
      then show ?thesis by blast
    next
      case False
      then show ?thesis by (intro exI [of _ "[]"]) auto
    qed
  qed
qed

section \<open>Where the tortoise and the hare stop\<close>

definition stops :: "'v store \<Rightarrow> 'v obj \<Rightarrow> nat \<Rightarrow> bool" where
  "stops h x k \<longleftrightarrow> 0 < k \<and> (is_list (at_d h x k) \<longrightarrow> at_d h x k = at_d h x (2 * k))"

text \<open>On a finite store some cell is visited twice, so a cycle is met at a multiple of its length.\<close>

lemma at_d_period:
  assumes "at_d h x (i + p) = at_d h x i" and "i \<le> k"
  shows "at_d h x (k + m * p) = at_d h x k"
proof (induction m)
  case (Suc m)
  have e: "k + Suc m * p = (i + p) + (k - i + m * p)" using assms(2) by simp
  have "at_d h x (k + Suc m * p) = at_d h (at_d h x (i + p)) (k - i + m * p)"
    unfolding e by (rule at_d_add)
  also have "\<dots> = at_d h x (i + (k - i + m * p))" unfolding assms(1) by (rule at_d_add [symmetric])
  also have "i + (k - i + m * p) = k + m * p" using assms(2) by simp
  finally show ?case using Suc by simp
qed simp

lemma stops_exists:
  assumes "store_ok h" and "valid_ref h x"
  shows "\<exists>k. stops h x k"
proof (cases "cyclic h x")
  case True
  have "at_d h x ` UNIV \<subseteq> Cell ` {..<length h}"
    using True valid_at_d [OF assms] by (force simp: cyclic_def elim: valid_ref_cases)
  then have "finite (at_d h x ` UNIV)" by (rule finite_subset) simp
  then have "\<not> inj (at_d h x)" using finite_imageD by blast
  then obtain i j where "i < j" "at_d h x i = at_d h x j" by (metis injI linorder_neqE_nat)
  then obtain p where p: "0 < p" "at_d h x (i + p) = at_d h x i" by (metis less_imp_add_positive)
  let ?k = "Suc i * p"
  have "i \<le> ?k" using p(1) by (cases p) auto
  then have "at_d h x (?k + Suc i * p) = at_d h x ?k" using p(2) by (intro at_d_period [of h x i])
  then have "at_d h x (2 * ?k) = at_d h x ?k" by (simp only: mult_2)
  then have "stops h x ?k" using p(1) by (simp add: stops_def del: mult_Suc)
  then show ?thesis by blast
next
  case False
  then obtain k where "\<not> is_list (at_d h x k)" by (auto simp: cyclic_def)
  then have "\<not> is_list (at_d h x (Suc k))" using at_d_end by (metis le_SucI le_refl)
  then show ?thesis by (auto simp: stops_def)
qed

lemma stops_list_cyclic:
  assumes "stops h x k" and "is_list (at_d h x k)"
  shows "cyclic h x"
  unfolding cyclic_def
proof
  fix n
  have "at_d h x (k + n * k) = at_d h x k"
    using assms by (intro at_d_period [of h x k]) (auto simp: stops_def mult_2)
  moreover have "n \<le> k + n * k" using assms(1) by (cases k) (auto simp: stops_def)
  ultimately show "is_list (at_d h x n)" using assms(2) at_d_is_list_mono by metis
qed


text \<open>
  The loop, for any body that only adds cells. The hare is compared with the tortoise only while the
  tortoise is at a cell, so it only has to be right about cells; \<open>Q\<close> tells which objects it may be at.
\<close>

definition tracks :: "('v obj \<Rightarrow> bool) \<Rightarrow> 'v obj \<Rightarrow> 'v obj \<Rightarrow> bool" where
  "tracks Q hare x \<longleftrightarrow> Q hare \<and> (if is_list x then hare = x else \<not> is_list hare)"

lemma tortoise_loop_ok:
  assumes ok: "store_ok h0" "valid_ref h0 x"
    and K: "stops h0 x K" "\<And>j. 0 < j \<Longrightarrow> j < K \<Longrightarrow> \<not> stops h0 x j"
    and P: "\<And>j h s. P j h s \<Longrightarrow> extends h0 h"
      "\<And>j h s. P j h s \<Longrightarrow> j < K \<Longrightarrow> is_list (at_d h0 x j) \<Longrightarrow> \<exists>h' s'. body h s (at_d h0 x j) = Some (h', s') \<and> P (Suc j) h' s'"
    and rest: "\<And>h hare y. extends h0 h \<Longrightarrow> valid_ref h0 y \<Longrightarrow> tracks Q hare y \<Longrightarrow> \<exists>r. rest h hare = Some r \<and> tracks Q r (succ_d h0 y)"
    and start: "P k h s" "0 < k" "k \<le> K" "tracks Q hare (at_d h0 x (2 * k))"
  shows "\<exists>h' s' hare'. tortoise_loop body rest h s (at_d h0 x k) hare = Some (h', s', at_d h0 x K, hare') \<and>
    P K h' s' \<and> tracks Q hare' (at_d h0 x (2 * K))"
  using start
proof (induction "K - k" arbitrary: k h s hare)
  case 0
  then have k: "k = K" by simp
  have "\<not> (at_d h0 x K \<noteq> hare \<and> is_list (at_d h0 x K))"
    using K(1) 0(5) k by (auto simp: stops_def tracks_def split: if_splits)
  then show ?case using 0 k by (subst tortoise_loop.simps) auto
next
  case (Suc n)
  let ?x = "at_d h0 x"
  have k: "k < K" using Suc.hyps(2) by simp
  then have l: "is_list (?x k)" "?x k \<noteq> ?x (2 * k)" using K(2) [of k] Suc.prems(2) by (auto simp: stops_def)
  have ne: "?x k \<noteq> hare" using l Suc.prems(4) by (auto simp: tracks_def split: if_splits)
  obtain h1 s1 where 1: "body h s (?x k) = Some (h1, s1)" "P (Suc k) h1 s1" using P(2) [OF Suc.prems(1) k l(1)] by blast
  have e: "extends h0 h1" by (rule P(1) [OF 1(2)])
  obtain i where i: "?x k = Cell i" "i < length h0" using valid_at_d [OF ok] l(1) by (auto elim: valid_ref_cases)
  have d: "get_d h1 (?x k) = Some (?x (Suc k))"
    using i extends_nth [OF e i(2)] extends_length [OF e] by (simp add: at_d_Suc succ_d_def)
  obtain r1 where r1: "rest h1 hare = Some r1" "tracks Q r1 (?x (Suc (2 * k)))"
    using rest [OF e valid_at_d [OF ok] Suc.prems(4)] by (auto simp: at_d_Suc)
  obtain r2 where r2: "rest h1 r1 = Some r2" "tracks Q r2 (?x (2 * Suc k))"
    using rest [OF e valid_at_d [OF ok] r1(2)] by (auto simp: at_d_Suc)
  have "tortoise_loop body rest h s (?x k) hare = tortoise_loop body rest h1 s1 (?x (Suc k)) r2"
    using l(1) ne 1(1) d r1(1) r2(1) by (subst tortoise_loop.simps) simp
  then show ?case using Suc.hyps(1) [of "Suc k", OF _ 1(2) _ _ r2(2)] Suc.hyps(2) k by simp
qed

lemma tortoise_walk_ok:
  assumes ok: "store_ok h0" "valid_ref h0 x" and x: "is_list x"
    and P: "\<And>j h s. P j h s \<Longrightarrow> extends h0 h" "P 0 h0 s"
      "\<And>j h s. P j h s \<Longrightarrow> is_list (at_d h0 x j) \<Longrightarrow> \<exists>h' s'. body h s (at_d h0 x j) = Some (h', s') \<and> P (Suc j) h' s'"
    and Q: "Q (succ_d h0 x)"
    and rest: "\<And>h hare y. extends h0 h \<Longrightarrow> valid_ref h0 y \<Longrightarrow> tracks Q hare y \<Longrightarrow> \<exists>r. rest h hare = Some r \<and> tracks Q r (succ_d h0 y)"
  shows "\<exists>h' s' hare K. tortoise_walk body rest h0 s x = Some (h', s', at_d h0 x K, hare) \<and> P K h' s' \<and>
    (if is_list (at_d h0 x K) then cyclic h0 x \<and> hare = at_d h0 x K else (\<exists>cs. list_at h0 x cs (at_d h0 x K) \<and> K = length cs))"
proof -
  define K where "K = (LEAST k. stops h0 x k)"
  have K: "stops h0 x K" "\<And>j. j < K \<Longrightarrow> \<not> stops h0 x j"
    using stops_exists [OF ok] unfolding K_def by (auto intro: LeastI dest: not_less_Least)
  have K0: "0 < K" using K(1) by (simp add: stops_def)
  obtain h1 s1 where 1: "body h0 s x = Some (h1, s1)" "P (Suc 0) h1 s1" using P(3) [OF P(2)] x by auto
  have e: "extends h0 h1" by (rule P(1) [OF 1(2)])
  obtain i where i: "x = Cell i" "i < length h0" using ok(2) x by (auto elim: valid_ref_cases)
  have d: "get_d h1 x = Some (succ_d h0 x)"
    using i extends_nth [OF e i(2)] extends_length [OF e] by (simp add: succ_d_def)
  have "tracks Q (succ_d h0 x) (succ_d h0 x)" using Q by (simp add: tracks_def)
  then obtain hare0 where r: "rest h1 (succ_d h0 x) = Some hare0" "tracks Q hare0 (at_d h0 x (2 * 1))"
    using rest [OF e valid_succ_d [OF ok]] by (auto simp: at_d_Suc numeral_2_eq_2)
  obtain h2 s2 hare where 2: "tortoise_loop body rest h1 s1 (at_d h0 x 1) hare0 = Some (h2, s2, at_d h0 x K, hare)"
    "P K h2 s2" "tracks Q hare (at_d h0 x (2 * K))"
    using tortoise_loop_ok [of h0 x K P body Q rest 1 h1 s1 hare0] ok K P(1,3) rest 1(2) r(2) K0 by auto
  have w: "tortoise_walk body rest h0 s x = Some (h2, s2, at_d h0 x K, hare)"
    using 1(1) d r(1) 2(1) by (simp add: tortoise_walk_def at_d_Suc)
  show ?thesis
  proof (cases "is_list (at_d h0 x K)")
    case True
    then have "hare = at_d h0 x K" using K(1) 2(3) by (auto simp: stops_def tracks_def)
    then show ?thesis using w 2(2) True stops_list_cyclic [OF K(1) True] by auto
  next
    case False
    then obtain cs y where cs: "list_at h0 x cs y" using not_cyclic_list_at [OF ok] by (auto simp: cyclic_def)
    have le: "length cs \<le> K" using False list_at_at_d [OF cs, of K] by (cases "K < length cs") auto
    have ge: "K \<le> length cs"
    proof (rule ccontr)
      assume "\<not> K \<le> length cs"
      moreover have "stops h0 x (length cs)"
        using list_at_at_d [OF cs, of "length cs"] cs x by (cases cs) (auto simp: stops_def list_at_def)
      ultimately show False using K(2) by auto
    qed
    have "K = length cs" "at_d h0 x K = y" using le ge list_at_at_d [OF cs, of K] by auto
    then show ?thesis using w 2(2) False cs by auto
  qed
qed


section \<open>The functions\<close>

definition not_val :: "'v obj \<Rightarrow> bool" where
  "not_val x = (is_list x \<or> is_null x)"

lemma Rest_tracks:
  assumes "extends h0 h" and "valid_ref h0 y" and "tracks not_val hare y"
  shows "\<exists>r. SmileList_Rest h hare = Some r \<and> tracks not_val r (succ_d h0 y)"
proof (cases "is_list y")
  case True
  then obtain i where i: "y = Cell i" "i < length h0" using assms(2) by (auto elim: valid_ref_cases)
  then have "hare = Cell i" "i < length h" "h ! i = h0 ! i"
    using assms(3) extends_nth [OF assms(1) i(2)] extends_length [OF assms(1)] by (auto simp: tracks_def)
  then show ?thesis using i(1) by (simp add: SmileList_Rest_def tracks_def succ_d_def not_val_def)
next
  case False
  then have "hare = NullObj" using assms(3) by (cases hare) (auto simp: tracks_def not_val_def)
  then show ?thesis using False succ_d_end [OF False, of h0] by (auto simp: SmileList_Rest_def tracks_def not_val_def)
qed

lemma checked_rest_tracks:
  assumes "extends h0 h" and "valid_ref h0 y" and "tracks (\<lambda>_. True) hare y"
  shows "\<exists>r. checked_rest h hare = Some r \<and> tracks (\<lambda>_. True) r (succ_d h0 y)"
proof (cases "is_list y")
  case True
  then obtain i where i: "y = Cell i" "i < length h0" using assms(2) by (auto elim: valid_ref_cases)
  then have "hare = Cell i" "i < length h" "h ! i = h0 ! i"
    using assms(3) extends_nth [OF assms(1) i(2)] extends_length [OF assms(1)] by (auto simp: tracks_def)
  then show ?thesis using i(1) by (simp add: checked_rest_def tracks_def succ_d_def)
next
  case False
  then show ?thesis using assms(3) succ_d_end [OF False, of h0] by (auto simp: checked_rest_def tracks_def)
qed

text \<open>The outcome of a walk, for the two ways to advance the hare.\<close>

definition walked :: "'v store \<Rightarrow> 'v obj \<Rightarrow> nat \<Rightarrow> 'v obj \<Rightarrow> 'v obj \<Rightarrow> bool" where
  "walked h x K t hare \<longleftrightarrow>
     (if is_list t then cyclic h x \<and> hare = t else (\<exists>cs. list_at h x cs t \<and> K = length cs))"

lemma walk_Rest:
  assumes "store_ok h" and "valid_ref h x" and "is_list x" and "not_val (succ_d h x)"
    and "\<And>j h' s. P j h' s \<Longrightarrow> extends h h'" and "P 0 h s"
    and "\<And>j h' s. P j h' s \<Longrightarrow> is_list (at_d h x j) \<Longrightarrow> \<exists>h'' s'. body h' s (at_d h x j) = Some (h'', s') \<and> P (Suc j) h'' s'"
  shows "\<exists>h' s' t hare K. tortoise_walk body SmileList_Rest h s x = Some (h', s', t, hare) \<and> P K h' s' \<and> walked h x K t hare"
proof -
  have "\<exists>h' s' hare K. tortoise_walk body SmileList_Rest h s x = Some (h', s', at_d h x K, hare) \<and> P K h' s' \<and>
      (if is_list (at_d h x K) then cyclic h x \<and> hare = at_d h x K else (\<exists>cs. list_at h x cs (at_d h x K) \<and> K = length cs))"
    by (rule tortoise_walk_ok [where Q = not_val and P = P]; fact assms Rest_tracks)
  then show ?thesis unfolding walked_def by blast
qed

lemma walk_checked:
  assumes "store_ok h" and "valid_ref h x" and "is_list x"
  shows "\<exists>h' s' t hare K. tortoise_walk no_body checked_rest h () x = Some (h', s', t, hare) \<and> walked h x K t hare"
proof -
  have "\<exists>h' s' hare K. tortoise_walk no_body checked_rest h () x = Some (h', s', at_d h x K, hare) \<and> h' = h \<and>
      (if is_list (at_d h x K) then cyclic h x \<and> hare = at_d h x K else (\<exists>cs. list_at h x cs (at_d h x K) \<and> K = length cs))"
    by (rule tortoise_walk_ok [where Q = "\<lambda>_. True" and P = "\<lambda>j h' s. h' = h"])
      (fact assms checked_rest_tracks | simp add: no_body_def)+
  then show ?thesis unfolding walked_def by blast
qed

lemma walked_list_at: "walked h x K t hare \<Longrightarrow> list_at h x cs y \<Longrightarrow> t = y \<and> K = length cs"
proof -
  assume w: "walked h x K t hare" and l: "list_at h x cs y"
  then obtain ds where "list_at h x ds t" "K = length ds"
    using list_at_not_cyclic [OF l] by (auto simp: walked_def split: if_splits)
  then show ?thesis using path_unique [of h x cs y ds t] l by (simp add: list_at_def)
qed

lemma walked_cyclic: "walked h x K t hare \<Longrightarrow> cyclic h x \<Longrightarrow> is_list t \<and> hare = t"
  using list_at_not_cyclic by (auto simp: walked_def split: if_splits)

lemma HasCycle_ok:
  assumes "store_ok h" and "valid_ref h x" and "is_list x \<longrightarrow> not_val (succ_d h x)"
  shows "SmileList_HasCycle h x = Some (cyclic h x)"
proof (cases "is_list x")
  case True
  obtain h' s' t hare K where "tortoise_walk no_body SmileList_Rest h () x = Some (h', s', t, hare)" "walked h x K t hare"
    using walk_Rest [of h x "\<lambda>j h' s. h' = h" "()" no_body] assms True by (auto simp: no_body_def)
  then show ?thesis using True list_at_not_cyclic [of h x] by (auto simp: SmileList_HasCycle_def walked_def split: if_splits)
next
  case False
  then show ?thesis using list_at_not_cyclic [of h x "[]" x] by (simp add: SmileList_HasCycle_def)
qed

lemma SafeLength_ok:
  assumes "store_ok h" and "valid_ref h x" and "is_list x \<longrightarrow> not_val (succ_d h x)"
  shows "cyclic h x \<Longrightarrow> SmileList_SafeLength h x = Some (-1)"
    and "list_at h x cs y \<Longrightarrow> SmileList_SafeLength h x = Some (int (length cs))"
proof -
  have w: "\<exists>h' t hare K. tortoise_walk length_body SmileList_Rest h 0 x = Some (h', int K, t, hare) \<and> walked h x K t hare" if "is_list x"
    using walk_Rest [of h x "\<lambda>j h' s. h' = h \<and> s = int j" 0 length_body] assms that by (auto simp: length_body_def)
  show "SmileList_SafeLength h x = Some (-1)" if "cyclic h x"
  proof -
    have "is_list x" using that at_d_0 [of h x] by (metis cyclic_def)
    then show ?thesis using w walked_cyclic [OF _ that] by (fastforce simp: SmileList_SafeLength_def)
  qed
  show "SmileList_SafeLength h x = Some (int (length cs))" if cs: "list_at h x cs y"
  proof (cases "is_list x")
    case True
    then obtain h' t hare K where k: "tortoise_walk length_body SmileList_Rest h 0 x = Some (h', int K, t, hare)" "walked h x K t hare"
      using w by blast
    then show ?thesis using True walked_list_at [OF k(2) cs] cs by (simp add: SmileList_SafeLength_def list_at_def)
  next
    case False
    then show ?thesis using cs by (cases cs) (auto simp: SmileList_SafeLength_def)
  qed
qed

lemma SafeTail_ok:
  assumes "store_ok h" and "valid_ref h x" and "is_list x \<longrightarrow> not_val (succ_d h x)"
  shows "cyclic h x \<Longrightarrow> SmileList_SafeTail h x = Some None"
    and "list_at h x cs y \<Longrightarrow> SmileList_SafeTail h x = Some (Some (if cs = [] then x else Cell (last cs)))"
proof -
  have w: "\<exists>h' t hare K. tortoise_walk tail_body SmileList_Rest h x x = Some (h', at_d h x (K - 1), t, hare) \<and> walked h x K t hare" if "is_list x"
    using walk_Rest [of h x "\<lambda>j h' s. h' = h \<and> s = at_d h x (j - 1)" x tail_body] assms that by (auto simp: tail_body_def)
  show "SmileList_SafeTail h x = Some None" if "cyclic h x"
  proof -
    have "is_list x" using that at_d_0 [of h x] by (metis cyclic_def)
    then show ?thesis using w walked_cyclic [OF _ that] by (fastforce simp: SmileList_SafeTail_def)
  qed
  show "SmileList_SafeTail h x = Some (Some (if cs = [] then x else Cell (last cs)))" if cs: "list_at h x cs y"
  proof (cases "is_list x")
    case True
    then obtain h' t hare K where k: "tortoise_walk tail_body SmileList_Rest h x x = Some (h', at_d h x (K - 1), t, hare)" "walked h x K t hare"
      using w by blast
    have "cs \<noteq> []" using cs True by auto
    then have "at_d h x (length cs - 1) = Cell (last cs)" using list_at_at_d [OF cs, of "length cs - 1"] by (cases cs rule: rev_cases) auto
    then show ?thesis using True walked_list_at [OF k(2) cs] cs k(1) \<open>cs \<noteq> []\<close> by (simp add: SmileList_SafeTail_def list_at_def)
  next
    case False
    then show ?thesis using cs by (cases cs) (auto simp: SmileList_SafeTail_def)
  qed
qed


text \<open>The state of a copy after \<open>j\<close> steps of the tortoise.\<close>

definition cloned :: "'v store \<Rightarrow> 'v obj \<Rightarrow> nat \<Rightarrow> 'v store \<Rightarrow> 'v obj \<times> 'v obj \<Rightarrow> bool" where
  "cloned h x j h' s \<longleftrightarrow> copying h h' (fst s) (snd s) (map (\<lambda>i. the (get_a h (at_d h x i))) [0..<j])"

lemma cloned_extends: "cloned h x j h' s \<Longrightarrow> extends h h'"
  by (simp add: cloned_def copying_extends)

lemma clone_step:
  assumes "store_ok h" and "valid_ref h x" and p: "cloned h x j h' s" and l: "is_list (at_d h x j)"
  shows "\<exists>h'' s'. clone_body h' s (at_d h x j) = Some (h'', s') \<and> cloned h x (Suc j) h'' s'"
proof -
  obtain i where i: "at_d h x j = Cell i" "i < length h" using valid_at_d [OF assms(1,2)] l by (auto elim: valid_ref_cases)
  have e: "extends h h'" by (rule cloned_extends [OF p])
  have a: "get_a h' (at_d h x j) = Some (cell_a (h ! i))"
    using i extends_nth [OF e i(2)] extends_length [OF e] by simp
  obtain h2 hd2 tl2 where "LIST_APPEND h' (fst s) (snd s) (cell_a (h ! i)) = Some (h2, hd2, tl2)"
    "copying h h2 hd2 tl2 (map (\<lambda>i. the (get_a h (at_d h x i))) [0..<j] @ [cell_a (h ! i)])"
    using copying_append [OF p [unfolded cloned_def]] by blast
  then show ?thesis using a i by (simp add: clone_body_def cloned_def)
qed

lemma clone_walk:
  assumes "store_ok h" and "valid_ref h x" and x: "is_list x" and n: "not_val (succ_d h x)"
  shows "\<exists>h' s t hare K. tortoise_walk clone_body SmileList_Rest h (NullObj, NullObj) x = Some (h', s, t, hare) \<and>
    cloned h x K h' s \<and> walked h x K t hare"
proof (rule walk_Rest)
  show "cloned h x 0 h (NullObj, NullObj)" by (simp add: cloned_def)
  show "\<exists>h'' s'. clone_body h' s (at_d h x j) = Some (h'', s') \<and> cloned h x (Suc j) h'' s'"
    if "cloned h x j h' s" "is_list (at_d h x j)" for j h' s by (rule clone_step [OF assms(1,2) that])
qed (use assms in \<open>auto intro: cloned_extends\<close>)

lemma SafeClone_ok:
  assumes "store_ok h" and "valid_ref h x" and "is_list x \<longrightarrow> not_val (succ_d h x)"
  shows "cyclic h x \<Longrightarrow> \<exists>h' t. SmileList_SafeClone h x = Some (h', None, t) \<and> extends h h'"
    and "list_at h x cs y \<Longrightarrow> \<exists>h' head t ds. SmileList_SafeClone h x = Some (h', Some head, t) \<and> extends h h' \<and>
      list_at h' head ds NullObj \<and> items h' ds = items h cs"
proof -
  show "\<exists>h' t. SmileList_SafeClone h x = Some (h', None, t) \<and> extends h h'" if c: "cyclic h x"
  proof -
    have x: "is_list x" using c at_d_0 [of h x] by (metis cyclic_def)
    then obtain h' s t hare K where k: "tortoise_walk clone_body SmileList_Rest h (NullObj, NullObj) x = Some (h', s, t, hare)"
      "cloned h x K h' s" "walked h x K t hare" using clone_walk [of h x] assms by blast
    then show ?thesis using x walked_cyclic [OF k(3) c] cloned_extends [OF k(2)]
      by (cases s) (simp add: SmileList_SafeClone_def)
  qed
  show "\<exists>h' head t ds. SmileList_SafeClone h x = Some (h', Some head, t) \<and> extends h h' \<and>
      list_at h' head ds NullObj \<and> items h' ds = items h cs" if cs: "list_at h x cs y"
  proof (cases "is_list x")
    case True
    then obtain h' s t hare K where k: "tortoise_walk clone_body SmileList_Rest h (NullObj, NullObj) x = Some (h', s, t, hare)"
      "cloned h x K h' s" "walked h x K t hare" using clone_walk [of h x] assms by blast
    have K: "t = y" "K = length cs" using walked_list_at [OF k(3) cs] by simp_all
    have "map (\<lambda>i. the (get_a h (at_d h x i))) [0..<K] = items h cs"
      using list_at_bound [OF cs] K(2) by (intro nth_equalityI) (simp_all add: items_def list_at_at_d [OF cs])
    then have "copying h h' (fst s) (snd s) (items h cs)" using k(2) by (simp add: cloned_def)
    from copying_list_at [OF this] obtain ds where ds: "list_at h' (fst s) ds NullObj" "items h' ds = items h cs" by blast
    have "SmileList_SafeClone h x = Some (h', Some (fst s), Some (snd s))"
      using True k(1) K cs by (cases s) (simp add: SmileList_SafeClone_def list_at_def)
    then show ?thesis using ds cloned_extends [OF k(2)] by blast
  next
    case False
    then have "cs = []" using cs by (cases cs) auto
    then show ?thesis using False by (auto simp: SmileList_SafeClone_def intro!: exI [of _ "[]"])
  qed
qed

lemma IsWellFormed_ok:
  assumes "store_ok h" and "valid_ref h x"
  shows "SmileList_IsWellFormed h x = Some (\<exists>cs. list_at h x cs NullObj)"
proof (cases "is_list x")
  case True
  then obtain h' s t hare K where w: "tortoise_walk no_body checked_rest h () x = Some (h', s, t, hare)" "walked h x K t hare"
    using walk_checked [OF assms] by blast
  have "is_null t \<longleftrightarrow> (\<exists>cs. list_at h x cs NullObj)"
  proof
    show "\<exists>cs. list_at h x cs NullObj" if "is_null t" using w(2) that by (cases t) (auto simp: walked_def)
    show "is_null t" if "\<exists>cs. list_at h x cs NullObj" using walked_list_at [OF w(2)] that by auto
  qed
  then show ?thesis using True w(1) by (simp add: SmileList_IsWellFormed_def)
next
  case False
  then have "list_at h x cs NullObj \<Longrightarrow> x = NullObj" for cs by (cases cs) auto
  then show ?thesis using False by (cases x) (auto simp: SmileList_IsWellFormed_def intro: exI [of _ "[]"])
qed

text \<open>The plain loop never returns on a cycle.\<close>

lemma length_loop_returns:
  assumes "length_loop h x n = Some r"
  shows "\<exists>k. \<not> is_list (at_d h x k)"
proof (rule length_loop.raw_induct [where P = "\<lambda>h x n r. \<exists>k. \<not> is_list (at_d h x k)", OF _ assms])
  fix f :: "'a store \<Rightarrow> 'a obj \<Rightarrow> int \<Rightarrow> ('a obj \<times> int) option" and h x n r
  assume IH: "\<And>h x n r. f h x n = Some r \<Longrightarrow> \<exists>k. \<not> is_list (at_d h x k)"
    and run: "(if is_list x then Option.bind (get_d h x) (\<lambda>d. f h d (n + 1)) else Some (x, n)) = Some r"
  show "\<exists>k. \<not> is_list (at_d h x k)"
  proof (cases "is_list x")
    case True
    then obtain i where i: "x = Cell i" by (cases x) auto
    then have "f h (cell_d (h ! i)) (n + 1) = Some r" using run by (auto split: if_splits)
    then obtain k where "\<not> is_list (at_d h (cell_d (h ! i)) k)" using IH by blast
    then have "\<not> is_list (at_d h x (1 + k))" unfolding at_d_add i by (simp add: at_d_Suc succ_d_def)
    then show ?thesis by blast
  next
    case False
    then show ?thesis by (metis at_d_0)
  qed
qed

lemma Length_cyclic: "cyclic h x \<Longrightarrow> SmileList_Length h x = None"
  using length_loop_returns [of h x 0] by (cases "length_loop h x 0") (auto simp: SmileList_Length_def cyclic_def)

text \<open>A single cell followed by an object without a \<open>d\<close> field.\<close>

lemma val_walks:
  assumes "x = Cell i" and "i < length h" and "cell_d (h ! i) = Val v"
  shows "SmileList_HasCycle h x = None" "SmileList_SafeLength h x = None" "SmileList_SafeTail h x = None"
    "SmileList_SafeClone h x = None"
  using assms by (simp_all add: SmileList_HasCycle_def SmileList_SafeLength_def SmileList_SafeTail_def SmileList_SafeClone_def
      tortoise_walk_def no_body_def length_body_def tail_body_def clone_body_def LIST_APPEND_def SmileList_Cons_def
      SmileList_Rest_def nth_append)

text \<open>
  C10: On every store the walks that look for cycles end and answer correctly: a list that runs into a cycle
  has no safe length, no last cell and no copy, and is reported as cyclic; any other list is not cyclic,
  and its length, its last cell and a copy of its items in new cells are returned; a list is
  well-formed exactly when it ends in Null. (The plain length function never returns on a cyclic list.) The
  one exception is a single cell followed by an object that is neither a list nor Null: there all but the
  well-formedness test read a field such an object does not have.
\<close>

theorem SmileList_walks_correct:
  assumes "store_ok h" and "valid_ref h x"
  shows "SmileList_IsWellFormed h x = Some (\<exists>cs. list_at h x cs NullObj) \<and>
    (if is_list x \<and> \<not> not_val (succ_d h x)
     then SmileList_HasCycle h x = None \<and> SmileList_SafeLength h x = None \<and> SmileList_SafeTail h x = None \<and>
       SmileList_SafeClone h x = None
     else SmileList_HasCycle h x = Some (cyclic h x) \<and>
       (if cyclic h x
        then SmileList_SafeLength h x = Some (-1) \<and> SmileList_SafeTail h x = Some None \<and> SmileList_Length h x = None \<and>
          (\<exists>h' t. SmileList_SafeClone h x = Some (h', None, t) \<and> extends h h')
        else \<exists>cs y. list_at h x cs y \<and> SmileList_SafeLength h x = Some (int (length cs)) \<and>
          SmileList_SafeTail h x = Some (Some (if cs = [] then x else Cell (last cs))) \<and>
          (\<exists>h' head t ds. SmileList_SafeClone h x = Some (h', Some head, t) \<and> extends h h' \<and>
             list_at h' head ds NullObj \<and> items h' ds = items h cs)))"
proof (cases "is_list x \<and> \<not> not_val (succ_d h x)")
  case True
  then obtain i v where "x = Cell i" "i < length h" "cell_d (h ! i) = Val v"
    using assms(2) by (cases "succ_d h x") (auto simp: succ_d_def not_val_def elim: valid_ref_cases)
  then show ?thesis using True IsWellFormed_ok [OF assms] val_walks [of x i h v] by simp
next
  case False
  then have n: "is_list x \<longrightarrow> not_val (succ_d h x)" by blast
  show ?thesis
  proof (cases "cyclic h x")
    case True
    then show ?thesis
      using False IsWellFormed_ok [OF assms] HasCycle_ok [OF assms n] SafeLength_ok(1) [OF assms n True]
        SafeTail_ok(1) [OF assms n True] SafeClone_ok(1) [OF assms n True] Length_cyclic [OF True] by simp
  next
    case acyclic: False
    then obtain cs y where cs: "list_at h x cs y" using not_cyclic_list_at [OF assms] by blast
    have "\<exists>cs y. list_at h x cs y \<and> SmileList_SafeLength h x = Some (int (length cs)) \<and>
         SmileList_SafeTail h x = Some (Some (if cs = [] then x else Cell (last cs))) \<and>
         (\<exists>h' head t ds. SmileList_SafeClone h x = Some (h', Some head, t) \<and> extends h h' \<and>
            list_at h' head ds NullObj \<and> items h' ds = items h cs)"
      using cs SafeLength_ok(2) [OF assms n cs] SafeTail_ok(2) [OF assms n cs] SafeClone_ok(2) [OF assms n cs] by blast
    then show ?thesis using False acyclic IsWellFormed_ok [OF assms] HasCycle_ok [OF assms n] by simp
  qed
qed

text \<open>A cell whose \<open>d\<close> field leads back to itself, and a pair that is not a list.\<close>

definition loop_store :: "int store" where
  "loop_store = [\<lparr>cell_a = Val 1, cell_d = Cell 0\<rparr>, \<lparr>cell_a = Val 1, cell_d = Val 2\<rparr>]"

theorem SmileList_walks_correct_witness:
  "SmileList_HasCycle loop_store (Cell 0) = Some True \<and> SmileList_SafeLength loop_store (Cell 0) = Some (-1) \<and>
   SmileList_HasCycle loop_store (Cell 1) = None"
proof -
  have "at_d loop_store (Cell 0) k = Cell 0" for k by (induction k) (simp_all add: at_d_Suc succ_d_def loop_store_def)
  then have "cyclic loop_store (Cell 0)" by (simp add: cyclic_def)
  moreover have "store_ok loop_store" "valid_ref loop_store (Cell 0)" "valid_ref loop_store (Cell 1)"
    by (simp_all add: store_ok_def valid_ref_def loop_store_def)
  moreover have "not_val (succ_d loop_store (Cell 0))" "\<not> not_val (succ_d loop_store (Cell 1))"
    by (simp_all add: succ_d_def not_val_def loop_store_def)
  ultimately show ?thesis
    using SmileList_walks_correct [of loop_store "Cell 0"] SmileList_walks_correct [of loop_store "Cell 1"] by simp
qed

end
