(* ===== verification/ListSort.thy ===== *)
theory ListSort
  imports Lists "HOL-Library.Multiset"
begin

text \<open>
  Sorting lists in place: the bottom-up merge sort \<^verbatim>\<open>SmileList_Sort\<close> of \<^verbatim>\<open>smilelib/src/smiletypes/smilelist.c\<close>.
  The comparison function is a parameter.
\<close>

section \<open>Definitions\<close>

text \<open>Stepping \<^verbatim>\<open>stepSize\<close> places along: where \<^verbatim>\<open>q\<close> arrives and the number of cells passed.\<close>

fun step_along :: "'v store \<Rightarrow> 'v obj \<Rightarrow> nat \<Rightarrow> int \<Rightarrow> ('v obj \<times> int) option" where
  "step_along h q 0 psize = Some (q, psize)"
| "step_along h q (Suc n) psize =
     Option.bind (get_d h q) (\<lambda>q. if is_list q then step_along h q n (psize + 1) else Some (q, psize + 1))"

text \<open>Whether the next cell comes from \<^verbatim>\<open>p\<close>.\<close>

definition from_p ::
  "('v obj \<Rightarrow> 'v obj \<Rightarrow> int) \<Rightarrow> 'v store \<Rightarrow> 'v obj \<Rightarrow> int \<Rightarrow> 'v obj \<Rightarrow> int \<Rightarrow> bool option" where
  "from_p cmp h p psize q qsize =
     (if psize = 0 then Some False
      else if qsize = 0 \<or> \<not> is_list q then Some True
      else Option.bind (get_a h p) (\<lambda>a. Option.bind (get_a h q) (\<lambda>b. Some (cmp a b \<le> 0))))"

partial_function (option) merge_loop ::
  "('v obj \<Rightarrow> 'v obj \<Rightarrow> int) \<Rightarrow> 'v store \<Rightarrow> 'v obj \<Rightarrow> int \<Rightarrow> 'v obj \<Rightarrow> int \<Rightarrow> 'v obj \<Rightarrow> 'v obj \<Rightarrow>
   ('v store \<times> 'v obj \<times> 'v obj \<times> 'v obj) option" where
  "merge_loop cmp h p psize q qsize list tail =
     (if psize > 0 \<or> (qsize > 0 \<and> is_list q)
      then Option.bind (from_p cmp h p psize q qsize) (\<lambda>b.
           Option.bind (get_d h (if b then p else q)) (\<lambda>d.
           Option.bind (if is_list tail then set_d h tail (if b then p else q) else Some h) (\<lambda>h.
           merge_loop cmp h (if b then d else p) (if b then psize - 1 else psize)
             (if b then q else d) (if b then qsize else qsize - 1)
             (if is_list tail then list else if b then p else q) (if b then p else q))))
      else Some (h, q, list, tail))"

declare merge_loop.simps [code]

partial_function (option) pass_loop ::
  "('v obj \<Rightarrow> 'v obj \<Rightarrow> int) \<Rightarrow> 'v store \<Rightarrow> int \<Rightarrow> 'v obj \<Rightarrow> 'v obj \<Rightarrow> 'v obj \<Rightarrow> int \<Rightarrow>
   ('v store \<times> 'v obj \<times> 'v obj \<times> int) option" where
  "pass_loop cmp h stepSize p list tail numMerges =
     (if is_list p
      then Option.bind (step_along h p (nat stepSize) 0) (\<lambda>(q, psize).
           Option.bind (merge_loop cmp h p psize q stepSize list tail) (\<lambda>(h, q, list, tail).
           pass_loop cmp h stepSize q list tail (numMerges + 1)))
      else Some (h, list, tail, numMerges))"

declare pass_loop.simps [code]

partial_function (option) sort_loop ::
  "('v obj \<Rightarrow> 'v obj \<Rightarrow> int) \<Rightarrow> 'v store \<Rightarrow> int \<Rightarrow> 'v obj \<Rightarrow> ('v store \<times> 'v obj) option" where
  "sort_loop cmp h stepSize list =
     Option.bind (pass_loop cmp h stepSize list NullObj NullObj 0) (\<lambda>(h, list, tail, numMerges).
     Option.bind (set_d h tail NullObj) (\<lambda>h.
     if numMerges \<le> 1 then Some (h, list) else sort_loop cmp h (i64 (stepSize * 2)) list))"

declare sort_loop.simps [code]

definition SmileList_Sort ::
  "('v obj \<Rightarrow> 'v obj \<Rightarrow> int) \<Rightarrow> 'v store \<Rightarrow> 'v obj \<Rightarrow> ('v store \<times> 'v obj) option" where
  "SmileList_Sort cmp h list = (if is_null list then Some (h, list) else sort_loop cmp h 1 list)"

section \<open>Merging sorted runs\<close>

fun merge_by :: "('a \<Rightarrow> 'a \<Rightarrow> bool) \<Rightarrow> 'a list \<Rightarrow> 'a list \<Rightarrow> 'a list" where
  "merge_by le (x # xs) (y # ys) = (if le x y then x # merge_by le xs (y # ys) else y # merge_by le (x # xs) ys)"
| "merge_by le xs [] = xs"
| "merge_by le [] ys = ys"

lemma merge_by_Nil [simp]: "merge_by le [] ys = ys"
  by (cases ys) simp_all

lemma mset_merge_by [simp]: "mset (merge_by le xs ys) = mset xs + mset ys"
  by (induction le xs ys rule: merge_by.induct) auto

lemma set_merge_by [simp]: "set (merge_by le xs ys) = set xs \<union> set ys"
  by (metis mset_merge_by set_mset_mset set_mset_union)

lemma length_merge_by [simp]: "length (merge_by le xs ys) = length xs + length ys"
  by (metis mset_merge_by size_mset size_union)

text \<open>A comparison that orders the items, up to items that count as equal.\<close>

definition total_preorder :: "('a \<Rightarrow> 'a \<Rightarrow> bool) \<Rightarrow> bool" where
  "total_preorder le \<longleftrightarrow> (\<forall>x y. le x y \<or> le y x) \<and> (\<forall>x y z. le x y \<longrightarrow> le y z \<longrightarrow> le x z)"

lemma total_preorder_total: "total_preorder le \<Longrightarrow> \<not> le x y \<Longrightarrow> le y x"
  by (auto simp: total_preorder_def)

lemma total_preorder_trans: "total_preorder le \<Longrightarrow> le x y \<Longrightarrow> le y z \<Longrightarrow> le x z"
  unfolding total_preorder_def by blast

lemma sorted_merge_by:
  "total_preorder le \<Longrightarrow> sorted_wrt le xs \<Longrightarrow> sorted_wrt le ys \<Longrightarrow> sorted_wrt le (merge_by le xs ys)"
  by (induction le xs ys rule: merge_by.induct)
    (auto dest: total_preorder_total intro: total_preorder_trans)

definition eqv :: "('a \<Rightarrow> 'a \<Rightarrow> bool) \<Rightarrow> 'a \<Rightarrow> 'a \<Rightarrow> bool" where
  "eqv le k x \<longleftrightarrow> le k x \<and> le x k"

lemma stable_merge_by:
  assumes "total_preorder le" and "sorted_wrt le xs" and "sorted_wrt le ys"
  shows "filter (eqv le k) (merge_by le xs ys) = filter (eqv le k) xs @ filter (eqv le k) ys"
  using assms
proof (induction le xs ys rule: merge_by.induct)
  case (1 le x xs y ys)
  show ?case
  proof (cases "le x y")
    case True
    then show ?thesis using 1 by simp
  next
    case False
    have "\<not> eqv le k z" if "eqv le k y" "z \<in> set (x # xs)" for z
    proof
      assume "eqv le k z"
      moreover have "le x z" using that(2) 1(4) total_preorder_total [OF 1(3)] by auto
      ultimately have "le x y" using that(1) total_preorder_trans [OF 1(3)] unfolding eqv_def by blast
      then show False using False by simp
    qed
    then have "filter (eqv le k) (x # xs) = []" if "eqv le k y" using that by (metis filter_False)
    then show ?thesis using 1 False by (cases "eqv le k y") auto
  qed
qed auto

section \<open>Passes\<close>

function merge_pass :: "('a \<Rightarrow> 'a \<Rightarrow> bool) \<Rightarrow> nat \<Rightarrow> 'a list \<Rightarrow> 'a list" where
  "merge_pass le n xs =
     (if xs = [] \<or> n = 0 then xs
      else merge_by le (take n xs) (take n (drop n xs)) @ merge_pass le n (drop (2 * n) xs))"
  by pat_completeness auto
termination by (relation "measure (\<lambda>(le, n, xs). length xs)") auto

declare merge_pass.simps [simp del]

function merges :: "nat \<Rightarrow> nat \<Rightarrow> nat" where
  "merges n len = (if len = 0 \<or> n = 0 then 0 else Suc (merges n (len - 2 * n)))"
  by pat_completeness auto
termination by (relation "measure snd") auto

declare merges.simps [simp del]

lemma merges_le_1: "0 < n \<Longrightarrow> merges n len \<le> 1 \<longleftrightarrow> len \<le> 2 * n"
  by (simp add: merges.simps [of n len] merges.simps [of n "len - 2 * n"])

function runs :: "('a \<Rightarrow> 'a \<Rightarrow> bool) \<Rightarrow> nat \<Rightarrow> 'a list \<Rightarrow> bool" where
  "runs le n xs = (if xs = [] \<or> n = 0 then True else sorted_wrt le (take n xs) \<and> runs le n (drop n xs))"
  by pat_completeness auto
termination by (relation "measure (\<lambda>(le, n, xs). length xs)") auto

declare runs.simps [simp del]

lemma runs_1: "runs le 1 xs"
proof (induction xs)
  case (Cons x xs)
  then show ?case by (subst runs.simps) simp
qed (simp add: runs.simps)

lemma runs_Nil [simp]: "runs le n []"
  by (simp add: runs.simps)

lemma runs_next:
  assumes "runs le n (drop n xs)"
  shows "sorted_wrt le (take n (drop n xs))" "runs le n (drop (2 * n) xs)"
proof -
  consider "n = 0" | "drop n xs = []" | "0 < n" "drop n xs \<noteq> []" by blast
  then have "sorted_wrt le (take n (drop n xs)) \<and> runs le n (drop n (drop n xs))"
  proof cases
    case 3
    then show ?thesis using assms by (subst (asm) runs.simps) simp
  qed (use assms in auto)
  then show "sorted_wrt le (take n (drop n xs))" "runs le n (drop (2 * n) xs)" by (simp_all add: mult_2)
qed

lemma take_drop_two: "take n xs @ take n (drop n xs) = take (2 * n) xs"
  by (metis mult_2 take_add)

lemma mset_merge_pass [simp]: "mset (merge_pass le n xs) = mset xs"
proof (induction le n xs rule: merge_pass.induct)
  case (1 le n xs)
  show ?case
  proof (cases "xs = [] \<or> n = 0")
    case False
    have "mset (merge_pass le n xs) = mset (take (2 * n) xs) + mset (drop (2 * n) xs)"
      using 1 False by (subst merge_pass.simps) (simp flip: take_drop_two)
    then show ?thesis by (metis append_take_drop_id mset_append)
  qed (auto simp: merge_pass.simps)
qed

lemma length_merge_pass [simp]: "length (merge_pass le n xs) = length xs"
  by (metis mset_merge_pass size_mset)

lemma set_merge_pass [simp]: "set (merge_pass le n xs) = set xs"
  by (metis mset_merge_pass set_mset_mset)

lemma runs_merge_pass:
  "total_preorder le \<Longrightarrow> runs le n xs \<Longrightarrow> runs le (2 * n) (merge_pass le n xs)"
proof (induction le n xs rule: merge_pass.induct)
  case (1 le n xs)
  show ?case
  proof (cases "xs = [] \<or> n = 0")
    case False
    let ?m = "merge_by le (take n xs) (take n (drop n xs))"
    have s: "sorted_wrt le (take n xs)" "runs le n (drop n xs)" using 1(3) False by (auto simp: runs.simps [of le n xs])
    note s2 = runs_next [OF s(2)]
    have m: "sorted_wrt le ?m" by (rule sorted_merge_by [OF 1(2) s(1) s2(1)])
    have l: "length ?m = min (2 * n) (length xs)" by auto
    have e: "merge_pass le n xs = ?m @ merge_pass le n (drop (2 * n) xs)" using False by (subst merge_pass.simps) simp
    have p: "take (2 * n) (merge_pass le n xs) = ?m \<and> drop (2 * n) (merge_pass le n xs) = merge_pass le n (drop (2 * n) xs)"
    proof (cases "2 * n \<le> length xs")
      case True
      then have "length ?m = 2 * n" using l by linarith
      then show ?thesis unfolding e by (simp del: length_merge_by)
    next
      case longer: False
      then have "drop (2 * n) xs = []" "length ?m \<le> 2 * n" using l by simp_all
      then show ?thesis unfolding e by (simp add: merge_pass.simps del: length_merge_by)
    qed
    have "runs le (2 * n) (merge_pass le n (drop (2 * n) xs))" using 1(1) [OF False 1(2) s2(2)] .
    then show ?thesis using p m by (simp add: runs.simps [of le "2 * n" "merge_pass le n xs"])
  qed (auto simp: merge_pass.simps runs.simps)
qed

lemma stable_merge_pass:
  "total_preorder le \<Longrightarrow> runs le n xs \<Longrightarrow> filter (eqv le k) (merge_pass le n xs) = filter (eqv le k) xs"
proof (induction le n xs rule: merge_pass.induct)
  case (1 le n xs)
  show ?case
  proof (cases "xs = [] \<or> n = 0")
    case False
    have s: "sorted_wrt le (take n xs)" "runs le n (drop n xs)" using 1(3) False by (auto simp: runs.simps [of le n xs])
    note s2 = runs_next [OF s(2)]
    have "filter (eqv le k) (merge_pass le n xs) = filter (eqv le k) (take (2 * n) xs) @ filter (eqv le k) (drop (2 * n) xs)"
      using 1(1) [OF False 1(2) s2(2)] stable_merge_by [OF 1(2) s(1) s2(1), of k] False
      by (subst merge_pass.simps) (simp flip: take_drop_two)
    then show ?thesis by (metis append_take_drop_id filter_append)
  qed (auto simp: merge_pass.simps)
qed

section \<open>The loops on the store\<close>

text \<open>
  The items of the cells do not change while the links do: \<open>key\<close> gives the item of a cell throughout, and
  \<open>leq\<close> is the comparison of cells by their items.
\<close>

definition keyed :: "(nat \<Rightarrow> 'v obj) \<Rightarrow> 'v store \<Rightarrow> bool" where
  "keyed key h \<longleftrightarrow> (\<forall>c < length h. cell_a (h ! c) = key c)"

definition leq :: "('v obj \<Rightarrow> 'v obj \<Rightarrow> int) \<Rightarrow> (nat \<Rightarrow> 'v obj) \<Rightarrow> nat \<Rightarrow> nat \<Rightarrow> bool" where
  "leq cmp key c d \<longleftrightarrow> cmp (key c) (key d) \<le> 0"

lemma keyed_relinked: "keyed key h \<Longrightarrow> relinked S h h' \<Longrightarrow> keyed key h'"
  by (simp add: keyed_def relinked_def)

lemma step_along_ok:
  assumes "list_at h q cs y" and "cs \<noteq> []" and "0 < n"
  shows "\<exists>r. step_along h q n k = Some (r, k + int (length (take n cs))) \<and> path h q (take n cs) r \<and> list_at h r (drop n cs) y"
  using assms
proof (induction n arbitrary: q cs k)
  case (Suc n)
  then obtain c ds where c: "cs = c # ds" "q = Cell c" "c < length h" "list_at h (cell_d (h ! c)) ds y"
    by (cases cs) auto
  show ?case
  proof (cases "ds = []")
    case True
    then show ?thesis using c by (auto simp: list_at_def)
  next
    case False
    then have l: "is_list (cell_d (h ! c))" using c(4) by (cases ds) auto
    show ?thesis
    proof (cases n)
      case 0
      then show ?thesis using c l by simp
    next
      case (Suc m)
      then show ?thesis using Suc.IH [OF c(4) False, of "k + 1"] c l by (auto simp: ac_simps)
    qed
  qed
qed simp

text \<open>One step of the merge: the cell taken is appended to the output.\<close>

lemma merge_take:
  assumes "linked h head out tail" and "path h p ps r" and "list_at h q qs y" and "distinct (out @ ps @ qs)"
    and "c < length h" and "c \<notin> set out" and "set (out @ ps @ qs) \<subseteq> S"
  shows "\<exists>h'. (if is_list tail then set_d h tail (Cell c) else Some h) = Some h' \<and>
    linked h' (if is_list tail then head else Cell c) (out @ [c]) (Cell c) \<and> relinked S h h' \<and>
    path h' p ps r \<and> list_at h' q qs y"
proof -
  obtain h' where 1: "(if is_list tail then set_d h tail (Cell c) else Some h) = Some h'"
    "linked h' (if is_list tail then head else Cell c) (out @ [c]) (Cell c)" "relinked (set out) h h'"
    using linked_append [OF assms(1,5,6)] by blast
  have d: "set ps \<inter> set out = {}" "set qs \<inter> set out = {}" using assms(4) by auto
  have "relinked S h h'" using 1(3) assms(7) by (auto intro: relinked_mono)
  then show ?thesis
    using 1 relinked_path [OF 1(3) assms(2) d(1)] relinked_list_at [OF 1(3) assms(3) d(2)] by blast
qed

lemma from_p_ok:
  assumes "path h p ps r" and "list_at h q qs y" and "keyed key h" and "0 \<le> qsize" and "ps \<noteq> [] \<or> take (nat qsize) qs \<noteq> []"
  shows "from_p cmp h p (int (length ps)) q qsize =
    Some (take (nat qsize) qs = [] \<or> (ps \<noteq> [] \<and> leq cmp key (hd ps) (hd qs)))"
proof (cases ps)
  case Nil
  then show ?thesis using assms(5) by (simp add: from_p_def)
next
  case (Cons c cs)
  have q: "is_list q \<longleftrightarrow> qs \<noteq> []" using assms(2) by (cases qs) auto
  show ?thesis
  proof (cases "take (nat qsize) qs = []")
    case True
    then show ?thesis using Cons q assms(4) by (auto simp: from_p_def)
  next
    case False
    then obtain d ds where d: "qs = d # ds" "0 < qsize" using assms(4) by (cases qs; cases "qsize = 0") auto
    then show ?thesis using Cons assms(1-3) q by (auto simp: from_p_def leq_def keyed_def)
  qed
qed

lemma merge_loop_ok:
  assumes "path h p ps r" and "list_at h q qs y" and "linked h head out tail" and "distinct (out @ ps @ qs)"
    and "set (out @ ps @ qs) \<subseteq> S" and "keyed key h" and "0 \<le> qsize"
  shows "\<exists>h' q' head' tail'. merge_loop cmp h p (int (length ps)) q qsize head tail = Some (h', q', head', tail') \<and>
    linked h' head' (out @ merge_by (leq cmp key) ps (take (nat qsize) qs)) tail' \<and>
    list_at h' q' (drop (nat qsize) qs) y \<and> relinked S h h'"
  using assms
proof (induction "length ps + length qs" arbitrary: h p ps q qs head out tail qsize rule: less_induct)
  case less
  note prems = less.prems
  have q: "is_list q \<longleftrightarrow> qs \<noteq> []" using prems(2) by (cases qs) auto
  show ?case
  proof (cases "ps \<noteq> [] \<or> take (nat qsize) qs \<noteq> []")
    case False
    then have f: "ps = []" "take (nat qsize) qs = []" by auto
    then have "\<not> (qsize > 0 \<and> is_list q)" "drop (nat qsize) qs = qs" using q prems(7) by (cases qs; auto)+
    then show ?thesis using f prems by (subst merge_loop.simps) auto
  next
    case True
    let ?b = "take (nat qsize) qs = [] \<or> (ps \<noteq> [] \<and> leq cmp key (hd ps) (hd qs))"
    have guard: "int (length ps) > 0 \<or> (qsize > 0 \<and> is_list q)" using True q prems(7) by (cases ps) auto
    note b = from_p_ok [OF prems(1,2,6,7) True, of cmp]
    show ?thesis
    proof (cases ?b)
      case True
      then obtain c cs where c: "ps = c # cs" using \<open>ps \<noteq> [] \<or> take (nat qsize) qs \<noteq> []\<close> by (cases ps) auto
      have pc: "p = Cell c" "c < length h" "path h (cell_d (h ! c)) cs r" "c \<notin> set out" using prems(1,4) c by auto
      obtain h1 where 1: "(if is_list tail then set_d h tail (Cell c) else Some h) = Some h1"
        "linked h1 (if is_list tail then head else Cell c) (out @ [c]) (Cell c)" "relinked S h h1"
        "path h1 (cell_d (h ! c)) cs r" "list_at h1 q qs y"
        using merge_take [OF prems(3) pc(3) prems(2) _ pc(2,4), of S] prems(4,5) c by auto
      have "merge_loop cmp h p (int (length ps)) q qsize head tail =
          merge_loop cmp h1 (cell_d (h ! c)) (int (length cs)) q qsize (if is_list tail then head else Cell c) (Cell c)"
        using guard b True pc(1,2) 1(1) c by (subst merge_loop.simps) (auto split: if_splits)
      moreover have "merge_by (leq cmp key) ps (take (nat qsize) qs) = c # merge_by (leq cmp key) cs (take (nat qsize) qs)"
      proof (cases "take (nat qsize) qs")
        case (Cons d ds)
        then have "d = hd qs" by (cases qs; cases "nat qsize") auto
        then show ?thesis using True c Cons by simp
      next
        case Nil
        show ?thesis unfolding Nil c by simp
      qed
      moreover have "distinct ((out @ [c]) @ cs @ qs)" "set ((out @ [c]) @ cs @ qs) \<subseteq> S" using prems(4,5) c by auto
      ultimately show ?thesis
        using less.hyps [OF _ 1(4,5,2) _ _ keyed_relinked [OF prems(6) 1(3)] prems(7)] c relinked_trans [OF 1(3)]
        by fastforce
    next
      case False
      then obtain d ds where d: "qs = d # ds" "0 < qsize" using prems(7) by (cases qs; cases "qsize = 0") auto
      have n: "nat qsize = Suc (nat (qsize - 1))" using d(2) by linarith
      have qd: "q = Cell d" "d < length h" "list_at h (cell_d (h ! d)) ds y" "d \<notin> set out" using prems(2,4) d by auto
      obtain h1 where 1: "(if is_list tail then set_d h tail (Cell d) else Some h) = Some h1"
        "linked h1 (if is_list tail then head else Cell d) (out @ [d]) (Cell d)" "relinked S h h1"
        "path h1 p ps r" "list_at h1 (cell_d (h ! d)) ds y"
        using merge_take [OF prems(3,1) qd(3) _ qd(2,4), of S] prems(4,5) d by auto
      have "merge_loop cmp h p (int (length ps)) q qsize head tail =
          merge_loop cmp h1 p (int (length ps)) (cell_d (h ! d)) (qsize - 1) (if is_list tail then head else Cell d) (Cell d)"
        using guard b False qd(1,2) 1(1) by (subst merge_loop.simps) (auto split: if_splits)
      moreover have "merge_by (leq cmp key) ps (take (nat qsize) qs) = d # merge_by (leq cmp key) ps (take (nat (qsize - 1)) ds)"
        using False d(1) unfolding n by (cases ps) auto
      moreover have "distinct ((out @ [d]) @ ps @ ds)" "set ((out @ [d]) @ ps @ ds) \<subseteq> S" using prems(4,5) d by auto
      moreover have "drop (nat qsize) qs = drop (nat (qsize - 1)) ds" unfolding n d(1) by simp
      ultimately show ?thesis
        using less.hyps [OF _ 1(4,5,2) _ _ keyed_relinked [OF prems(6) 1(3)], of "qsize - 1"] d relinked_trans [OF 1(3)]
        by fastforce
    qed
  qed
qed


lemma pass_loop_ok:
  assumes "list_at h p cs y" and "linked h head out tail" and "distinct (out @ cs)" and "set (out @ cs) \<subseteq> S"
    and "keyed key h" and "0 < n"
  shows "\<exists>h' head' tail'. pass_loop cmp h (int n) p head tail m = Some (h', head', tail', m + int (merges n (length cs))) \<and>
    linked h' head' (out @ merge_pass (leq cmp key) n cs) tail' \<and> relinked S h h'"
  using assms
proof (induction "length cs" arbitrary: h p cs head out tail m rule: less_induct)
  case less
  note prems = less.prems
  show ?case
  proof (cases "cs = []")
    case True
    then have "\<not> is_list p" using prems(1) by simp
    then show ?thesis using True prems(2) by (subst pass_loop.simps) (simp add: merge_pass.simps merges.simps [of n 0])
  next
    case False
    let ?le = "leq cmp key" and ?ps = "take n cs" and ?qs = "drop n cs"
    have p: "is_list p" using prems(1) False by (cases cs) auto
    obtain q where q: "step_along h p n 0 = Some (q, int (length ?ps))" "path h p ?ps q" "list_at h q ?qs y"
      using step_along_ok [OF prems(1) False prems(6), of 0] by auto
    have d: "distinct (out @ ?ps @ ?qs)" "set (out @ ?ps @ ?qs) \<subseteq> S" using prems(3,4) unfolding append_take_drop_id by simp_all
    obtain h1 q1 hd1 tl1 where 1: "merge_loop cmp h p (int (length ?ps)) q (int n) head tail = Some (h1, q1, hd1, tl1)"
      "linked h1 hd1 (out @ merge_by ?le ?ps (take n ?qs)) tl1" "list_at h1 q1 (drop n ?qs) y" "relinked S h h1"
      using merge_loop_ok [OF q(2,3) prems(2) d prems(5), of "int n" cmp] by auto
    let ?out = "out @ merge_by ?le ?ps (take n ?qs)" and ?rest = "drop (2 * n) cs"
    have "mset (?out @ ?rest) = mset out + mset (take (2 * n) cs @ ?rest)" by (simp flip: take_drop_two)
    then have m: "mset (?out @ ?rest) = mset (out @ cs)" unfolding append_take_drop_id by simp
    have "distinct (?out @ ?rest)" "set (?out @ ?rest) \<subseteq> S"
      using prems(3,4) unfolding mset_eq_imp_distinct_iff [OF m] mset_eq_setD [OF m] by simp_all
    moreover have "list_at h1 q1 ?rest y" using 1(3) by (simp add: mult_2)
    moreover have "length ?rest < length cs" using False prems(6) by (cases cs) auto
    ultimately obtain h2 hd2 tl2 where 2: "pass_loop cmp h1 (int n) q1 hd1 tl1 (m + 1) = Some (h2, hd2, tl2, m + 1 + int (merges n (length ?rest)))"
      "linked h2 hd2 (?out @ merge_pass ?le n ?rest) tl2" "relinked S h1 h2"
      using less.hyps [OF _ _ 1(2) _ _ keyed_relinked [OF prems(5) 1(4)] prems(6)] by blast
    have "pass_loop cmp h (int n) p head tail m = Some (h2, hd2, tl2, m + int (merges n (length cs)))"
      using p q(1) 1(1) 2(1) False prems(6) by (subst pass_loop.simps) (simp add: merges.simps [of n "length cs"])
    moreover have "merge_pass ?le n cs = merge_by ?le ?ps (take n ?qs) @ merge_pass ?le n ?rest"
      using False prems(6) by (subst merge_pass.simps) simp
    ultimately show ?thesis using 2(2) relinked_trans [OF 1(4) 2(3)] by simp
  qed
qed

function bottom_up :: "('a \<Rightarrow> 'a \<Rightarrow> bool) \<Rightarrow> nat \<Rightarrow> 'a list \<Rightarrow> 'a list" where
  "bottom_up le n xs =
     (if n = 0 \<or> length xs \<le> 2 * n then merge_pass le n xs else bottom_up le (2 * n) (merge_pass le n xs))"
  by pat_completeness auto
termination by (relation "measure (\<lambda>(le, n, xs). length xs - n)") auto

declare bottom_up.simps [simp del]

lemma mset_bottom_up [simp]: "mset (bottom_up le n xs) = mset xs"
proof (induction le n xs rule: bottom_up.induct)
  case (1 le n xs)
  then show ?case by (subst bottom_up.simps) simp
qed

lemma set_bottom_up [simp]: "set (bottom_up le n xs) = set xs"
  by (metis mset_bottom_up set_mset_mset)

lemma bottom_up_sorts:
  "total_preorder le \<Longrightarrow> runs le n xs \<Longrightarrow> 0 < n \<Longrightarrow>
   sorted_wrt le (bottom_up le n xs) \<and> filter (eqv le k) (bottom_up le n xs) = filter (eqv le k) xs"
proof (induction le n xs rule: bottom_up.induct)
  case (1 le n xs)
  show ?case
  proof (cases "length xs \<le> 2 * n")
    case True
    have "sorted_wrt le (take (2 * n) (merge_pass le n xs))"
      using runs_merge_pass [OF 1(2,3)] 1(4) by (subst (asm) runs.simps) (auto split: if_splits)
    then show ?thesis using True 1(4) stable_merge_pass [OF 1(2,3), of k] by (simp add: bottom_up.simps [of le n xs])
  next
    case False
    then show ?thesis
      using 1(1) [OF _ 1(2) runs_merge_pass [OF 1(2,3)]] 1(4) stable_merge_pass [OF 1(2,3), of k]
      by (simp add: bottom_up.simps [of le n xs])
  qed
qed

lemma sort_loop_ok:
  assumes "list_at h x cs y" and "keyed key h" and "int (length cs) < 2 ^ 62" and "0 < n" and "set cs \<subseteq> S"
  shows "\<exists>h' x'. sort_loop cmp h (int n) x = Some (h', x') \<and> list_at h' x' (bottom_up (leq cmp key) n cs) NullObj \<and> relinked S h h'"
  using assms
proof (induction "length cs - n" arbitrary: h x cs n y rule: less_induct)
  case less
  note prems = less.prems
  let ?cs = "merge_pass (leq cmp key) n cs"
  have d: "distinct ([] @ cs)" "set ([] @ cs) \<subseteq> S" using list_at_distinct [OF prems(1)] prems(5) by simp_all
  obtain h1 hd1 tl1 where 1: "pass_loop cmp h (int n) x NullObj NullObj 0 = Some (h1, hd1, tl1, int (merges n (length cs)))"
    "linked h1 hd1 ?cs tl1" "relinked S h h1"
    using pass_loop_ok [OF prems(1) linked_Nil d prems(2,4), of cmp 0] by auto
  obtain h2 where 2: "set_d h1 tl1 NullObj = Some h2" "list_at h2 hd1 ?cs NullObj" "relinked (set ?cs) h1 h2"
    using linked_finish [OF 1(2)] by blast
  have r: "relinked S h h2" by (rule relinked_mono [OF relinked_trans [OF 1(3) 2(3)]]) (use prems(5) in auto)
  show ?case
  proof (cases "length cs \<le> 2 * n")
    case True
    then have "int (merges n (length cs)) \<le> 1" using merges_le_1 [OF prems(4)] by simp
    then show ?thesis using 1(1) 2(1,2) r True prems(4) by (subst sort_loop.simps) (simp add: bottom_up.simps [of _ n cs])
  next
    case False
    then have m: "\<not> int (merges n (length cs)) \<le> 1" using merges_le_1 [OF prems(4)] by simp
    have w: "i64 (int n * 2) = int (2 * n)" using False prems(3) by (subst i64_id) auto
    have "length ?cs - 2 * n < length cs - n" using False prems(4) by simp
    then obtain h3 x3 where 3: "sort_loop cmp h2 (int (2 * n)) hd1 = Some (h3, x3)"
      "list_at h3 x3 (bottom_up (leq cmp key) (2 * n) ?cs) NullObj" "relinked S h2 h3"
      using less.hyps [OF _ 2(2) keyed_relinked [OF prems(2) r], of "2 * n"] prems(3-5) by auto
    have "sort_loop cmp h (int n) x = Some (h3, x3)"
      using 1(1) 2(1) 3(1) m w by (subst sort_loop.simps) simp
    then show ?thesis using 3(2) relinked_trans [OF r 3(3)] False prems(4) by (simp add: bottom_up.simps [of _ n cs])
  qed
qed


section \<open>What sorting computes\<close>

definition ordered :: "('v obj \<Rightarrow> 'v obj \<Rightarrow> int) \<Rightarrow> 'v obj \<Rightarrow> 'v obj \<Rightarrow> bool" where
  "ordered cmp a b \<longleftrightarrow> cmp a b \<le> 0"

text \<open>
  \<open>sorts cmp h cs h' cs'\<close>: the cells \<open>cs'\<close> are the cells \<open>cs\<close> in the order of their items, cells with equal
  items in the order they had.
\<close>

definition sorts :: "('v obj \<Rightarrow> 'v obj \<Rightarrow> int) \<Rightarrow> 'v store \<Rightarrow> nat list \<Rightarrow> nat list \<Rightarrow> bool" where
  "sorts cmp h cs cs' \<longleftrightarrow>
     sorted_wrt (ordered cmp) (items h cs') \<and>
     (\<forall>k \<in> set cs. filter (\<lambda>c. eqv (ordered cmp) (cell_a (h ! k)) (cell_a (h ! c))) cs' =
        filter (\<lambda>c. eqv (ordered cmp) (cell_a (h ! k)) (cell_a (h ! c))) cs)"

definition item_of :: "'v store \<Rightarrow> nat \<Rightarrow> 'v obj" where
  "item_of h c = cell_a (h ! c)"

lemma keyed_item_of [simp]: "keyed (item_of h) h"
  by (simp add: keyed_def item_of_def)

lemma leq_ordered: "leq cmp (item_of h) = (\<lambda>c d. ordered cmp (cell_a (h ! c)) (cell_a (h ! d)))"
  by (simp add: leq_def ordered_def item_of_def fun_eq_iff)

lemma bottom_up_sorts_cells:
  assumes "total_preorder (ordered cmp)"
  shows "sorts cmp h cs (bottom_up (leq cmp (item_of h)) 1 cs)"
proof -
  let ?le = "leq cmp (item_of h)"
  have t: "total_preorder ?le" using assms unfolding leq_ordered total_preorder_def by blast
  have s: "sorted_wrt ?le (bottom_up ?le 1 cs)" "filter (eqv ?le k) (bottom_up ?le 1 cs) = filter (eqv ?le k) cs" for k
    using bottom_up_sorts [OF t runs_1, of cs k] by simp_all
  have e: "eqv ?le k = (\<lambda>c. eqv (ordered cmp) (cell_a (h ! k)) (cell_a (h ! c)))" for k
    by (simp add: eqv_def leq_ordered fun_eq_iff)
  show ?thesis
    unfolding sorts_def using s unfolding e by (simp add: items_def sorted_wrt_map leq_ordered)
qed

lemma Sort_ok:
  assumes "list_at h x cs y" and "int (length cs) < 2 ^ 62"
  shows "\<exists>h' x'. SmileList_Sort cmp h x = Some (h', x') \<and>
    list_at h' x' (bottom_up (leq cmp (item_of h)) 1 cs) NullObj \<and> relinked (set cs) h h'"
proof (cases "is_null x")
  case True
  then have "cs = []" "x = NullObj" using assms(1) by (cases x; cases cs; auto)+
  then show ?thesis by (simp add: SmileList_Sort_def bottom_up.simps merge_pass.simps)
next
  case False
  then show ?thesis using sort_loop_ok [OF assms(1) keyed_item_of assms(2), of 1 "set cs" cmp] by (simp add: SmileList_Sort_def)
qed

text \<open>
  C8: Sorting a list in place always ends, whatever the comparison function, and returns a list of exactly the
  cells of the given one, changing nothing but links between them. When the comparison is a total order up
  to equal items, the items are in order and cells with equal items keep their order: the sort is stable.
\<close>

theorem SmileList_Sort_correct:
  assumes "list_at h x cs y" and "int (length cs) < 2 ^ 62"
  shows "\<exists>h' x' cs'. SmileList_Sort cmp h x = Some (h', x') \<and> list_at h' x' cs' NullObj \<and> mset cs' = mset cs \<and>
    relinked (set cs) h h' \<and> items h' cs' = items h cs' \<and>
    (total_preorder (ordered cmp) \<longrightarrow> sorts cmp h cs cs')"
proof -
  let ?cs = "bottom_up (leq cmp (item_of h)) 1 cs"
  obtain h' x' where r: "SmileList_Sort cmp h x = Some (h', x')" "list_at h' x' ?cs NullObj" "relinked (set cs) h h'"
    using Sort_ok [OF assms] by blast
  have "items h' ?cs = items h ?cs" using list_at_bound [OF assms(1)] by (intro relinked_items [OF r(3)]) auto
  then show ?thesis using r bottom_up_sorts_cells [of cmp h cs]
    by (intro exI [of _ h'] exI [of _ x'] exI [of _ ?cs]) simp
qed

fun compare_vals :: "int obj \<Rightarrow> int obj \<Rightarrow> int" where
  "compare_vals (Val a) (Val b) = b - a"
| "compare_vals (Val a) y = 1"
| "compare_vals x (Val b) = -1"
| "compare_vals x y = 0"

theorem SmileList_Sort_correct_witness:
  "total_preorder (ordered compare_vals) \<and>
   (\<exists>h' x' cs'. SmileList_Sort compare_vals sample_store (Cell 2) = Some (h', x') \<and> list_at h' x' cs' NullObj \<and>
     mset cs' = {#2, 0, 1#} \<and> sorts compare_vals sample_store [2, 0, 1] cs')"
proof -
  have t: "total_preorder (ordered compare_vals)"
    unfolding total_preorder_def ordered_def
  proof (intro conjI allI impI)
    show "compare_vals x y \<le> 0 \<or> compare_vals y x \<le> 0" for x y by (cases x; cases y) auto
    show "compare_vals x z \<le> 0" if "compare_vals x y \<le> 0" "compare_vals y z \<le> 0" for x y z
      using that by (cases x; cases y; cases z) auto
  qed
  then show ?thesis using SmileList_Sort_correct [OF sample_list, of compare_vals] by fastforce
qed


end
