(* ===== verification/InterruptibleSort.thy ===== *)
theory InterruptibleSort
  imports ListSort
begin

text \<open>
  The merge sort as a state machine that hands every comparison to its caller
  (\<^verbatim>\<open>InterruptibleListSort_Start\<close> and \<^verbatim>\<open>InterruptibleListSort_Continue\<close> of \<^verbatim>\<open>smilelist.c\<close>), for comparisons the
  interpreter has to evaluate; and that driving it is \<^verbatim>\<open>SmileList_Sort\<close>.
\<close>

section \<open>Definitions\<close>

datatype sort_state =
  INITIAL | OUTER_LOOP | AFTER_OUTER_LOOP | STEP_LOOP | AFTER_STEP_LOOP | MERGE_LOOP | COMPARE_ITEMS
| AFTER_COMPARE_ITEMS | GOT_NEXT_LOWEST | AFTER_MERGE_LOOP

record 'v InterruptibleListSortInfo =
  il_list :: "'v obj"
  il_p :: "'v obj"
  il_q :: "'v obj"
  il_e :: "'v obj"
  il_tail :: "'v obj"
  il_stepSize :: int
  il_psize :: int
  il_qsize :: int
  il_state :: sort_state
  il_numMerges :: "8 word"
  il_cmpResult :: int

text \<open>The fields that are not set at the start are written before they are read.\<close>

definition InterruptibleListSort_Start :: "'v obj \<Rightarrow> 'v InterruptibleListSortInfo" where
  "InterruptibleListSort_Start list =
     \<lparr>il_list = list, il_p = NullObj, il_q = NullObj, il_e = NullObj, il_tail = NullObj,
      il_stepSize = 0, il_psize = 0, il_qsize = 0, il_state = INITIAL, il_numMerges = 0, il_cmpResult = 0\<rparr>"

text \<open>What \<^verbatim>\<open>Continue\<close> returns: a comparison to make (True), or the sorted list (False).\<close>

datatype 'v sort_outcome = Compare "'v obj" "'v obj" | Sorted "'v obj"

definition take_lowest ::
  "'v store \<Rightarrow> 'v InterruptibleListSortInfo \<Rightarrow> ('v store \<times> 'v InterruptibleListSortInfo) option" where
  "take_lowest h s =
     do { s \<leftarrow> (if il_cmpResult s \<le> 0
                then do { d \<leftarrow> get_d h (il_p s); Some (s\<lparr>il_e := il_p s, il_p := d, il_psize := il_psize s - 1\<rparr>) }
                else do { d \<leftarrow> get_d h (il_q s); Some (s\<lparr>il_e := il_q s, il_q := d, il_qsize := il_qsize s - 1\<rparr>) });
          (h, s) \<leftarrow> (if is_list (il_tail s)
                    then do { h \<leftarrow> set_d h (il_tail s) (il_e s); Some (h, s) }
                    else Some (h, s\<lparr>il_list := il_e s\<rparr>));
          Some (h, s\<lparr>il_tail := il_e s\<rparr>) }"

text \<open>The labels of the \<^verbatim>\<open>switch\<close>; a \<^verbatim>\<open>goto\<close> is a recursive call.\<close>

partial_function (option) sort_run ::
  "'v store \<Rightarrow> 'v InterruptibleListSortInfo \<Rightarrow> sort_state \<Rightarrow> int \<Rightarrow>
   ('v store \<times> 'v InterruptibleListSortInfo \<times> 'v sort_outcome) option" where
  "sort_run h s label cmpResult =
     (case label of
        INITIAL \<Rightarrow>
          if is_null (il_list s) then Some (h, s, Sorted (il_list s))
          else sort_run h (s\<lparr>il_stepSize := 1\<rparr>) OUTER_LOOP cmpResult
      | OUTER_LOOP \<Rightarrow>
          sort_run h (s\<lparr>il_p := il_list s, il_list := NullObj, il_tail := NullObj, il_numMerges := 0\<rparr>) STEP_LOOP cmpResult
      | STEP_LOOP \<Rightarrow>
          if \<not> is_list (il_p s) then sort_run h s AFTER_STEP_LOOP cmpResult
          else Option.bind (step_along h (il_p s) (nat (il_stepSize s)) 0) (\<lambda>(q, psize).
            sort_run h (s\<lparr>il_numMerges := il_numMerges s + 1, il_q := q, il_psize := psize,
                          il_qsize := il_stepSize s\<rparr>) MERGE_LOOP cmpResult)
      | MERGE_LOOP \<Rightarrow>
          if \<not> (il_psize s > 0 \<or> (il_qsize s > 0 \<and> is_list (il_q s))) then sort_run h s AFTER_MERGE_LOOP cmpResult
          else if il_psize s = 0 then sort_run h (s\<lparr>il_cmpResult := 1\<rparr>) GOT_NEXT_LOWEST cmpResult
          else if il_qsize s = 0 \<or> \<not> is_list (il_q s)
          then sort_run h (s\<lparr>il_cmpResult := -1\<rparr>) GOT_NEXT_LOWEST cmpResult
          else sort_run h s COMPARE_ITEMS cmpResult
      | GOT_NEXT_LOWEST \<Rightarrow>
          Option.bind (take_lowest h s) (\<lambda>(h, s). sort_run h s MERGE_LOOP cmpResult)
      | AFTER_MERGE_LOOP \<Rightarrow> sort_run h (s\<lparr>il_p := il_q s\<rparr>) STEP_LOOP cmpResult
      | AFTER_STEP_LOOP \<Rightarrow>
          Option.bind (set_d h (il_tail s) NullObj) (\<lambda>h.
            if il_numMerges s \<le> 1 then Some (h, s, Sorted (il_list s))
            else sort_run h (s\<lparr>il_stepSize := i64 (il_stepSize s * 2)\<rparr>) OUTER_LOOP cmpResult)
      | COMPARE_ITEMS \<Rightarrow>
          Option.bind (get_a h (il_p s)) (\<lambda>a. Option.bind (get_a h (il_q s)) (\<lambda>b.
            Some (h, s\<lparr>il_state := AFTER_COMPARE_ITEMS\<rparr>, Compare a b)))
      | AFTER_COMPARE_ITEMS \<Rightarrow>
          sort_run h (s\<lparr>il_cmpResult := (if cmpResult < 0 then -1 else if cmpResult > 0 then 1 else 0)\<rparr>)
            GOT_NEXT_LOWEST cmpResult
      | AFTER_OUTER_LOOP \<Rightarrow> sort_run h s INITIAL cmpResult)"

declare sort_run.simps [code]

definition InterruptibleListSort_Continue ::
  "'v store \<Rightarrow> 'v InterruptibleListSortInfo \<Rightarrow> int \<Rightarrow>
   ('v store \<times> 'v InterruptibleListSortInfo \<times> 'v sort_outcome) option" where
  "InterruptibleListSort_Continue h sortInfo cmpResult = sort_run h sortInfo (il_state sortInfo) cmpResult"

text \<open>
  A caller that answers every comparison with \<open>cmp\<close>, as the interpreter does with the function it was given
  (\<^verbatim>\<open>SortStart\<close> and \<^verbatim>\<open>SortBody\<close> of \<^verbatim>\<open>smilelist_class.c\<close>).
\<close>

partial_function (option) drive ::
  "('v obj \<Rightarrow> 'v obj \<Rightarrow> int) \<Rightarrow> 'v store \<Rightarrow> 'v InterruptibleListSortInfo \<Rightarrow> int \<Rightarrow> ('v store \<times> 'v obj) option" where
  "drive cmp h s cmpResult =
     Option.bind (InterruptibleListSort_Continue h s cmpResult) (\<lambda>(h, s, r).
       case r of Sorted list \<Rightarrow> Some (h, list) | Compare a b \<Rightarrow> drive cmp h s (cmp a b))"

declare drive.simps [code]

definition interruptible_sort :: "('v obj \<Rightarrow> 'v obj \<Rightarrow> int) \<Rightarrow> 'v store \<Rightarrow> 'v obj \<Rightarrow> ('v store \<times> 'v obj) option" where
  "interruptible_sort cmp h list = drive cmp h (InterruptibleListSort_Start list) 0"

section \<open>Running the machine\<close>

text \<open>The driver from a label on, and how it passes from label to label.\<close>

definition drive_at ::
  "('v obj \<Rightarrow> 'v obj \<Rightarrow> int) \<Rightarrow> 'v store \<Rightarrow> 'v InterruptibleListSortInfo \<Rightarrow> sort_state \<Rightarrow> int \<Rightarrow> ('v store \<times> 'v obj) option" where
  "drive_at cmp h s label r =
     Option.bind (sort_run h s label r) (\<lambda>(h, s, r).
       case r of Sorted list \<Rightarrow> Some (h, list) | Compare a b \<Rightarrow> drive cmp h s (cmp a b))"

lemma drive_drive_at: "drive cmp h s r = drive_at cmp h s (il_state s) r"
  by (subst drive.simps) (simp add: drive_at_def InterruptibleListSort_Continue_def)

lemma drive_at_INITIAL:
  "drive_at cmp h s INITIAL r =
     (if is_null (il_list s) then Some (h, il_list s) else drive_at cmp h (s\<lparr>il_stepSize := 1\<rparr>) OUTER_LOOP r)"
  unfolding drive_at_def by (subst sort_run.simps) simp

lemma drive_at_OUTER_LOOP:
  "drive_at cmp h s OUTER_LOOP r =
     drive_at cmp h (s\<lparr>il_p := il_list s, il_list := NullObj, il_tail := NullObj, il_numMerges := 0\<rparr>) STEP_LOOP r"
  unfolding drive_at_def by (subst sort_run.simps) simp

lemma drive_at_STEP_LOOP:
  "drive_at cmp h s STEP_LOOP r =
     (if \<not> is_list (il_p s) then drive_at cmp h s AFTER_STEP_LOOP r
      else Option.bind (step_along h (il_p s) (nat (il_stepSize s)) 0) (\<lambda>(q, psize).
        drive_at cmp h (s\<lparr>il_numMerges := il_numMerges s + 1, il_q := q, il_psize := psize,
                          il_qsize := il_stepSize s\<rparr>) MERGE_LOOP r))"
  unfolding drive_at_def by (subst sort_run.simps) (simp split: option.split Option.bind_splits)

lemma drive_at_MERGE_LOOP:
  "drive_at cmp h s MERGE_LOOP r =
     (if \<not> (il_psize s > 0 \<or> (il_qsize s > 0 \<and> is_list (il_q s))) then drive_at cmp h s AFTER_MERGE_LOOP r
      else if il_psize s = 0 then drive_at cmp h (s\<lparr>il_cmpResult := 1\<rparr>) GOT_NEXT_LOWEST r
      else if il_qsize s = 0 \<or> \<not> is_list (il_q s) then drive_at cmp h (s\<lparr>il_cmpResult := -1\<rparr>) GOT_NEXT_LOWEST r
      else drive_at cmp h s COMPARE_ITEMS r)"
  unfolding drive_at_def by (subst sort_run.simps) simp

lemma drive_at_GOT_NEXT_LOWEST:
  "drive_at cmp h s GOT_NEXT_LOWEST r = Option.bind (take_lowest h s) (\<lambda>(h, s). drive_at cmp h s MERGE_LOOP r)"
  unfolding drive_at_def by (subst sort_run.simps) (simp split: option.split Option.bind_splits)

lemma drive_at_AFTER_MERGE_LOOP:
  "drive_at cmp h s AFTER_MERGE_LOOP r = drive_at cmp h (s\<lparr>il_p := il_q s\<rparr>) STEP_LOOP r"
  unfolding drive_at_def by (subst sort_run.simps) simp

lemma drive_at_AFTER_STEP_LOOP:
  "drive_at cmp h s AFTER_STEP_LOOP r =
     Option.bind (set_d h (il_tail s) NullObj) (\<lambda>h.
       if il_numMerges s \<le> 1 then Some (h, il_list s)
       else drive_at cmp h (s\<lparr>il_stepSize := i64 (il_stepSize s * 2)\<rparr>) OUTER_LOOP r)"
  unfolding drive_at_def by (subst sort_run.simps) (simp split: option.split Option.bind_splits)

lemma drive_at_AFTER_COMPARE:
  "drive_at cmp h s AFTER_COMPARE_ITEMS r =
     drive_at cmp h (s\<lparr>il_cmpResult := (if r < 0 then -1 else if r > 0 then 1 else 0)\<rparr>) GOT_NEXT_LOWEST r"
  unfolding drive_at_def by (subst sort_run.simps) simp

lemma drive_at_COMPARE_ITEMS:
  "drive_at cmp h s COMPARE_ITEMS r =
     Option.bind (get_a h (il_p s)) (\<lambda>a. Option.bind (get_a h (il_q s)) (\<lambda>b.
       drive_at cmp h (s\<lparr>il_state := AFTER_COMPARE_ITEMS\<rparr>) AFTER_COMPARE_ITEMS (cmp a b)))"
  unfolding drive_at_def [of cmp h s COMPARE_ITEMS]
  by (subst sort_run.simps) (simp add: drive_drive_at split: Option.bind_splits)


section \<open>The machine follows the loops\<close>

text \<open>What the rest of a run depends on.\<close>

definition same_pass :: "'v InterruptibleListSortInfo \<Rightarrow> 'v InterruptibleListSortInfo \<Rightarrow> bool" where
  "same_pass s s' \<longleftrightarrow> il_stepSize s' = il_stepSize s \<and> il_numMerges s' = il_numMerges s"

definition at_merge ::
  "'v InterruptibleListSortInfo \<Rightarrow> 'v obj \<Rightarrow> int \<Rightarrow> 'v obj \<Rightarrow> int \<Rightarrow> 'v obj \<Rightarrow> 'v obj \<Rightarrow> bool" where
  "at_merge s p psize q qsize list tail \<longleftrightarrow>
     il_p s = p \<and> il_psize s = psize \<and> il_q s = q \<and> il_qsize s = qsize \<and> il_list s = list \<and> il_tail s = tail"

lemma same_pass_refl: "same_pass s s"
  by (simp add: same_pass_def)

lemma same_pass_trans: "same_pass s s' \<Longrightarrow> same_pass s' s'' \<Longrightarrow> same_pass s s''"
  by (simp add: same_pass_def)

text \<open>One round of the merge loop.\<close>

lemma machine_merge_step:
  assumes "at_merge s p psize q qsize list tail" and "psize > 0 \<or> (qsize > 0 \<and> is_list q)"
    and "from_p cmp h p psize q qsize = Some b" and "get_d h (if b then p else q) = Some d"
    and "(if is_list tail then set_d h tail (if b then p else q) else Some h) = Some h'"
  shows "\<exists>s' r'. drive_at cmp h s MERGE_LOOP r = drive_at cmp h' s' MERGE_LOOP r' \<and> same_pass s s' \<and>
    at_merge s' (if b then d else p) (if b then psize - 1 else psize) (if b then q else d) (if b then qsize else qsize - 1)
      (if is_list tail then list else if b then p else q) (if b then p else q)"
proof -
  have take: "\<exists>s'. take_lowest h s0 = Some (h', s') \<and> same_pass s s' \<and>
      at_merge s' (if b then d else p) (if b then psize - 1 else psize) (if b then q else d) (if b then qsize else qsize - 1)
        (if is_list tail then list else if b then p else q) (if b then p else q)"
    if "at_merge s0 p psize q qsize list tail" "same_pass s s0" "b \<longleftrightarrow> il_cmpResult s0 \<le> 0" for s0
    using that assms(4,5) by (auto simp: take_lowest_def at_merge_def same_pass_def split: if_splits)
  have next_lowest: "\<exists>s' r'. drive_at cmp h s0 GOT_NEXT_LOWEST r0 = drive_at cmp h' s' MERGE_LOOP r' \<and> same_pass s s' \<and>
      at_merge s' (if b then d else p) (if b then psize - 1 else psize) (if b then q else d) (if b then qsize else qsize - 1)
        (if is_list tail then list else if b then p else q) (if b then p else q)"
    if t: "at_merge s0 p psize q qsize list tail" "same_pass s s0" "b \<longleftrightarrow> il_cmpResult s0 \<le> 0" for s0 r0
  proof -
    obtain s' where s': "take_lowest h s0 = Some (h', s')" "same_pass s s'"
      "at_merge s' (if b then d else p) (if b then psize - 1 else psize) (if b then q else d) (if b then qsize else qsize - 1)
        (if is_list tail then list else if b then p else q) (if b then p else q)"
      using take [OF t] by blast
    have "drive_at cmp h s0 GOT_NEXT_LOWEST r0 = drive_at cmp h' s' MERGE_LOOP r0" using s'(1) by (simp add: drive_at_GOT_NEXT_LOWEST)
    then show ?thesis using s'(2,3) by blast
  qed
  have f: "il_psize s = psize" "il_qsize s = qsize" "il_q s = q" "il_p s = p" using assms(1) by (simp_all add: at_merge_def)
  consider "psize = 0" | "psize \<noteq> 0" "qsize = 0 \<or> \<not> is_list q" | "psize \<noteq> 0" "\<not> (qsize = 0 \<or> \<not> is_list q)" by blast
  then show ?thesis
  proof cases
    case 1
    then have "\<not> b" "drive_at cmp h s MERGE_LOOP r = drive_at cmp h (s\<lparr>il_cmpResult := 1\<rparr>) GOT_NEXT_LOWEST r"
      using assms(2,3) f by (auto simp: drive_at_MERGE_LOOP from_p_def)
    then show ?thesis using next_lowest [of "s\<lparr>il_cmpResult := 1\<rparr>" r] assms(1) by (simp add: at_merge_def same_pass_def)
  next
    case 2
    then have "b" "drive_at cmp h s MERGE_LOOP r = drive_at cmp h (s\<lparr>il_cmpResult := -1\<rparr>) GOT_NEXT_LOWEST r"
      using assms(2,3) f by (auto simp: drive_at_MERGE_LOOP from_p_def)
    then show ?thesis using next_lowest [of "s\<lparr>il_cmpResult := -1\<rparr>" r] assms(1) by (simp add: at_merge_def same_pass_def)
  next
    case 3
    then obtain x y where xy: "get_a h p = Some x" "get_a h q = Some y" "b \<longleftrightarrow> cmp x y \<le> 0"
      using assms(3) by (auto simp: from_p_def bind_eq_Some_conv)
    let ?c = "if cmp x y < 0 then - 1 else if cmp x y > 0 then 1 else (0 :: int)"
    let ?s = "s\<lparr>il_state := AFTER_COMPARE_ITEMS, il_cmpResult := ?c\<rparr>"
    have "drive_at cmp h s MERGE_LOOP r = drive_at cmp h ?s GOT_NEXT_LOWEST (cmp x y)"
      using 3 assms(2) f xy(1,2) by (auto simp: drive_at_MERGE_LOOP drive_at_COMPARE_ITEMS drive_at_AFTER_COMPARE)
    moreover have "at_merge ?s p psize q qsize list tail" "same_pass s ?s" "b \<longleftrightarrow> il_cmpResult ?s \<le> 0"
      using assms(1) xy(3) by (simp_all add: at_merge_def same_pass_def)
    ultimately show ?thesis using next_lowest [of ?s "cmp x y"] by presburger
  qed
qed

definition machine_merges ::
  "('v obj \<Rightarrow> 'v obj \<Rightarrow> int) \<Rightarrow> 'v store \<Rightarrow> 'v obj \<Rightarrow> int \<Rightarrow> 'v obj \<Rightarrow> int \<Rightarrow> 'v obj \<Rightarrow> 'v obj \<Rightarrow>
   'v store \<times> 'v obj \<times> 'v obj \<times> 'v obj \<Rightarrow> bool" where
  "machine_merges cmp h p psize q qsize list tail res \<longleftrightarrow>
     (\<forall>s r. at_merge s p psize q qsize list tail \<longrightarrow>
       (\<exists>s' r'. drive_at cmp h s MERGE_LOOP r = drive_at cmp (fst res) s' AFTER_MERGE_LOOP r' \<and> same_pass s s' \<and>
          il_q s' = fst (snd res) \<and> il_list s' = fst (snd (snd res)) \<and> il_tail s' = snd (snd (snd res))))"

lemma machine_merge:
  assumes "merge_loop cmp h p psize q qsize list tail = Some res"
  shows "machine_merges cmp h p psize q qsize list tail res"
proof (rule merge_loop.raw_induct [where P = machine_merges, OF _ assms])
  fix f :: "('a obj \<Rightarrow> 'a obj \<Rightarrow> int) \<Rightarrow> 'a store \<Rightarrow> 'a obj \<Rightarrow> int \<Rightarrow> 'a obj \<Rightarrow> int \<Rightarrow> 'a obj \<Rightarrow> 'a obj \<Rightarrow>
    ('a store \<times> 'a obj \<times> 'a obj \<times> 'a obj) option"
    and cmp h p psize q qsize list tail res
  assume IH: "\<And>cmp h p psize q qsize list tail res. f cmp h p psize q qsize list tail = Some res \<Longrightarrow>
      machine_merges cmp h p psize q qsize list tail res"
    and run: "(if psize > 0 \<or> (qsize > 0 \<and> is_list q)
      then Option.bind (from_p cmp h p psize q qsize) (\<lambda>b.
           Option.bind (get_d h (if b then p else q)) (\<lambda>d.
           Option.bind (if is_list tail then set_d h tail (if b then p else q) else Some h) (\<lambda>h.
           f cmp h (if b then d else p) (if b then psize - 1 else psize)
             (if b then q else d) (if b then qsize else qsize - 1)
             (if is_list tail then list else if b then p else q) (if b then p else q))))
      else Some (h, q, list, tail)) = Some res"
  show "machine_merges cmp h p psize q qsize list tail res"
    unfolding machine_merges_def
  proof (intro allI impI)
    fix s :: "'a InterruptibleListSortInfo" and r
    assume s: "at_merge s p psize q qsize list tail"
    show "\<exists>s' r'. drive_at cmp h s MERGE_LOOP r = drive_at cmp (fst res) s' AFTER_MERGE_LOOP r' \<and> same_pass s s' \<and>
          il_q s' = fst (snd res) \<and> il_list s' = fst (snd (snd res)) \<and> il_tail s' = snd (snd (snd res))"
    proof (cases "psize > 0 \<or> (qsize > 0 \<and> is_list q)")
      case False
      then have "res = (h, q, list, tail)" using run by (simp split: if_splits)
      moreover have "drive_at cmp h s MERGE_LOOP r = drive_at cmp h s AFTER_MERGE_LOOP r"
        using False s by (simp add: drive_at_MERGE_LOOP at_merge_def)
      ultimately show ?thesis using s by (auto simp: at_merge_def intro: same_pass_refl)
    next
      case True
      then obtain b d h' where b: "from_p cmp h p psize q qsize = Some b" "get_d h (if b then p else q) = Some d"
        "(if is_list tail then set_d h tail (if b then p else q) else Some h) = Some h'"
        "f cmp h' (if b then d else p) (if b then psize - 1 else psize) (if b then q else d) (if b then qsize else qsize - 1)
           (if is_list tail then list else if b then p else q) (if b then p else q) = Some res"
        using run by (auto simp only: if_True bind_eq_Some_conv)
      obtain s1 r1 where 1: "drive_at cmp h s MERGE_LOOP r = drive_at cmp h' s1 MERGE_LOOP r1" "same_pass s s1"
        "at_merge s1 (if b then d else p) (if b then psize - 1 else psize) (if b then q else d) (if b then qsize else qsize - 1)
           (if is_list tail then list else if b then p else q) (if b then p else q)"
        using machine_merge_step [OF s True b(1-3)] by blast
      then show ?thesis using IH [OF b(4)] same_pass_trans [OF 1(2)] unfolding machine_merges_def by (metis (no_types, lifting))
    qed
  qed
qed

text \<open>A pass; the count of merges is kept in a byte.\<close>

definition machine_passes ::
  "('v obj \<Rightarrow> 'v obj \<Rightarrow> int) \<Rightarrow> 'v store \<Rightarrow> int \<Rightarrow> 'v obj \<Rightarrow> 'v obj \<Rightarrow> 'v obj \<Rightarrow> int \<Rightarrow>
   'v store \<times> 'v obj \<times> 'v obj \<times> int \<Rightarrow> bool" where
  "machine_passes cmp h stepSize p list tail m res \<longleftrightarrow>
     (\<forall>s r. il_p s = p \<and> il_list s = list \<and> il_tail s = tail \<and> il_stepSize s = stepSize \<and> il_numMerges s = of_int m \<longrightarrow>
       (\<exists>s' r'. drive_at cmp h s STEP_LOOP r = drive_at cmp (fst res) s' AFTER_STEP_LOOP r' \<and> il_stepSize s' = stepSize \<and>
          il_list s' = fst (snd res) \<and> il_tail s' = fst (snd (snd res)) \<and> il_numMerges s' = of_int (snd (snd (snd res)))))"

lemma machine_pass:
  assumes "pass_loop cmp h stepSize p list tail m = Some res"
  shows "machine_passes cmp h stepSize p list tail m res"
proof (rule pass_loop.raw_induct [where P = machine_passes, OF _ assms])
  fix f :: "('a obj \<Rightarrow> 'a obj \<Rightarrow> int) \<Rightarrow> 'a store \<Rightarrow> int \<Rightarrow> 'a obj \<Rightarrow> 'a obj \<Rightarrow> 'a obj \<Rightarrow> int \<Rightarrow>
    ('a store \<times> 'a obj \<times> 'a obj \<times> int) option"
    and cmp h stepSize p list tail m res
  assume IH: "\<And>cmp h stepSize p list tail m res. f cmp h stepSize p list tail m = Some res \<Longrightarrow>
      machine_passes cmp h stepSize p list tail m res"
    and run: "(if is_list p
      then Option.bind (step_along h p (nat stepSize) 0) (\<lambda>(q, psize).
           Option.bind (merge_loop cmp h p psize q stepSize list tail) (\<lambda>(h, q, list, tail).
           f cmp h stepSize q list tail (m + 1)))
      else Some (h, list, tail, m)) = Some res"
  show "machine_passes cmp h stepSize p list tail m res"
    unfolding machine_passes_def
  proof (intro allI impI)
    fix s :: "'a InterruptibleListSortInfo" and r
    assume s: "il_p s = p \<and> il_list s = list \<and> il_tail s = tail \<and> il_stepSize s = stepSize \<and> il_numMerges s = of_int m"
    show "\<exists>s' r'. drive_at cmp h s STEP_LOOP r = drive_at cmp (fst res) s' AFTER_STEP_LOOP r' \<and> il_stepSize s' = stepSize \<and>
          il_list s' = fst (snd res) \<and> il_tail s' = fst (snd (snd res)) \<and> il_numMerges s' = of_int (snd (snd (snd res)))"
    proof (cases "is_list p")
      case False
      then have "res = (h, list, tail, m)" using run by simp
      then show ?thesis using False s by (auto simp: drive_at_STEP_LOOP)
    next
      case True
      then obtain q psize h1 q1 l1 t1 where 1: "step_along h p (nat stepSize) 0 = Some (q, psize)"
        "merge_loop cmp h p psize q stepSize list tail = Some (h1, q1, l1, t1)" "f cmp h1 stepSize q1 l1 t1 (m + 1) = Some res"
        using run by (auto simp: bind_eq_Some_conv)
      let ?s = "s\<lparr>il_numMerges := il_numMerges s + 1, il_q := q, il_psize := psize, il_qsize := il_stepSize s\<rparr>"
      have "at_merge ?s p psize q stepSize list tail" using s by (simp add: at_merge_def)
      then obtain s1 r1 where 2: "drive_at cmp h ?s MERGE_LOOP r = drive_at cmp h1 s1 AFTER_MERGE_LOOP r1" "same_pass ?s s1"
        "il_q s1 = q1" "il_list s1 = l1" "il_tail s1 = t1"
        using machine_merge [OF 1(2)] unfolding machine_merges_def by (metis fst_conv snd_conv)
      let ?s1 = "s1\<lparr>il_p := il_q s1\<rparr>"
      have "drive_at cmp h s STEP_LOOP r = drive_at cmp h1 ?s1 STEP_LOOP r1"
        using True s 1(1) 2(1) by (simp add: drive_at_STEP_LOOP drive_at_AFTER_MERGE_LOOP)
      moreover have "il_p ?s1 = q1 \<and> il_list ?s1 = l1 \<and> il_tail ?s1 = t1 \<and> il_stepSize ?s1 = stepSize \<and>
          il_numMerges ?s1 = of_int (m + 1)"
        using 2(2-5) s by (simp add: same_pass_def)
      ultimately show ?thesis using IH [OF 1(3)] unfolding machine_passes_def by (metis (no_types, lifting))
    qed
  qed
qed


section \<open>The machine against the sort\<close>

lemma merges_bound: "0 < n \<Longrightarrow> 2 * merges n len \<le> len + 1"
proof (induction n len rule: merges.induct)
  case (1 n len)
  then show ?case by (cases "len \<le> 2 * n") (auto simp: merges.simps [of n len] merges.simps [of n 0])
qed

lemma merges_1: "merges 1 len = (len + 1) div 2"
proof (induction "1 :: nat" len rule: merges.induct)
  case (1 len)
  then show ?case by (cases "len < 2") (auto simp: merges.simps [of 1 len] merges.simps [of "Suc 0" len] merges.simps [of "Suc 0" 0])
qed

lemma numMerges_le_1: "(of_int (int m) :: 8 word) \<le> 1 \<longleftrightarrow> m mod 256 \<le> 1"
proof -
  have "(of_int (int m) :: 8 word) \<le> 1 \<longleftrightarrow> unat (of_nat m :: 8 word) \<le> unat (1 :: 8 word)"
    by (simp add: word_le_nat_alt)
  then show ?thesis by (simp add: unat_of_nat)
qed

text \<open>One round of the outer loop.\<close>

lemma machine_round:
  assumes "list_at h x cs y" and "keyed key h" and "0 < n" and "set cs \<subseteq> S"
    and "il_list s = x" and "il_stepSize s = int n"
  shows "\<exists>h2 x2 t1 h1 s2 r2. pass_loop cmp h (int n) x NullObj NullObj 0 = Some (h1, x2, t1, int (merges n (length cs))) \<and>
    set_d h1 t1 NullObj = Some h2 \<and> list_at h2 x2 (merge_pass (leq cmp key) n cs) NullObj \<and> relinked S h h2 \<and>
    il_list s2 = x2 \<and> il_stepSize s2 = i64 (int n * 2) \<and>
    drive_at cmp h s OUTER_LOOP r =
      (if merges n (length cs) mod 256 \<le> 1 then Some (h2, x2) else drive_at cmp h2 s2 OUTER_LOOP r2)"
proof -
  let ?cs = "merge_pass (leq cmp key) n cs" and ?m = "merges n (length cs)"
  let ?s = "s\<lparr>il_p := il_list s, il_list := NullObj, il_tail := NullObj, il_numMerges := 0\<rparr>"
  have d: "distinct ([] @ cs)" "set ([] @ cs) \<subseteq> S" using list_at_distinct [OF assms(1)] assms(4) by simp_all
  obtain h1 x2 t1 where 1: "pass_loop cmp h (int n) x NullObj NullObj 0 = Some (h1, x2, t1, int ?m)"
    "linked h1 x2 ?cs t1" "relinked S h h1"
    using pass_loop_ok [OF assms(1) linked_Nil d assms(2,3), of cmp 0] by auto
  obtain h2 where 2: "set_d h1 t1 NullObj = Some h2" "list_at h2 x2 ?cs NullObj" "relinked (set ?cs) h1 h2"
    using linked_finish [OF 1(2)] by blast
  have r: "relinked S h h2" by (rule relinked_mono [OF relinked_trans [OF 1(3) 2(3)]]) (use assms(4) in auto)
  obtain s1 r1 where 3: "drive_at cmp h ?s STEP_LOOP r = drive_at cmp h1 s1 AFTER_STEP_LOOP r1" "il_stepSize s1 = int n"
    "il_list s1 = x2" "il_tail s1 = t1" "il_numMerges s1 = of_int (int ?m)"
    using machine_pass [OF 1(1), unfolded machine_passes_def, rule_format, of ?s r] assms(5,6) by auto
  let ?s2 = "s1\<lparr>il_stepSize := i64 (il_stepSize s1 * 2)\<rparr>"
  have n1: "il_numMerges s1 \<le> 1 \<longleftrightarrow> ?m mod 256 \<le> 1" unfolding 3(5) by (rule numMerges_le_1)
  have "drive_at cmp h s OUTER_LOOP r = (if ?m mod 256 \<le> 1 then Some (h2, x2) else drive_at cmp h2 ?s2 OUTER_LOOP r1)"
    using 3(1,3,4) 2(1) n1 by (simp add: drive_at_OUTER_LOOP drive_at_AFTER_STEP_LOOP)
  moreover have "il_list ?s2 = x2 \<and> il_stepSize ?s2 = i64 (int n * 2)" using 3(2,3) by simp
  ultimately show ?thesis using 1(1) 2(1,2) r by blast
qed

lemma machine_sort:
  assumes "list_at h x cs y" and "keyed key h" and "length cs \<le> 510" and "0 < n" and "set cs \<subseteq> S"
    and "il_list s = x" and "il_stepSize s = int n"
  shows "drive_at cmp h s OUTER_LOOP r = sort_loop cmp h (int n) x"
  using assms
proof (induction "length cs - n" arbitrary: h x cs n y s r rule: less_induct)
  case less
  note prems = less.prems
  let ?cs = "merge_pass (leq cmp key) n cs" and ?m = "merges n (length cs)"
  obtain h2 x2 t1 h1 s2 r2 where m: "pass_loop cmp h (int n) x NullObj NullObj 0 = Some (h1, x2, t1, int ?m)"
    "set_d h1 t1 NullObj = Some h2" "list_at h2 x2 ?cs NullObj" "relinked S h h2" "il_list s2 = x2" "il_stepSize s2 = i64 (int n * 2)"
    "drive_at cmp h s OUTER_LOOP r = (if ?m mod 256 \<le> 1 then Some (h2, x2) else drive_at cmp h2 s2 OUTER_LOOP r2)"
    using machine_round [OF prems(1,2,4,5,6,7), of cmp r] by blast
  have c: "?m mod 256 = ?m" using merges_bound [OF prems(4), of "length cs"] prems(3) by simp
  show ?case
  proof (cases "length cs \<le> 2 * n")
    case True
    then have "?m \<le> 1" using merges_le_1 [OF prems(4)] by simp
    then show ?thesis using m(1,2,7) c by (subst sort_loop.simps) simp
  next
    case False
    then have m1: "\<not> ?m \<le> 1" using merges_le_1 [OF prems(4)] by simp
    have w: "i64 (int n * 2) = int (2 * n)" using False prems(3) by (subst i64_id) auto
    have "length ?cs - 2 * n < length cs - n" using False prems(4) by simp
    then have "drive_at cmp h2 s2 OUTER_LOOP r2 = sort_loop cmp h2 (int (2 * n)) x2"
      using less.hyps [OF _ m(3) keyed_relinked [OF prems(2) m(4)], of "2 * n" s2 r2] prems(3-5) m(5,6) w by simp
    then show ?thesis using m(1,2,7) m1 c w by (subst sort_loop.simps) simp
  qed
qed

text \<open>
  C16: The sort that hands its comparisons to the interpreter, driven to its end, returns the same list in the
  same store as the plain sort, whatever the comparison function, for lists of up to 510 cells. (The
  number of merges of a pass is counted in a byte; beyond 510 cells the count can wrap around.)
\<close>

theorem InterruptibleListSort_equals_Sort:
  assumes "list_at h x cs y" and "length cs \<le> 510"
  shows "interruptible_sort cmp h x = SmileList_Sort cmp h x"
proof (cases "is_null x")
  case True
  then show ?thesis
    by (simp add: interruptible_sort_def drive_drive_at InterruptibleListSort_Start_def drive_at_INITIAL SmileList_Sort_def)
next
  case False
  let ?s = "(InterruptibleListSort_Start x)\<lparr>il_stepSize := 1\<rparr>"
  have "interruptible_sort cmp h x = drive_at cmp h ?s OUTER_LOOP 0"
    using False by (simp add: interruptible_sort_def drive_drive_at InterruptibleListSort_Start_def drive_at_INITIAL)
  also have "\<dots> = sort_loop cmp h (int 1) x"
    by (intro machine_sort [OF assms(1) keyed_item_of assms(2) _ subset_refl]) (simp_all add: InterruptibleListSort_Start_def)
  finally show ?thesis using False by (simp add: SmileList_Sort_def)
qed

theorem InterruptibleListSort_equals_Sort_witness:
  "interruptible_sort compare_vals sample_store (Cell 2) = SmileList_Sort compare_vals sample_store (Cell 2)"
  using InterruptibleListSort_equals_Sort [OF sample_list, of compare_vals] by simp

text \<open>
  C39: From 511 to 514 cells the count of merges of the first pass wraps around to 0 or 1, and the sort ends
  there: the list returned consists of sorted pairs only.
\<close>

theorem InterruptibleListSort_stops_early:
  assumes "list_at h x cs y" and "511 \<le> length cs" and "length cs \<le> 514"
  shows "\<exists>h' x'. interruptible_sort cmp h x = Some (h', x') \<and>
    list_at h' x' (merge_pass (leq cmp (item_of h)) 1 cs) NullObj \<and> relinked (set cs) h h'"
proof -
  have x: "\<not> is_null x" using assms(1,2) by (cases cs) auto
  let ?s = "(InterruptibleListSort_Start x)\<lparr>il_stepSize := 1\<rparr>"
  have s: "il_list ?s = x" "il_stepSize ?s = int 1" by (simp_all add: InterruptibleListSort_Start_def)
  have "length cs \<in> {511, 512, 513, 514}" using assms(2,3) by auto
  then have m: "merges 1 (length cs) mod 256 \<le> 1" unfolding merges_1 by auto
  obtain h2 x2 s2 r2 where r: "list_at h2 x2 (merge_pass (leq cmp (item_of h)) 1 cs) NullObj" "relinked (set cs) h h2"
    "drive_at cmp h ?s OUTER_LOOP 0 = (if merges 1 (length cs) mod 256 \<le> 1 then Some (h2, x2) else drive_at cmp h2 s2 OUTER_LOOP r2)"
    using machine_round [OF assms(1) keyed_item_of zero_less_one subset_refl s, of cmp 0] by blast
  have "drive_at cmp h ?s OUTER_LOOP 0 = Some (h2, x2)" using r(3) m by simp
  moreover have "interruptible_sort cmp h x = drive_at cmp h ?s OUTER_LOOP 0"
    using x by (simp add: interruptible_sort_def drive_drive_at InterruptibleListSort_Start_def drive_at_INITIAL)
  ultimately show ?thesis using r(1,2) by auto
qed


text \<open>512 cells with the numbers 0 to 511 in ascending order, to be sorted in descending order.\<close>

definition ascending_store :: "nat \<Rightarrow> int store" where
  "ascending_store n = map (\<lambda>i. \<lparr>cell_a = Val (int i), cell_d = (if Suc i < n then Cell (Suc i) else NullObj)\<rparr>) [0..<n]"

lemma ascending_cell:
  "i < n \<Longrightarrow> ascending_store n ! i = \<lparr>cell_a = Val (int i), cell_d = (if Suc i < n then Cell (Suc i) else NullObj)\<rparr>"
  "length (ascending_store n) = n"
  by (simp_all add: ascending_store_def)

lemma ascending_list: "i < n \<Longrightarrow> list_at (ascending_store n) (Cell i) [i..<n] NullObj"
proof (induction "n - i" arbitrary: i)
  case (Suc k)
  have c: "[i..<n] = i # [Suc i..<n]" using Suc.prems by (rule upt_conv_Cons)
  have "list_at (ascending_store n) (if Suc i < n then Cell (Suc i) else NullObj) [Suc i..<n] NullObj"
    using Suc.hyps(1) [of "Suc i"] Suc.hyps(2) by simp
  then show ?case unfolding c using Suc.prems by (simp add: ascending_cell)
qed simp

lemma ascending_pass:
  assumes "4 \<le> n"
  shows "take 4 (items (ascending_store n) (merge_pass (leq compare_vals (item_of (ascending_store n))) 1 [0..<n])) =
    [Val 1, Val 0, Val 3, Val 2]"
proof -
  let ?le = "leq compare_vals (item_of (ascending_store n))"
  have le: "?le c d \<longleftrightarrow> d \<le> c" if "c < n" "d < n" for c d
    using that by (simp add: leq_def item_of_def ascending_cell)
  have u: "[0..<n] = 0 # 1 # 2 # 3 # [4..<n]" using assms by (simp add: upt_conv_Cons eval_nat_numeral)
  have "take 4 (merge_pass ?le 1 (0 # 1 # 2 # 3 # [4..<n])) = [1, 0, 3, 2]"
    using assms by (simp add: merge_pass.simps [of _ _ "_ # _"] le)
  then show ?thesis unfolding u using assms by (simp add: items_def take_map ascending_cell)
qed

theorem InterruptibleListSort_stops_early_witness:
  "\<exists>h' x' cs. interruptible_sort compare_vals (ascending_store 512) (Cell 0) = Some (h', x') \<and>
     list_at h' x' cs NullObj \<and> take 4 (items (ascending_store 512) cs) = [Val 1, Val 0, Val 3, Val 2]"
proof -
  have l: "511 \<le> length [0..<512]" "length [0..<512] \<le> 514" unfolding length_upt by simp_all
  obtain h' x' where "interruptible_sort compare_vals (ascending_store 512) (Cell 0) = Some (h', x')"
    "list_at h' x' (merge_pass (leq compare_vals (item_of (ascending_store 512))) 1 [0..<512]) NullObj"
    using InterruptibleListSort_stops_early [OF ascending_list [of 0 512] l, of compare_vals] by (metis zero_less_numeral)
  moreover have "4 \<le> (512 :: nat)" by simp
  ultimately show ?thesis using ascending_pass by blast
qed


end
