(* ===== verification/ByteCodes.thy ===== *)
theory ByteCodes
  imports SmilePrelude
begin

text \<open>
  The instruction set (\<^verbatim>\<open>smilelib/include/smile/eval/opcode.h\<close>, \<^verbatim>\<open>bytecode.h\<close>) and the
  bytecode segments of \<^verbatim>\<open>smilelib/src/eval/bytecode.c\<close>. An instruction is its opcode together
  with the member of the operand union that the opcode uses. The eight short forms of a family,
  such as \<^verbatim>\<open>Op_LdLoc0\<close> to \<^verbatim>\<open>Op_LdLoc7\<close>, are one constructor with the number as its first
  argument. The instructions are grouped by what they touch: the temporary stack only, the
  variables, or objects. The type parameter is what a branch carries: a target label while the code is being
  generated, the relative address \<^verbatim>\<open>u.index\<close> in a finished segment.
\<close>

type_synonym Symbol = int32

datatype StackOp =
    Op_Nop | Op_Dup1 | Op_Dup2 | Op_Dup int | Op_Pop1 | Op_Pop2 | Op_Pop int
  | Op_Rep1 | Op_Rep2 | Op_Rep int
  | Op_LdNull | Op_LdBool bool | Op_LdStr int | Op_LdSym Symbol | Op_LdObj int
  | Op_LdChar byte | Op_LdUni "32 word"
  | Op_Ld8 byte | Op_Ld16 "16 word" | Op_Ld32 int32 | Op_Ld64 int64

datatype VarOp =
    Op_LdLoc int int | Op_StLoc int int | Op_StpLoc int int
  | Op_LdArg int int | Op_StArg int int | Op_StpArg int int
  | Op_LdX Symbol | Op_StX Symbol | Op_StpX Symbol | Op_NullLoc0 int
  | Op_LdArgN int int | Op_LdLocN int int | Op_StArgN int int | Op_StLocN int int
  | Op_StpArgN int int | Op_StpLocN int int

datatype ObjectOp =
    Op_LdProp Symbol | Op_StProp Symbol | Op_StpProp Symbol
  | Op_LdMember | Op_StMember | Op_StpMember
  | Op_SuperEq | Op_SuperNe | Op_Not | Op_Is | Op_TypeOf
  | Op_MetN int Symbol | Op_Met int Symbol | Op_Call int | Op_TillEsc int
  | Op_Bool | Op_LdA | Op_LdD | Op_LdStart | Op_LdEnd | Op_LdCount | Op_LdLength

datatype 'l ByteCode =
    Stack StackOp | Var VarOp | Object ObjectOp
  | Op_Jmp 'l | Op_Bt 'l | Op_Bf 'l | Op_Ret | Op_Brk
  | Op_Label | Op_Block | Op_EndBlock

record ByteCodeSegment =
  byteCodes :: "int ByteCode option list"
  numByteCodes :: int
  maxByteCodes :: int

definition ByteCodeSegment_CreateWithSize :: "int \<Rightarrow> ByteCodeSegment" where
  "ByteCodeSegment_CreateWithSize n =
     \<lparr>byteCodes = replicate (nat n) None, numByteCodes = 0, maxByteCodes = n\<rparr>"

text \<open>The statement \<^verbatim>\<open>segment->byteCodes[segment->numByteCodes++] = ...\<close>.\<close>

definition segment_put :: "ByteCodeSegment \<Rightarrow> int ByteCode \<Rightarrow> ByteCodeSegment option" where
  "segment_put segment byteCode = do {
     codes \<leftarrow> arr_set (byteCodes segment) (numByteCodes segment) (Some byteCode);
     Some (segment\<lparr>byteCodes := codes, numByteCodes := numByteCodes segment + 1\<rparr>)}"

text \<open>Reading the instruction that \<^verbatim>\<open>byteCode\<close> points to; an address outside the segment, or one
  never written, has none.\<close>

definition fetch :: "ByteCodeSegment \<Rightarrow> int \<Rightarrow> int ByteCode option" where
  "fetch segment pc = Option.bind (arr_get (byteCodes segment) pc) id"

end
