(* ===== verification/CompiledBlocks.thy ===== *)
theory CompiledBlocks
  imports ByteCodes
begin

text \<open>
  Basic blocks of intermediate code (\<^verbatim>\<open>smilelib/src/eval/compiler/compiledblock.c\<close>): how
  instructions and child blocks are attached, how the stack counters of a block are kept, and how
  a finished tree of blocks is laid out as a bytecode segment with resolved branches.

  The doubly linked list of a block is a list of instructions. An \<^verbatim>\<open>Op_Label\<close> instruction has an
  identity, here a number, and a branch names the label that its \<^verbatim>\<open>p.branchTarget\<close> points to. The
  fields \<^verbatim>\<open>parent\<close> (never read) and \<^verbatim>\<open>sourceLocation\<close> (read by the debugger only) are left out.
\<close>

type_synonym branch = "int \<times> nat option"

datatype Instr =
    Plain (instructionAddress: nat) "branch ByteCode"
  | LabelInstr (instructionAddress: nat) nat
  | BlockInstr (instructionAddress: nat) CompiledBlock
and CompiledBlock =
  CompiledBlock (instructions: "Instr list") (numInstructions: int)
    (maxStackDepth: int) (finalStackDelta: int) (escapes: bool) (has_error: bool)

section \<open>Building blocks\<close>

definition CompiledBlock_Create :: CompiledBlock where
  "CompiledBlock_Create = CompiledBlock [] 0 0 0 False False"

definition CompiledBlock_CreateError :: CompiledBlock where
  "CompiledBlock_CreateError = CompiledBlock [] 0 0 0 False True"

text \<open>\<open>insertAfterThis\<close> is the position of an attached instruction, \<open>None\<close> for a null pointer.\<close>

fun CompiledBlock_AttachInstruction :: "CompiledBlock \<Rightarrow> nat option \<Rightarrow> Instr \<Rightarrow> CompiledBlock" where
  "CompiledBlock_AttachInstruction (CompiledBlock is n m f esc err) insertAfterThis newInstruction =
     (case insertAfterThis of
        None \<Rightarrow> CompiledBlock (newInstruction # is) (n + 1) m f esc err
      | Some k \<Rightarrow> CompiledBlock (take (Suc k) is @ newInstruction # drop (Suc k) is) (n + 1) m f esc err)"

definition block_last :: "CompiledBlock \<Rightarrow> nat option" where
  "block_last block = (if instructions block = [] then None else Some (length (instructions block) - 1))"

fun CompiledBlock_DetachInstruction :: "CompiledBlock \<Rightarrow> nat \<Rightarrow> CompiledBlock" where
  "CompiledBlock_DetachInstruction (CompiledBlock is n m f esc err) k =
     CompiledBlock (take k is @ drop (Suc k) is) (n - 1) m f esc err"

definition CompiledBlock_Clear :: "CompiledBlock \<Rightarrow> CompiledBlock" where
  "CompiledBlock_Clear block = CompiledBlock [] 0 0 0 False False"

fun set_stack :: "int \<Rightarrow> int \<Rightarrow> CompiledBlock \<Rightarrow> CompiledBlock" where
  "set_stack m f (CompiledBlock is n _ _ esc err) = CompiledBlock is n m f esc err"

fun set_flags :: "bool \<Rightarrow> bool \<Rightarrow> CompiledBlock \<Rightarrow> CompiledBlock" where
  "set_flags esc err (CompiledBlock is n m f _ _) = CompiledBlock is n m f esc err"

definition add_delta :: "int \<Rightarrow> CompiledBlock \<Rightarrow> CompiledBlock" where
  "add_delta d block = set_stack (maxStackDepth block) (finalStackDelta block + d) block"

definition CompiledBlock_Emit :: "CompiledBlock \<Rightarrow> Instr \<Rightarrow> int \<Rightarrow> CompiledBlock" where
  "CompiledBlock_Emit block instruction stackDelta =
     (let block' = CompiledBlock_AttachInstruction block (block_last block) instruction;
          delta = finalStackDelta block + stackDelta
      in set_stack (if delta > maxStackDepth block then delta else maxStackDepth block) delta block')"

text \<open>The child is attached by reference and only when it has instructions; the second result
  says whether it was.\<close>

definition CompiledBlock_AppendChild :: "CompiledBlock \<Rightarrow> CompiledBlock \<Rightarrow> CompiledBlock \<times> bool" where
  "CompiledBlock_AppendChild parentBlock newChild =
     (if instructions newChild = [] then (parentBlock, False)
      else
        let parent1 = CompiledBlock_AttachInstruction parentBlock (block_last parentBlock)
                        (BlockInstr 0 newChild);
            deepest = finalStackDelta parentBlock + maxStackDepth newChild;
            parent2 = set_stack (if deepest > maxStackDepth parentBlock then deepest
                                 else maxStackDepth parentBlock)
                        (finalStackDelta parentBlock + finalStackDelta newChild) parent1
        in (set_flags (escapes parentBlock) (has_error parentBlock \<or> has_error newChild) parent2, True))"

abbreviation append_child :: "CompiledBlock \<Rightarrow> CompiledBlock \<Rightarrow> CompiledBlock" where
  "append_child parent child \<equiv> fst (CompiledBlock_AppendChild parent child)"

text \<open>A later change of a child that was attached last shows through its parent.\<close>

fun replace_last_child :: "CompiledBlock \<Rightarrow> CompiledBlock \<Rightarrow> CompiledBlock" where
  "replace_last_child (CompiledBlock is n m f esc err) child =
     CompiledBlock (butlast is @ [BlockInstr 0 child]) n m f esc err"

definition CompiledBlock_Combine :: "CompiledBlock \<Rightarrow> CompiledBlock \<Rightarrow> CompiledBlock" where
  "CompiledBlock_Combine firstBlock secondBlock =
     (if instructions secondBlock = [] then firstBlock
      else if instructions firstBlock = [] then secondBlock
      else CompiledBlock (instructions firstBlock @ instructions secondBlock)
             (numInstructions firstBlock + numInstructions secondBlock)
             (if maxStackDepth secondBlock > maxStackDepth firstBlock then maxStackDepth secondBlock
              else maxStackDepth firstBlock)
             (finalStackDelta firstBlock + finalStackDelta secondBlock)
             (escapes firstBlock) (has_error firstBlock))"

text \<open>The loop of \<^verbatim>\<open>CompiledBlock_Flatten\<close>, over the list of a block.\<close>

fun flatten_list :: "Instr list \<Rightarrow> Instr list" where
  "flatten_list [] = []"
| "flatten_list (Plain a b # is) = Plain a b # flatten_list is"
| "flatten_list (LabelInstr a l # is) = LabelInstr a l # flatten_list is"
| "flatten_list (BlockInstr a (CompiledBlock js n m f esc err) # is) = flatten_list js @ flatten_list is"

text \<open>The count drops by one for each child that turns out to be empty, and not otherwise.\<close>

fun CompiledBlock_Flatten :: "CompiledBlock \<Rightarrow> CompiledBlock" where
  "CompiledBlock_Flatten (CompiledBlock is n m f esc err) =
     CompiledBlock (flatten_list is)
       (n - int (length (filter (\<lambda>i. case i of BlockInstr a b \<Rightarrow> flatten_list (instructions b) = []
                                            | _ \<Rightarrow> False) is)))
       m f esc err"

section \<open>Laying out a finished block\<close>

text \<open>\<^verbatim>\<open>instructionAddress\<close> is a bit field of 24 bits.\<close>

definition address24 :: "nat \<Rightarrow> nat" where
  "address24 a = a mod 2 ^ 24"

fun calculate_addresses :: "Instr list \<Rightarrow> nat \<Rightarrow> bool \<Rightarrow> Instr list \<times> nat" where
  "calculate_addresses [] startAddress includePseudoOps = ([], startAddress)"
| "calculate_addresses (Plain _ b # is) startAddress includePseudoOps =
     (let (is', a') = calculate_addresses is (startAddress + 1) includePseudoOps
      in (Plain (address24 startAddress) b # is', a'))"
| "calculate_addresses (LabelInstr _ l # is) startAddress includePseudoOps =
     (let (is', a') = calculate_addresses is
                        (if includePseudoOps then startAddress + 1 else startAddress) includePseudoOps
      in (LabelInstr (address24 startAddress) l # is', a'))"
| "calculate_addresses (BlockInstr _ (CompiledBlock js n m f esc err) # is) startAddress includePseudoOps =
     (let (js', a1) = calculate_addresses js
                        (if includePseudoOps then startAddress + 1 else startAddress) includePseudoOps;
          (is', a') = calculate_addresses is (if includePseudoOps then a1 + 1 else a1) includePseudoOps
      in (BlockInstr (address24 startAddress) (CompiledBlock js' n m f esc err) # is', a'))"

fun CompiledBlock_CalculateAddresses :: "CompiledBlock \<Rightarrow> nat \<Rightarrow> bool \<Rightarrow> CompiledBlock \<times> nat" where
  "CompiledBlock_CalculateAddresses (CompiledBlock is n m f esc err) startAddress includePseudoOps =
     (let (is', a') = calculate_addresses is startAddress includePseudoOps
      in (CompiledBlock is' n m f esc err, a'))"

text \<open>Following \<^verbatim>\<open>branchTarget->instructionAddress\<close>: the address field of the label with this
  identity, and 0, its initial value, if the label is not attached anywhere in the root block.\<close>

fun find_label :: "Instr list \<Rightarrow> nat \<Rightarrow> nat option" where
  "find_label [] l = None"
| "find_label (Plain _ _ # is) l = find_label is l"
| "find_label (LabelInstr a l' # is) l = (if l' = l then Some a else find_label is l)"
| "find_label (BlockInstr _ (CompiledBlock js n m f esc err) # is) l =
     (case find_label js l of Some a \<Rightarrow> Some a | None \<Rightarrow> find_label is l)"

definition target_address :: "Instr list \<Rightarrow> nat \<Rightarrow> nat" where
  "target_address root l = (case find_label root l of Some a \<Rightarrow> a | None \<Rightarrow> 0)"

definition resolve_branch :: "Instr list \<Rightarrow> nat \<Rightarrow> branch \<Rightarrow> branch" where
  "resolve_branch root a br =
     ((case snd br of Some l \<Rightarrow> int (target_address root l) - int a | None \<Rightarrow> 0), snd br)"

fun resolve_branches :: "Instr list \<Rightarrow> Instr list \<Rightarrow> Instr list" where
  "resolve_branches root [] = []"
| "resolve_branches root (Plain a b # is) =
     Plain a (map_ByteCode (resolve_branch root a) b) # resolve_branches root is"
| "resolve_branches root (LabelInstr a l # is) = LabelInstr a l # resolve_branches root is"
| "resolve_branches root (BlockInstr a (CompiledBlock js n m f esc err) # is) =
     BlockInstr a (CompiledBlock (resolve_branches root js) n m f esc err) # resolve_branches root is"

fun CompiledBlock_ResolveBranches :: "CompiledBlock \<Rightarrow> CompiledBlock" where
  "CompiledBlock_ResolveBranches (CompiledBlock is n m f esc err) =
     CompiledBlock (resolve_branches is is) n m f esc err"

fun count_instructions :: "Instr list \<Rightarrow> bool \<Rightarrow> int" where
  "count_instructions [] includePseudoOps = 0"
| "count_instructions (Plain _ _ # is) includePseudoOps = 1 + count_instructions is includePseudoOps"
| "count_instructions (LabelInstr _ _ # is) includePseudoOps =
     (if includePseudoOps then 1 else 0) + count_instructions is includePseudoOps"
| "count_instructions (BlockInstr _ (CompiledBlock js n m f esc err) # is) includePseudoOps =
     (if includePseudoOps then 1 else 0) + count_instructions js includePseudoOps
       + (if includePseudoOps then 1 else 0) + count_instructions is includePseudoOps"

definition CompiledBlock_CountInstructions :: "CompiledBlock \<Rightarrow> bool \<Rightarrow> int" where
  "CompiledBlock_CountInstructions block includePseudoOps =
     count_instructions (instructions block) includePseudoOps"

fun append_codes :: "Instr list \<Rightarrow> ByteCodeSegment \<Rightarrow> bool \<Rightarrow> ByteCodeSegment option" where
  "append_codes [] segment includePseudoOps = Some segment"
| "append_codes (Plain _ b # is) segment includePseudoOps = do {
     segment1 \<leftarrow> segment_put segment (map_ByteCode fst b);
     append_codes is segment1 includePseudoOps}"
| "append_codes (LabelInstr _ _ # is) segment includePseudoOps = do {
     segment1 \<leftarrow> (if includePseudoOps then segment_put segment Op_Label else Some segment);
     append_codes is segment1 includePseudoOps}"
| "append_codes (BlockInstr _ (CompiledBlock js n m f esc err) # is) segment includePseudoOps = do {
     segment1 \<leftarrow> (if includePseudoOps then segment_put segment Op_Block else Some segment);
     segment2 \<leftarrow> append_codes js segment1 includePseudoOps;
     segment3 \<leftarrow> (if includePseudoOps then segment_put segment2 Op_EndBlock else Some segment2);
     append_codes is segment3 includePseudoOps}"

definition CompiledBlock_AppendToByteCodeSegment ::
  "CompiledBlock \<Rightarrow> ByteCodeSegment \<Rightarrow> bool \<Rightarrow> ByteCodeSegment option" where
  "CompiledBlock_AppendToByteCodeSegment block segment includePseudoOps =
     append_codes (instructions block) segment includePseudoOps"

definition CompiledBlock_Finish :: "CompiledBlock \<Rightarrow> bool \<Rightarrow> ByteCodeSegment option" where
  "CompiledBlock_Finish block includePseudoOps =
     (let numInstructions = CompiledBlock_CountInstructions block includePseudoOps;
          segment = ByteCodeSegment_CreateWithSize numInstructions;
          block1 = fst (CompiledBlock_CalculateAddresses block 0 includePseudoOps);
          block2 = CompiledBlock_ResolveBranches block1
      in CompiledBlock_AppendToByteCodeSegment block2 segment includePseudoOps)"

section \<open>What the layout of a block is\<close>

text \<open>The code of a tree of blocks as one sequence: instructions with the labels they branch to,
  and the labels themselves.\<close>

type_synonym code = "(nat option ByteCode + nat) list"

fun linear :: "Instr list \<Rightarrow> code" where
  "linear [] = []"
| "linear (Plain _ b # is) = Inl (map_ByteCode snd b) # linear is"
| "linear (LabelInstr _ l # is) = Inr l # linear is"
| "linear (BlockInstr _ (CompiledBlock js n m f esc err) # is) = linear js @ linear is"

abbreviation block_code :: "CompiledBlock \<Rightarrow> code" where
  "block_code block \<equiv> linear (instructions block)"

fun labels :: "code \<Rightarrow> nat list" where
  "labels [] = []"
| "labels (Inl b # L) = labels L"
| "labels (Inr l # L) = l # labels L"

fun code_size :: "code \<Rightarrow> nat" where
  "code_size [] = 0"
| "code_size (Inl b # L) = Suc (code_size L)"
| "code_size (Inr l # L) = code_size L"

text \<open>The address of a label: the number of instructions before it.\<close>

fun label_position :: "code \<Rightarrow> nat \<Rightarrow> nat option" where
  "label_position [] l = None"
| "label_position (Inl b # L) l = map_option Suc (label_position L l)"
| "label_position (Inr l' # L) l = (if l' = l then Some 0 else label_position L l)"

definition branch_to :: "(nat \<Rightarrow> nat) \<Rightarrow> nat \<Rightarrow> nat option \<Rightarrow> int" where
  "branch_to lab a t = (case t of Some l \<Rightarrow> int (lab l) - int a | None \<Rightarrow> 0)"

text \<open>The sequence stands at an address of a segment: every instruction is there, with its branch
  leading exactly to where its label is.\<close>

fun code_at :: "(nat \<Rightarrow> nat) \<Rightarrow> (int \<Rightarrow> int ByteCode option) \<Rightarrow> nat \<Rightarrow> code \<Rightarrow> bool" where
  "code_at lab C a [] = True"
| "code_at lab C a (Inl b # L) =
     (C (int a) = Some (map_ByteCode (branch_to lab a) b) \<and> code_at lab C (Suc a) L)"
| "code_at lab C a (Inr l # L) = (lab l = a \<and> code_at lab C a L)"

lemma linear_append [simp]: "linear (is @ js) = linear is @ linear js"
proof (induction "is" rule: linear.induct)
  case (4 a js n m f esc err "is")
  then show ?case by simp
qed simp_all

lemma code_size_append [simp]: "code_size (L @ M) = code_size L + code_size M"
  by (induction L rule: code_size.induct) simp_all

lemma labels_append [simp]: "labels (L @ M) = labels L @ labels M"
  by (induction L rule: labels.induct) simp_all

lemma code_at_append [simp]:
  "code_at lab C a (L @ M) \<longleftrightarrow> code_at lab C a L \<and> code_at lab C (a + code_size L) M"
  by (induction L arbitrary: a rule: code_size.induct) auto

lemma linear_flatten_list: "linear (flatten_list is) = linear is"
proof (induction "is" rule: flatten_list.induct)
  case (4 a js n m f esc err "is")
  then show ?case by simp
qed simp_all

lemma label_position_append:
  "label_position (L @ M) l =
     (case label_position L l of Some a \<Rightarrow> Some a
      | None \<Rightarrow> map_option (\<lambda>a. code_size L + a) (label_position M l))"
proof (induction L rule: code_size.induct)
  case 1
  show ?case by (cases "label_position M l") simp_all
next
  case (2 b L)
  then show ?case by (cases "label_position M l") (auto split: option.splits)
next
  case (3 l' L)
  then show ?case by (simp split: option.splits)
qed

lemma label_position_None: "label_position L l = None \<longleftrightarrow> l \<notin> set (labels L)"
  by (induction L rule: labels.induct) auto

lemma count_instructions_linear: "count_instructions is False = int (code_size (linear is))"
proof (induction "is" rule: linear.induct)
  case (4 a js n m f esc err "is")
  then show ?case by simp
qed simp_all

section \<open>Addresses and branches\<close>

lemma calculate_addresses_linear:
  "linear (fst (calculate_addresses is a p)) = linear is"
proof (induction "is" a p rule: calculate_addresses.induct)
  case (4 w js n m f esc err "is" a p)
  then show ?case by (auto split: prod.splits)
qed (auto split: prod.splits)

lemma calculate_addresses_end:
  "snd (calculate_addresses is a False) = a + code_size (linear is)"
proof (induction "is" arbitrary: a rule: linear.induct)
  case (4 w js n m f esc err "is")
  then show ?case by (auto split: prod.splits simp: prod_eq_iff)
qed (auto split: prod.splits simp: prod_eq_iff)

lemma calculate_addresses_labels:
  assumes "a + code_size (linear is) < 2 ^ 24"
  shows "find_label (fst (calculate_addresses is a False)) l
           = map_option (\<lambda>k. a + k) (label_position (linear is) l)"
  using assms
proof (induction "is" arbitrary: a rule: linear.induct)
  case 1
  then show ?case by simp
next
  case (2 w b "is")
  then show ?case by (auto split: prod.splits simp: prod_eq_iff option.map_comp comp_def)
next
  case (3 w l' "is")
  then show ?case by (auto split: prod.splits simp: prod_eq_iff address24_def)
next
  case (4 w js n m f esc err "is")
  have end1: "snd (calculate_addresses js a False) = a + code_size (linear js)"
    by (rule calculate_addresses_end)
  have h1: "find_label (fst (calculate_addresses js a False)) l
      = map_option (\<lambda>k. a + k) (label_position (linear js) l)"
    using 4 by simp
  have h2: "find_label (fst (calculate_addresses is (a + code_size (linear js)) False)) l
      = map_option (\<lambda>k. a + code_size (linear js) + k) (label_position (linear is) l)"
    using 4 by simp
  show ?case
    using end1 h1 h2
    by (auto split: prod.splits option.splits
        simp: prod_eq_iff label_position_append option.map_comp comp_def add.assoc)
qed

text \<open>The instructions that a resolved tree writes, in order.\<close>

fun written :: "Instr list \<Rightarrow> int ByteCode list" where
  "written [] = []"
| "written (Plain _ b # is) = map_ByteCode fst b # written is"
| "written (LabelInstr _ l # is) = written is"
| "written (BlockInstr _ (CompiledBlock js n m f esc err) # is) = written js @ written is"

fun resolved :: "(nat \<Rightarrow> nat) \<Rightarrow> nat \<Rightarrow> code \<Rightarrow> int ByteCode list" where
  "resolved lab a [] = []"
| "resolved lab a (Inl b # L) = map_ByteCode (branch_to lab a) b # resolved lab (Suc a) L"
| "resolved lab a (Inr l # L) = resolved lab a L"

lemma length_resolved [simp]: "length (resolved lab a L) = code_size L"
  by (induction lab a L rule: resolved.induct) simp_all

lemma resolved_append: "resolved lab a (L @ M) = resolved lab a L @ resolved lab (a + code_size L) M"
  by (induction L arbitrary: a rule: code_size.induct) simp_all

lemma written_resolve:
  assumes "a + code_size (linear is) < 2 ^ 24"
  shows "written (resolve_branches root (fst (calculate_addresses is a False)))
           = resolved (target_address root) a (linear is)"
  using assms
proof (induction "is" arbitrary: a rule: linear.induct)
  case (2 w b "is")
  have "map_ByteCode fst (map_ByteCode (resolve_branch root a) b)
      = map_ByteCode (branch_to (target_address root) a) (map_ByteCode snd b)"
    by (simp add: ByteCode.map_comp comp_def resolve_branch_def branch_to_def)
  then show ?case using 2 by (auto split: prod.splits simp: prod_eq_iff address24_def)
next
  case (3 w l' "is")
  then show ?case by (auto split: prod.splits simp: prod_eq_iff)
next
  case (4 w js n m f esc err "is")
  have "snd (calculate_addresses js a False) = a + code_size (linear js)"
    by (rule calculate_addresses_end)
  then show ?case using 4 by (auto split: prod.splits simp: prod_eq_iff resolved_append)
qed simp

lemma segment_put_next:
  assumes "byteCodes seg = map Some cs @ replicate (Suc k) None" and "numByteCodes seg = int (length cs)"
  shows "segment_put seg c =
    Some (seg\<lparr>byteCodes := map Some (cs @ [c]) @ replicate k None, numByteCodes := int (length cs) + 1\<rparr>)"
  using assms by (simp add: segment_put_def arr_set_def list_update_append)

lemma append_codes_written:
  assumes "byteCodes seg = map Some cs @ replicate (length (written is) + k) None"
    and "numByteCodes seg = int (length cs)"
  shows "append_codes is seg False =
    Some (seg\<lparr>byteCodes := map Some (cs @ written is) @ replicate k None,
              numByteCodes := int (length cs + length (written is))\<rparr>)"
  using assms
proof (induction "is" arbitrary: seg cs k rule: written.induct)
  case (2 w b "is")
  have "segment_put seg (map_ByteCode fst b) =
      Some (seg\<lparr>byteCodes := map Some (cs @ [map_ByteCode fst b]) @ replicate (length (written is) + k) None,
                numByteCodes := int (length cs) + 1\<rparr>)"
    by (rule segment_put_next) (use "2.prems" in simp_all)
  then show ?case by (simp add: "2.IH" [where cs = "cs @ [map_ByteCode fst b]" and k = k])
next
  case (4 w js n m f esc err "is")
  let ?s1 = "seg\<lparr>byteCodes := map Some (cs @ written js) @ replicate (length (written is) + k) None,
                 numByteCodes := int (length cs + length (written js))\<rparr>"
  have 1: "append_codes js seg False = Some ?s1"
    by (rule "4.IH"(1) [where k = "length (written is) + k"]) (use "4.prems" in \<open>simp_all add: add.assoc\<close>)
  have 2: "append_codes is ?s1 False = Some (?s1\<lparr>byteCodes := map Some ((cs @ written js) @ written is) @ replicate k None,
              numByteCodes := int (length (cs @ written js) + length (written is))\<rparr>)"
    by (rule "4.IH"(2) [where k = k]) simp_all
  show ?case using 1 2 by simp
qed simp_all

lemma code_at_resolved:
  assumes "distinct (labels L)" and "\<And>l k. label_position L l = Some k \<Longrightarrow> lab l = a + k"
    and "\<And>i. i < code_size L \<Longrightarrow> C (int (a + i)) = Some (resolved lab a L ! i)"
  shows "code_at lab C a L"
  using assms
proof (induction L arbitrary: a rule: code_size.induct)
  case (2 b L)
  have "code_at lab C (Suc a) L"
  proof (rule "2.IH")
    show "distinct (labels L)" using "2.prems"(1) by simp
    show "\<And>l k. label_position L l = Some k \<Longrightarrow> lab l = Suc a + k"
      using "2.prems"(2) by fastforce
    show "\<And>i. i < code_size L \<Longrightarrow> C (int (Suc a + i)) = Some (resolved lab (Suc a) L ! i)"
      using "2.prems"(3) [of "Suc _"] by simp
  qed
  then show ?case using "2.prems"(3) [of 0] by simp
next
  case (3 l L)
  have "lab l = a" using "3.prems"(2) [of l 0] by simp
  moreover have "code_at lab C a L"
  proof (rule "3.IH")
    show "distinct (labels L)" using "3.prems"(1) by simp
    show "\<And>i. i < code_size L \<Longrightarrow> C (int (a + i)) = Some (resolved lab a L ! i)"
      using "3.prems"(3) by simp
    fix l' k assume k: "label_position L l' = Some k"
    then have "l' \<in> set (labels L)" by (metis label_position_None option.distinct(1))
    then have "l \<noteq> l'" using "3.prems"(1) by auto
    then show "lab l' = a + k" using "3.prems"(2) [of l' k] k by simp
  qed
  ultimately show ?case by simp
qed simp

definition label_address :: "code \<Rightarrow> nat \<Rightarrow> nat" where
  "label_address L l = (case label_position L l of Some k \<Rightarrow> k | None \<Rightarrow> 0)"

lemma Finish_segment:
  assumes "code_size (block_code block) < 2 ^ 24"
  shows "CompiledBlock_Finish block False =
    Some \<lparr>byteCodes = map Some (resolved (label_address (block_code block)) 0 (block_code block)),
          numByteCodes = int (code_size (block_code block)),
          maxByteCodes = int (code_size (block_code block))\<rparr>"
proof (cases block)
  case (CompiledBlock "is" n m f esc err)
  let ?is1 = "fst (calculate_addresses is 0 False)"
  let ?w = "written (resolve_branches ?is1 ?is1)"
  have small: "0 + code_size (linear is) < 2 ^ 24" using assms CompiledBlock by simp
  have lab: "target_address ?is1 = label_address (linear is)"
    using calculate_addresses_labels [OF small]
    by (auto simp: target_address_def label_address_def fun_eq_iff split: option.splits)
  have w: "?w = resolved (label_address (linear is)) 0 (linear is)"
    using written_resolve [OF small, of ?is1] lab by simp
  have "append_codes (resolve_branches ?is1 ?is1) (ByteCodeSegment_CreateWithSize (count_instructions is False)) False
      = Some (ByteCodeSegment_CreateWithSize (count_instructions is False)
          \<lparr>byteCodes := map Some ?w, numByteCodes := int (length ?w)\<rparr>)"
    using append_codes_written [of "ByteCodeSegment_CreateWithSize (count_instructions is False)" "[]"
        "resolve_branches ?is1 ?is1" 0]
    by (simp add: ByteCodeSegment_CreateWithSize_def count_instructions_linear w)
  then show ?thesis
    using CompiledBlock
    by (simp add: CompiledBlock_Finish_def CompiledBlock_CountInstructions_def
        CompiledBlock_AppendToByteCodeSegment_def ByteCodeSegment_CreateWithSize_def
        count_instructions_linear w case_prod_beta Let_def)
qed

lemma Finish_code_at:
  assumes "code_size (block_code block) < 2 ^ 24" and "distinct (labels (block_code block))"
    and "CompiledBlock_Finish block False = Some seg"
  shows "code_at (label_address (block_code block)) (fetch seg) 0 (block_code block)"
proof (rule code_at_resolved [OF assms(2)])
  show "\<And>l k. label_position (block_code block) l = Some k \<Longrightarrow> label_address (block_code block) l = 0 + k"
    by (simp add: label_address_def)
  have "byteCodes seg = map Some (resolved (label_address (block_code block)) 0 (block_code block))"
    using Finish_segment [OF assms(1)] assms(3) by simp
  then show "\<And>i. i < code_size (block_code block) \<Longrightarrow> fetch seg (int (0 + i)) =
      Some (resolved (label_address (block_code block)) 0 (block_code block) ! i)"
    by (simp add: fetch_def arr_get_def)
qed

text \<open>C4: laying out a finished tree of blocks (CompiledBlock_Finish) is memory-safe and correct.
  When every label is attached once and the code is shorter than the 24-bit address field allows,
  the instructions fill the segment allocated for them exactly, they stand there in order, and every
  branch leads to the instruction that follows its label. Flattening the tree first
  (CompiledBlock_Flatten) does not change the result.\<close>

theorem CompiledBlock_Finish_correct:
  assumes "distinct (labels (block_code block))" and "CompiledBlock_CountInstructions block False < 2 ^ 24"
  shows "\<exists>seg. CompiledBlock_Finish block False = Some seg
      \<and> numByteCodes seg = CompiledBlock_CountInstructions block False
      \<and> length (byteCodes seg) = nat (CompiledBlock_CountInstructions block False)
      \<and> code_at (label_address (block_code block)) (fetch seg) 0 (block_code block)
      \<and> CompiledBlock_Finish (CompiledBlock_Flatten block) False = Some seg"
proof -
  have count: "CompiledBlock_CountInstructions block False = int (code_size (block_code block))"
    by (simp add: CompiledBlock_CountInstructions_def count_instructions_linear)
  then have small: "code_size (block_code block) < 2 ^ 24" using assms(2) by simp
  have flat: "block_code (CompiledBlock_Flatten block) = block_code block"
    by (cases block) (simp add: linear_flatten_list)
  obtain seg where seg: "CompiledBlock_Finish block False = Some seg"
      and n: "numByteCodes seg = int (code_size (block_code block))"
      and len: "length (byteCodes seg) = code_size (block_code block)"
      and same: "CompiledBlock_Finish (CompiledBlock_Flatten block) False = Some seg"
    using Finish_segment [OF small] Finish_segment [of "CompiledBlock_Flatten block"] small flat by simp
  then show ?thesis
    using Finish_code_at [OF small assms(1) seg] count by auto
qed

definition sample_block :: CompiledBlock where
  "sample_block = append_child
     (CompiledBlock_Emit CompiledBlock_Create (Plain 0 (Op_Jmp (0, Some 7))) 0)
     (CompiledBlock_Emit
        (CompiledBlock_Emit CompiledBlock_Create (Plain 0 (Stack Op_LdNull)) 1)
        (LabelInstr 0 7) 0)"

theorem CompiledBlock_Finish_correct_witness:
  "\<exists>seg. CompiledBlock_Finish sample_block False = Some seg
     \<and> numByteCodes seg = CompiledBlock_CountInstructions sample_block False
     \<and> length (byteCodes seg) = nat (CompiledBlock_CountInstructions sample_block False)
     \<and> code_at (label_address (block_code sample_block)) (fetch seg) 0 (block_code sample_block)
     \<and> CompiledBlock_Finish (CompiledBlock_Flatten sample_block) False = Some seg"
  by (rule CompiledBlock_Finish_correct)
    (simp_all add: sample_block_def CompiledBlock_Emit_def CompiledBlock_AppendChild_def
      CompiledBlock_Create_def block_last_def CompiledBlock_CountInstructions_def Let_def)

end
