(* ===== verification/CompilerState.thy ===== *)
theory CompilerState
  imports CompiledBlocks StringHash
begin

text \<open>
  The state of the bytecode compiler (\<^verbatim>\<open>smilelib/include/smile/eval/compiler.h\<close>,
  \<^verbatim>\<open>smilelib/src/eval/compiler.c\<close>): the expressions it reads, the tables of constants it
  collects, the scopes in which it resolves symbols, and the inline helpers of
  \<^verbatim>\<open>compiler_internal.h\<close> that keep the stack counters of a block in line with what was asked for.

  Source locations (\<^verbatim>\<open>currentSourceLocation\<close> and its table) are debugging data and are left out,
  and so are the \<^verbatim>\<open>wasRead\<close>/\<^verbatim>\<open>wasWritten\<close> marks of a symbol, which only the compiler of
  \<^verbatim>\<open>[$till]\<close> consults. \<^verbatim>\<open>nextLabel\<close> numbers the label instructions that are allocated.
\<close>

section \<open>Expressions\<close>

text \<open>A Smile object as the compiler sees it. Objects that evaluate to themselves and that the
  compiler never looks into (functions, handles, user objects and the like) are known by their
  address.\<close>

datatype SmileObject =
    is_null: NullObject
  | BoolObj bool | StringObj bytes
  | is_symbol: SymbolObj (obj_symbol: Symbol)
  | CharObj byte | UniObj "32 word"
  | ByteObj byte | Integer16Obj "16 word" | Integer32Obj int32 | Integer64Obj int64
  | PrimitiveObj | FunctionObj nat | UserDataObj nat
  | is_list: ListObj (obj_a: SmileObject) (obj_d: SmileObject)

text \<open>\<^verbatim>\<open>SmileList_Length\<close> and \<^verbatim>\<open>SmileList_SafeLength\<close>. An expression is a finite tree, so
  the cycle check of the second never fires.\<close>

fun expr_length :: "SmileObject \<Rightarrow> int" where
  "expr_length (ListObj a d) = (let n = expr_length d in if n < 0 then -1 else n + 1)"
| "expr_length NullObject = 0"
| "expr_length _ = -1"

fun expr_safe_length :: "SmileObject \<Rightarrow> int" where
  "expr_safe_length (ListObj a d) = expr_safe_length d + 1"
| "expr_safe_length _ = 0"

section \<open>Special symbols\<close>

definition SMILE_SPECIAL_SYMBOL__SET :: Symbol where "SMILE_SPECIAL_SYMBOL__SET = 1"
definition SMILE_SPECIAL_SYMBOL__OPSET :: Symbol where "SMILE_SPECIAL_SYMBOL__OPSET = 2"
definition SMILE_SPECIAL_SYMBOL__INCLUDE :: Symbol where "SMILE_SPECIAL_SYMBOL__INCLUDE = 3"
definition SMILE_SPECIAL_SYMBOL__IF :: Symbol where "SMILE_SPECIAL_SYMBOL__IF = 4"
definition SMILE_SPECIAL_SYMBOL__WHILE :: Symbol where "SMILE_SPECIAL_SYMBOL__WHILE = 5"
definition SMILE_SPECIAL_SYMBOL__TILL :: Symbol where "SMILE_SPECIAL_SYMBOL__TILL = 6"
definition SMILE_SPECIAL_SYMBOL__FN :: Symbol where "SMILE_SPECIAL_SYMBOL__FN = 7"
definition SMILE_SPECIAL_SYMBOL__QUOTE :: Symbol where "SMILE_SPECIAL_SYMBOL__QUOTE = 8"
definition SMILE_SPECIAL_SYMBOL__SCOPE :: Symbol where "SMILE_SPECIAL_SYMBOL__SCOPE = 9"
definition SMILE_SPECIAL_SYMBOL__PROG1 :: Symbol where "SMILE_SPECIAL_SYMBOL__PROG1 = 10"
definition SMILE_SPECIAL_SYMBOL__PROGN :: Symbol where "SMILE_SPECIAL_SYMBOL__PROGN = 11"
definition SMILE_SPECIAL_SYMBOL__RETURN :: Symbol where "SMILE_SPECIAL_SYMBOL__RETURN = 12"
definition SMILE_SPECIAL_SYMBOL__CATCH :: Symbol where "SMILE_SPECIAL_SYMBOL__CATCH = 13"
definition SMILE_SPECIAL_SYMBOL__NOT :: Symbol where "SMILE_SPECIAL_SYMBOL__NOT = 14"
definition SMILE_SPECIAL_SYMBOL__OR :: Symbol where "SMILE_SPECIAL_SYMBOL__OR = 15"
definition SMILE_SPECIAL_SYMBOL__AND :: Symbol where "SMILE_SPECIAL_SYMBOL__AND = 16"
definition SMILE_SPECIAL_SYMBOL__EQ :: Symbol where "SMILE_SPECIAL_SYMBOL__EQ = 17"
definition SMILE_SPECIAL_SYMBOL__NE :: Symbol where "SMILE_SPECIAL_SYMBOL__NE = 18"
definition SMILE_SPECIAL_SYMBOL__NEW :: Symbol where "SMILE_SPECIAL_SYMBOL__NEW = 19"
definition SMILE_SPECIAL_SYMBOL__DOT :: Symbol where "SMILE_SPECIAL_SYMBOL__DOT = 20"
definition SMILE_SPECIAL_SYMBOL__INDEX :: Symbol where "SMILE_SPECIAL_SYMBOL__INDEX = 21"
definition SMILE_SPECIAL_SYMBOL__IS :: Symbol where "SMILE_SPECIAL_SYMBOL__IS = 22"
definition SMILE_SPECIAL_SYMBOL__TYPEOF :: Symbol where "SMILE_SPECIAL_SYMBOL__TYPEOF = 23"
definition SMILE_SPECIAL_SYMBOL__BRK :: Symbol where "SMILE_SPECIAL_SYMBOL__BRK = 24"

lemmas special_symbol_defs =
  SMILE_SPECIAL_SYMBOL__SET_def SMILE_SPECIAL_SYMBOL__OPSET_def SMILE_SPECIAL_SYMBOL__INCLUDE_def
  SMILE_SPECIAL_SYMBOL__IF_def SMILE_SPECIAL_SYMBOL__WHILE_def SMILE_SPECIAL_SYMBOL__TILL_def
  SMILE_SPECIAL_SYMBOL__FN_def SMILE_SPECIAL_SYMBOL__QUOTE_def SMILE_SPECIAL_SYMBOL__SCOPE_def
  SMILE_SPECIAL_SYMBOL__PROG1_def SMILE_SPECIAL_SYMBOL__PROGN_def SMILE_SPECIAL_SYMBOL__RETURN_def
  SMILE_SPECIAL_SYMBOL__CATCH_def SMILE_SPECIAL_SYMBOL__NOT_def SMILE_SPECIAL_SYMBOL__OR_def
  SMILE_SPECIAL_SYMBOL__AND_def SMILE_SPECIAL_SYMBOL__EQ_def SMILE_SPECIAL_SYMBOL__NE_def
  SMILE_SPECIAL_SYMBOL__NEW_def SMILE_SPECIAL_SYMBOL__DOT_def SMILE_SPECIAL_SYMBOL__INDEX_def
  SMILE_SPECIAL_SYMBOL__IS_def SMILE_SPECIAL_SYMBOL__TYPEOF_def SMILE_SPECIAL_SYMBOL__BRK_def

text \<open>The symbols of \<^verbatim>\<open>Smile_KnownSymbols\<close> that the compiler tests for; the symbol table gives
  them their numbers when the interpreter starts.\<close>

record KnownSymbols =
  sym_true :: Symbol
  sym_false :: Symbol
  sym_null :: Symbol
  sym_not :: Symbol
  sym_auto :: Symbol
  sym_set_once :: Symbol
  sym_get_member :: Symbol
  sym_a :: Symbol
  sym_d :: Symbol
  sym_start :: Symbol
  sym_end :: Symbol
  sym_count :: Symbol
  sym_length :: Symbol

section \<open>Tables of constants\<close>

text \<open>A growable array of pointers: \<^verbatim>\<open>items\<close> is the allocated array, with \<open>None\<close> for a null
  pointer. When the array is full, a new one twice as large is allocated, zeroed, and the call
  \<^verbatim>\<open>MemCpy(newStrings, compiledTables->strings, compiledTables->numStrings)\<close> copies as many
  \<^emph>\<open>bytes\<close> as there are items. A pointer has 8 bytes and a full array a multiple of 8 items.\<close>

record 'a Table =
  items :: "'a option list"
  numItems :: nat

definition table_grow :: "'a Table \<Rightarrow> 'a Table" where
  "table_grow t =
     (let newMax = max 8 (length (items t) * 2);
          copied = take (numItems t div 8) (items t)
      in t\<lparr>items := copied @ replicate (newMax - length copied) None\<rparr>)"

definition table_add :: "'a Table \<Rightarrow> 'a \<Rightarrow> 'a Table \<times> int" where
  "table_add t x =
     (let t1 = (if numItems t \<ge> length (items t) then table_grow t else t)
      in (t1\<lparr>items := (items t1)[numItems t := Some x], numItems := numItems t + 1\<rparr>, int (numItems t)))"

section \<open>The compiler\<close>

datatype ParseDecl =
    PARSEDECL_PRIMITIVE | PARSEDECL_GLOBAL | PARSEDECL_ARGUMENT | PARSEDECL_VARIABLE
  | PARSEDECL_CONST | PARSEDECL_SETONCECONST | PARSEDECL_AUTO | PARSEDECL_SETONCEAUTO
  | PARSEDECL_TILL | PARSEDECL_OTHER

record CompiledLocalSymbol =
  symKind :: ParseDecl
  symIndex :: int
  symDepth :: int
  tillIndex :: int
  whenLabel :: nat

datatype CompilerMessage =
    NotWellFormed Symbol | ConstantGlobal Symbol | UnassignedRead Symbol | AssignTill Symbol
  | AssignConst Symbol | AssignAuto Symbol | InternalError | BadScopeVariable | OutOfFuel

record Compiler =
  known :: KnownSymbols
  strings :: "bytes Table"
  stringLookup :: "bytes \<Rightarrow> int option"
  objects :: "SmileObject Table"
  functionDepth :: int
  localNames :: "Symbol list"
  currentScope :: "(Symbol \<Rightarrow> CompiledLocalSymbol option) list"
  messages :: "CompilerMessage list"
  nextLabel :: nat

definition Compiler_AddMessage :: "Compiler \<Rightarrow> CompilerMessage \<Rightarrow> Compiler" where
  "Compiler_AddMessage c m = c\<lparr>messages := messages c @ [m]\<rparr>"

definition Compiler_AddString :: "Compiler \<Rightarrow> bytes \<Rightarrow> Compiler \<times> int" where
  "Compiler_AddString c s =
     (case stringLookup c s of
        Some index \<Rightarrow> (c, index)
      | None \<Rightarrow>
          let (t, index) = table_add (strings c) s
          in (c\<lparr>strings := t, stringLookup := (stringLookup c)(s \<mapsto> index)\<rparr>, index))"

definition Compiler_AddObject :: "Compiler \<Rightarrow> SmileObject \<Rightarrow> Compiler \<times> int" where
  "Compiler_AddObject c x =
     (let (t, index) = table_add (objects c) x in (c\<lparr>objects := t\<rparr>, index))"

definition CompilerFunction_AddLocal :: "Compiler \<Rightarrow> Symbol \<Rightarrow> Compiler \<times> int" where
  "CompilerFunction_AddLocal c local =
     (c\<lparr>localNames := localNames c @ [local]\<rparr>, int (length (localNames c)))"

definition Compiler_BeginScope :: "Compiler \<Rightarrow> Compiler" where
  "Compiler_BeginScope c = c\<lparr>currentScope := Map.empty # currentScope c\<rparr>"

definition Compiler_EndScope :: "Compiler \<Rightarrow> Compiler" where
  "Compiler_EndScope c = c\<lparr>currentScope := tl (currentScope c)\<rparr>"

definition CompileScope_DefineSymbol :: "Compiler \<Rightarrow> Symbol \<Rightarrow> ParseDecl \<Rightarrow> int \<Rightarrow> Compiler" where
  "CompileScope_DefineSymbol c symbol kind index =
     (case currentScope c of
        [] \<Rightarrow> c
      | scope # rest \<Rightarrow>
          c\<lparr>currentScope := scope(symbol \<mapsto> \<lparr>symKind = kind, symIndex = index,
               symDepth = functionDepth c, tillIndex = 0, whenLabel = 0\<rparr>) # rest\<rparr>)"

fun CompileScope_FindSymbol ::
  "(Symbol \<Rightarrow> CompiledLocalSymbol option) list \<Rightarrow> Symbol \<Rightarrow> CompiledLocalSymbol option" where
  "CompileScope_FindSymbol [] symbol = None"
| "CompileScope_FindSymbol (scope # rest) symbol =
     (case scope symbol of Some s \<Rightarrow> Some s | None \<Rightarrow> CompileScope_FindSymbol rest symbol)"

text \<open>Writing \<^verbatim>\<open>localSymbol->kind\<close> through the pointer that \<^verbatim>\<open>CompileScope_FindSymbol\<close> returned.\<close>

fun set_symbol_kind ::
  "(Symbol \<Rightarrow> CompiledLocalSymbol option) list \<Rightarrow> Symbol \<Rightarrow> ParseDecl
     \<Rightarrow> (Symbol \<Rightarrow> CompiledLocalSymbol option) list" where
  "set_symbol_kind [] symbol kind = []"
| "set_symbol_kind (scope # rest) symbol kind =
     (case scope symbol of
        Some s \<Rightarrow> scope(symbol \<mapsto> s\<lparr>symKind := kind\<rparr>) # rest
      | None \<Rightarrow> scope # set_symbol_kind rest symbol kind)"

text \<open>\<^verbatim>\<open>IntermediateInstruction_Create(Op_Label)\<close>.\<close>

definition new_label :: "Compiler \<Rightarrow> Compiler \<times> nat" where
  "new_label c = (c\<lparr>nextLabel := nextLabel c + 1\<rparr>, nextLabel c)"

definition Compiler_Create :: "KnownSymbols \<Rightarrow> Compiler" where
  "Compiler_Create k =
     \<lparr>known = k, strings = \<lparr>items = replicate 16 None, numItems = 0\<rparr>, stringLookup = Map.empty,
      objects = \<lparr>items = [], numItems = 0\<rparr>, functionDepth = 0, localNames = [], currentScope = [],
      messages = [], nextLabel = 0\<rparr>"

section \<open>Emitting instructions\<close>

abbreviation EMIT0 :: "CompiledBlock \<Rightarrow> branch ByteCode \<Rightarrow> int \<Rightarrow> CompiledBlock" where
  "EMIT0 block opcode stackDelta \<equiv> CompiledBlock_Emit block (Plain 0 opcode) stackDelta"

abbreviation jump_to :: "nat \<Rightarrow> branch" where
  "jump_to l \<equiv> (0, Some l)"

abbreviation attach_label :: "CompiledBlock \<Rightarrow> nat \<Rightarrow> CompiledBlock" where
  "attach_label block l \<equiv> CompiledBlock_AttachInstruction block (block_last block) (LabelInstr 0 l)"

abbreviation EMIT_LABEL :: "CompiledBlock \<Rightarrow> nat \<Rightarrow> CompiledBlock" where
  "EMIT_LABEL block l \<equiv> CompiledBlock_Emit block (LabelInstr 0 l) 0"

text \<open>\<open>compileFlags\<close> has a single flag, \<^verbatim>\<open>COMPILE_FLAG_NORESULT\<close>; it is a truth value here.\<close>

definition Compiler_PopIfNecessary :: "CompiledBlock \<Rightarrow> bool \<Rightarrow> CompiledBlock" where
  "Compiler_PopIfNecessary block noResult =
     (if noResult then EMIT0 block (Stack Op_Pop1) (-1) else block)"

definition Compiler_EmitNoResult :: "CompiledBlock \<Rightarrow> CompiledBlock" where
  "Compiler_EmitNoResult block =
     (if escapes block then block
      else if finalStackDelta block \<noteq> 0 then EMIT0 block (Stack Op_Pop1) (-1)
      else block)"

definition Compiler_EmitRequireResult :: "CompiledBlock \<Rightarrow> CompiledBlock" where
  "Compiler_EmitRequireResult block =
     (if escapes block then block
      else if finalStackDelta block = 0 then EMIT0 block (Stack Op_LdNull) 1
      else block)"

definition Compiler_MakeStackMatchCompileFlags :: "CompiledBlock \<Rightarrow> bool \<Rightarrow> CompiledBlock" where
  "Compiler_MakeStackMatchCompileFlags block noResult =
     (if noResult then Compiler_EmitNoResult block else Compiler_EmitRequireResult block)"

text \<open>Stripping \<^verbatim>\<open>[not x]\<close> forms; the second result says whether an odd number was removed.\<close>

fun Compiler_StripNots :: "Compiler \<Rightarrow> SmileObject \<Rightarrow> SmileObject \<times> bool" where
  "Compiler_StripNots c obj =
     (case obj of
        ListObj a (ListObj x r) \<Rightarrow>
          if a = SymbolObj (sym_not (known c)) \<and> r = NullObject
          then (let (y, n) = Compiler_StripNots c x in (y, \<not> n))
          else (obj, False)
      | _ \<Rightarrow> (obj, False))"

declare Compiler_StripNots.simps [simp del]

end
