(* ===== verification/Compiler.thy ===== *)
theory Compiler
  imports CompilerState
begin

text \<open>
  The bytecode compiler proper (\<^verbatim>\<open>smilelib/src/eval/compiler/compile_*.c\<close>): one definition per
  form. A form receives the compiler of subexpressions, \<^verbatim>\<open>Compiler_CompileExpr\<close>, as its first
  argument \<open>rec\<close>; the recursion is closed at the end of the theory.
\<close>

type_synonym compile = "Compiler \<Rightarrow> SmileObject \<Rightarrow> bool \<Rightarrow> CompiledBlock \<times> Compiler"

definition compile_error :: "Compiler \<Rightarrow> CompilerMessage \<Rightarrow> CompiledBlock \<times> Compiler" where
  "compile_error c m = (CompiledBlock_CreateError, Compiler_AddMessage c m)"

section \<open>Variables\<close>

definition Compiler_CompileLoadGlobalVariable :: "Compiler \<Rightarrow> Symbol \<Rightarrow> bool \<Rightarrow> CompiledBlock" where
  "Compiler_CompileLoadGlobalVariable c symbol noResult =
     (if noResult then CompiledBlock_Create
      else EMIT0 CompiledBlock_Create
        (if symbol = sym_true (known c) then Stack (Op_LdBool True)
         else if symbol = sym_false (known c) then Stack (Op_LdBool False)
         else if symbol = sym_null (known c) then Stack Op_LdNull
         else Var (Op_LdX symbol)) 1)"

definition Compiler_CompileStoreGlobalVariable ::
  "Compiler \<Rightarrow> Symbol \<Rightarrow> bool \<Rightarrow> CompiledBlock \<Rightarrow> CompiledBlock \<times> Compiler" where
  "Compiler_CompileStoreGlobalVariable c symbol noResult block =
     (if symbol = sym_true (known c) \<or> symbol = sym_false (known c) \<or> symbol = sym_null (known c)
      then (block, Compiler_AddMessage c (ConstantGlobal symbol))
      else if noResult then (EMIT0 block (Var (Op_StpX symbol)) (-1), c)
      else (EMIT0 block (Var (Op_StX symbol)) 0, c))"

definition Compiler_CompileLoadArgument :: "Compiler \<Rightarrow> CompiledLocalSymbol \<Rightarrow> bool \<Rightarrow> CompiledBlock" where
  "Compiler_CompileLoadArgument c localSymbol noResult =
     (let depth = functionDepth c - symDepth localSymbol
      in if noResult then CompiledBlock_Create
         else EMIT0 CompiledBlock_Create
           (Var (if depth \<le> 7 then Op_LdArgN depth (symIndex localSymbol)
                 else Op_LdArg depth (symIndex localSymbol))) 1)"

definition Compiler_CompileStoreArgument ::
  "Compiler \<Rightarrow> CompiledLocalSymbol \<Rightarrow> bool \<Rightarrow> CompiledBlock \<Rightarrow> CompiledBlock" where
  "Compiler_CompileStoreArgument c localSymbol noResult block =
     (let depth = functionDepth c - symDepth localSymbol; index = symIndex localSymbol
      in if depth \<le> 7
         then if noResult then EMIT0 block (Var (Op_StpArgN depth index)) (-1)
              else EMIT0 block (Var (Op_StArgN depth index)) 0
         else if noResult then EMIT0 block (Var (Op_StpArg depth index)) (-1)
              else EMIT0 block (Var (Op_StArg depth index)) 0)"

definition Compiler_CompileLoadLocalVariable :: "Compiler \<Rightarrow> CompiledLocalSymbol \<Rightarrow> bool \<Rightarrow> CompiledBlock" where
  "Compiler_CompileLoadLocalVariable c localSymbol noResult =
     (let depth = functionDepth c - symDepth localSymbol
      in if noResult then CompiledBlock_Create
         else EMIT0 CompiledBlock_Create
           (Var (if depth \<le> 7 then Op_LdLocN depth (symIndex localSymbol)
                 else Op_LdLoc depth (symIndex localSymbol))) 1)"

definition Compiler_CompileStoreLocalVariable ::
  "Compiler \<Rightarrow> CompiledLocalSymbol \<Rightarrow> bool \<Rightarrow> CompiledBlock \<Rightarrow> CompiledBlock" where
  "Compiler_CompileStoreLocalVariable c localSymbol noResult block =
     (let depth = functionDepth c - symDepth localSymbol; index = symIndex localSymbol
      in if depth \<le> 7
         then if noResult then EMIT0 block (Var (Op_StpLocN depth index)) (-1)
              else EMIT0 block (Var (Op_StLocN depth index)) 0
         else if noResult then EMIT0 block (Var (Op_StpLoc depth index)) (-1)
              else EMIT0 block (Var (Op_StLoc depth index)) 0)"

definition Compiler_CompileTillFlag :: "Compiler \<Rightarrow> CompiledLocalSymbol \<Rightarrow> CompiledBlock" where
  "Compiler_CompileTillFlag c localSymbol =
     (let depth = functionDepth c - symDepth localSymbol;
          block =
            (if depth = 0 then EMIT0 CompiledBlock_Create (Op_Jmp (jump_to (whenLabel localSymbol))) 0
             else EMIT0
               (EMIT0 CompiledBlock_Create
                  (Var (if depth \<le> 7 then Op_LdLocN depth (symIndex localSymbol)
                        else Op_LdLoc depth (symIndex localSymbol))) 1)
               (Object (Op_TillEsc (tillIndex localSymbol))) (-1))
      in set_flags True (has_error block) block)"

definition Compiler_CompileLoadVariable :: "Compiler \<Rightarrow> Symbol \<Rightarrow> bool \<Rightarrow> CompiledBlock \<times> Compiler" where
  "Compiler_CompileLoadVariable c symbol noResult =
     (case CompileScope_FindSymbol (currentScope c) symbol of
        None \<Rightarrow> (Compiler_CompileLoadGlobalVariable c symbol noResult, c)
      | Some localSymbol \<Rightarrow>
          (case symKind localSymbol of
             PARSEDECL_GLOBAL \<Rightarrow> (Compiler_CompileLoadGlobalVariable c symbol noResult, c)
           | PARSEDECL_PRIMITIVE \<Rightarrow> (Compiler_CompileLoadGlobalVariable c symbol noResult, c)
           | PARSEDECL_ARGUMENT \<Rightarrow> (Compiler_CompileLoadArgument c localSymbol noResult, c)
           | PARSEDECL_VARIABLE \<Rightarrow> (Compiler_CompileLoadLocalVariable c localSymbol noResult, c)
           | PARSEDECL_CONST \<Rightarrow> (Compiler_CompileLoadLocalVariable c localSymbol noResult, c)
           | PARSEDECL_AUTO \<Rightarrow> (Compiler_CompileLoadLocalVariable c localSymbol noResult, c)
           | PARSEDECL_TILL \<Rightarrow> (Compiler_CompileTillFlag c localSymbol, c)
           | PARSEDECL_SETONCECONST \<Rightarrow> compile_error c (UnassignedRead symbol)
           | PARSEDECL_SETONCEAUTO \<Rightarrow> compile_error c (UnassignedRead symbol)
           | PARSEDECL_OTHER \<Rightarrow> compile_error c InternalError))"

definition Compiler_CompileStoreVariable ::
  "Compiler \<Rightarrow> Symbol \<Rightarrow> bool \<Rightarrow> CompiledBlock \<Rightarrow> CompiledBlock \<times> Compiler" where
  "Compiler_CompileStoreVariable c symbol noResult block =
     (case CompileScope_FindSymbol (currentScope c) symbol of
        None \<Rightarrow> Compiler_CompileStoreGlobalVariable c symbol noResult block
      | Some localSymbol \<Rightarrow>
          (case symKind localSymbol of
             PARSEDECL_GLOBAL \<Rightarrow> Compiler_CompileStoreGlobalVariable c symbol noResult block
           | PARSEDECL_PRIMITIVE \<Rightarrow> Compiler_CompileStoreGlobalVariable c symbol noResult block
           | PARSEDECL_ARGUMENT \<Rightarrow> (Compiler_CompileStoreArgument c localSymbol noResult block, c)
           | PARSEDECL_VARIABLE \<Rightarrow> (Compiler_CompileStoreLocalVariable c localSymbol noResult block, c)
           | PARSEDECL_SETONCECONST \<Rightarrow>
               (Compiler_CompileStoreLocalVariable c localSymbol noResult block,
                c\<lparr>currentScope := set_symbol_kind (currentScope c) symbol PARSEDECL_CONST\<rparr>)
           | PARSEDECL_SETONCEAUTO \<Rightarrow>
               (Compiler_CompileStoreLocalVariable c localSymbol noResult block,
                c\<lparr>currentScope := set_symbol_kind (currentScope c) symbol PARSEDECL_AUTO\<rparr>)
           | PARSEDECL_TILL \<Rightarrow> (block, Compiler_AddMessage c (AssignTill symbol))
           | PARSEDECL_CONST \<Rightarrow>
               (set_flags (escapes block) True block, Compiler_AddMessage c (AssignConst symbol))
           | PARSEDECL_AUTO \<Rightarrow>
               (set_flags (escapes block) True block, Compiler_AddMessage c (AssignAuto symbol))
           | PARSEDECL_OTHER \<Rightarrow>
               (set_flags (escapes block) True block, Compiler_AddMessage c InternalError)))"

section \<open>Sequences and quotation\<close>

text \<open>The loops of \<^verbatim>\<open>[$progn]\<close> and \<^verbatim>\<open>[$prog1]\<close>; the last element of a sequence is the one whose
  rest is not a list.\<close>

fun progn_loop :: "compile \<Rightarrow> Compiler \<Rightarrow> SmileObject \<Rightarrow> bool \<Rightarrow> CompiledBlock \<Rightarrow> CompiledBlock \<times> Compiler" where
  "progn_loop rec c (ListObj a d) noResult block =
     (let isLast = (\<not> is_list d);
          (childBlock, c1) = rec c a (if isLast then noResult else True);
          childBlock1 = (if isLast then Compiler_MakeStackMatchCompileFlags childBlock noResult
                         else Compiler_EmitNoResult childBlock);
          block1 = append_child block childBlock1
      in if isLast then (block1, c1) else progn_loop rec c1 d noResult block1)"
| "progn_loop rec c _ noResult block = (block, c)"

definition Compiler_CompileProgN :: "compile \<Rightarrow> Compiler \<Rightarrow> SmileObject \<Rightarrow> bool \<Rightarrow> CompiledBlock \<times> Compiler" where
  "Compiler_CompileProgN rec c args noResult = progn_loop rec c args noResult CompiledBlock_Create"

fun prog1_loop :: "compile \<Rightarrow> Compiler \<Rightarrow> SmileObject \<Rightarrow> CompiledBlock \<Rightarrow> CompiledBlock \<times> Compiler" where
  "prog1_loop rec c (ListObj a d) block =
     (let (childBlock, c1) = rec c a False
      in prog1_loop rec c1 d (append_child block (Compiler_EmitNoResult childBlock)))"
| "prog1_loop rec c _ block = (block, c)"

definition Compiler_CompileProg1 :: "compile \<Rightarrow> Compiler \<Rightarrow> SmileObject \<Rightarrow> bool \<Rightarrow> CompiledBlock \<times> Compiler" where
  "Compiler_CompileProg1 rec c args noResult =
     (if \<not> is_list args then (CompiledBlock_Create, c)
      else
        let (childBlock, c1) = rec c (obj_a args) noResult;
            childBlock1 = Compiler_MakeStackMatchCompileFlags childBlock noResult
        in prog1_loop rec c1 (obj_d args) (append_child CompiledBlock_Create childBlock1))"

definition Compiler_CompileQuote :: "compile \<Rightarrow> Compiler \<Rightarrow> SmileObject \<Rightarrow> bool \<Rightarrow> CompiledBlock \<times> Compiler" where
  "Compiler_CompileQuote rec c args noResult =
     (if noResult then (CompiledBlock_Create, c)
      else if \<not> is_list args \<or> \<not> is_null (obj_d args)
      then compile_error c (NotWellFormed SMILE_SPECIAL_SYMBOL__QUOTE)
      else if is_symbol (obj_a args)
      then (EMIT0 CompiledBlock_Create (Stack (Op_LdSym (obj_symbol (obj_a args)))) 1, c)
      else if \<not> is_list (obj_a args)
      then (let (block, c1) = rec c (obj_a args) noResult
            in (Compiler_MakeStackMatchCompileFlags block noResult, c1))
      else (let (c1, objectIndex) = Compiler_AddObject c (obj_a args)
            in (EMIT0 CompiledBlock_Create (Stack (Op_LdObj objectIndex)) 1, c1)))"

section \<open>Conditionals\<close>

text \<open>The loop over the conditions of \<^verbatim>\<open>[$and]\<close> and \<^verbatim>\<open>[$or]\<close>: \<open>on_true\<close> says whether a true
  condition is the one that branches.\<close>

fun conditions_loop ::
  "compile \<Rightarrow> bool \<Rightarrow> nat \<Rightarrow> Compiler \<Rightarrow> SmileObject \<Rightarrow> CompiledBlock \<Rightarrow> CompiledBlock \<times> Compiler" where
  "conditions_loop rec on_true branchLabel c (ListObj a d) block =
     (let (condition, neg) = Compiler_StripNots c a;
          (childBlock, c1) = rec c condition False;
          block1 = append_child block (Compiler_EmitRequireResult childBlock);
          block2 = EMIT0 block1
            (if neg \<noteq> on_true then Op_Bt (jump_to branchLabel) else Op_Bf (jump_to branchLabel)) (-1)
      in conditions_loop rec on_true branchLabel c1 d block2)"
| "conditions_loop rec on_true branchLabel c _ block = (block, c)"

definition Compiler_CompileAnd :: "compile \<Rightarrow> Compiler \<Rightarrow> SmileObject \<Rightarrow> bool \<Rightarrow> CompiledBlock \<times> Compiler" where
  "Compiler_CompileAnd rec c args noResult =
     (if expr_length args \<le> 0 then compile_error c (NotWellFormed SMILE_SPECIAL_SYMBOL__AND)
      else
        let (c1, branchLabel) = new_label c;
            (c2, jmpLabel) = new_label c1;
            (block, c3) = conditions_loop rec False branchLabel c2 args CompiledBlock_Create;
            block1 = EMIT0 block (Stack (Op_LdBool True)) 1;
            block2 = EMIT0 block1 (Op_Jmp (jump_to jmpLabel)) 0;
            block3 = attach_label block2 branchLabel;
            block4 = EMIT0 block3 (Stack (Op_LdBool False)) 1;
            block5 = attach_label block4 jmpLabel
        in (add_delta (-1) block5, c3))"

definition Compiler_CompileOr :: "compile \<Rightarrow> Compiler \<Rightarrow> SmileObject \<Rightarrow> bool \<Rightarrow> CompiledBlock \<times> Compiler" where
  "Compiler_CompileOr rec c args noResult =
     (if expr_length args \<le> 0 then compile_error c (NotWellFormed SMILE_SPECIAL_SYMBOL__OR)
      else
        let (c1, branchLabel) = new_label c;
            (c2, jmpLabel) = new_label c1;
            (block, c3) = conditions_loop rec True branchLabel c2 args CompiledBlock_Create;
            block1 = EMIT0 block (Stack (Op_LdBool False)) 1;
            block2 = EMIT0 block1 (Op_Jmp (jump_to jmpLabel)) 0;
            block3 = attach_label block2 branchLabel;
            block4 = EMIT0 block3 (Stack (Op_LdBool True)) 1;
            block5 = attach_label block4 jmpLabel
        in (add_delta (-1) block5, c3))"

text \<open>The part of \<^verbatim>\<open>Compiler_CompileIf\<close> after the clauses are known.\<close>

definition compile_if_clauses ::
  "compile \<Rightarrow> Compiler \<Rightarrow> SmileObject \<Rightarrow> SmileObject \<Rightarrow> SmileObject \<Rightarrow> bool \<Rightarrow> CompiledBlock \<times> Compiler" where
  "compile_if_clauses rec c condition0 thenClause0 elseClause0 noResult =
     (let (condition, neg) = Compiler_StripNots c condition0;
          thenClause = (if neg then elseClause0 else thenClause0);
          elseClause = (if neg then thenClause0 else elseClause0);
          (condBlock0, c1) = rec c condition False;
          condBlock = Compiler_EmitRequireResult condBlock0;
          (trueBlock0, c2) = rec c1 thenClause noResult;
          trueBlock = Compiler_MakeStackMatchCompileFlags trueBlock0 noResult;
          (falseBlock0, c3) = rec c2 elseClause noResult;
          falseBlock = Compiler_MakeStackMatchCompileFlags falseBlock0 noResult;
          (c4, bfLabel) = new_label c3;
          (c5, jmpLabel) = new_label c4;
          start = append_child CompiledBlock_Create condBlock
      in if instructions trueBlock \<noteq> [] \<and> instructions falseBlock \<noteq> [] then
           let block1 = EMIT0 start (Op_Bf (jump_to bfLabel)) (-1);
               baselineStackDelta = finalStackDelta block1;
               block2 = append_child block1 trueBlock;
               block3 = set_stack (maxStackDepth block2) baselineStackDelta block2;
               block4 = (if escapes trueBlock then block3 else EMIT0 block3 (Op_Jmp (jump_to jmpLabel)) 0);
               block5 = EMIT_LABEL block4 bfLabel;
               block6 = append_child block5 falseBlock;
               block7 = (if escapes trueBlock then block6 else EMIT_LABEL block6 jmpLabel)
           in (block7, c5)
         else if instructions trueBlock \<noteq> [] then
           (EMIT_LABEL (append_child (EMIT0 start (Op_Bf (jump_to bfLabel)) (-1)) trueBlock) bfLabel, c5)
         else if instructions falseBlock \<noteq> [] then
           (EMIT_LABEL (append_child (EMIT0 start (Op_Bt (jump_to bfLabel)) (-1)) falseBlock) bfLabel, c5)
         else
           let (condBlock1, c6) = rec c3 condition noResult
           in (Compiler_EmitNoResult condBlock1, c6))"

definition Compiler_CompileIf :: "compile \<Rightarrow> Compiler \<Rightarrow> SmileObject \<Rightarrow> bool \<Rightarrow> CompiledBlock \<times> Compiler" where
  "Compiler_CompileIf rec c args noResult =
     (let malformed = (CompiledBlock_Create, Compiler_AddMessage c (NotWellFormed SMILE_SPECIAL_SYMBOL__IF))
      in if \<not> is_list args \<or> \<not> is_list (obj_d args) then malformed
         else
           let condition = obj_a args; args1 = obj_d args; thenClause = obj_a args1
           in if is_list (obj_d args1)
              then let args2 = obj_d args1; elseClause = obj_a args2
                   in if \<not> is_null (obj_d args2) then malformed
                      else compile_if_clauses rec c condition thenClause elseClause noResult
              else if is_null (obj_d args1)
              then compile_if_clauses rec c condition thenClause NullObject noResult
              else malformed)"

section \<open>Loops\<close>

text \<open>The position of an attached label, where \<^verbatim>\<open>CompiledBlock_AttachInstruction\<close> can insert.\<close>

fun position_of_label :: "Instr list \<Rightarrow> nat \<Rightarrow> nat" where
  "position_of_label (LabelInstr a l' # is) l = (if l' = l then 0 else Suc (position_of_label is l))"
| "position_of_label (_ # is) l = Suc (position_of_label is l)"
| "position_of_label [] l = 0"

definition insert_after_label :: "CompiledBlock \<Rightarrow> nat \<Rightarrow> Instr \<Rightarrow> CompiledBlock" where
  "insert_after_label block l i =
     CompiledBlock_AttachInstruction block (Some (position_of_label (instructions block) l)) i"

definition branch_unless :: "bool \<Rightarrow> nat \<Rightarrow> branch ByteCode" where
  "branch_unless neg l = (if neg then Op_Bf (jump_to l) else Op_Bt (jump_to l))"

definition CompileWhileWithPreAndPost ::
  "compile \<Rightarrow> Compiler \<Rightarrow> bool \<Rightarrow> SmileObject \<Rightarrow> SmileObject \<Rightarrow> SmileObject \<Rightarrow> bool \<Rightarrow> CompiledBlock \<times> Compiler" where
  "CompileWhileWithPreAndPost rec c neg condition preClause postClause noResult =
     (let (c1, jmpLabel) = new_label c;
          (c2, bLabel) = new_label c1;
          block0 = CompiledBlock_AttachInstruction CompiledBlock_Create None (LabelInstr 0 jmpLabel);
          (preBlock, c3) = rec c2 preClause noResult;
          block1 = Compiler_MakeStackMatchCompileFlags (append_child block0 preBlock) noResult;
          (condBlock, c4) = rec c3 condition False;
          block2 = append_child block1 (Compiler_EmitRequireResult condBlock);
          block3 = EMIT0 block2 (branch_unless neg bLabel) (-1);
          block4 = (if noResult then block3 else EMIT0 block3 (Stack Op_Pop1) (-1));
          (postBlock, c5) = rec c4 postClause True;
          block5 = append_child block4 (Compiler_EmitNoResult postBlock);
          block6 = EMIT0 block5 (Op_Jmp (jump_to jmpLabel)) 0;
          block7 = attach_label block6 bLabel
      in (if noResult then block7 else add_delta 1 block7, c5))"

definition CompileWhileWithPre ::
  "compile \<Rightarrow> Compiler \<Rightarrow> bool \<Rightarrow> SmileObject \<Rightarrow> SmileObject \<Rightarrow> bool \<Rightarrow> CompiledBlock \<times> Compiler" where
  "CompileWhileWithPre rec c neg condition preClause noResult =
     (let (c1, jmpLabel) = new_label c;
          (c2, bLabel) = new_label c1;
          block0 = EMIT0 CompiledBlock_Create (Op_Jmp (jump_to jmpLabel)) 0;
          block1 = attach_label (attach_label block0 bLabel) jmpLabel;
          (preBlock, c3) = rec c2 preClause noResult;
          block2 = Compiler_MakeStackMatchCompileFlags (append_child block1 preBlock) noResult;
          block3 = (if noResult then block2
                    else add_delta (-1) (insert_after_label block2 bLabel (Plain 0 (Stack Op_Pop1))));
          (condBlock, c4) = rec c3 condition False;
          block4 = append_child block3 (Compiler_EmitRequireResult condBlock);
          block5 = EMIT0 block4 (branch_unless neg bLabel) (-1)
      in (if noResult then block5 else add_delta 1 block5, c4))"

definition CompileWhileWithPost ::
  "compile \<Rightarrow> Compiler \<Rightarrow> bool \<Rightarrow> SmileObject \<Rightarrow> SmileObject \<Rightarrow> bool \<Rightarrow> CompiledBlock \<times> Compiler" where
  "CompileWhileWithPost rec c neg condition postClause noResult =
     (let (c1, jmpLabel) = new_label c;
          (c2, bLabel) = new_label c1;
          block0 = (if noResult then CompiledBlock_Create
                    else add_delta (-1) (EMIT0 CompiledBlock_Create (Stack Op_LdNull) 1));
          block1 = EMIT0 block0 (Op_Jmp (jump_to jmpLabel)) 0;
          block2 = attach_label block1 bLabel;
          (postBlock, c3) = rec c2 postClause noResult;
          block3 = Compiler_MakeStackMatchCompileFlags (append_child block2 postBlock) noResult;
          block4 = (if noResult then block3
                    else insert_after_label (add_delta (-1) block3) bLabel (Plain 0 (Stack Op_Pop1)));
          block5 = attach_label block4 jmpLabel;
          (condBlock, c4) = rec c3 condition False;
          block6 = Compiler_EmitRequireResult (append_child block5 condBlock);
          block7 = EMIT0 block6 (branch_unless neg bLabel) (-1)
      in (if noResult then block7 else add_delta 1 block7, c4))"

definition CompileWhileWithNoBody ::
  "compile \<Rightarrow> Compiler \<Rightarrow> bool \<Rightarrow> SmileObject \<Rightarrow> bool \<Rightarrow> CompiledBlock \<times> Compiler" where
  "CompileWhileWithNoBody rec c neg condition noResult =
     (let (c1, bLabel) = new_label c;
          block0 = EMIT_LABEL CompiledBlock_Create bLabel;
          (childBlock, c2) = rec c1 condition False;
          block1 = append_child block0 (Compiler_EmitRequireResult childBlock);
          block2 = EMIT0 block1 (branch_unless neg bLabel) (-1)
      in (if noResult then block2 else EMIT0 block2 (Stack Op_LdNull) 1, c2))"

definition compile_while_parts ::
  "compile \<Rightarrow> Compiler \<Rightarrow> SmileObject \<Rightarrow> SmileObject \<Rightarrow> SmileObject \<Rightarrow> bool \<Rightarrow> CompiledBlock \<times> Compiler" where
  "compile_while_parts rec c preClause condition0 postClause noResult =
     (let (condition, neg) = Compiler_StripNots c condition0;
          hasPre = (preClause \<noteq> NullObject);
          hasPost = (postClause \<noteq> NullObject)
      in if hasPre \<and> hasPost then CompileWhileWithPreAndPost rec c neg condition preClause postClause noResult
         else if hasPre then CompileWhileWithPre rec c neg condition preClause noResult
         else if hasPost then CompileWhileWithPost rec c neg condition postClause noResult
         else CompileWhileWithNoBody rec c neg condition noResult)"

definition Compiler_CompileWhile :: "compile \<Rightarrow> Compiler \<Rightarrow> SmileObject \<Rightarrow> bool \<Rightarrow> CompiledBlock \<times> Compiler" where
  "Compiler_CompileWhile rec c args noResult =
     (let malformed = compile_error c (NotWellFormed SMILE_SPECIAL_SYMBOL__WHILE)
      in if \<not> is_list args \<or> \<not> is_list (obj_d args) then malformed
         else
           let condition = obj_a args; args1 = obj_d args; postClause = obj_a args1
           in if is_list (obj_d args1)
              then let args2 = obj_d args1
                   in if \<not> is_null (obj_d args2) then malformed
                      else compile_while_parts rec c condition postClause (obj_a args2) noResult
              else if is_null (obj_d args1)
              then compile_while_parts rec c NullObject condition postClause noResult
              else malformed)"

end
