(* ===== verification/CompilerForms.thy ===== *)
theory CompilerForms
  imports Compiler
begin

text \<open>
  The rest of the bytecode compiler: forms with fixed arguments, properties and members, assignment,
  method calls, scopes, \<^verbatim>\<open>[$return]\<close> and \<^verbatim>\<open>[$brk]\<close>, the dispatch on the form
  (\<^verbatim>\<open>Compiler_CompileStandardForm\<close>, \<^verbatim>\<open>Compiler_CompileExpr\<close>) and the compilation of a whole
  program (\<^verbatim>\<open>Compiler_CompileGlobal\<close>).

  The compilers of \<^verbatim>\<open>[$include]\<close>, \<^verbatim>\<open>[$till]\<close>, \<^verbatim>\<open>[$fn]\<close> and \<^verbatim>\<open>[$new]\<close> are not modelled; the
  argument \<open>other\<close> stands for them.
\<close>

section \<open>Forms with one or two arguments\<close>

definition Compiler_CompileOneArgument ::
  "compile \<Rightarrow> Compiler \<Rightarrow> SmileObject \<Rightarrow> bool \<Rightarrow> Symbol \<Rightarrow> ObjectOp \<Rightarrow> CompiledBlock \<times> Compiler" where
  "Compiler_CompileOneArgument rec c args noResult name opcode =
     (if \<not> is_list args \<or> \<not> is_null (obj_d args) then compile_error c (NotWellFormed name)
      else
        let (childBlock, c1) = rec c (obj_a args) noResult;
            childBlock1 = Compiler_MakeStackMatchCompileFlags childBlock noResult;
            block = append_child CompiledBlock_Create childBlock1
        in (if noResult then block else EMIT0 block (Object opcode) 0, c1))"

text \<open>Both children are attached before their stack effect is put in line with the flags. The
  change of an attached child shows through its parent; an empty child was not attached.\<close>

definition attach_then_match :: "CompiledBlock \<Rightarrow> CompiledBlock \<Rightarrow> bool \<Rightarrow> CompiledBlock" where
  "attach_then_match block childBlock noResult =
     (let (block1, attached) = CompiledBlock_AppendChild block childBlock;
          childBlock1 = Compiler_MakeStackMatchCompileFlags childBlock noResult
      in if attached then replace_last_child block1 childBlock1 else block1)"

definition Compiler_CompileTwoArguments ::
  "compile \<Rightarrow> Compiler \<Rightarrow> SmileObject \<Rightarrow> bool \<Rightarrow> Symbol \<Rightarrow> ObjectOp \<Rightarrow> CompiledBlock \<times> Compiler" where
  "Compiler_CompileTwoArguments rec c args noResult name opcode =
     (if \<not> is_list args \<or> \<not> is_list (obj_d args) \<or> \<not> is_null (obj_d (obj_d args))
      then compile_error c (NotWellFormed name)
      else
        let (childBlock1, c1) = rec c (obj_a args) noResult;
            block1 = attach_then_match CompiledBlock_Create childBlock1 noResult;
            (childBlock2, c2) = rec c1 (obj_a (obj_d args)) noResult;
            block2 = attach_then_match block1 childBlock2 noResult
        in (if noResult then block2 else EMIT0 block2 (Object opcode) (-1), c2))"

section \<open>Properties, members and calls\<close>

definition Compiler_ValidateIndexArgs :: "SmileObject \<Rightarrow> bool" where
  "Compiler_ValidateIndexArgs indexArgs = (expr_safe_length indexArgs = 2)"

definition Compiler_ValidateDotArgs :: "SmileObject \<Rightarrow> bool" where
  "Compiler_ValidateDotArgs dotArgs =
     (expr_safe_length dotArgs = 2 \<and> is_symbol (obj_a (obj_d dotArgs)))"

definition require_child :: "CompiledBlock \<Rightarrow> CompiledBlock \<Rightarrow> CompiledBlock" where
  "require_child block childBlock = append_child block (Compiler_EmitRequireResult childBlock)"

definition property_load :: "KnownSymbols \<Rightarrow> Symbol \<Rightarrow> ObjectOp" where
  "property_load k symbol =
     (if symbol = sym_a k then Op_LdA
      else if symbol = sym_d k then Op_LdD
      else if symbol = sym_start k then Op_LdStart
      else if symbol = sym_end k then Op_LdEnd
      else if symbol = sym_count k then Op_LdCount
      else if symbol = sym_length k then Op_LdLength
      else Op_LdProp symbol)"

definition Compiler_CompileLoadProperty ::
  "compile \<Rightarrow> Compiler \<Rightarrow> SmileObject \<Rightarrow> bool \<Rightarrow> CompiledBlock \<times> Compiler" where
  "Compiler_CompileLoadProperty rec c dotArgs noResult =
     (if \<not> Compiler_ValidateDotArgs dotArgs then compile_error c (NotWellFormed SMILE_SPECIAL_SYMBOL__DOT)
      else
        let (childBlock, c1) = rec c (obj_a dotArgs) False;
            block = Compiler_EmitRequireResult (append_child CompiledBlock_Create childBlock);
            symbol = obj_symbol (obj_a (obj_d dotArgs))
        in (if noResult then EMIT0 block (Stack Op_Pop1) (-1)
            else EMIT0 block (Object (property_load (known c) symbol)) 0, c1))"

definition Compiler_CompileLoadMember ::
  "compile \<Rightarrow> Compiler \<Rightarrow> SmileObject \<Rightarrow> bool \<Rightarrow> CompiledBlock \<times> Compiler" where
  "Compiler_CompileLoadMember rec c indexArgs noResult =
     (if \<not> Compiler_ValidateIndexArgs indexArgs
      then compile_error c (NotWellFormed SMILE_SPECIAL_SYMBOL__INDEX)
      else
        let (childBlock1, c1) = rec c (obj_a indexArgs) False;
            block1 = Compiler_EmitRequireResult (append_child CompiledBlock_Create childBlock1);
            (childBlock2, c2) = rec c1 (obj_a (obj_d indexArgs)) False;
            block2 = Compiler_EmitRequireResult (append_child block1 childBlock2);
            block3 = EMIT0 block2 (Object Op_LdMember) (-1)
        in (if noResult then EMIT0 block3 (Stack Op_Pop1) (-1) else block3, c2))"

fun method_arguments :: "compile \<Rightarrow> Compiler \<Rightarrow> SmileObject \<Rightarrow> CompiledBlock \<Rightarrow> CompiledBlock \<times> Compiler" where
  "method_arguments rec c (ListObj a d) block =
     (let (childBlock, c1) = rec c a False
      in method_arguments rec c1 d (Compiler_EmitRequireResult (append_child block childBlock)))"
| "method_arguments rec c _ block = (block, c)"

definition Compiler_CompileMethodCall ::
  "compile \<Rightarrow> Compiler \<Rightarrow> SmileObject \<Rightarrow> SmileObject \<Rightarrow> bool \<Rightarrow> CompiledBlock \<times> Compiler" where
  "Compiler_CompileMethodCall rec c dotArgs args noResult =
     (let len = expr_length args
      in if \<not> Compiler_ValidateDotArgs dotArgs then compile_error c (NotWellFormed SMILE_SPECIAL_SYMBOL__DOT)
         else if len < 0 then compile_error c (NotWellFormed SMILE_SPECIAL_SYMBOL__DOT)
         else
           let (childBlock, c1) = rec c (obj_a dotArgs) False;
               block1 = Compiler_EmitRequireResult (append_child CompiledBlock_Create childBlock);
               symbol = obj_symbol (obj_a (obj_d dotArgs));
               (block2, c2) = method_arguments rec c1 args block1;
               opcode = (if len \<le> 7
                         then if len = 1 \<and> symbol = sym_get_member (known c) then Op_LdMember
                              else Op_MetN len symbol
                         else Op_Met len symbol);
               block3 = EMIT0 block2 (Object opcode) (- (len + 1) + 1)
           in (Compiler_PopIfNecessary block3 noResult, c2))"

text \<open>The default list form: the first element is the function, the rest its arguments.\<close>

fun call_arguments :: "compile \<Rightarrow> Compiler \<Rightarrow> SmileObject \<Rightarrow> CompiledBlock \<Rightarrow> int \<Rightarrow> CompiledBlock \<times> Compiler \<times> int" where
  "call_arguments rec c (ListObj a d) block argCount =
     (let (argumentBlock, c1) = rec c a False
      in call_arguments rec c1 d (require_child block argumentBlock) (argCount + 1))"
| "call_arguments rec c _ block argCount = (block, c, argCount)"

definition compile_call :: "compile \<Rightarrow> Compiler \<Rightarrow> SmileObject \<Rightarrow> bool \<Rightarrow> CompiledBlock \<times> Compiler" where
  "compile_call rec c expr noResult =
     (let (block, c1, argCount) = call_arguments rec c expr CompiledBlock_Create 0
      in if argCount = 0
         then (if noResult then block else EMIT0 block (Stack Op_LdNull) 1, c1)
         else (Compiler_PopIfNecessary (EMIT0 block (Object (Op_Call (argCount - 1))) (1 - argCount)) noResult, c1))"

section \<open>Assignment\<close>

definition Compiler_CompileSetSymbol ::
  "compile \<Rightarrow> Compiler \<Rightarrow> Symbol \<Rightarrow> SmileObject \<Rightarrow> bool \<Rightarrow> CompiledBlock \<times> Compiler" where
  "Compiler_CompileSetSymbol rec c symbol val noResult =
     (let (childBlock, c1) = rec c val False
      in Compiler_CompileStoreVariable c1 symbol noResult (require_child CompiledBlock_Create childBlock))"

definition Compiler_CompileSetProperty ::
  "compile \<Rightarrow> Compiler \<Rightarrow> SmileObject \<Rightarrow> SmileObject \<Rightarrow> bool \<Rightarrow> CompiledBlock \<times> Compiler" where
  "Compiler_CompileSetProperty rec c dotArgs val noResult =
     (let symbol = obj_symbol (obj_a (obj_d dotArgs));
          (childBlock1, c1) = rec c (obj_a dotArgs) False;
          block1 = require_child CompiledBlock_Create childBlock1;
          (childBlock2, c2) = rec c1 val False;
          block2 = require_child block1 childBlock2
      in (if noResult then EMIT0 block2 (Object (Op_StpProp symbol)) (-2)
          else EMIT0 block2 (Object (Op_StProp symbol)) (-1), c2))"

definition store_member :: "CompiledBlock \<Rightarrow> bool \<Rightarrow> CompiledBlock" where
  "store_member block noResult =
     (if noResult then EMIT0 block (Object Op_StpMember) (-3)
      else EMIT0 (EMIT0 block (Stack Op_LdNull) 1) (Object Op_StMember) (-2))"

definition Compiler_CompileSetMember ::
  "compile \<Rightarrow> Compiler \<Rightarrow> SmileObject \<Rightarrow> SmileObject \<Rightarrow> bool \<Rightarrow> CompiledBlock \<times> Compiler" where
  "Compiler_CompileSetMember rec c dotArgs val noResult =
     (let (childBlock1, c1) = rec c (obj_a dotArgs) False;
          block1 = require_child CompiledBlock_Create childBlock1;
          (childBlock2, c2) = rec c1 (obj_a (obj_d dotArgs)) False;
          block2 = require_child block1 childBlock2;
          (childBlock3, c3) = rec c2 val False;
          block3 = require_child block2 childBlock3
      in (store_member block3 noResult, c3))"

definition Compiler_CompileSetf :: "compile \<Rightarrow> Compiler \<Rightarrow> SmileObject \<Rightarrow> bool \<Rightarrow> CompiledBlock \<times> Compiler" where
  "Compiler_CompileSetf rec c args noResult =
     (let malformed = compile_error c (NotWellFormed SMILE_SPECIAL_SYMBOL__SET)
      in if expr_length args \<noteq> 2 then malformed
         else
           let dest = obj_a args; val = obj_a (obj_d args)
           in if is_symbol dest then Compiler_CompileSetSymbol rec c (obj_symbol dest) val noResult
              else if is_list dest \<and> obj_a dest = SymbolObj SMILE_SPECIAL_SYMBOL__DOT
              then if \<not> Compiler_ValidateDotArgs (obj_d dest)
                   then compile_error c (NotWellFormed SMILE_SPECIAL_SYMBOL__DOT)
                   else Compiler_CompileSetProperty rec c (obj_d dest) val noResult
              else if is_list dest \<and> obj_a dest = SymbolObj SMILE_SPECIAL_SYMBOL__INDEX
              then if \<not> Compiler_ValidateIndexArgs (obj_d dest)
                   then compile_error c (NotWellFormed SMILE_SPECIAL_SYMBOL__INDEX)
                   else Compiler_CompileSetMember rec c (obj_d dest) val noResult
              else malformed)"

definition Compiler_CompileOpEqualsSymbol ::
  "compile \<Rightarrow> Compiler \<Rightarrow> Symbol \<Rightarrow> Symbol \<Rightarrow> SmileObject \<Rightarrow> bool \<Rightarrow> CompiledBlock \<times> Compiler" where
  "Compiler_CompileOpEqualsSymbol rec c operator symbol val noResult =
     (let (childBlock1, c1) = Compiler_CompileLoadVariable c symbol False;
          block1 = require_child CompiledBlock_Create childBlock1;
          (childBlock2, c2) = rec c1 val False;
          block2 = require_child block1 childBlock2;
          block3 = EMIT0 block2 (Object (Op_MetN 1 operator)) (-1)
      in Compiler_CompileStoreVariable c2 symbol noResult block3)"

definition Compiler_CompileOpEqualsProperty ::
  "compile \<Rightarrow> Compiler \<Rightarrow> Symbol \<Rightarrow> SmileObject \<Rightarrow> SmileObject \<Rightarrow> bool \<Rightarrow> CompiledBlock \<times> Compiler" where
  "Compiler_CompileOpEqualsProperty rec c operator dotArgs val noResult =
     (let symbol = obj_symbol (obj_a (obj_d dotArgs));
          (childBlock1, c1) = rec c (obj_a dotArgs) False;
          block1 = require_child CompiledBlock_Create childBlock1;
          block2 = EMIT0 block1 (Stack Op_Dup1) 1;
          block3 = EMIT0 block2 (Object (Op_LdProp symbol)) 0;
          (childBlock2, c2) = rec c1 val False;
          block4 = require_child block3 childBlock2;
          block5 = EMIT0 block4 (Object (Op_MetN 1 operator)) (-1)
      in (if noResult then EMIT0 block5 (Object (Op_StpProp symbol)) (-2)
          else EMIT0 block5 (Object (Op_StProp symbol)) (-1), c2))"

definition Compiler_CompileOpEqualsMember ::
  "compile \<Rightarrow> Compiler \<Rightarrow> Symbol \<Rightarrow> SmileObject \<Rightarrow> SmileObject \<Rightarrow> bool \<Rightarrow> CompiledBlock \<times> Compiler" where
  "Compiler_CompileOpEqualsMember rec c operator dotArgs val noResult =
     (let (childBlock1, c1) = rec c (obj_a dotArgs) False;
          block1 = require_child CompiledBlock_Create childBlock1;
          (childBlock2, c2) = rec c1 (obj_a (obj_d dotArgs)) False;
          block2 = require_child block1 childBlock2;
          block3 = EMIT0 (EMIT0 block2 (Stack Op_Dup2) 1) (Stack Op_Dup2) 1;
          block4 = EMIT0 block3 (Object Op_LdMember) (-1);
          (childBlock3, c3) = rec c2 val False;
          block5 = require_child block4 childBlock3;
          block6 = EMIT0 block5 (Object (Op_MetN 1 operator)) (-1)
      in (store_member block6 noResult, c3))"

definition Compiler_CompileOpEquals :: "compile \<Rightarrow> Compiler \<Rightarrow> SmileObject \<Rightarrow> bool \<Rightarrow> CompiledBlock \<times> Compiler" where
  "Compiler_CompileOpEquals rec c args noResult =
     (let malformed = compile_error c (NotWellFormed SMILE_SPECIAL_SYMBOL__OPSET)
      in if expr_length args \<noteq> 3 then malformed
         else if \<not> is_symbol (obj_a args) then malformed
         else
           let operator = obj_symbol (obj_a args); args1 = obj_d args;
               dest = obj_a args1; val = obj_a (obj_d args1)
           in if is_symbol dest then Compiler_CompileOpEqualsSymbol rec c operator (obj_symbol dest) val noResult
              else if is_list dest \<and> obj_a dest = SymbolObj SMILE_SPECIAL_SYMBOL__DOT
              then if \<not> Compiler_ValidateDotArgs (obj_d dest)
                   then compile_error c (NotWellFormed SMILE_SPECIAL_SYMBOL__DOT)
                   else Compiler_CompileOpEqualsProperty rec c operator (obj_d dest) val noResult
              else if is_list dest \<and> obj_a dest = SymbolObj SMILE_SPECIAL_SYMBOL__INDEX
              then if \<not> Compiler_ValidateIndexArgs (obj_d dest)
                   then compile_error c (NotWellFormed SMILE_SPECIAL_SYMBOL__INDEX)
                   else Compiler_CompileOpEqualsMember rec c operator (obj_d dest) val noResult
              else malformed)"

section \<open>Scopes\<close>

fun decode_modifiers :: "KnownSymbols \<Rightarrow> SmileObject \<Rightarrow> ParseDecl \<Rightarrow> bool \<times> ParseDecl" where
  "decode_modifiers k (ListObj a d) declKind =
     (if a = SymbolObj (sym_auto k) then decode_modifiers k d PARSEDECL_SETONCEAUTO
      else if a = SymbolObj (sym_set_once k) then decode_modifiers k d PARSEDECL_SETONCECONST
      else (False, declKind))"
| "decode_modifiers k _ declKind = (True, declKind)"

text \<open>The first result is the return value; \<open>symbol0\<close> is what \<^verbatim>\<open>*symbol\<close> holds before the call.\<close>

definition Compiler_DecodeScopeVariable ::
  "KnownSymbols \<Rightarrow> SmileObject \<Rightarrow> Symbol \<Rightarrow> bool \<times> Symbol \<times> ParseDecl" where
  "Compiler_DecodeScopeVariable k obj symbol0 =
     (if is_symbol obj then (True, obj_symbol obj, PARSEDECL_VARIABLE)
      else if \<not> is_list obj \<or> \<not> is_symbol (obj_a obj) then (False, symbol0, PARSEDECL_VARIABLE)
      else
        let (ok, declKind) = decode_modifiers k (obj_d obj) PARSEDECL_VARIABLE
        in (ok, obj_symbol (obj_a obj), declKind))"

fun scope_variables ::
  "Compiler \<Rightarrow> SmileObject \<Rightarrow> Symbol \<Rightarrow> CompiledBlock \<Rightarrow> CompiledBlock \<times> Compiler \<times> SmileObject" where
  "scope_variables c (ListObj a d) symbol0 initBlock =
     (let (ok, symbol, declKind) = Compiler_DecodeScopeVariable (known c) a symbol0;
          c1 = (if ok then c
                else Compiler_AddMessage (Compiler_AddMessage c BadScopeVariable) BadScopeVariable);
          (c2, localIndex) = CompilerFunction_AddLocal c1 symbol;
          c3 = CompileScope_DefineSymbol c2 symbol declKind localIndex
      in scope_variables c3 d symbol (EMIT0 initBlock (Var (Op_NullLoc0 localIndex)) 0))"
| "scope_variables c rest symbol0 initBlock = (initBlock, c, rest)"

definition Compiler_CompileScope :: "compile \<Rightarrow> Compiler \<Rightarrow> SmileObject \<Rightarrow> bool \<Rightarrow> CompiledBlock \<times> Compiler" where
  "Compiler_CompileScope rec c args noResult =
     (if \<not> is_list args \<or> \<not> is_list (obj_a args) \<or> \<not> (is_list (obj_d args) \<or> is_null (obj_d args))
      then compile_error c (NotWellFormed SMILE_SPECIAL_SYMBOL__SCOPE)
      else
        let (initBlock, c1, rest) =
              scope_variables (Compiler_BeginScope c) (obj_a args) 0 CompiledBlock_Create
        in if \<not> is_null rest then compile_error c1 (NotWellFormed SMILE_SPECIAL_SYMBOL__SCOPE)
           else
             let (block, c2) = Compiler_CompileProgN rec c1 (obj_d args) noResult
             in (CompiledBlock_Combine initBlock block, Compiler_EndScope c2))"

section \<open>Leaving a function\<close>

text \<open>The block compiled for the value of \<^verbatim>\<open>[$return value]\<close> is not attached to anything.\<close>

definition Compiler_CompileReturn :: "compile \<Rightarrow> Compiler \<Rightarrow> SmileObject \<Rightarrow> bool \<Rightarrow> CompiledBlock \<times> Compiler" where
  "Compiler_CompileReturn rec c args noResult =
     (if is_null args
      then (let block = EMIT0 (EMIT0 CompiledBlock_Create (Stack Op_LdNull) 1) Op_Ret (-1)
            in (set_flags True (has_error block) block, c))
      else if is_list args \<and> is_null (obj_d args)
      then (let (childBlock, c1) = rec c (obj_a args) False;
                block = EMIT0 CompiledBlock_Create Op_Ret (-1)
            in (set_flags True (has_error block) block, c1))
      else compile_error c (NotWellFormed SMILE_SPECIAL_SYMBOL__RETURN))"

definition Compiler_CompileBrk :: "Compiler \<Rightarrow> bool \<Rightarrow> CompiledBlock \<times> Compiler" where
  "Compiler_CompileBrk c noResult =
     (Compiler_MakeStackMatchCompileFlags (EMIT0 CompiledBlock_Create Op_Brk 0) noResult, c)"

section \<open>Dispatch\<close>

type_synonym other_forms = "Compiler \<Rightarrow> Symbol \<Rightarrow> SmileObject \<Rightarrow> bool \<Rightarrow> CompiledBlock \<times> Compiler"

definition Compiler_CompileStandardForm ::
  "other_forms \<Rightarrow> compile \<Rightarrow> Compiler \<Rightarrow> Symbol \<Rightarrow> SmileObject \<Rightarrow> bool \<Rightarrow> (CompiledBlock \<times> Compiler) option" where
  "Compiler_CompileStandardForm other rec c symbol args noResult =
     (if symbol = SMILE_SPECIAL_SYMBOL__SET then Some (Compiler_CompileSetf rec c args noResult)
      else if symbol = SMILE_SPECIAL_SYMBOL__OPSET then Some (Compiler_CompileOpEquals rec c args noResult)
      else if symbol = SMILE_SPECIAL_SYMBOL__INCLUDE then Some (other c symbol args noResult)
      else if symbol = SMILE_SPECIAL_SYMBOL__IF then Some (Compiler_CompileIf rec c args noResult)
      else if symbol = SMILE_SPECIAL_SYMBOL__WHILE then Some (Compiler_CompileWhile rec c args noResult)
      else if symbol = SMILE_SPECIAL_SYMBOL__TILL then Some (other c symbol args noResult)
      else if symbol = SMILE_SPECIAL_SYMBOL__CATCH then None
      else if symbol = SMILE_SPECIAL_SYMBOL__RETURN then Some (Compiler_CompileReturn rec c args noResult)
      else if symbol = SMILE_SPECIAL_SYMBOL__BRK then Some (Compiler_CompileBrk c noResult)
      else if symbol = SMILE_SPECIAL_SYMBOL__FN then Some (other c symbol args noResult)
      else if symbol = SMILE_SPECIAL_SYMBOL__QUOTE then Some (Compiler_CompileQuote rec c args noResult)
      else if symbol = SMILE_SPECIAL_SYMBOL__PROG1 then Some (Compiler_CompileProg1 rec c args noResult)
      else if symbol = SMILE_SPECIAL_SYMBOL__PROGN then Some (Compiler_CompileProgN rec c args noResult)
      else if symbol = SMILE_SPECIAL_SYMBOL__SCOPE then Some (Compiler_CompileScope rec c args noResult)
      else if symbol = SMILE_SPECIAL_SYMBOL__NEW then Some (other c symbol args noResult)
      else if symbol = SMILE_SPECIAL_SYMBOL__DOT then Some (Compiler_CompileLoadProperty rec c args noResult)
      else if symbol = SMILE_SPECIAL_SYMBOL__INDEX then Some (Compiler_CompileLoadMember rec c args noResult)
      else if symbol = SMILE_SPECIAL_SYMBOL__IS
      then Some (Compiler_CompileTwoArguments rec c args noResult symbol Op_Is)
      else if symbol = SMILE_SPECIAL_SYMBOL__TYPEOF
      then Some (Compiler_CompileOneArgument rec c args noResult symbol Op_TypeOf)
      else if symbol = SMILE_SPECIAL_SYMBOL__EQ
      then Some (Compiler_CompileTwoArguments rec c args noResult symbol Op_SuperEq)
      else if symbol = SMILE_SPECIAL_SYMBOL__NE
      then Some (Compiler_CompileTwoArguments rec c args noResult symbol Op_SuperNe)
      else if symbol = SMILE_SPECIAL_SYMBOL__AND then Some (Compiler_CompileAnd rec c args noResult)
      else if symbol = SMILE_SPECIAL_SYMBOL__OR then Some (Compiler_CompileOr rec c args noResult)
      else if symbol = SMILE_SPECIAL_SYMBOL__NOT
      then Some (Compiler_CompileOneArgument rec c args noResult symbol Op_Not)
      else None)"

text \<open>The macro \<^verbatim>\<open>COMPILE_PRIMITIVE_EXPR\<close> for an operand that needs no table.\<close>

definition compile_primitive :: "Compiler \<Rightarrow> bool \<Rightarrow> StackOp \<Rightarrow> CompiledBlock \<times> Compiler" where
  "compile_primitive c noResult opcode =
     (if noResult then CompiledBlock_Create else EMIT0 CompiledBlock_Create (Stack opcode) 1, c)"

definition compile_literal :: "Compiler \<Rightarrow> bool \<Rightarrow> SmileObject \<Rightarrow> CompiledBlock \<times> Compiler" where
  "compile_literal c noResult obj =
     (if noResult then (CompiledBlock_Create, c)
      else let (c1, index) = Compiler_AddObject c obj
           in (EMIT0 CompiledBlock_Create (Stack (Op_LdObj index)) 1, c1))"

definition compile_list :: "other_forms \<Rightarrow> compile \<Rightarrow> Compiler \<Rightarrow> SmileObject \<Rightarrow> bool \<Rightarrow> CompiledBlock \<times> Compiler" where
  "compile_list other rec c expr noResult =
     (let head = obj_a expr; rest = obj_d expr
      in if is_list head \<and> obj_a head = SymbolObj SMILE_SPECIAL_SYMBOL__DOT
         then Compiler_CompileMethodCall rec c (obj_d head) rest noResult
         else if is_symbol head
         then if \<not> is_list rest \<and> \<not> is_null rest then compile_error c (NotWellFormed 0)
              else (case Compiler_CompileStandardForm other rec c (obj_symbol head) rest noResult of
                      Some r \<Rightarrow> r
                    | None \<Rightarrow> compile_call rec c expr noResult)
         else compile_call rec c expr noResult)"

definition compile_expr_with :: "other_forms \<Rightarrow> compile \<Rightarrow> compile" where
  "compile_expr_with other rec c expr noResult =
     (case expr of
        NullObject \<Rightarrow> compile_primitive c noResult Op_LdNull
      | BoolObj b \<Rightarrow> compile_primitive c noResult (Op_LdBool b)
      | StringObj s \<Rightarrow>
          (if noResult then (CompiledBlock_Create, c)
           else let (c1, index) = Compiler_AddString c s
                in (EMIT0 CompiledBlock_Create (Stack (Op_LdStr index)) 1, c1))
      | PrimitiveObj \<Rightarrow> compile_literal c noResult PrimitiveObj
      | CharObj ch \<Rightarrow> compile_primitive c noResult (Op_LdChar ch)
      | UniObj u \<Rightarrow> compile_primitive c noResult (Op_LdUni u)
      | ByteObj b \<Rightarrow> compile_primitive c noResult (Op_Ld8 b)
      | Integer16Obj i \<Rightarrow> compile_primitive c noResult (Op_Ld16 i)
      | Integer32Obj i \<Rightarrow> compile_primitive c noResult (Op_Ld32 i)
      | Integer64Obj i \<Rightarrow> compile_primitive c noResult (Op_Ld64 i)
      | FunctionObj f \<Rightarrow> compile_literal c noResult (FunctionObj f)
      | UserDataObj u \<Rightarrow> compile_literal c noResult (UserDataObj u)
      | SymbolObj symbol \<Rightarrow> Compiler_CompileLoadVariable c symbol noResult
      | ListObj a d \<Rightarrow> compile_list other rec c (ListObj a d) noResult)"

text \<open>The recursion, with fuel. The size of the expression is always enough.\<close>

fun compile_expr :: "nat \<Rightarrow> other_forms \<Rightarrow> compile" where
  "compile_expr 0 other c expr noResult = compile_error c OutOfFuel"
| "compile_expr (Suc fuel) other c expr noResult =
     compile_expr_with other (compile_expr fuel other) c expr noResult"

definition Compiler_CompileExpr :: "other_forms \<Rightarrow> compile" where
  "Compiler_CompileExpr other c expr noResult = compile_expr (Suc (size expr)) other c expr noResult"

section \<open>Whole programs\<close>

record UserFunctionInfo =
  byteCodeSegment :: ByteCodeSegment
  numVariables :: int
  tempSize :: int

definition Compiler_CompileGlobal ::
  "other_forms \<Rightarrow> Compiler \<Rightarrow> SmileObject \<Rightarrow> (UserFunctionInfo \<times> Compiler) option" where
  "Compiler_CompileGlobal other c expr =
     (let (block, c1) = Compiler_CompileExpr other c expr False;
          block1 = Compiler_EmitRequireResult block;
          block2 = EMIT0 block1 Op_Ret (-1)
      in do {
        segment \<leftarrow> CompiledBlock_Finish block2 False;
        (if int (length (localNames c1)) > 16383 \<or> maxStackDepth block2 > 32767 then None
         else Some (\<lparr>byteCodeSegment = segment, numVariables = int (length (localNames c1)),
                     tempSize = maxStackDepth block2\<rparr>, c1))})"

end
