(* ===== verification/Eval.thy ===== *)
theory Eval
  imports CompilerForms
begin

text \<open>
  The evaluator (\<^verbatim>\<open>smilelib/src/eval/eval.c\<close>, \<^verbatim>\<open>closure.c\<close>, \<^verbatim>\<open>closure.h\<close>): arguments and their
  unboxed data, the closure with its array of variables and temporaries, and the instructions of
  \<^verbatim>\<open>Eval_RunCore\<close>. \<open>None\<close> is an access outside the closure's array, outside a table, or through
  a null pointer.

  The machine runs one function. What external code does (the C functions that Smile code calls,
  the virtual methods \<^verbatim>\<open>getProperty\<close>, \<^verbatim>\<open>setProperty\<close>, \<^verbatim>\<open>compareEqual\<close> and the \<^verbatim>\<open>base\<close> chain) is
  given by an environment, over a type of worlds that external code may change.
\<close>

section \<open>Arguments\<close>

datatype ArgObj =
    NullPointer | Boxed SmileObject
  | UnboxedBool_Instance | UnboxedSymbol_Instance | UnboxedChar_Instance | UnboxedUni_Instance
  | UnboxedByte_Instance | UnboxedInteger16_Instance | UnboxedInteger32_Instance
  | UnboxedInteger64_Instance

record SmileArg =
  obj :: ArgObj
  unboxed :: "64 word"

text \<open>Writing a member of the union \<^verbatim>\<open>SmileUnboxedData\<close> changes its own bytes only.\<close>

definition set_low :: "nat \<Rightarrow> 64 word \<Rightarrow> 64 word \<Rightarrow> 64 word" where
  "set_low n old v = take_bit n v OR (old AND NOT (mask n))"

definition set_bool :: "64 word \<Rightarrow> bool \<Rightarrow> 64 word" where
  "set_bool old b = set_low 8 old (if b then 1 else 0)"

definition get_bool :: "64 word \<Rightarrow> bool" where
  "get_bool u = (take_bit 8 u \<noteq> 0)"

definition SmileArg_Box :: "SmileArg \<Rightarrow> SmileObject option" where
  "SmileArg_Box arg =
     (case obj arg of
        NullPointer \<Rightarrow> None
      | Boxed x \<Rightarrow> Some x
      | UnboxedBool_Instance \<Rightarrow> Some (BoolObj (get_bool (unboxed arg)))
      | UnboxedSymbol_Instance \<Rightarrow> Some (SymbolObj (ucast (unboxed arg)))
      | UnboxedChar_Instance \<Rightarrow> Some (CharObj (ucast (unboxed arg)))
      | UnboxedUni_Instance \<Rightarrow> Some (UniObj (ucast (unboxed arg)))
      | UnboxedByte_Instance \<Rightarrow> Some (ByteObj (ucast (unboxed arg)))
      | UnboxedInteger16_Instance \<Rightarrow> Some (Integer16Obj (ucast (unboxed arg)))
      | UnboxedInteger32_Instance \<Rightarrow> Some (Integer32Obj (ucast (unboxed arg)))
      | UnboxedInteger64_Instance \<Rightarrow> Some (Integer64Obj (unboxed arg)))"

text \<open>Bytes of the union that \<^verbatim>\<open>unbox\<close> leaves uninitialised are 0 here.\<close>

fun SmileArg_Unbox :: "SmileObject \<Rightarrow> SmileArg" where
  "SmileArg_Unbox (BoolObj b) = \<lparr>obj = UnboxedBool_Instance, unboxed = set_bool 0 b\<rparr>"
| "SmileArg_Unbox (SymbolObj s) = \<lparr>obj = UnboxedSymbol_Instance, unboxed = ucast s\<rparr>"
| "SmileArg_Unbox (CharObj ch) = \<lparr>obj = UnboxedChar_Instance, unboxed = ucast ch\<rparr>"
| "SmileArg_Unbox (UniObj u) = \<lparr>obj = UnboxedUni_Instance, unboxed = ucast u\<rparr>"
| "SmileArg_Unbox (ByteObj b) = \<lparr>obj = UnboxedByte_Instance, unboxed = ucast b\<rparr>"
| "SmileArg_Unbox (Integer16Obj i) = \<lparr>obj = UnboxedInteger16_Instance, unboxed = ucast i\<rparr>"
| "SmileArg_Unbox (Integer32Obj i) = \<lparr>obj = UnboxedInteger32_Instance, unboxed = ucast i\<rparr>"
| "SmileArg_Unbox (Integer64Obj i) = \<lparr>obj = UnboxedInteger64_Instance, unboxed = i\<rparr>"
| "SmileArg_Unbox x = \<lparr>obj = Boxed x, unboxed = 0\<rparr>"

text \<open>The virtual method \<^verbatim>\<open>toBool\<close> of the boxed kinds and of the unboxed ones.\<close>

fun object_toBool :: "SmileObject \<Rightarrow> bool" where
  "object_toBool NullObject = False"
| "object_toBool (BoolObj b) = b"
| "object_toBool (StringObj s) = (s \<noteq> [])"
| "object_toBool (SymbolObj s) = True"
| "object_toBool (CharObj ch) = (ch \<noteq> 0)"
| "object_toBool (UniObj u) = (u \<noteq> 0)"
| "object_toBool (ByteObj b) = (b \<noteq> 0)"
| "object_toBool (Integer16Obj i) = (i \<noteq> 0)"
| "object_toBool (Integer32Obj i) = (i \<noteq> 0)"
| "object_toBool (Integer64Obj i) = (i \<noteq> 0)"
| "object_toBool PrimitiveObj = False"
| "object_toBool (FunctionObj f) = True"
| "object_toBool (UserDataObj u) = True"
| "object_toBool (ListObj a d) = True"

definition toBool :: "SmileArg \<Rightarrow> bool option" where
  "toBool arg =
     (case obj arg of
        NullPointer \<Rightarrow> None
      | Boxed x \<Rightarrow> Some (object_toBool x)
      | UnboxedBool_Instance \<Rightarrow> Some (get_bool (unboxed arg))
      | UnboxedSymbol_Instance \<Rightarrow> Some True
      | UnboxedChar_Instance \<Rightarrow> Some True
      | UnboxedUni_Instance \<Rightarrow> Some True
      | UnboxedByte_Instance \<Rightarrow> Some (take_bit 8 (unboxed arg) \<noteq> 0)
      | UnboxedInteger16_Instance \<Rightarrow> Some (take_bit 16 (unboxed arg) \<noteq> 0)
      | UnboxedInteger32_Instance \<Rightarrow> Some (take_bit 32 (unboxed arg) \<noteq> 0)
      | UnboxedInteger64_Instance \<Rightarrow> Some (unboxed arg \<noteq> 0))"

section \<open>Closures\<close>

text \<open>\<open>variables\<close> is the array at the end of a closure: arguments, then local variables, then the
  temporary stack, whose next free slot is \<open>stackTop\<close>.\<close>

record Closure =
  variables :: "SmileArg list"
  numArgs :: int
  stackTop :: int

definition Closure_Push :: "Closure \<Rightarrow> SmileArg \<Rightarrow> Closure option" where
  "Closure_Push c arg = do {
     vs \<leftarrow> arr_set (variables c) (stackTop c) arg;
     Some (c\<lparr>variables := vs, stackTop := stackTop c + 1\<rparr>)}"

definition Closure_GetTemp :: "Closure \<Rightarrow> int \<Rightarrow> SmileArg option" where
  "Closure_GetTemp c offset = arr_get (variables c) (stackTop c - 1 - offset)"

definition Closure_SetTemp :: "Closure \<Rightarrow> int \<Rightarrow> SmileArg \<Rightarrow> Closure option" where
  "Closure_SetTemp c offset arg = do {
     vs \<leftarrow> arr_set (variables c) (stackTop c - 1 - offset) arg;
     Some (c\<lparr>variables := vs\<rparr>)}"

definition Closure_PopCount :: "Closure \<Rightarrow> int \<Rightarrow> Closure" where
  "Closure_PopCount c n = c\<lparr>stackTop := stackTop c - n\<rparr>"

definition Closure_Pop :: "Closure \<Rightarrow> (SmileArg \<times> Closure) option" where
  "Closure_Pop c = do {arg \<leftarrow> Closure_GetTemp c 0; Some (arg, Closure_PopCount c 1)}"

text \<open>\<^verbatim>\<open>Closure_PushBoxed\<close> and the \<^verbatim>\<open>Closure_PushUnboxed...\<close> macros write into the slot they push,
  and leave the other bytes of its union as they were.\<close>

definition Closure_PushBoxed :: "Closure \<Rightarrow> ArgObj \<Rightarrow> Closure option" where
  "Closure_PushBoxed c x = do {
     old \<leftarrow> arr_get (variables c) (stackTop c);
     Closure_Push c (old\<lparr>obj := x\<rparr>)}"

definition Closure_PushUnboxed :: "Closure \<Rightarrow> ArgObj \<Rightarrow> nat \<Rightarrow> 64 word \<Rightarrow> Closure option" where
  "Closure_PushUnboxed c inst n v = do {
     old \<leftarrow> arr_get (variables c) (stackTop c);
     Closure_Push c \<lparr>obj = inst, unboxed = set_low n (unboxed old) v\<rparr>}"

definition Closure_PushUnboxedBool :: "Closure \<Rightarrow> bool \<Rightarrow> Closure option" where
  "Closure_PushUnboxedBool c b = Closure_PushUnboxed c UnboxedBool_Instance 8 (if b then 1 else 0)"

section \<open>Stack and constant instructions\<close>

record CompiledTables =
  tbl_strings :: "bytes option list"
  tbl_objects :: "SmileObject option list"

definition table_entry :: "'a option list \<Rightarrow> ('a \<Rightarrow> SmileObject) \<Rightarrow> int \<Rightarrow> ArgObj option" where
  "table_entry t f i = do {
     x \<leftarrow> arr_get t i;
     Some (case x of Some v \<Rightarrow> Boxed (f v) | None \<Rightarrow> NullPointer)}"

fun exec_stack :: "CompiledTables \<Rightarrow> StackOp \<Rightarrow> Closure \<Rightarrow> Closure option" where
  "exec_stack t Op_Nop c = Some c"
| "exec_stack t Op_Dup1 c = do {x \<leftarrow> Closure_GetTemp c 0; Closure_Push c x}"
| "exec_stack t Op_Dup2 c = do {x \<leftarrow> Closure_GetTemp c 1; Closure_Push c x}"
| "exec_stack t (Op_Dup n) c = do {x \<leftarrow> Closure_GetTemp c (n - 1); Closure_Push c x}"
| "exec_stack t Op_Pop1 c = Some (Closure_PopCount c 1)"
| "exec_stack t Op_Pop2 c = Some (Closure_PopCount c 2)"
| "exec_stack t (Op_Pop n) c = Some (Closure_PopCount c n)"
| "exec_stack t Op_Rep1 c = do {
     x \<leftarrow> Closure_GetTemp c 0; c1 \<leftarrow> Closure_SetTemp c 1 x; Some (Closure_PopCount c1 1)}"
| "exec_stack t Op_Rep2 c = do {
     x \<leftarrow> Closure_GetTemp c 0; c1 \<leftarrow> Closure_SetTemp c 2 x; Some (Closure_PopCount c1 2)}"
| "exec_stack t (Op_Rep n) c = do {
     x \<leftarrow> Closure_GetTemp c 0; c1 \<leftarrow> Closure_SetTemp c n x; Some (Closure_PopCount c1 n)}"
| "exec_stack t Op_LdNull c = Closure_PushBoxed c (Boxed NullObject)"
| "exec_stack t (Op_LdBool b) c = Closure_PushUnboxedBool c b"
| "exec_stack t (Op_LdStr i) c = do {x \<leftarrow> table_entry (tbl_strings t) StringObj i; Closure_PushBoxed c x}"
| "exec_stack t (Op_LdSym s) c = Closure_PushUnboxed c UnboxedSymbol_Instance 32 (ucast s)"
| "exec_stack t (Op_LdObj i) c = do {x \<leftarrow> table_entry (tbl_objects t) id i; Closure_PushBoxed c x}"
| "exec_stack t (Op_LdChar ch) c = Closure_PushUnboxed c UnboxedChar_Instance 8 (ucast ch)"
| "exec_stack t (Op_LdUni u) c = Closure_PushUnboxed c UnboxedUni_Instance 32 (ucast u)"
| "exec_stack t (Op_Ld8 v) c = Closure_PushUnboxed c UnboxedByte_Instance 8 (ucast v)"
| "exec_stack t (Op_Ld16 v) c = Closure_PushUnboxed c UnboxedInteger16_Instance 16 (ucast v)"
| "exec_stack t (Op_Ld32 v) c = Closure_PushUnboxed c UnboxedInteger32_Instance 32 (ucast v)"
| "exec_stack t (Op_Ld64 v) c = Closure_PushUnboxed c UnboxedInteger64_Instance 64 v"

section \<open>Variable instructions\<close>

text \<open>A variable is reached through the chain of closures, the current one first. A local variable
  of index \<open>i\<close> is \<^verbatim>\<open>locals[i]\<close>, which starts after the arguments.\<close>

definition get_variable :: "Closure list \<Rightarrow> bool \<Rightarrow> int \<Rightarrow> int \<Rightarrow> SmileArg option" where
  "get_variable cs is_arg scope index = do {
     c \<leftarrow> arr_get cs scope;
     arr_get (variables c) (if is_arg then index else numArgs c + index)}"

definition set_variable :: "Closure list \<Rightarrow> bool \<Rightarrow> int \<Rightarrow> int \<Rightarrow> SmileArg \<Rightarrow> Closure list option" where
  "set_variable cs is_arg scope index arg = do {
     c \<leftarrow> arr_get cs scope;
     vs \<leftarrow> arr_set (variables c) (if is_arg then index else numArgs c + index) arg;
     arr_set cs scope (c\<lparr>variables := vs\<rparr>)}"

definition load_variable :: "Closure list \<Rightarrow> bool \<Rightarrow> int \<Rightarrow> int \<Rightarrow> Closure list option" where
  "load_variable cs is_arg scope index = do {
     x \<leftarrow> get_variable cs is_arg scope index;
     c \<leftarrow> arr_get cs 0;
     c1 \<leftarrow> Closure_Push c x;
     arr_set cs 0 c1}"

definition store_variable :: "Closure list \<Rightarrow> bool \<Rightarrow> int \<Rightarrow> int \<Rightarrow> Closure list option" where
  "store_variable cs is_arg scope index = do {
     c \<leftarrow> arr_get cs 0;
     x \<leftarrow> Closure_GetTemp c 0;
     set_variable cs is_arg scope index x}"

definition store_pop_variable :: "Closure list \<Rightarrow> bool \<Rightarrow> int \<Rightarrow> int \<Rightarrow> Closure list option" where
  "store_pop_variable cs is_arg scope index = do {
     c \<leftarrow> arr_get cs 0;
     (x, c1) \<leftarrow> Closure_Pop c;
     cs1 \<leftarrow> arr_set cs 0 c1;
     set_variable cs1 is_arg scope index x}"

type_synonym globals = "Symbol \<Rightarrow> SmileObject option"

definition Closure_GetGlobalVariable :: "globals \<Rightarrow> Symbol \<Rightarrow> SmileObject" where
  "Closure_GetGlobalVariable g name = (case g name of Some x \<Rightarrow> x | None \<Rightarrow> NullObject)"

definition Closure_SetGlobalVariable :: "globals \<Rightarrow> Symbol \<Rightarrow> SmileObject \<Rightarrow> globals" where
  "Closure_SetGlobalVariable g name x = g(name \<mapsto> x)"

definition store_global :: "Closure list \<Rightarrow> globals \<Rightarrow> Symbol \<Rightarrow> int \<Rightarrow> (Closure list \<times> globals) option" where
  "store_global cs g name pops = do {
     c \<leftarrow> arr_get cs 0;
     x \<leftarrow> Closure_GetTemp c 0;
     b \<leftarrow> SmileArg_Box x;
     cs1 \<leftarrow> arr_set cs 0 (Closure_PopCount c pops);
     Some (cs1, Closure_SetGlobalVariable g name b)}"

fun exec_var :: "VarOp \<Rightarrow> Closure list \<Rightarrow> globals \<Rightarrow> (Closure list \<times> globals) option" where
  "exec_var (Op_LdLoc a b) cs g = do {cs1 \<leftarrow> load_variable cs False a b; Some (cs1, g)}"
| "exec_var (Op_StLoc a b) cs g = do {cs1 \<leftarrow> store_variable cs False a b; Some (cs1, g)}"
| "exec_var (Op_StpLoc a b) cs g = do {cs1 \<leftarrow> store_pop_variable cs False a b; Some (cs1, g)}"
| "exec_var (Op_LdArg a b) cs g = do {cs1 \<leftarrow> load_variable cs True a b; Some (cs1, g)}"
| "exec_var (Op_StArg a b) cs g = do {cs1 \<leftarrow> store_variable cs True a b; Some (cs1, g)}"
| "exec_var (Op_StpArg a b) cs g = do {cs1 \<leftarrow> store_pop_variable cs True a b; Some (cs1, g)}"
| "exec_var (Op_LdX s) cs g = do {
     c \<leftarrow> arr_get cs 0;
     c1 \<leftarrow> Closure_Push c (SmileArg_Unbox (Closure_GetGlobalVariable g s));
     cs1 \<leftarrow> arr_set cs 0 c1;
     Some (cs1, g)}"
| "exec_var (Op_StX s) cs g = store_global cs g s 0"
| "exec_var (Op_StpX s) cs g = store_global cs g s 1"
| "exec_var (Op_NullLoc0 i) cs g = do {
     cs1 \<leftarrow> set_variable cs False 0 i \<lparr>obj = Boxed NullObject, unboxed = 0\<rparr>; Some (cs1, g)}"
| "exec_var (Op_LdArgN n i) cs g = do {cs1 \<leftarrow> load_variable cs True n i; Some (cs1, g)}"
| "exec_var (Op_LdLocN n i) cs g = do {cs1 \<leftarrow> load_variable cs False n i; Some (cs1, g)}"
| "exec_var (Op_StArgN n i) cs g = do {cs1 \<leftarrow> store_variable cs True n i; Some (cs1, g)}"
| "exec_var (Op_StLocN n i) cs g = do {cs1 \<leftarrow> store_variable cs False n i; Some (cs1, g)}"
| "exec_var (Op_StpArgN n i) cs g = do {cs1 \<leftarrow> store_pop_variable cs True n i; Some (cs1, g)}"
| "exec_var (Op_StpLocN n i) cs g = do {cs1 \<leftarrow> store_pop_variable cs False n i; Some (cs1, g)}"

section \<open>Object instructions\<close>

text \<open>What the evaluator asks of the rest of the interpreter. A call may throw an object instead of
  returning (\<open>Inl\<close>).\<close>

record 'w Env =
  getProperty :: "'w \<Rightarrow> ArgObj \<Rightarrow> Symbol \<Rightarrow> SmileObject"
  setProperty :: "'w \<Rightarrow> ArgObj \<Rightarrow> Symbol \<Rightarrow> SmileObject \<Rightarrow> 'w \<times> SmileObject option"
  externalFunction :: "'w \<Rightarrow> nat \<Rightarrow> SmileObject list \<Rightarrow> 'w \<times> (SmileObject + SmileObject)"
  compareEqual :: "SmileObject \<Rightarrow> SmileObject \<Rightarrow> bool"
  objectIs :: "SmileObject \<Rightarrow> SmileObject \<Rightarrow> bool"
  typeOf :: "ArgObj \<Rightarrow> Symbol"
  invalidFunctionError :: SmileObject
  unknownMethodError :: "Symbol \<Rightarrow> SmileObject"
  sym_getMember :: Symbol
  sym_setMember :: Symbol
  env_symbols :: KnownSymbols

type_synonym 'w outcome = "(SmileObject + Closure) \<times> 'w"

fun box_all :: "SmileArg list \<Rightarrow> SmileObject list option" where
  "box_all [] = Some []"
| "box_all (x # xs) = do {b \<leftarrow> SmileArg_Box x; bs \<leftarrow> box_all xs; Some (b # bs)}"

text \<open>The \<open>argc\<close> topmost slots, the deepest first: \<^verbatim>\<open>argv = stackTop - argc\<close>.\<close>

definition top_slots :: "Closure \<Rightarrow> int \<Rightarrow> SmileArg list option" where
  "top_slots c argc =
     (if 0 \<le> argc \<and> argc \<le> stackTop c \<and> stackTop c \<le> int (length (variables c))
      then Some (take (nat argc) (drop (nat (stackTop c - argc)) (variables c))) else None)"

text \<open>The virtual method \<^verbatim>\<open>call\<close>: an external function replaces its arguments, and \<open>extra\<close> slots
  below them, by its result; anything else throws.\<close>

definition call_object :: "'w Env \<Rightarrow> ArgObj \<Rightarrow> int \<Rightarrow> int \<Rightarrow> Closure \<Rightarrow> 'w \<Rightarrow> 'w outcome option" where
  "call_object env target argc extra c w =
     (case target of
        NullPointer \<Rightarrow> None
      | Boxed (FunctionObj f) \<Rightarrow> do {
          argv \<leftarrow> top_slots c argc;
          args \<leftarrow> box_all argv;
          (case externalFunction env w f args of
             (w1, Inl e) \<Rightarrow> Some (Inl e, w1)
           | (w1, Inr r) \<Rightarrow> do {
               c1 \<leftarrow> Closure_Push (Closure_PopCount c (argc + extra)) (SmileArg_Unbox r);
               Some (Inr c1, w1)})}
      | _ \<Rightarrow> Some (Inl (invalidFunctionError env), w))"

text \<open>The macro \<^verbatim>\<open>SMILE_CALL_METHOD\<close>.\<close>

definition call_method :: "'w Env \<Rightarrow> ArgObj \<Rightarrow> Symbol \<Rightarrow> int \<Rightarrow> Closure \<Rightarrow> 'w \<Rightarrow> 'w outcome option" where
  "call_method env target name argc c w =
     (if target = NullPointer then None
      else (case getProperty env w target name of
              FunctionObj f \<Rightarrow> call_object env (Boxed (FunctionObj f)) argc 0 c w
            | _ \<Rightarrow> Some (Inl (unknownMethodError env name), w)))"

definition returns :: "Closure option \<Rightarrow> 'w \<Rightarrow> 'w outcome option" where
  "returns r w = do {c \<leftarrow> r; Some (Inr c, w)}"

definition load_property :: "'w Env \<Rightarrow> Symbol \<Rightarrow> Closure \<Rightarrow> 'w \<Rightarrow> 'w outcome option" where
  "load_property env name c w = do {
     x \<leftarrow> Closure_GetTemp c 0;
     (if obj x = NullPointer then None
      else returns (Closure_SetTemp c 0 (SmileArg_Unbox (getProperty env w (obj x) name))) w)}"

definition store_property :: "'w Env \<Rightarrow> Symbol \<Rightarrow> bool \<Rightarrow> Closure \<Rightarrow> 'w \<Rightarrow> 'w outcome option" where
  "store_property env name keep c w = do {
     target \<leftarrow> Closure_GetTemp c 1;
     x \<leftarrow> Closure_GetTemp c 0;
     v \<leftarrow> SmileArg_Box x;
     (if obj target = NullPointer then None
      else (case setProperty env w (obj target) name v of
              (w1, Some e) \<Rightarrow> Some (Inl e, w1)
            | (w1, None) \<Rightarrow>
                returns (if keep then Closure_SetTemp (Closure_PopCount c 1) 0 x
                         else Some (Closure_PopCount c 2)) w1))}"

definition binary :: "(SmileObject \<Rightarrow> SmileObject \<Rightarrow> bool) \<Rightarrow> Closure \<Rightarrow> Closure option" where
  "binary f c = do {
     (x2, c1) \<leftarrow> Closure_Pop c;
     (x1, c2) \<leftarrow> Closure_Pop c1;
     b1 \<leftarrow> SmileArg_Box x1;
     b2 \<leftarrow> SmileArg_Box x2;
     Closure_PushUnboxedBool c2 (f b1 b2)}"

definition rotate_member :: "Closure \<Rightarrow> Closure option" where
  "rotate_member c = do {
     x1 \<leftarrow> Closure_GetTemp c 1; c1 \<leftarrow> Closure_SetTemp c 0 x1;
     x2 \<leftarrow> Closure_GetTemp c1 2; c2 \<leftarrow> Closure_SetTemp c1 1 x2;
     x3 \<leftarrow> Closure_GetTemp c2 3; c3 \<leftarrow> Closure_SetTemp c2 2 x3;
     x0 \<leftarrow> Closure_GetTemp c3 0; Closure_SetTemp c3 3 x0}"

definition set_member :: "'w Env \<Rightarrow> Closure \<Rightarrow> 'w \<Rightarrow> 'w outcome option" where
  "set_member env c w = do {
     target \<leftarrow> Closure_GetTemp c 2;
     call_method env (obj target) (sym_setMember env) 3 c w}"

definition exec_not :: "Closure \<Rightarrow> Closure option" where
  "exec_not c = do {
     (x, c1) \<leftarrow> Closure_Pop c;
     (case obj x of
        NullPointer \<Rightarrow> None
      | Boxed (BoolObj b) \<Rightarrow> Closure_PushUnboxedBool c1 (\<not> b)
      | _ \<Rightarrow> Closure_PushUnboxedBool c1 (\<not> get_bool (unboxed x)))}"

text \<open>The short property loads pop the object and push the property.\<close>

definition list_part :: "'w Env \<Rightarrow> (SmileObject \<Rightarrow> SmileObject) \<Rightarrow> Symbol \<Rightarrow> Closure \<Rightarrow> 'w \<Rightarrow> Closure option" where
  "list_part env part name c w = do {
     (x, c1) \<leftarrow> Closure_Pop c;
     (case obj x of
        NullPointer \<Rightarrow> None
      | Boxed (ListObj a d) \<Rightarrow> Closure_Push c1 (SmileArg_Unbox (part (ListObj a d)))
      | target \<Rightarrow> Closure_Push c1 (SmileArg_Unbox (getProperty env w target name)))}"

definition pop_property :: "'w Env \<Rightarrow> Symbol \<Rightarrow> Closure \<Rightarrow> 'w \<Rightarrow> Closure option" where
  "pop_property env name c w = do {
     (x, c1) \<leftarrow> Closure_Pop c;
     (if obj x = NullPointer then None
      else Closure_Push c1 (SmileArg_Unbox (getProperty env w (obj x) name)))}"

definition exec_length :: "'w Env \<Rightarrow> Closure \<Rightarrow> 'w \<Rightarrow> Closure option" where
  "exec_length env c w = do {
     (x, c1) \<leftarrow> Closure_Pop c;
     (case obj x of
        NullPointer \<Rightarrow> None
      | Boxed (StringObj s) \<Rightarrow>
          Closure_Push c1 \<lparr>obj = UnboxedInteger64_Instance, unboxed = of_nat (length s)\<rparr>
      | target \<Rightarrow> Closure_Push c1 (SmileArg_Unbox (getProperty env w target (sym_length (env_symbols env)))))}"

definition exec_bool :: "Closure \<Rightarrow> Closure option" where
  "exec_bool c = do {
     (x, c1) \<leftarrow> Closure_Pop c;
     (if obj x = UnboxedBool_Instance then Some c1
      else do {b \<leftarrow> toBool x; Closure_PushUnboxedBool c1 b})}"

definition exec_typeof :: "'w Env \<Rightarrow> Closure \<Rightarrow> Closure option" where
  "exec_typeof env c = do {
     x \<leftarrow> Closure_GetTemp c 0;
     (if obj x = NullPointer then None
      else Closure_SetTemp c 0 (SmileArg_Unbox (SymbolObj (typeOf env (obj x)))))}"

definition exec_call :: "'w Env \<Rightarrow> int \<Rightarrow> Closure \<Rightarrow> 'w \<Rightarrow> 'w outcome option" where
  "exec_call env n c w = do {target \<leftarrow> Closure_GetTemp c n; call_object env (obj target) n 1 c w}"

definition exec_method :: "'w Env \<Rightarrow> int \<Rightarrow> Symbol \<Rightarrow> Closure \<Rightarrow> 'w \<Rightarrow> 'w outcome option" where
  "exec_method env n name c w = do {
     target \<leftarrow> Closure_GetTemp c n; call_method env (obj target) name (n + 1) c w}"

text \<open>No till continuation exists in the model, so \<^verbatim>\<open>Op_TillEsc\<close> has nothing to pop.\<close>

fun exec_object :: "'w Env \<Rightarrow> ObjectOp \<Rightarrow> Closure \<Rightarrow> 'w \<Rightarrow> 'w outcome option" where
  "exec_object env (Op_LdProp s) c w = load_property env s c w"
| "exec_object env (Op_StProp s) c w = store_property env s True c w"
| "exec_object env (Op_StpProp s) c w = store_property env s False c w"
| "exec_object env Op_LdMember c w = exec_method env 1 (sym_getMember env) c w"
| "exec_object env Op_StMember c w = do {c1 \<leftarrow> rotate_member c; set_member env c1 w}"
| "exec_object env Op_StpMember c w = set_member env c w"
| "exec_object env Op_SuperEq c w = returns (binary (compareEqual env) c) w"
| "exec_object env Op_SuperNe c w = returns (binary (\<lambda>x y. \<not> compareEqual env x y) c) w"
| "exec_object env Op_Not c w = returns (exec_not c) w"
| "exec_object env Op_Is c w = returns (binary (objectIs env) c) w"
| "exec_object env Op_TypeOf c w = returns (exec_typeof env c) w"
| "exec_object env (Op_MetN n s) c w = exec_method env n s c w"
| "exec_object env (Op_Met n s) c w = exec_method env n s c w"
| "exec_object env (Op_Call n) c w = exec_call env n c w"
| "exec_object env (Op_TillEsc n) c w = None"
| "exec_object env Op_Bool c w = returns (exec_bool c) w"
| "exec_object env Op_LdA c w = returns (list_part env obj_a (sym_a (env_symbols env)) c w) w"
| "exec_object env Op_LdD c w = returns (list_part env obj_d (sym_d (env_symbols env)) c w) w"
| "exec_object env Op_LdStart c w = returns (pop_property env (sym_start (env_symbols env)) c w) w"
| "exec_object env Op_LdEnd c w = returns (pop_property env (sym_end (env_symbols env)) c w) w"
| "exec_object env Op_LdCount c w = returns (pop_property env (sym_count (env_symbols env)) c w) w"
| "exec_object env Op_LdLength c w = returns (exec_length env c w) w"

section \<open>The machine\<close>

datatype Status = Running | Returned | Breakpoint | Threw SmileObject

record 'w Machine =
  closures :: "Closure list"
  global_vars :: globals
  world :: 'w
  byteCode :: int
  status :: Status

text \<open>The condition of \<^verbatim>\<open>Op_Bt\<close> and \<^verbatim>\<open>Op_Bf\<close>.\<close>

definition branch_condition :: "SmileArg \<Rightarrow> bool option" where
  "branch_condition x =
     (if obj x = UnboxedBool_Instance then Some (get_bool (unboxed x)) else toBool x)"

definition exec_branch :: "bool \<Rightarrow> int \<Rightarrow> 'w Machine \<Rightarrow> 'w Machine option" where
  "exec_branch sense target m = do {
     c \<leftarrow> arr_get (closures m) 0;
     (x, c1) \<leftarrow> Closure_Pop c;
     b \<leftarrow> branch_condition x;
     cs \<leftarrow> arr_set (closures m) 0 c1;
     Some (m\<lparr>closures := cs, byteCode := byteCode m + (if b = sense then target else 1)\<rparr>)}"

fun exec :: "'w Env \<Rightarrow> CompiledTables \<Rightarrow> int ByteCode \<Rightarrow> 'w Machine \<Rightarrow> 'w Machine option" where
  "exec env t (Stack i) m = do {
     c \<leftarrow> arr_get (closures m) 0;
     c1 \<leftarrow> exec_stack t i c;
     cs \<leftarrow> arr_set (closures m) 0 c1;
     Some (m\<lparr>closures := cs, byteCode := byteCode m + 1\<rparr>)}"
| "exec env t (Var i) m = do {
     (cs, g) \<leftarrow> exec_var i (closures m) (global_vars m);
     Some (m\<lparr>closures := cs, global_vars := g, byteCode := byteCode m + 1\<rparr>)}"
| "exec env t (Object i) m = do {
     c \<leftarrow> arr_get (closures m) 0;
     (r, w1) \<leftarrow> exec_object env i c (world m);
     (case r of
        Inl e \<Rightarrow> Some (m\<lparr>world := w1, status := Threw e\<rparr>)
      | Inr c1 \<Rightarrow> do {
          cs \<leftarrow> arr_set (closures m) 0 c1;
          Some (m\<lparr>closures := cs, world := w1, byteCode := byteCode m + 1\<rparr>)})}"
| "exec env t (Op_Jmp d) m = Some (m\<lparr>byteCode := byteCode m + d\<rparr>)"
| "exec env t (Op_Bt d) m = exec_branch True d m"
| "exec env t (Op_Bf d) m = exec_branch False d m"
| "exec env t Op_Ret m = Some (m\<lparr>status := Returned\<rparr>)"
| "exec env t Op_Brk m = Some (m\<lparr>status := Breakpoint\<rparr>)"
| "exec env t Op_Label m = Some (m\<lparr>byteCode := byteCode m + 1\<rparr>)"
| "exec env t Op_Block m = Some (m\<lparr>byteCode := byteCode m + 1\<rparr>)"
| "exec env t Op_EndBlock m = Some (m\<lparr>byteCode := byteCode m + 1\<rparr>)"

text \<open>One round of \<^verbatim>\<open>Eval_RunCore\<close>.\<close>

definition Eval_step :: "'w Env \<Rightarrow> CompiledTables \<Rightarrow> ByteCodeSegment \<Rightarrow> 'w Machine \<Rightarrow> 'w Machine option" where
  "Eval_step env t segment m = do {
     i \<leftarrow> fetch segment (byteCode m);
     exec env t i m}"

text \<open>At most \<open>fuel\<close> rounds. The inner option is \<open>None\<close> when the fuel runs out, the outer one on a
  memory error.\<close>

fun Eval_RunCore ::
  "nat \<Rightarrow> 'w Env \<Rightarrow> CompiledTables \<Rightarrow> ByteCodeSegment \<Rightarrow> 'w Machine \<Rightarrow> 'w Machine option option" where
  "Eval_RunCore 0 env t segment m = Some None"
| "Eval_RunCore (Suc fuel) env t segment m =
     (case Eval_step env t segment m of
        None \<Rightarrow> None
      | Some m1 \<Rightarrow> if status m1 = Running then Eval_RunCore fuel env t segment m1 else Some (Some m1))"

datatype EvalResult = EvalValue SmileObject | EvalBreak | EvalException SmileObject

definition Closure_CreateLocal :: "int \<Rightarrow> int \<Rightarrow> Closure" where
  "Closure_CreateLocal numVars temps =
     \<lparr>variables = replicate (nat (numVars + temps)) \<lparr>obj = NullPointer, unboxed = 0\<rparr>,
      numArgs = 0, stackTop = numVars\<rparr>"

definition compiled_tables :: "Compiler \<Rightarrow> CompiledTables" where
  "compiled_tables c = \<lparr>tbl_strings = items (strings c), tbl_objects = items (objects c)\<rparr>"

text \<open>\<^verbatim>\<open>Eval_Run\<close> and \<^verbatim>\<open>Eval_Continue\<close> for the global function: the result, the global variables
  and the world afterwards.\<close>

definition Eval_Run ::
  "nat \<Rightarrow> 'w Env \<Rightarrow> CompiledTables \<Rightarrow> UserFunctionInfo \<Rightarrow> globals \<Rightarrow> 'w
     \<Rightarrow> (EvalResult \<times> globals \<times> 'w) option option" where
  "Eval_Run fuel env t info g w =
     (case Eval_RunCore fuel env t (byteCodeSegment info)
             \<lparr>closures = [Closure_CreateLocal (numVariables info) (tempSize info)], global_vars = g,
              world = w, byteCode = 0, status = Running\<rparr> of
        None \<Rightarrow> None
      | Some None \<Rightarrow> Some None
      | Some (Some m) \<Rightarrow>
          (case status m of
             Threw e \<Rightarrow> Some (Some (EvalException e, global_vars m, world m))
           | Breakpoint \<Rightarrow> Some (Some (EvalBreak, global_vars m, world m))
           | _ \<Rightarrow> do {
               c \<leftarrow> arr_get (closures m) 0;
               (x, c1) \<leftarrow> Closure_Pop c;
               v \<leftarrow> SmileArg_Box x;
               Some (Some (EvalValue v, global_vars m, world m))}))"

end
