(* ===== verification/StackMachine.thy ===== *)
theory StackMachine
  imports Eval
begin

text \<open>
  An abstract stack machine, and the proof that the evaluator implements it. The abstract machine
  has boxed values, a frame of local variables and a stack that is a list; the evaluator keeps both
  in one array of arguments whose data may be unboxed and whose slots carry stale bytes.
\<close>

section \<open>Boxing\<close>

lemma take_bit_set_low: "take_bit n (set_low n old v) = take_bit n v"
  by (simp add: set_low_def take_bit_or take_bit_and take_bit_not_mask_eq_0)

lemma ucast_set_low:
  assumes "LENGTH('a::len) = n"
  shows "(ucast (set_low n old v) :: 'a word) = ucast v"
proof -
  have "(ucast (take_bit n u) :: 'a word) = ucast u" for u :: "64 word"
    using assms by (intro bit_word_eqI) (auto simp: bit_simps)
  then show ?thesis by (metis take_bit_set_low)
qed

lemma ucast_back: "LENGTH('a::len) \<le> 64 \<Longrightarrow> (ucast (ucast (x :: 'a word) :: 64 word) :: 'a word) = x"
  by (intro bit_word_eqI) (auto simp: bit_simps)

lemma get_set_bool: "get_bool (set_low 8 old (if b then 1 else 0)) = b"
  by (simp add: get_bool_def take_bit_set_low)

lemma set_low_64: "set_low 64 old v = (v :: 64 word)"
  by (intro bit_word_eqI) (auto simp: set_low_def bit_simps)

lemmas unboxed_simps = ucast_set_low ucast_back get_set_bool set_low_64

lemma Box_Unbox [simp]: "SmileArg_Box (SmileArg_Unbox x) = Some x"
  by (cases x) (simp_all add: SmileArg_Box_def set_bool_def get_set_bool ucast_back)

text \<open>An argument stands for a value: boxing it gives the value, and it is unboxed exactly when
  values of its kind are.\<close>

definition rep :: "SmileArg \<Rightarrow> SmileObject \<Rightarrow> bool" where
  "rep x v \<longleftrightarrow> SmileArg_Box x = Some v \<and> obj x = obj (SmileArg_Unbox v)"

fun rep_slot :: "SmileArg \<Rightarrow> SmileObject option \<Rightarrow> bool" where
  "rep_slot x None = (obj x = NullPointer)"
| "rep_slot x (Some v) = rep x v"

lemma rep_Unbox [simp]: "rep (SmileArg_Unbox v) v"
  by (simp add: rep_def)

lemma rep_Box: "rep x v \<Longrightarrow> SmileArg_Box x = Some v"
  by (simp add: rep_def)

lemma rep_obj: "rep x v \<Longrightarrow> obj x = obj (SmileArg_Unbox v)"
  by (simp add: rep_def)

lemma rep_not_null: "rep x v \<Longrightarrow> obj x \<noteq> NullPointer"
  by (cases v) (auto simp: rep_def)

definition reference_kind :: "SmileObject \<Rightarrow> bool" where
  "reference_kind v \<longleftrightarrow> obj (SmileArg_Unbox v) = Boxed v"

text \<open>The truth of a value in a condition: \<^verbatim>\<open>toBool\<close> of its unboxed form.\<close>

fun truth :: "SmileObject \<Rightarrow> bool" where
  "truth (CharObj ch) = True"
| "truth (UniObj u) = True"
| "truth v = object_toBool v"

lemma take_bit_ucast_zero:
  "(take_bit LENGTH('a::len) (u :: 64 word) = 0) = ((ucast u :: 'a word) = 0)"
proof
  assume h: "take_bit LENGTH('a) u = 0"
  show "(ucast u :: 'a word) = 0"
  proof (rule bit_word_eqI)
    fix n assume "n < LENGTH('a)"
    then have "bit (take_bit LENGTH('a) u) n = bit u n" by (simp add: bit_simps)
    then show "bit (ucast u :: 'a word) n = bit (0 :: 'a word) n" using h \<open>n < LENGTH('a)\<close> by (simp add: bit_simps)
  qed
next
  assume h: "(ucast u :: 'a word) = 0"
  show "take_bit LENGTH('a) u = 0"
  proof (rule bit_word_eqI)
    fix n assume "n < LENGTH(64)"
    have "n < LENGTH('a) \<Longrightarrow> bit (ucast u :: 'a word) n = bit u n" by (simp add: bit_simps)
    then show "bit (take_bit LENGTH('a) u) n = bit (0 :: 64 word) n" using h by (auto simp: bit_simps)
  qed
qed

lemma branch_condition_rep:
  assumes "rep x v"
  shows "branch_condition x = Some (truth v)"
proof -
  have o: "obj x = obj (SmileArg_Unbox v)" and b: "SmileArg_Box x = Some v"
    using assms by (auto simp: rep_def)
  show ?thesis
    using o b
    by (cases v) (auto simp: branch_condition_def toBool_def SmileArg_Box_def
        take_bit_ucast_zero [where 'a = 8, simplified] take_bit_ucast_zero [where 'a = 16, simplified]
        take_bit_ucast_zero [where 'a = 32, simplified])
qed

section \<open>The abstract machine\<close>

record 'w AMachine =
  menv :: "'w Env"
  mtables :: CompiledTables
  mcode :: "int \<Rightarrow> int ByteCode option"
  mcap :: nat

record 'w AState =
  pc :: int
  frame :: "SmileObject option list"
  stk :: "SmileObject list"
  agl :: globals
  awd :: 'w

datatype 'w AOut = Next "'w AState" | Raise SmileObject globals 'w

fun aexec_stack :: "CompiledTables \<Rightarrow> StackOp \<Rightarrow> SmileObject list \<Rightarrow> SmileObject list option" where
  "aexec_stack t Op_Nop st = Some st"
| "aexec_stack t Op_Dup1 st = (case st of v # st' \<Rightarrow> Some (v # st) | _ \<Rightarrow> None)"
| "aexec_stack t Op_Pop1 st = (case st of v # st' \<Rightarrow> Some st' | _ \<Rightarrow> None)"
| "aexec_stack t Op_LdNull st = Some (NullObject # st)"
| "aexec_stack t (Op_LdBool b) st = Some (BoolObj b # st)"
| "aexec_stack t (Op_LdStr i) st =
     (case arr_get (tbl_strings t) i of Some (Some s) \<Rightarrow> Some (StringObj s # st) | _ \<Rightarrow> None)"
| "aexec_stack t (Op_LdSym s) st = Some (SymbolObj s # st)"
| "aexec_stack t (Op_LdObj i) st =
     (case arr_get (tbl_objects t) i of
        Some (Some x) \<Rightarrow> if reference_kind x then Some (x # st) else None
      | _ \<Rightarrow> None)"
| "aexec_stack t (Op_LdChar ch) st = Some (CharObj ch # st)"
| "aexec_stack t (Op_LdUni u) st = Some (UniObj u # st)"
| "aexec_stack t (Op_Ld8 v) st = Some (ByteObj v # st)"
| "aexec_stack t (Op_Ld16 v) st = Some (Integer16Obj v # st)"
| "aexec_stack t (Op_Ld32 v) st = Some (Integer32Obj v # st)"
| "aexec_stack t (Op_Ld64 v) st = Some (Integer64Obj v # st)"
| "aexec_stack t _ st = None"

definition aload :: "SmileObject option list \<Rightarrow> int \<Rightarrow> SmileObject option" where
  "aload fr i = Option.bind (arr_get fr i) id"

fun aexec_var :: "VarOp \<Rightarrow> SmileObject option list \<Rightarrow> SmileObject list \<Rightarrow> globals
    \<Rightarrow> (SmileObject option list \<times> SmileObject list \<times> globals) option" where
  "aexec_var (Op_LdLocN n i) fr st g =
     (if n = 0 then (case aload fr i of Some v \<Rightarrow> Some (fr, v # st, g) | None \<Rightarrow> None) else None)"
| "aexec_var (Op_StLocN n i) fr st g =
     (case st of
        v # st' \<Rightarrow> if n = 0 then do {fr' \<leftarrow> arr_set fr i (Some v); Some (fr', st, g)} else None
      | _ \<Rightarrow> None)"
| "aexec_var (Op_StpLocN n i) fr st g =
     (case st of
        v # st' \<Rightarrow> if n = 0 then do {fr' \<leftarrow> arr_set fr i (Some v); Some (fr', st', g)} else None
      | _ \<Rightarrow> None)"
| "aexec_var (Op_NullLoc0 i) fr st g = do {fr' \<leftarrow> arr_set fr i (Some NullObject); Some (fr', st, g)}"
| "aexec_var (Op_LdX s) fr st g = Some (fr, Closure_GetGlobalVariable g s # st, g)"
| "aexec_var (Op_StX s) fr st g =
     (case st of v # st' \<Rightarrow> Some (fr, st, Closure_SetGlobalVariable g s v) | _ \<Rightarrow> None)"
| "aexec_var (Op_StpX s) fr st g =
     (case st of v # st' \<Rightarrow> Some (fr, st', Closure_SetGlobalVariable g s v) | _ \<Rightarrow> None)"
| "aexec_var _ fr st g = None"

abbreviation property :: "'w Env \<Rightarrow> 'w \<Rightarrow> SmileObject \<Rightarrow> Symbol \<Rightarrow> SmileObject" where
  "property env w v s \<equiv> getProperty env w (obj (SmileArg_Unbox v)) s"

text \<open>Calling a value, and calling a method of a value.\<close>

definition apply_function :: "'w Env \<Rightarrow> 'w \<Rightarrow> SmileObject \<Rightarrow> SmileObject list \<Rightarrow> 'w \<times> (SmileObject + SmileObject)" where
  "apply_function env w f args =
     (case f of FunctionObj n \<Rightarrow> externalFunction env w n args | _ \<Rightarrow> (w, Inl (invalidFunctionError env)))"

definition apply_method :: "'w Env \<Rightarrow> 'w \<Rightarrow> Symbol \<Rightarrow> SmileObject list \<Rightarrow> 'w \<times> (SmileObject + SmileObject)" where
  "apply_method env w s args =
     (case property env w (hd args) s of
        FunctionObj n \<Rightarrow> externalFunction env w n args
      | _ \<Rightarrow> (w, Inl (unknownMethodError env s)))"

definition short_property :: "'w Env \<Rightarrow> 'w \<Rightarrow> ObjectOp \<Rightarrow> SmileObject \<Rightarrow> SmileObject option" where
  "short_property env w i v =
     (case i of
        Op_LdProp s \<Rightarrow> Some (property env w v s)
      | Op_LdA \<Rightarrow> Some (if is_list v then obj_a v else property env w v (sym_a (env_symbols env)))
      | Op_LdD \<Rightarrow> Some (if is_list v then obj_d v else property env w v (sym_d (env_symbols env)))
      | Op_LdStart \<Rightarrow> Some (property env w v (sym_start (env_symbols env)))
      | Op_LdEnd \<Rightarrow> Some (property env w v (sym_end (env_symbols env)))
      | Op_LdCount \<Rightarrow> Some (property env w v (sym_count (env_symbols env)))
      | Op_LdLength \<Rightarrow>
          Some (case v of StringObj s \<Rightarrow> Integer64Obj (of_nat (length s))
                | _ \<Rightarrow> property env w v (sym_length (env_symbols env)))
      | Op_TypeOf \<Rightarrow> Some (SymbolObj (typeOf env (obj (SmileArg_Unbox v))))
      | Op_Not \<Rightarrow> (case v of BoolObj b \<Rightarrow> Some (BoolObj (\<not> b)) | _ \<Rightarrow> None)
      | _ \<Rightarrow> None)"

definition comparison :: "'w Env \<Rightarrow> ObjectOp \<Rightarrow> SmileObject \<Rightarrow> SmileObject \<Rightarrow> bool option" where
  "comparison env i x y =
     (case i of
        Op_SuperEq \<Rightarrow> Some (compareEqual env x y)
      | Op_SuperNe \<Rightarrow> Some (\<not> compareEqual env x y)
      | Op_Is \<Rightarrow> Some (objectIs env x y)
      | _ \<Rightarrow> None)"

definition finish_call :: "'w \<times> (SmileObject + SmileObject) \<Rightarrow> SmileObject list
    \<Rightarrow> ((SmileObject + SmileObject list) \<times> 'w) option" where
  "finish_call r st = (case r of (w, Inl e) \<Rightarrow> Some (Inl e, w) | (w, Inr v) \<Rightarrow> Some (Inr (v # st), w))"

definition acall_method :: "'w Env \<Rightarrow> nat \<Rightarrow> Symbol \<Rightarrow> SmileObject list \<Rightarrow> 'w
    \<Rightarrow> ((SmileObject + SmileObject list) \<times> 'w) option" where
  "acall_method env n s st w =
     (if length st \<le> n then None
      else finish_call (apply_method env w s (rev (take (Suc n) st))) (drop (Suc n) st))"

definition acall_function :: "'w Env \<Rightarrow> nat \<Rightarrow> SmileObject list \<Rightarrow> 'w
    \<Rightarrow> ((SmileObject + SmileObject list) \<times> 'w) option" where
  "acall_function env n st w =
     (if length st \<le> n then None
      else finish_call (apply_function env w (st ! n) (rev (take n st))) (drop (Suc n) st))"

definition aset_property :: "'w Env \<Rightarrow> Symbol \<Rightarrow> bool \<Rightarrow> SmileObject list \<Rightarrow> 'w
    \<Rightarrow> ((SmileObject + SmileObject list) \<times> 'w) option" where
  "aset_property env s keep st w =
     (case st of
        v # t # st' \<Rightarrow>
          (case setProperty env w (obj (SmileArg_Unbox t)) s v of
             (w1, Some e) \<Rightarrow> Some (Inl e, w1)
           | (w1, None) \<Rightarrow> Some (Inr (if keep then v # st' else st'), w1))
      | _ \<Rightarrow> None)"

definition apop_push :: "'w Env \<Rightarrow> ObjectOp \<Rightarrow> SmileObject list \<Rightarrow> 'w
    \<Rightarrow> ((SmileObject + SmileObject list) \<times> 'w) option" where
  "apop_push env i st w =
     (case st of
        v # st' \<Rightarrow> (case short_property env w i v of Some r \<Rightarrow> Some (Inr (r # st'), w) | None \<Rightarrow> None)
      | _ \<Rightarrow> None)"

definition acompare :: "'w Env \<Rightarrow> ObjectOp \<Rightarrow> SmileObject list \<Rightarrow> 'w
    \<Rightarrow> ((SmileObject + SmileObject list) \<times> 'w) option" where
  "acompare env i st w =
     (case st of
        y # x # st' \<Rightarrow> (case comparison env i x y of Some r \<Rightarrow> Some (Inr (BoolObj r # st'), w) | None \<Rightarrow> None)
      | _ \<Rightarrow> None)"

fun aexec_object :: "'w Env \<Rightarrow> ObjectOp \<Rightarrow> SmileObject list \<Rightarrow> 'w
    \<Rightarrow> ((SmileObject + SmileObject list) \<times> 'w) option" where
  "aexec_object env (Op_StProp s) st w = aset_property env s True st w"
| "aexec_object env (Op_StpProp s) st w = aset_property env s False st w"
| "aexec_object env Op_LdMember st w = acall_method env 1 (sym_getMember env) st w"
| "aexec_object env (Op_MetN n s) st w = (if n < 0 then None else acall_method env (nat n) s st w)"
| "aexec_object env (Op_Met n s) st w = (if n < 0 then None else acall_method env (nat n) s st w)"
| "aexec_object env (Op_Call n) st w = (if n < 0 then None else acall_function env (nat n) st w)"
| "aexec_object env Op_SuperEq st w = acompare env Op_SuperEq st w"
| "aexec_object env Op_SuperNe st w = acompare env Op_SuperNe st w"
| "aexec_object env Op_Is st w = acompare env Op_Is st w"
| "aexec_object env i st w = apop_push env i st w"

definition with_room :: "'w AMachine \<Rightarrow> 'w AState \<Rightarrow> 'w AOut option" where
  "with_room M \<sigma> = (if length (frame \<sigma>) + length (stk \<sigma>) \<le> mcap M then Some (Next \<sigma>) else None)"

fun aexec :: "'w AMachine \<Rightarrow> int ByteCode \<Rightarrow> 'w AState \<Rightarrow> 'w AOut option" where
  "aexec M (Stack i) \<sigma> = do {
     st \<leftarrow> aexec_stack (mtables M) i (stk \<sigma>);
     with_room M (\<sigma>\<lparr>stk := st, pc := pc \<sigma> + 1\<rparr>)}"
| "aexec M (Var i) \<sigma> = do {
     (fr, st, g) \<leftarrow> aexec_var i (frame \<sigma>) (stk \<sigma>) (agl \<sigma>);
     with_room M (\<sigma>\<lparr>frame := fr, stk := st, agl := g, pc := pc \<sigma> + 1\<rparr>)}"
| "aexec M (Object i) \<sigma> = do {
     (r, w) \<leftarrow> aexec_object (menv M) i (stk \<sigma>) (awd \<sigma>);
     (case r of
        Inl e \<Rightarrow> Some (Raise e (agl \<sigma>) w)
      | Inr st \<Rightarrow> with_room M (\<sigma>\<lparr>stk := st, awd := w, pc := pc \<sigma> + 1\<rparr>))}"
| "aexec M (Op_Jmp d) \<sigma> = Some (Next (\<sigma>\<lparr>pc := pc \<sigma> + d\<rparr>))"
| "aexec M (Op_Bt d) \<sigma> =
     (case stk \<sigma> of
        v # st \<Rightarrow> Some (Next (\<sigma>\<lparr>stk := st, pc := pc \<sigma> + (if truth v then d else 1)\<rparr>))
      | _ \<Rightarrow> None)"
| "aexec M (Op_Bf d) \<sigma> =
     (case stk \<sigma> of
        v # st \<Rightarrow> Some (Next (\<sigma>\<lparr>stk := st, pc := pc \<sigma> + (if truth v then 1 else d)\<rparr>))
      | _ \<Rightarrow> None)"
| "aexec M _ \<sigma> = None"

definition astep :: "'w AMachine \<Rightarrow> 'w AState \<Rightarrow> 'w AOut option" where
  "astep M \<sigma> = do {i \<leftarrow> mcode M (pc \<sigma>); aexec M i \<sigma>}"

section \<open>Closures and abstract states\<close>

definition crel :: "nat \<Rightarrow> Closure \<Rightarrow> SmileObject option list \<Rightarrow> SmileObject list \<Rightarrow> bool" where
  "crel cap cl fr st \<longleftrightarrow>
     numArgs cl = 0 \<and> length (variables cl) = cap \<and> stackTop cl = int (length fr + length st)
     \<and> length fr + length st \<le> cap
     \<and> (\<forall>i<length fr. rep_slot (variables cl ! i) (fr ! i))
     \<and> (\<forall>i<length st. rep (variables cl ! (length fr + length st - Suc i)) (st ! i))"

lemma crel_push:
  assumes "crel cap cl fr st" and "length fr + length st < cap" and "rep x v"
  shows "\<exists>cl'. Closure_Push cl x = Some cl' \<and> crel cap cl' fr (v # st)"
proof -
  let ?n = "length fr + length st"
  have "rep ((variables cl)[?n := x] ! (?n - i)) ((v # st) ! i)" if "i < Suc (length st)" for i
    using assms that by (cases i) (auto simp: crel_def nth_list_update)
  then show ?thesis
    using assms by (auto simp: crel_def Closure_Push_def arr_set_def nat_add_distrib nth_list_update)
qed

lemma crel_temp:
  assumes "crel cap cl fr st" and "k < length st"
  shows "\<exists>x. Closure_GetTemp cl (int k) = Some x \<and> rep x (st ! k)"
proof -
  have n: "nat (stackTop cl - 1 - int k) = length fr + length st - Suc k"
    using assms by (simp add: crel_def)
  have le: "0 \<le> stackTop cl - 1 - int k" using assms by (simp add: crel_def)
  have lt: "length fr + length st - Suc k < length (variables cl)" using assms by (auto simp: crel_def)
  show ?thesis
    using assms n le lt by (simp add: Closure_GetTemp_def arr_get_def crel_def)
qed

lemma crel_temp0:
  assumes "crel cap cl fr (v # st)"
  shows "\<exists>x. Closure_GetTemp cl 0 = Some x \<and> rep x v"
  using crel_temp [OF assms, of 0] by simp

lemma crel_popcount:
  assumes "crel cap cl fr st" and "k \<le> length st"
  shows "crel cap (Closure_PopCount cl (int k)) fr (drop k st)"
proof -
  have "rep (variables cl ! (length fr + (length st - k) - Suc i)) (st ! (k + i))" if "i < length st - k" for i
  proof -
    have "k + i < length st" using that by simp
    then have "rep (variables cl ! (length fr + length st - Suc (k + i))) (st ! (k + i))"
      using assms(1) by (simp add: crel_def)
    moreover have "length fr + (length st - k) - Suc i = length fr + length st - Suc (k + i)"
      using that by simp
    ultimately show ?thesis by simp
  qed
  then show ?thesis using assms by (auto simp: crel_def Closure_PopCount_def)
qed

lemma crel_pop:
  assumes "crel cap cl fr (v # st)"
  shows "\<exists>x. Closure_Pop cl = Some (x, Closure_PopCount cl 1) \<and> rep x v
           \<and> crel cap (Closure_PopCount cl 1) fr st"
  using crel_temp0 [OF assms] crel_popcount [OF assms, of 1] by (auto simp: Closure_Pop_def)

lemma crel_set_top:
  assumes "crel cap cl fr (u # st)" and "rep x v"
  shows "\<exists>cl'. Closure_SetTemp cl 0 x = Some cl' \<and> crel cap cl' fr (v # st)"
proof -
  let ?n = "length fr + length st"
  have "rep ((variables cl)[?n := x] ! (?n - i)) ((v # st) ! i)" if "i < Suc (length st)" for i
  proof (cases i)
    case 0
    then show ?thesis using assms by (simp add: crel_def)
  next
    case (Suc j)
    have "rep (variables cl ! (?n - i)) ((u # st) ! i)" using assms(1) that by (auto simp: crel_def)
    then show ?thesis using Suc that assms(1) by (auto simp: crel_def nth_list_update)
  qed
  then show ?thesis
    using assms by (auto simp: crel_def Closure_SetTemp_def arr_set_def nat_add_distrib nth_list_update)
qed

lemma crel_push_boxed:
  assumes "crel cap cl fr st" and "length fr + length st < cap" and "reference_kind v"
  shows "\<exists>cl'. Closure_PushBoxed cl (Boxed v) = Some cl' \<and> crel cap cl' fr (v # st)"
proof -
  have "\<exists>old. arr_get (variables cl) (stackTop cl) = Some old"
    using assms by (auto simp: crel_def arr_get_def nat_add_distrib)
  then obtain old where "arr_get (variables cl) (stackTop cl) = Some old" by blast
  moreover have "rep (old\<lparr>obj := Boxed v\<rparr>) v"
    using assms(3) by (simp add: rep_def SmileArg_Box_def reference_kind_def)
  ultimately show ?thesis
    using crel_push [OF assms(1,2)] by (auto simp: Closure_PushBoxed_def)
qed

lemma crel_push_unboxed:
  assumes "crel cap cl fr st" and "length fr + length st < cap"
    and "\<And>old. rep \<lparr>obj = inst, unboxed = set_low n old d\<rparr> v"
  shows "\<exists>cl'. Closure_PushUnboxed cl inst n d = Some cl' \<and> crel cap cl' fr (v # st)"
proof -
  have "\<exists>old. arr_get (variables cl) (stackTop cl) = Some old"
    using assms by (auto simp: crel_def arr_get_def nat_add_distrib)
  then show ?thesis
    using crel_push [OF assms(1,2) assms(3)] by (auto simp: Closure_PushUnboxed_def)
qed

lemma crel_push_bool:
  assumes "crel cap cl fr st" and "length fr + length st < cap"
  shows "\<exists>cl'. Closure_PushUnboxedBool cl b = Some cl' \<and> crel cap cl' fr (BoolObj b # st)"
  unfolding Closure_PushUnboxedBool_def
  by (rule crel_push_unboxed [OF assms]) (simp add: rep_def SmileArg_Box_def get_set_bool)

lemma crel_get_local:
  assumes "crel cap cl fr st" and "arr_get fr i = Some slot"
  shows "\<exists>x. arr_get (variables cl) i = Some x \<and> rep_slot x slot"
  using assms by (auto simp: crel_def arr_get_def split: if_splits)

lemma crel_set_local:
  assumes "crel cap cl fr st" and "arr_set fr i (Some v) = Some fr'" and "rep x v"
  shows "\<exists>vs. arr_set (variables cl) i x = Some vs \<and> crel cap (cl\<lparr>variables := vs\<rparr>) fr' st"
proof -
  from assms(2) obtain k where k: "i = int k" "k < length fr" "fr' = fr[k := Some v]"
    by (auto simp: arr_set_def split: if_splits intro: that [of "nat i"])
  have "rep ((variables cl)[k := x] ! (length fr + length st - Suc j)) (st ! j)" if "j < length st" for j
  proof -
    have "length fr + length st - Suc j \<noteq> k" using that k(2) by simp
    then show ?thesis using assms(1) that by (simp add: crel_def)
  qed
  then show ?thesis
    using assms(1,3) k by (auto simp: crel_def arr_set_def nth_list_update)
qed

lemma crel_top_slots:
  assumes "crel cap cl fr st" and "n \<le> length st"
  shows "\<exists>xs. top_slots cl (int n) = Some xs \<and> box_all xs = Some (rev (take n st))"
proof -
  let ?t = "length fr + length st"
  have vars: "length (variables cl) = cap" and t: "stackTop cl = int ?t" and tc: "?t \<le> cap"
    using assms(1) by (auto simp: crel_def)
  define xs where "xs = take n (drop (?t - n) (variables cl))"
  have "nat (int ?t - int n) = ?t - n" using assms(2) by simp
  then have slots: "top_slots cl (int n) = Some xs"
    using vars t tc assms(2) by (simp add: top_slots_def xs_def)
  have len: "length xs = n" using vars tc assms(2) by (simp add: xs_def)
  have "rep (xs ! i) (rev (take n st) ! i)" if "i < n" for i
  proof -
    define j where "j = n - Suc i"
    have j: "j < length st" "?t - n + i = ?t - Suc j" using that assms(2) by (auto simp: j_def)
    have "xs ! i = variables cl ! (?t - n + i)"
      unfolding xs_def using that vars tc assms(2) by (subst nth_take) (auto intro!: nth_drop)
    moreover have "rev (take n st) ! i = st ! j" using that assms(2) by (simp add: rev_nth j_def)
    moreover have "rep (variables cl ! (?t - Suc j)) (st ! j)"
      using assms(1) j(1) by (simp add: crel_def)
    ultimately show ?thesis unfolding j(2) by simp
  qed
  then have "list_all2 rep xs (rev (take n st))"
    using len assms(2) by (simp add: list_all2_conv_all_nth)
  then have "box_all xs = Some (rev (take n st))"
    by (induction rule: list_all2_induct) (simp_all add: rep_Box)
  then show ?thesis using slots by blast
qed

section \<open>The evaluator implements the abstract machine\<close>

lemma exec_stack_refines:
  assumes "crel cap cl fr st" and "aexec_stack t i st = Some st'" and "length fr + length st' \<le> cap"
  shows "\<exists>cl'. exec_stack t i cl = Some cl' \<and> crel cap cl' fr st'"
proof (cases i)
  case Op_Dup1
  then obtain v s where s: "st = v # s" "st' = v # st" using assms(2) by (auto split: list.splits)
  then obtain x where "Closure_GetTemp cl 0 = Some x" "rep x v" using crel_temp0 assms(1) by blast
  then show ?thesis using crel_push [OF assms(1), of x v] s assms(3) Op_Dup1 by auto
next
  case Op_Pop1
  then show ?thesis using assms crel_popcount [OF assms(1), of 1] by (auto split: list.splits)
next
  case Op_LdNull
  then show ?thesis
    using assms crel_push_boxed [OF assms(1), of NullObject] by (auto simp: reference_kind_def)
next
  case (Op_LdBool b)
  then show ?thesis using assms crel_push_bool [OF assms(1)] by auto
next
  case (Op_LdStr k)
  then show ?thesis
    using assms crel_push_boxed [OF assms(1), of "StringObj _"]
    by (auto simp: reference_kind_def table_entry_def split: option.splits)
next
  case (Op_LdObj k)
  then show ?thesis
    using assms crel_push_boxed [OF assms(1)]
    by (auto simp: table_entry_def split: option.splits if_splits)
qed (use assms in \<open>auto intro!: crel_push_unboxed [OF assms(1)]
       simp: rep_def SmileArg_Box_def unboxed_simps\<close>)

lemma arr_single [simp]: "arr_get [c] 0 = Some c" "arr_set [c] 0 d = Some [d]"
  by (simp_all add: arr_get_def arr_set_def)

lemma exec_var_refines:
  assumes "crel cap cl fr st" and "aexec_var i fr st g = Some (fr', st', g')" and "length fr' + length st' \<le> cap"
  shows "\<exists>cl'. exec_var i [cl] g = Some ([cl'], g') \<and> crel cap cl' fr' st'"
proof -
  have n0: "numArgs cl = 0" using assms(1) by (simp add: crel_def)
  have n0': "numArgs (Closure_PopCount cl 1) = 0" using n0 by (simp add: Closure_PopCount_def)
  show ?thesis
  proof (cases i)
    case (Op_LdLocN n k)
    then obtain v where v: "n = 0" "arr_get fr k = Some (Some v)" "fr' = fr" "st' = v # st" "g' = g"
      using assms(2) by (cases "arr_get fr k") (auto simp: aload_def split: if_splits option.splits)
    then obtain x where x: "arr_get (variables cl) k = Some x" "rep x v"
      using crel_get_local [OF assms(1) v(2)] by auto
    have "length fr + length st < cap" using v assms(3) by simp
    then obtain cl' where "Closure_Push cl x = Some cl'" "crel cap cl' fr (v # st)"
      using crel_push [OF assms(1) _ x(2)] by blast
    then show ?thesis using v x(1) Op_LdLocN n0 by (simp add: load_variable_def get_variable_def)
  next
    case (Op_StLocN n k)
    then obtain v s where v: "st = v # s" "n = 0" "arr_set fr k (Some v) = Some fr'" "st' = st" "g' = g"
      using assms(2) by (auto simp: bind_eq_Some_conv split: if_splits list.splits)
    then obtain x where x: "Closure_GetTemp cl 0 = Some x" "rep x v" using crel_temp0 assms(1) by blast
    then obtain vs where "arr_set (variables cl) k x = Some vs" "crel cap (cl\<lparr>variables := vs\<rparr>) fr' st"
      using crel_set_local [OF assms(1) v(3)] by blast
    then show ?thesis using v x(1) Op_StLocN n0 by (simp add: store_variable_def set_variable_def)
  next
    case (Op_StpLocN n k)
    then obtain v where v: "st = v # st'" "n = 0" "arr_set fr k (Some v) = Some fr'" "g' = g"
      using assms(2) by (auto simp: bind_eq_Some_conv split: if_splits list.splits)
    then obtain x where x: "Closure_Pop cl = Some (x, Closure_PopCount cl 1)" "rep x v"
        and c: "crel cap (Closure_PopCount cl 1) fr st'" using crel_pop assms(1) by blast
    obtain vs where "arr_set (variables (Closure_PopCount cl 1)) k x = Some vs"
        "crel cap ((Closure_PopCount cl 1)\<lparr>variables := vs\<rparr>) fr' st'"
      using crel_set_local [OF c v(3) x(2)] by blast
    then show ?thesis using v x(1) Op_StpLocN n0' by (simp add: store_pop_variable_def set_variable_def)
  next
    case (Op_NullLoc0 k)
    then have v: "arr_set fr k (Some NullObject) = Some fr'" "st' = st" "g' = g"
      using assms(2) by (auto simp: bind_eq_Some_conv)
    let ?x = "\<lparr>obj = Boxed NullObject, unboxed = 0\<rparr>"
    have "rep ?x NullObject" by (simp add: rep_def SmileArg_Box_def)
    then obtain vs where "arr_set (variables cl) k ?x = Some vs" "crel cap (cl\<lparr>variables := vs\<rparr>) fr' st"
      using crel_set_local [OF assms(1) v(1)] by blast
    then show ?thesis using v Op_NullLoc0 n0 by (simp add: set_variable_def)
  next
    case (Op_LdX s)
    let ?v = "Closure_GetGlobalVariable g s"
    have v: "fr' = fr" "st' = ?v # st" "g' = g" using Op_LdX assms(2) by auto
    then have "length fr + length st < cap" using assms(3) by simp
    then obtain cl' where "Closure_Push cl (SmileArg_Unbox ?v) = Some cl'" "crel cap cl' fr (?v # st)"
      using crel_push [OF assms(1) _ rep_Unbox] by blast
    then show ?thesis using v Op_LdX by simp
  next
    case (Op_StX s)
    then obtain v r where v: "st = v # r" "fr' = fr" "st' = st" "g' = Closure_SetGlobalVariable g s v"
      using assms(2) by (auto split: list.splits)
    then obtain x where "Closure_GetTemp cl 0 = Some x" "rep x v" using crel_temp0 assms(1) by blast
    then show ?thesis
      using v assms(1) Op_StX by (auto simp: store_global_def rep_Box Closure_PopCount_def)
  next
    case (Op_StpX s)
    then obtain v where v: "st = v # st'" "fr' = fr" "g' = Closure_SetGlobalVariable g s v"
      using assms(2) by (auto split: list.splits)
    then obtain x where "Closure_Pop cl = Some (x, Closure_PopCount cl 1)" "rep x v"
        and "crel cap (Closure_PopCount cl 1) fr st'" using crel_pop assms(1) by blast
    then show ?thesis
      using v Op_StpX by (auto simp: store_global_def rep_Box Closure_Pop_def bind_eq_Some_conv)
  qed (use assms(2) in simp_all)
qed


definition orel :: "nat \<Rightarrow> SmileObject option list \<Rightarrow> ('w outcome) option
    \<Rightarrow> ((SmileObject + SmileObject list) \<times> 'w) option \<Rightarrow> bool" where
  "orel cap fr r a \<longleftrightarrow>
     (case a of
        None \<Rightarrow> True
      | Some (Inl e, w) \<Rightarrow> r = Some (Inl e, w)
      | Some (Inr st, w) \<Rightarrow> \<exists>cl. r = Some (Inr cl, w) \<and> crel cap cl fr st)"

lemma orel_None [simp]: "orel cap fr r None"
  by (simp add: orel_def)

lemma Boxed_rep: "rep x v \<Longrightarrow> obj x = Boxed u \<Longrightarrow> u = v"
  by (auto simp: rep_def SmileArg_Box_def)

lemma rep_function: "rep x (FunctionObj n) \<Longrightarrow> obj x = Boxed (FunctionObj n)"
  by (simp add: rep_def)

lemma crel_room: "crel cap cl fr (v # st) \<Longrightarrow> length fr + length st < cap"
  by (simp add: crel_def)

lemma crel_replace:
  assumes "crel cap cl fr (u # st)" and "k \<le> length st"
  shows "\<exists>cl'. Closure_Push (Closure_PopCount cl (1 + int k)) (SmileArg_Unbox v) = Some cl'
           \<and> crel cap cl' fr (v # drop k st)"
proof -
  have c: "crel cap (Closure_PopCount cl (int (Suc k))) fr (drop k st)"
    using crel_popcount [OF assms(1), of "Suc k"] assms(2) by simp
  have "length fr + length (drop k st) < cap" using crel_room [OF assms(1)] by simp
  then show ?thesis using crel_push [OF c _ rep_Unbox] by simp
qed

lemma external_refines:
  assumes "crel cap cl fr (u # st)" and "n + extra = Suc k" and "k \<le> length st" and "n \<le> Suc (length st)"
  shows "orel cap fr (call_object env (Boxed (FunctionObj f)) (int n) (int extra) cl w)
           (finish_call (externalFunction env w f (rev (take n (u # st)))) (drop k st))"
proof -
  obtain xs where xs: "top_slots cl (int n) = Some xs" "box_all xs = Some (rev (take n (u # st)))"
    using crel_top_slots [OF assms(1), of n] assms(4) by auto
  have e: "int n + int extra = 1 + int k" using assms(2) by linarith
  obtain w1 r where r: "externalFunction env w f (rev (take n (u # st))) = (w1, r)" by fastforce
  show ?thesis
  proof (cases r)
    case (Inl ex)
    then show ?thesis using xs r by (simp add: orel_def finish_call_def call_object_def)
  next
    case (Inr v)
    obtain cl' where "Closure_Push (Closure_PopCount cl (1 + int k)) (SmileArg_Unbox v) = Some cl'"
        "crel cap cl' fr (v # drop k st)" using crel_replace [OF assms(1,3)] by blast
    then show ?thesis using Inr xs r e by (simp add: orel_def finish_call_def call_object_def)
  qed
qed

lemma exec_call_refines:
  assumes "crel cap cl fr st"
  shows "orel cap fr (exec_call env (int n) cl w) (acall_function env n st w)"
proof (cases "length st \<le> n")
  case False
  then obtain x where x: "Closure_GetTemp cl (int n) = Some x" "rep x (st ! n)"
    using crel_temp [OF assms, of n] by auto
  from False obtain u s where st: "st = u # s" by (cases st) auto
  show ?thesis
  proof (cases "\<exists>f. st ! n = FunctionObj f")
    case True
    then obtain f where f: "st ! n = FunctionObj f" by blast
    have n: "n + 1 = Suc n" "n \<le> length s" "n \<le> Suc (length s)" using False st by simp_all
    have "orel cap fr (call_object env (Boxed (FunctionObj f)) (int n) (int 1) cl w)
           (finish_call (externalFunction env w f (rev (take n (u # s)))) (drop n s))"
      using external_refines [OF assms [unfolded st] n] .
    moreover have "obj x = Boxed (FunctionObj f)" using x(2) f rep_function by metis
    ultimately show ?thesis
      using x(1) f False st by (simp add: acall_function_def exec_call_def apply_function_def)
  next
    case no: False
    have "obj x \<noteq> NullPointer" using x(2) by (rule rep_not_null)
    moreover have "\<forall>f. obj x \<noteq> Boxed (FunctionObj f)" using Boxed_rep [OF x(2)] no by metis
    ultimately have "call_object env (obj x) (int n) 1 cl w = Some (Inl (invalidFunctionError env), w)"
      by (auto simp: call_object_def split: ArgObj.splits SmileObject.splits)
    moreover have "apply_function env w (st ! n) (rev (take n st)) = (w, Inl (invalidFunctionError env))"
      using no by (auto simp: apply_function_def split: SmileObject.splits)
    ultimately show ?thesis
      using x(1) False by (simp add: acall_function_def exec_call_def finish_call_def orel_def)
  qed
qed (simp add: acall_function_def orel_def)

lemma exec_method_refines:
  assumes "crel cap cl fr st"
  shows "orel cap fr (exec_method env (int n) name cl w) (acall_method env n name st w)"
proof (cases "length st \<le> n")
  case False
  then obtain x where x: "Closure_GetTemp cl (int n) = Some x" "rep x (st ! n)"
    using crel_temp [OF assms, of n] by auto
  from False obtain u s where st: "st = u # s" by (cases st) auto
  have hd: "hd (rev (take (Suc n) st)) = st ! n"
    using False by (simp add: hd_rev take_Suc_conv_app_nth)
  have o: "obj x = obj (SmileArg_Unbox (st ! n))" using x(2) by (rule rep_obj)
  have nn: "obj x \<noteq> NullPointer" using x(2) by (rule rep_not_null)
  show ?thesis
  proof (cases "\<exists>f. property env w (st ! n) name = FunctionObj f")
    case True
    then obtain f where f: "property env w (st ! n) name = FunctionObj f" by blast
    have n: "Suc n + 0 = Suc n" "n \<le> length s" "Suc n \<le> Suc (length s)" using False st by simp_all
    have "orel cap fr (call_object env (Boxed (FunctionObj f)) (int (Suc n)) (int 0) cl w)
           (finish_call (externalFunction env w f (rev (take (Suc n) (u # s)))) (drop n s))"
      using external_refines [OF assms [unfolded st] n] .
    then show ?thesis
      using x(1) f False st nn o hd
      by (simp add: acall_method_def exec_method_def call_method_def apply_method_def add.commute)
  next
    case no: False
    have "call_method env (obj x) name (int n + 1) cl w = Some (Inl (unknownMethodError env name), w)"
      using no nn o by (auto simp: call_method_def split: SmileObject.splits)
    moreover have "apply_method env w name (rev (take (Suc n) st)) = (w, Inl (unknownMethodError env name))"
      using no hd by (auto simp: apply_method_def split: SmileObject.splits)
    ultimately show ?thesis
      using x(1) False by (simp add: acall_method_def exec_method_def finish_call_def orel_def)
  qed
qed (simp add: acall_method_def orel_def)


lemma store_property_refines:
  assumes "crel cap cl fr st"
  shows "orel cap fr (store_property env s keep cl w) (aset_property env s keep st w)"
proof (cases "\<exists>v t r. st = v # t # r")
  case True
  then obtain v t r where st: "st = v # t # r" by blast
  obtain x where x: "Closure_GetTemp cl 0 = Some x" "rep x v" using crel_temp0 assms st by blast
  obtain y where y: "Closure_GetTemp cl 1 = Some y" "rep y t" using crel_temp [OF assms, of 1] st by auto
  have keep1: "\<exists>c. Closure_SetTemp (Closure_PopCount cl 1) 0 x = Some c \<and> crel cap c fr (v # r)"
    using crel_set_top [OF _ x(2)] crel_popcount [OF assms, of 1] st by simp
  have pop2: "crel cap (Closure_PopCount cl 2) fr r" using crel_popcount [OF assms, of 2] st by simp
  have o: "obj y = obj (SmileArg_Unbox t)" using y(2) by (rule rep_obj)
  have nn: "obj y \<noteq> NullPointer" using y(2) by (rule rep_not_null)
  obtain w1 e where r: "setProperty env w (obj y) s v = (w1, e)" by fastforce
  show ?thesis
    using x y keep1 pop2 r nn st
    by (cases e) (auto simp: store_property_def aset_property_def o [symmetric] rep_Box orel_def returns_def)
qed (auto simp: aset_property_def orel_def split: list.splits)

lemma binary_refines:
  assumes "crel cap cl fr (y # x # st)"
  shows "\<exists>cl'. binary f cl = Some cl' \<and> crel cap cl' fr (BoolObj (f x y) # st)"
proof -
  let ?c1 = "Closure_PopCount cl 1"
  let ?c2 = "Closure_PopCount ?c1 1"
  obtain a2 where a2: "Closure_Pop cl = Some (a2, ?c1)" "rep a2 y" "crel cap ?c1 fr (x # st)"
    using crel_pop [OF assms] by blast
  obtain a1 where a1: "Closure_Pop ?c1 = Some (a1, ?c2)" "rep a1 x" "crel cap ?c2 fr st"
    using crel_pop [OF a2(3)] by blast
  show ?thesis
    using crel_push_bool [OF a1(3) crel_room [OF a2(3)]] a1(1,2) a2(1,2) by (simp add: binary_def rep_Box)
qed

lemma compare_refines:
  assumes "crel cap cl fr st" and "\<And>x y. comparison env i x y = Some (f x y)"
  shows "orel cap fr (returns (binary f cl) w) (acompare env i st w)"
proof (cases "\<exists>y x r. st = y # x # r")
  case True
  then obtain y x r where "st = y # x # r" by blast
  then show ?thesis
    using binary_refines [of cap cl fr y x r f] assms by (auto simp: acompare_def orel_def returns_def)
qed (auto simp: acompare_def orel_def split: list.splits)

text \<open>The instructions that replace the value on top of the stack.\<close>

lemma crel_pop_push:
  assumes "crel cap cl fr (v # st)"
  shows "\<exists>cl'. Closure_Push (Closure_PopCount cl 1) (SmileArg_Unbox u) = Some cl' \<and> crel cap cl' fr (u # st)"
  using crel_replace [OF assms, of 0] by simp

lemma crel_pop_push_bool:
  assumes "crel cap cl fr (v # st)"
  shows "\<exists>cl'. Closure_PushUnboxedBool (Closure_PopCount cl 1) b = Some cl' \<and> crel cap cl' fr (BoolObj b # st)"
  using crel_push_bool [of cap "Closure_PopCount cl 1" fr st b] crel_pop [OF assms] crel_room [OF assms] by auto

lemma list_part_refines:
  assumes "crel cap cl fr (v # st)"
  shows "\<exists>cl'. list_part env part s cl w = Some cl'
           \<and> crel cap cl' fr ((if is_list v then part v else property env w v s) # st)"
proof -
  obtain x where x: "Closure_Pop cl = Some (x, Closure_PopCount cl 1)" "rep x v" using crel_pop [OF assms] by blast
  have o: "obj x = obj (SmileArg_Unbox v)" using x(2) by (rule rep_obj)
  show ?thesis using x o crel_pop_push [OF assms] by (cases v) (auto simp: list_part_def)
qed

lemma pop_property_refines:
  assumes "crel cap cl fr (v # st)"
  shows "\<exists>cl'. pop_property env s cl w = Some cl' \<and> crel cap cl' fr (property env w v s # st)"
proof -
  obtain x where x: "Closure_Pop cl = Some (x, Closure_PopCount cl 1)" "rep x v" using crel_pop [OF assms] by blast
  have o: "obj x = obj (SmileArg_Unbox v)" using x(2) by (rule rep_obj)
  show ?thesis using x o rep_not_null [OF x(2)] crel_pop_push [OF assms] by (simp add: pop_property_def)
qed

lemma exec_length_refines:
  assumes "crel cap cl fr (v # st)"
  shows "\<exists>cl'. exec_length env cl w = Some cl'
           \<and> crel cap cl' fr ((case v of StringObj s \<Rightarrow> Integer64Obj (of_nat (length s))
                | _ \<Rightarrow> property env w v (sym_length (env_symbols env))) # st)"
proof -
  obtain x where x: "Closure_Pop cl = Some (x, Closure_PopCount cl 1)" "rep x v" using crel_pop [OF assms] by blast
  have o: "obj x = obj (SmileArg_Unbox v)" using x(2) by (rule rep_obj)
  show ?thesis
    using x o crel_pop_push [OF assms] crel_pop_push [OF assms, of "Integer64Obj n" for n]
    by (cases v) (auto simp: exec_length_def)
qed

lemma exec_typeof_refines:
  assumes "crel cap cl fr (v # st)"
  shows "\<exists>cl'. exec_typeof env cl = Some cl'
           \<and> crel cap cl' fr (SymbolObj (typeOf env (obj (SmileArg_Unbox v))) # st)"
proof -
  obtain x where x: "Closure_GetTemp cl 0 = Some x" "rep x v" using crel_temp0 [OF assms] by blast
  have o: "obj x = obj (SmileArg_Unbox v)" using x(2) by (rule rep_obj)
  show ?thesis
    using crel_set_top [OF assms rep_Unbox [of "SymbolObj _"]] x(1) rep_not_null [OF x(2)]
    unfolding o [symmetric] by (auto simp: exec_typeof_def)
qed

lemma exec_not_refines:
  assumes "crel cap cl fr (BoolObj b # st)"
  shows "\<exists>cl'. exec_not cl = Some cl' \<and> crel cap cl' fr (BoolObj (\<not> b) # st)"
proof -
  obtain x where x: "Closure_Pop cl = Some (x, Closure_PopCount cl 1)" "rep x (BoolObj b)"
    using crel_pop [OF assms] by blast
  then have "obj x = UnboxedBool_Instance" "get_bool (unboxed x) = b" by (auto simp: rep_def SmileArg_Box_def)
  then show ?thesis using x crel_pop_push_bool [OF assms] by (simp add: exec_not_def)
qed

lemma load_property_refines:
  assumes "crel cap cl fr (v # st)"
  shows "\<exists>cl'. load_property env s cl w = Some (Inr cl', w) \<and> crel cap cl' fr (property env w v s # st)"
proof -
  obtain x where x: "Closure_GetTemp cl 0 = Some x" "rep x v" using crel_temp0 [OF assms] by blast
  have o: "obj x = obj (SmileArg_Unbox v)" using x(2) by (rule rep_obj)
  show ?thesis
    using crel_set_top [OF assms rep_Unbox, of "property env w v s"] x(1) rep_not_null [OF x(2)]
    unfolding o [symmetric] by (auto simp: load_property_def returns_def)
qed


lemma exec_object_refines:
  assumes "crel cap cl fr st"
  shows "orel cap fr (exec_object env i cl w) (aexec_object env i st w)"
proof (cases i)
  case Op_LdMember
  then show ?thesis using exec_method_refines [OF assms, of env 1] by simp
next
  case (Op_MetN n s)
  then show ?thesis using exec_method_refines [OF assms, of env "nat n"] by (cases "n < 0") simp_all
next
  case (Op_Met n s)
  then show ?thesis using exec_method_refines [OF assms, of env "nat n"] by (cases "n < 0") simp_all
next
  case (Op_Call n)
  then show ?thesis using exec_call_refines [OF assms, of env "nat n"] by (cases "n < 0") simp_all
next
  case Op_Not
  then show ?thesis
    using assms exec_not_refines [of cap cl fr _ "tl st"]
    by (cases st) (fastforce simp: apop_push_def short_property_def orel_def returns_def split: SmileObject.splits)+
next
  case (Op_StProp s)
  then show ?thesis using store_property_refines [OF assms] by simp
next
  case (Op_StpProp s)
  then show ?thesis using store_property_refines [OF assms] by simp
next
  case Op_SuperEq
  then show ?thesis using assms by (simp add: compare_refines comparison_def)
next
  case Op_SuperNe
  then show ?thesis using assms by (simp add: compare_refines comparison_def)
next
  case Op_Is
  then show ?thesis using assms by (simp add: compare_refines comparison_def)
next
  case (Op_LdProp s)
  then show ?thesis
    using assms load_property_refines [of cap cl fr "hd st" "tl st" env s w]
    by (cases st) (auto simp: apop_push_def short_property_def orel_def)
next
  case Op_TypeOf
  then show ?thesis
    using assms exec_typeof_refines [of cap cl fr "hd st" "tl st" env]
    by (cases st) (auto simp: short_property_def apop_push_def orel_def returns_def)
next
  case Op_LdA
  then show ?thesis
    using assms list_part_refines [of cap cl fr "hd st" "tl st" env obj_a "sym_a (env_symbols env)" w]
    by (cases st) (auto simp: short_property_def apop_push_def orel_def returns_def)
next
  case Op_LdD
  then show ?thesis
    using assms list_part_refines [of cap cl fr "hd st" "tl st" env obj_d "sym_d (env_symbols env)" w]
    by (cases st) (auto simp: short_property_def apop_push_def orel_def returns_def)
next
  case Op_LdStart
  then show ?thesis
    using assms pop_property_refines [of cap cl fr "hd st" "tl st" env "sym_start (env_symbols env)" w]
    by (cases st) (auto simp: short_property_def apop_push_def orel_def returns_def)
next
  case Op_LdEnd
  then show ?thesis
    using assms pop_property_refines [of cap cl fr "hd st" "tl st" env "sym_end (env_symbols env)" w]
    by (cases st) (auto simp: short_property_def apop_push_def orel_def returns_def)
next
  case Op_LdCount
  then show ?thesis
    using assms pop_property_refines [of cap cl fr "hd st" "tl st" env "sym_count (env_symbols env)" w]
    by (cases st) (auto simp: short_property_def apop_push_def orel_def returns_def)
next
  case Op_LdLength
  then show ?thesis
    using assms exec_length_refines [of cap cl fr "hd st" "tl st" env w]
    by (cases st) (auto simp: short_property_def apop_push_def orel_def returns_def cong: SmileObject.case_cong)
qed (auto simp: apop_push_def short_property_def split: list.splits)


text \<open>A machine of the evaluator in an abstract state, and in a final one.\<close>

definition mrel :: "'w AMachine \<Rightarrow> 'w Machine \<Rightarrow> 'w AState \<Rightarrow> bool" where
  "mrel M m \<sigma> \<longleftrightarrow>
     (\<exists>cl. closures m = [cl] \<and> crel (mcap M) cl (frame \<sigma>) (stk \<sigma>))
     \<and> global_vars m = agl \<sigma> \<and> world m = awd \<sigma> \<and> byteCode m = pc \<sigma> \<and> status m = Running"

definition outrel :: "'w AMachine \<Rightarrow> 'w Machine \<Rightarrow> 'w AOut \<Rightarrow> bool" where
  "outrel M m out \<longleftrightarrow>
     (case out of
        Next \<sigma> \<Rightarrow> mrel M m \<sigma>
      | Raise e g w \<Rightarrow> status m = Threw e \<and> global_vars m = g \<and> world m = w)"

lemma with_roomD: "with_room M \<sigma> = Some out \<Longrightarrow>
  out = Next \<sigma> \<and> length (frame \<sigma>) + length (stk \<sigma>) \<le> mcap M"
  by (auto simp: with_room_def split: if_splits)

lemma exec_branch_refines:
  assumes "mrel M m \<sigma>" and "stk \<sigma> = v # st"
  shows "\<exists>m'. exec_branch sense d m = Some m'
           \<and> mrel M m' (\<sigma>\<lparr>stk := st, pc := pc \<sigma> + (if truth v = sense then d else 1)\<rparr>)"
proof -
  obtain cl where cl: "closures m = [cl]" "crel (mcap M) cl (frame \<sigma>) (v # st)"
    using assms by (auto simp: mrel_def)
  obtain x where x: "Closure_Pop cl = Some (x, Closure_PopCount cl 1)" "rep x v"
      "crel (mcap M) (Closure_PopCount cl 1) (frame \<sigma>) st"
    using crel_pop [OF cl(2)] by blast
  show ?thesis
    using assms(1) cl(1) x by (simp add: exec_branch_def branch_condition_rep [OF x(2)] mrel_def)
qed

lemma exec_refines:
  assumes m: "mrel M m \<sigma>" and a: "aexec M i \<sigma> = Some out"
  shows "\<exists>m'. exec (menv M) (mtables M) i m = Some m' \<and> outrel M m' out"
proof -
  obtain cl where cl: "closures m = [cl]" "crel (mcap M) cl (frame \<sigma>) (stk \<sigma>)"
    using m by (auto simp: mrel_def)
  show ?thesis
  proof (cases i)
    case (Stack j)
    then obtain st where st: "aexec_stack (mtables M) j (stk \<sigma>) = Some st"
        and r: "with_room M (\<sigma>\<lparr>stk := st, pc := pc \<sigma> + 1\<rparr>) = Some out"
      using a by (auto simp: bind_eq_Some_conv)
    obtain cl' where "exec_stack (mtables M) j cl = Some cl'" "crel (mcap M) cl' (frame \<sigma>) st"
      using exec_stack_refines [OF cl(2) st] with_roomD [OF r] by auto
    then show ?thesis using with_roomD [OF r] m cl(1) Stack by (simp add: outrel_def mrel_def)
  next
    case (Var j)
    then obtain fr st g where st: "aexec_var j (frame \<sigma>) (stk \<sigma>) (agl \<sigma>) = Some (fr, st, g)"
        and r: "with_room M (\<sigma>\<lparr>frame := fr, stk := st, agl := g, pc := pc \<sigma> + 1\<rparr>) = Some out"
      using a by (auto simp: bind_eq_Some_conv)
    obtain cl' where "exec_var j [cl] (agl \<sigma>) = Some ([cl'], g)" "crel (mcap M) cl' fr st"
      using exec_var_refines [OF cl(2) st] with_roomD [OF r] by auto
    then show ?thesis using with_roomD [OF r] m cl(1) Var by (simp add: outrel_def mrel_def)
  next
    case (Object j)
    then obtain r w where e: "aexec_object (menv M) j (stk \<sigma>) (awd \<sigma>) = Some (r, w)"
      using a by (auto simp: bind_eq_Some_conv)
    have o: "orel (mcap M) (frame \<sigma>) (exec_object (menv M) j cl (awd \<sigma>)) (Some (r, w))"
      using exec_object_refines [OF cl(2), of "menv M" j "awd \<sigma>"] e by simp
    show ?thesis
    proof (cases r)
      case (Inl ex)
      then show ?thesis using o e a m cl(1) Object by (auto simp: orel_def outrel_def mrel_def)
    next
      case (Inr st)
      then have r: "with_room M (\<sigma>\<lparr>stk := st, awd := w, pc := pc \<sigma> + 1\<rparr>) = Some out"
        using a e Object by simp
      show ?thesis using o with_roomD [OF r] Inr m cl(1) Object by (auto simp: orel_def outrel_def mrel_def)
    qed
  next
    case (Op_Bt d)
    then obtain v st where s: "stk \<sigma> = v # st" using a by (auto split: list.splits)
    then show ?thesis using Op_Bt a exec_branch_refines [OF m s, of True d] by (auto simp: outrel_def)
  next
    case (Op_Bf d)
    then obtain v st where s: "stk \<sigma> = v # st" using a by (auto split: list.splits)
    have "(truth v = False) = (\<not> truth v)" by simp
    then show ?thesis using Op_Bf a s exec_branch_refines [OF m s, of False d] by (auto simp: outrel_def)
  qed (use a m in \<open>auto simp: outrel_def mrel_def\<close>)
qed

lemma Eval_step_refines:
  assumes "mrel M m \<sigma>" and "astep M \<sigma> = Some out" and "\<And>i. mcode M i = fetch segment i"
  shows "\<exists>m'. Eval_step (menv M) (mtables M) segment m = Some m' \<and> outrel M m' out"
proof -
  obtain i where "mcode M (pc \<sigma>) = Some i" "aexec M i \<sigma> = Some out"
    using assms(2) by (auto simp: astep_def bind_eq_Some_conv)
  then show ?thesis
    using exec_refines [OF assms(1)] assms(1,3) by (auto simp: Eval_step_def mrel_def)
qed

end
