(* ===== verification/Semantics.thy ===== *)
theory Semantics
  imports StackMachine
begin

text \<open>
  A reference semantics of Smile expressions, independent of the bytecode: an abstract syntax for the
  forms that the compiler reads as lists, and an interpreter over scopes of variables, global
  variables and the world of external functions. The argument \<open>n\<close> of the interpreter bounds the
  number of rounds of a loop; \<open>None\<close> means that a loop ran longer or that the meaning of
  the program is left open.
\<close>

section \<open>Expressions\<close>

datatype BinaryForm = IsForm | EqForm | NeForm

datatype Expr =
    Literal SmileObject
  | Variable Symbol
  | Quote SmileObject
  | Assign Symbol Expr
  | OpAssign Symbol Symbol Expr
  | AssignProperty Expr Symbol Expr
  | OpAssignProperty Symbol Expr Symbol Expr
  | Property Expr Symbol
  | Member Expr Expr
  | MethodCall Expr Symbol "Expr list"
  | Call Expr "Expr list"
  | NotForm Expr
  | TypeOfForm Expr
  | Binary BinaryForm Expr Expr
  | AndForm "Expr list"
  | OrForm "Expr list"
  | IfThen Expr Expr
  | IfElse Expr Expr Expr
  | Progn "Expr list"
  | Prog1 Expr "Expr list"
  | Scope "Symbol list" "Expr list"
  | WhilePost Expr Expr
  | WhileBoth Expr Expr Expr

abbreviation none :: Expr where "none \<equiv> Literal NullObject"

fun list_of :: "SmileObject list \<Rightarrow> SmileObject" where
  "list_of [] = NullObject"
| "list_of (x # xs) = ListObj x (list_of xs)"

definition form_of :: "Symbol \<Rightarrow> SmileObject list \<Rightarrow> SmileObject" where
  "form_of s xs = ListObj (SymbolObj s) (list_of xs)"

fun binary_symbol :: "BinaryForm \<Rightarrow> Symbol" where
  "binary_symbol IsForm = SMILE_SPECIAL_SYMBOL__IS"
| "binary_symbol EqForm = SMILE_SPECIAL_SYMBOL__EQ"
| "binary_symbol NeForm = SMILE_SPECIAL_SYMBOL__NE"

text \<open>The list that stands for an expression.\<close>

fun to_obj :: "Expr \<Rightarrow> SmileObject" where
  "to_obj (Literal x) = x"
| "to_obj (Variable s) = SymbolObj s"
| "to_obj (Quote x) = form_of SMILE_SPECIAL_SYMBOL__QUOTE [x]"
| "to_obj (Assign s e) = form_of SMILE_SPECIAL_SYMBOL__SET [SymbolObj s, to_obj e]"
| "to_obj (OpAssign op s e) = form_of SMILE_SPECIAL_SYMBOL__OPSET [SymbolObj op, SymbolObj s, to_obj e]"
| "to_obj (AssignProperty t s e) =
     form_of SMILE_SPECIAL_SYMBOL__SET [form_of SMILE_SPECIAL_SYMBOL__DOT [to_obj t, SymbolObj s], to_obj e]"
| "to_obj (OpAssignProperty op t s e) =
     form_of SMILE_SPECIAL_SYMBOL__OPSET
       [SymbolObj op, form_of SMILE_SPECIAL_SYMBOL__DOT [to_obj t, SymbolObj s], to_obj e]"
| "to_obj (Property t s) = form_of SMILE_SPECIAL_SYMBOL__DOT [to_obj t, SymbolObj s]"
| "to_obj (Member t i) = form_of SMILE_SPECIAL_SYMBOL__INDEX [to_obj t, to_obj i]"
| "to_obj (MethodCall t s es) =
     ListObj (form_of SMILE_SPECIAL_SYMBOL__DOT [to_obj t, SymbolObj s]) (list_of (map to_obj es))"
| "to_obj (Call f es) = ListObj (to_obj f) (list_of (map to_obj es))"
| "to_obj (NotForm e) = form_of SMILE_SPECIAL_SYMBOL__NOT [to_obj e]"
| "to_obj (TypeOfForm e) = form_of SMILE_SPECIAL_SYMBOL__TYPEOF [to_obj e]"
| "to_obj (Binary b e1 e2) = form_of (binary_symbol b) [to_obj e1, to_obj e2]"
| "to_obj (AndForm es) = form_of SMILE_SPECIAL_SYMBOL__AND (map to_obj es)"
| "to_obj (OrForm es) = form_of SMILE_SPECIAL_SYMBOL__OR (map to_obj es)"
| "to_obj (IfThen c t) = form_of SMILE_SPECIAL_SYMBOL__IF [to_obj c, to_obj t]"
| "to_obj (IfElse c t e) = form_of SMILE_SPECIAL_SYMBOL__IF [to_obj c, to_obj t, to_obj e]"
| "to_obj (Progn es) = form_of SMILE_SPECIAL_SYMBOL__PROGN (map to_obj es)"
| "to_obj (Prog1 e es) = form_of SMILE_SPECIAL_SYMBOL__PROG1 (to_obj e # map to_obj es)"
| "to_obj (Scope xs es) =
     ListObj (SymbolObj SMILE_SPECIAL_SYMBOL__SCOPE) (ListObj (list_of (map SymbolObj xs)) (list_of (map to_obj es)))"
| "to_obj (WhilePost c post) = form_of SMILE_SPECIAL_SYMBOL__WHILE [to_obj c, to_obj post]"
| "to_obj (WhileBoth pre c post) = form_of SMILE_SPECIAL_SYMBOL__WHILE [to_obj pre, to_obj c, to_obj post]"

text \<open>A condition \<^verbatim>\<open>[not x]\<close> is the negation of the condition \<open>x\<close>.\<close>

fun strip_nots :: "KnownSymbols \<Rightarrow> Expr \<Rightarrow> Expr \<times> bool" where
  "strip_nots k (Call f es) =
     (case (f, es) of
        (Variable s, [x]) \<Rightarrow>
          if s = sym_not k then (let (y, neg) = strip_nots k x in (y, \<not> neg)) else (Call f es, False)
      | _ \<Rightarrow> (Call f es, False))"
| "strip_nots k e = (e, False)"

abbreviation core :: "KnownSymbols \<Rightarrow> Expr \<Rightarrow> Expr" where "core k e \<equiv> fst (strip_nots k e)"
abbreviation negated :: "KnownSymbols \<Rightarrow> Expr \<Rightarrow> bool" where "negated k e \<equiv> snd (strip_nots k e)"

lemma size_core: "size (core k e) \<le> size e"
  by (induction k e rule: strip_nots.induct)
    (fastforce split: Expr.splits list.splits prod.splits simp: case_prod_beta Let_def)+

section \<open>Computations\<close>

record 'w Store =
  scopes :: "(Symbol \<Rightarrow> SmileObject option) list"
  gvars :: globals
  wd :: 'w

type_synonym 'w comp = "'w Store \<Rightarrow> ((SmileObject + SmileObject) \<times> 'w Store) option"

definition ret :: "SmileObject \<Rightarrow> 'w comp" where
  "ret v s = Some (Inr v, s)"

definition and_then :: "'w comp \<Rightarrow> (SmileObject \<Rightarrow> 'w comp) \<Rightarrow> 'w comp" where
  "and_then m f s =
     (case m s of
        None \<Rightarrow> None
      | Some (Inl e, s1) \<Rightarrow> Some (Inl e, s1)
      | Some (Inr v, s1) \<Rightarrow> f v s1)"

definition perform :: "('w \<Rightarrow> 'w \<times> (SmileObject + SmileObject)) \<Rightarrow> 'w comp" where
  "perform call s = (case call (wd s) of (w, r) \<Rightarrow> Some (r, s\<lparr>wd := w\<rparr>))"

fun eval_args :: "'w comp list \<Rightarrow> (SmileObject list \<Rightarrow> 'w comp) \<Rightarrow> 'w comp" where
  "eval_args [] k = k []"
| "eval_args (m # ms) k = and_then m (\<lambda>v. eval_args ms (\<lambda>vs. k (v # vs)))"

fun eval_seq :: "'w comp list \<Rightarrow> 'w comp" where
  "eval_seq [] = ret NullObject"
| "eval_seq [m] = m"
| "eval_seq (m # ms) = and_then m (\<lambda>_. eval_seq ms)"

text \<open>The conditions of \<^verbatim>\<open>[$and]\<close> (\<open>stop\<close> is false) and \<^verbatim>\<open>[$or]\<close> (\<open>stop\<close> is true), each with
  its negation flag.\<close>

fun eval_conditions :: "bool \<Rightarrow> ('w comp \<times> bool) list \<Rightarrow> 'w comp" where
  "eval_conditions stop [] = ret (BoolObj (\<not> stop))"
| "eval_conditions stop ((m, neg) # cs) =
     and_then m (\<lambda>v. if (truth v \<noteq> neg) = stop then ret (BoolObj stop) else eval_conditions stop cs)"

definition clause :: "'w comp option \<Rightarrow> SmileObject \<Rightarrow> 'w comp" where
  "clause m v = (case m of None \<Rightarrow> ret v | Some m \<Rightarrow> m)"

text \<open>A loop with a part before its condition, a part after it, or both. Its value is that of the
  part that ran last.\<close>

fun while_loop :: "nat \<Rightarrow> 'w comp option \<Rightarrow> 'w comp \<Rightarrow> bool \<Rightarrow> 'w comp option \<Rightarrow> SmileObject \<Rightarrow> 'w comp" where
  "while_loop 0 pre cond neg post v = (\<lambda>s. None)"
| "while_loop (Suc n) pre cond neg post v =
     and_then (clause pre v) (\<lambda>r.
       and_then cond (\<lambda>b.
         if truth b \<noteq> neg then and_then (clause post r) (while_loop n pre cond neg post) else ret r))"

section \<open>Variables and properties\<close>

fun find_var :: "(Symbol \<Rightarrow> SmileObject option) list \<Rightarrow> Symbol \<Rightarrow> SmileObject option" where
  "find_var [] x = None"
| "find_var (\<rho> # \<rho>s) x = (case \<rho> x of Some v \<Rightarrow> Some v | None \<Rightarrow> find_var \<rho>s x)"

fun update_var :: "(Symbol \<Rightarrow> SmileObject option) list \<Rightarrow> Symbol \<Rightarrow> SmileObject
    \<Rightarrow> (Symbol \<Rightarrow> SmileObject option) list" where
  "update_var [] x v = []"
| "update_var (\<rho> # \<rho>s) x v = (if \<rho> x = None then \<rho> # update_var \<rho>s x v else \<rho>(x \<mapsto> v) # \<rho>s)"

definition read_var :: "KnownSymbols \<Rightarrow> Symbol \<Rightarrow> 'w comp" where
  "read_var k x s =
     ret (case find_var (scopes s) x of
            Some v \<Rightarrow> v
          | None \<Rightarrow>
              if x = sym_true k then BoolObj True
              else if x = sym_false k then BoolObj False
              else if x = sym_null k then NullObject
              else Closure_GetGlobalVariable (gvars s) x) s"

definition write_var :: "Symbol \<Rightarrow> SmileObject \<Rightarrow> 'w comp" where
  "write_var x v s =
     ret v (if find_var (scopes s) x = None then s\<lparr>gvars := Closure_SetGlobalVariable (gvars s) x v\<rparr>
            else s\<lparr>scopes := update_var (scopes s) x v\<rparr>)"

text \<open>The properties that the language answers itself, and the others.\<close>

definition get_property :: "'w Env \<Rightarrow> 'w \<Rightarrow> SmileObject \<Rightarrow> Symbol \<Rightarrow> SmileObject" where
  "get_property env w v s =
     (let k = env_symbols env
      in if s = sym_a k then (if is_list v then obj_a v else property env w v s)
         else if s = sym_d k then (if is_list v then obj_d v else property env w v s)
         else if s \<in> {sym_start k, sym_end k, sym_count k} then property env w v s
         else if s = sym_length k
         then (case v of StringObj t \<Rightarrow> Integer64Obj (of_nat (length t)) | _ \<Rightarrow> property env w v s)
         else property env w v s)"

definition read_property :: "'w Env \<Rightarrow> SmileObject \<Rightarrow> Symbol \<Rightarrow> 'w comp" where
  "read_property env v p s = ret (get_property env (wd s) v p) s"

definition read_plain_property :: "'w Env \<Rightarrow> SmileObject \<Rightarrow> Symbol \<Rightarrow> 'w comp" where
  "read_plain_property env v p s = ret (property env (wd s) v p) s"

definition write_property :: "'w Env \<Rightarrow> SmileObject \<Rightarrow> Symbol \<Rightarrow> SmileObject \<Rightarrow> 'w comp" where
  "write_property env t p v s =
     (case setProperty env (wd s) (obj (SmileArg_Unbox t)) p v of
        (w, Some e) \<Rightarrow> Some (Inl e, s\<lparr>wd := w\<rparr>)
      | (w, None) \<Rightarrow> Some (Inr v, s\<lparr>wd := w\<rparr>))"

definition call_named :: "'w Env \<Rightarrow> Symbol \<Rightarrow> SmileObject list \<Rightarrow> 'w comp" where
  "call_named env p args = perform (\<lambda>w. apply_method env w p args)"

definition call_value :: "'w Env \<Rightarrow> SmileObject \<Rightarrow> SmileObject list \<Rightarrow> 'w comp" where
  "call_value env f args = perform (\<lambda>w. apply_function env w f args)"

fun binary_value :: "'w Env \<Rightarrow> BinaryForm \<Rightarrow> SmileObject \<Rightarrow> SmileObject \<Rightarrow> SmileObject" where
  "binary_value env IsForm x y = BoolObj (objectIs env x y)"
| "binary_value env EqForm x y = BoolObj (compareEqual env x y)"
| "binary_value env NeForm x y = BoolObj (\<not> compareEqual env x y)"

text \<open>The meaning of \<^verbatim>\<open>[$not x]\<close> is open unless \<open>x\<close> is a truth value.\<close>

definition negate :: "SmileObject \<Rightarrow> 'w comp" where
  "negate v s = (case v of BoolObj b \<Rightarrow> ret (BoolObj (\<not> b)) s | _ \<Rightarrow> None)"

definition new_scope :: "Symbol list \<Rightarrow> Symbol \<Rightarrow> SmileObject option" where
  "new_scope xs x = (if x \<in> set xs then Some NullObject else None)"

definition in_scope :: "Symbol list \<Rightarrow> 'w comp \<Rightarrow> 'w comp" where
  "in_scope xs m s =
     (case m (s\<lparr>scopes := new_scope xs # scopes s\<rparr>) of
        None \<Rightarrow> None
      | Some (r, s1) \<Rightarrow> Some (r, s1\<lparr>scopes := tl (scopes s1)\<rparr>))"

section \<open>The interpreter\<close>

function (sequential) ev :: "'w Env \<Rightarrow> nat \<Rightarrow> Expr \<Rightarrow> 'w comp" where
  "ev env n (Literal x) = ret x"
| "ev env n (Variable x) = read_var (env_symbols env) x"
| "ev env n (Quote x) = ret x"
| "ev env n (Assign x e) = and_then (ev env n e) (write_var x)"
| "ev env n (OpAssign op x e) =
     and_then (read_var (env_symbols env) x) (\<lambda>v.
       and_then (ev env n e) (\<lambda>u. and_then (call_named env op [v, u]) (write_var x)))"
| "ev env n (AssignProperty t p e) =
     and_then (ev env n t) (\<lambda>v. and_then (ev env n e) (write_property env v p))"
| "ev env n (OpAssignProperty op t p e) =
     and_then (ev env n t) (\<lambda>v.
       and_then (read_plain_property env v p) (\<lambda>old.
         and_then (ev env n e) (\<lambda>u. and_then (call_named env op [old, u]) (write_property env v p))))"
| "ev env n (Property t p) = and_then (ev env n t) (\<lambda>v. read_property env v p)"
| "ev env n (Member t i) =
     and_then (ev env n t) (\<lambda>v. and_then (ev env n i) (\<lambda>u. call_named env (sym_getMember env) [v, u]))"
| "ev env n (MethodCall t p es) =
     and_then (ev env n t) (\<lambda>v. eval_args (map (ev env n) es) (\<lambda>us. call_named env p (v # us)))"
| "ev env n (Call f es) =
     and_then (ev env n f) (\<lambda>v. eval_args (map (ev env n) es) (\<lambda>us. call_value env v us))"
| "ev env n (NotForm e) = and_then (ev env n e) negate"
| "ev env n (TypeOfForm e) =
     and_then (ev env n e) (\<lambda>v. ret (SymbolObj (typeOf env (obj (SmileArg_Unbox v)))))"
| "ev env n (Binary b e1 e2) =
     and_then (ev env n e1) (\<lambda>v. and_then (ev env n e2) (\<lambda>u. ret (binary_value env b v u)))"
| "ev env n (AndForm es) =
     eval_conditions False
       (map (\<lambda>e. (ev env n (core (env_symbols env) e), negated (env_symbols env) e)) es)"
| "ev env n (OrForm es) =
     eval_conditions True
       (map (\<lambda>e. (ev env n (core (env_symbols env) e), negated (env_symbols env) e)) es)"
| "ev env n (IfThen c t) =
     and_then (ev env n (core (env_symbols env) c)) (\<lambda>v.
       if truth v \<noteq> negated (env_symbols env) c then ev env n t else ret NullObject)"
| "ev env n (IfElse c t e) =
     and_then (ev env n (core (env_symbols env) c)) (\<lambda>v.
       if truth v \<noteq> negated (env_symbols env) c then ev env n t else ev env n e)"
| "ev env n (Progn es) = eval_seq (map (ev env n) es)"
| "ev env n (Prog1 e es) =
     and_then (ev env n e) (\<lambda>v. eval_args (map (ev env n) es) (\<lambda>_. ret v))"
| "ev env n (Scope xs es) = in_scope xs (eval_seq (map (ev env n) es))"
| "ev env n (WhilePost c post) =
     while_loop n None (ev env n (core (env_symbols env) c)) (negated (env_symbols env) c)
       (if post = none then None else Some (ev env n post)) NullObject"
| "ev env n (WhileBoth pre c post) =
     while_loop n (if pre = none then None else Some (ev env n pre))
       (ev env n (core (env_symbols env) c)) (negated (env_symbols env) c)
       (if post = none then None else Some (ev env n post)) NullObject"
  by pat_completeness auto

termination
  by (relation "measure (\<lambda>(_, _, e). size e)")
    (auto simp: less_Suc_eq_le size_list_estimation' intro: le_trans [OF size_core] trans_le_add1 trans_le_add2)

section \<open>The programs covered\<close>

text \<open>What the compiler handles correctly, in result mode and where the value is not wanted
  (\<open>noResult\<close>). Left out are the forms whose code is known to be wrong: empty sequences, loops
  with a body whose value is wanted, loops with a part before and a part after the condition,
  an \<^verbatim>\<open>[$and]\<close> or \<^verbatim>\<open>[$or]\<close> under a comparison whose value is not wanted.\<close>

definition constant_symbol :: "KnownSymbols \<Rightarrow> Symbol \<Rightarrow> bool" where
  "constant_symbol k s \<longleftrightarrow> s = sym_true k \<or> s = sym_false k \<or> s = sym_null k"

definition special_symbol :: "Symbol \<Rightarrow> bool" where
  "special_symbol s \<longleftrightarrow> 1 \<le> s \<and> s \<le> 24"

fun call_head :: "Expr \<Rightarrow> bool" where
  "call_head (Variable s) = (\<not> special_symbol s)"
| "call_head (Property t s) = False"
| "call_head e = True"

fun condition_form :: "Expr \<Rightarrow> bool" where
  "condition_form (AndForm es) = True"
| "condition_form (OrForm es) = True"
| "condition_form e = False"

lemma size_mem_butlast: "x \<in> set (butlast es) \<Longrightarrow> size x \<le> size_list size es"
  by (auto dest: in_set_butlastD intro: size_list_estimation')

lemma size_last: "es \<noteq> [] \<Longrightarrow> size (last es) \<le> size_list size es"
  by (rule size_list_estimation' [OF last_in_set]) simp_all

function (sequential) supported :: "KnownSymbols \<Rightarrow> bool \<Rightarrow> Expr \<Rightarrow> bool" where
  "supported k nr (Literal x) = (\<not> is_symbol x \<and> \<not> is_list x)"
| "supported k nr (Variable x) = True"
| "supported k nr (Quote x) = True"
| "supported k nr (Assign x e) = (\<not> constant_symbol k x \<and> supported k False e)"
| "supported k nr (OpAssign op x e) = (\<not> constant_symbol k x \<and> supported k False e)"
| "supported k nr (AssignProperty t p e) = (supported k False t \<and> supported k False e)"
| "supported k nr (OpAssignProperty op t p e) = (supported k False t \<and> supported k False e)"
| "supported k nr (Property t p) = supported k False t"
| "supported k nr (Member t i) = (supported k False t \<and> supported k False i)"
| "supported k nr (MethodCall t p es) = (supported k False t \<and> (\<forall>e\<in>set es. supported k False e))"
| "supported k nr (Call f es) =
     (call_head f \<and> supported k False f \<and> (\<forall>e\<in>set es. supported k False e))"
| "supported k nr (NotForm e) = supported k nr e"
| "supported k nr (TypeOfForm e) = supported k nr e"
| "supported k nr (Binary b e1 e2) =
     (supported k nr e1 \<and> supported k nr e2 \<and> (nr \<longrightarrow> \<not> condition_form e1 \<and> \<not> condition_form e2))"
| "supported k nr (AndForm es) = (es \<noteq> [] \<and> (\<forall>e\<in>set es. supported k False (core k e)))"
| "supported k nr (OrForm es) = (es \<noteq> [] \<and> (\<forall>e\<in>set es. supported k False (core k e)))"
| "supported k nr (IfThen c t) =
     (supported k False (core k c) \<and> (nr \<longrightarrow> supported k True (core k c)) \<and> supported k nr t)"
| "supported k nr (IfElse c t e) =
     (supported k False (core k c) \<and> (nr \<longrightarrow> supported k True (core k c))
      \<and> supported k nr t \<and> supported k nr e)"
| "supported k nr (Progn es) =
     (if es = [] then False else (\<forall>e\<in>set (butlast es). supported k True e) \<and> supported k nr (last es))"
| "supported k nr (Prog1 e es) = (supported k nr e \<and> (\<forall>e\<in>set es. supported k False e))"
| "supported k nr (Scope xs es) =
     (if xs = [] \<or> es = [] then False
      else (\<forall>e\<in>set (butlast es). supported k True e) \<and> supported k nr (last es))"
| "supported k nr (WhilePost c post) =
     (supported k False (core k c) \<and> (post = none \<or> nr \<and> supported k True post))"
| "supported k nr (WhileBoth pre c post) =
     (supported k False (core k c)
      \<and> (pre = none \<and> post = none \<or> pre = none \<and> nr \<and> supported k True post
         \<or> post = none \<and> nr \<and> supported k True pre))"
  by pat_completeness auto

termination
  by (relation "measure (\<lambda>(_, _, e). size e)")
    (auto simp: less_Suc_eq_le size_list_estimation' size_mem_butlast size_last
       intro: le_trans [OF size_core] trans_le_add1 trans_le_add2)

end
