(* ===== verification/Blocks.thy ===== *)
theory Blocks
  imports Semantics
begin

text \<open>
  What a block of code does. A computation that pushes values on the stack is attached to each
  block, and the rules below give the computation of a block that is emitted into, appended to or
  matched to its flags. Branches are handled by executions between two addresses of a machine.
\<close>

section \<open>Blocks as code with stack counters\<close>

lemma Attach_last [simp]:
  "instructions (CompiledBlock_AttachInstruction b (block_last b) i) = instructions b @ [i]"
  "maxStackDepth (CompiledBlock_AttachInstruction b (block_last b) i) = maxStackDepth b"
  "finalStackDelta (CompiledBlock_AttachInstruction b (block_last b) i) = finalStackDelta b"
  "escapes (CompiledBlock_AttachInstruction b (block_last b) i) = escapes b"
  by (cases b; simp add: block_last_def)+

lemma set_stack_simps [simp]:
  "instructions (set_stack m f b) = instructions b" "maxStackDepth (set_stack m f b) = m"
  "finalStackDelta (set_stack m f b) = f" "escapes (set_stack m f b) = escapes b"
  by (cases b; simp)+

lemma set_flags_simps [simp]:
  "instructions (set_flags e r b) = instructions b" "maxStackDepth (set_flags e r b) = maxStackDepth b"
  "finalStackDelta (set_flags e r b) = finalStackDelta b" "escapes (set_flags e r b) = e"
  by (cases b; simp)+

lemma add_delta_simps [simp]:
  "instructions (add_delta d b) = instructions b" "maxStackDepth (add_delta d b) = maxStackDepth b"
  "finalStackDelta (add_delta d b) = finalStackDelta b + d" "escapes (add_delta d b) = escapes b"
  by (simp_all add: add_delta_def)

lemma Create_simps [simp]:
  "instructions CompiledBlock_Create = []" "maxStackDepth CompiledBlock_Create = 0"
  "finalStackDelta CompiledBlock_Create = 0" "escapes CompiledBlock_Create = False"
  by (simp_all add: CompiledBlock_Create_def)

lemma Emit_simps [simp]:
  "instructions (CompiledBlock_Emit b i d) = instructions b @ [i]"
  "maxStackDepth (CompiledBlock_Emit b i d) = max (maxStackDepth b) (finalStackDelta b + d)"
  "finalStackDelta (CompiledBlock_Emit b i d) = finalStackDelta b + d"
  "escapes (CompiledBlock_Emit b i d) = escapes b"
  by (simp_all add: CompiledBlock_Emit_def Let_def)

text \<open>The counters of a block that was built from nothing, and whose code falls through.\<close>

definition wfb :: "CompiledBlock \<Rightarrow> bool" where
  "wfb b \<longleftrightarrow> 0 \<le> maxStackDepth b \<and> finalStackDelta b \<le> maxStackDepth b \<and> \<not> escapes b
     \<and> (instructions b = [] \<longrightarrow> finalStackDelta b = 0 \<and> maxStackDepth b = 0)"

lemma wfb_Create [simp]: "wfb CompiledBlock_Create"
  by (simp add: wfb_def)

lemma wfb_Emit [simp]: "wfb b \<Longrightarrow> wfb (CompiledBlock_Emit b i d)"
  by (auto simp: wfb_def)

lemma wfb_attach [simp]: "wfb b \<Longrightarrow> wfb (CompiledBlock_AttachInstruction b (block_last b) i)"
  by (auto simp: wfb_def)

lemma wfb_add_delta [simp]: "wfb b \<Longrightarrow> d \<le> 0 \<Longrightarrow> instructions b \<noteq> [] \<Longrightarrow> wfb (add_delta d b)"
  by (auto simp: wfb_def)

lemma append_child_simps [simp]:
  assumes "wfb p" and "wfb b"
  shows "block_code (append_child p b) = block_code p @ block_code b"
    and "maxStackDepth (append_child p b) = max (maxStackDepth p) (finalStackDelta p + maxStackDepth b)"
    and "finalStackDelta (append_child p b) = finalStackDelta p + finalStackDelta b"
    and "escapes (append_child p b) = escapes p"
    and "wfb (append_child p b)"
  using assms by (cases b; auto simp: CompiledBlock_AppendChild_def Let_def wfb_def)+

lemma append_child_empty: "instructions (append_child p b) = [] \<longleftrightarrow> instructions p = [] \<and> instructions b = []"
  by (simp add: CompiledBlock_AppendChild_def Let_def)

section \<open>Executions\<close>

type_synonym scope_env = "(Symbol \<Rightarrow> CompiledLocalSymbol option) list"

inductive exec_to :: "'w AMachine \<Rightarrow> 'w AState \<Rightarrow> 'w AOut \<Rightarrow> bool" for M where
  stop: "exec_to M \<sigma> (Next \<sigma>)"
| raised: "astep M \<sigma> = Some (Raise e g w) \<Longrightarrow> exec_to M \<sigma> (Raise e g w)"
| go: "astep M \<sigma> = Some (Next \<sigma>1) \<Longrightarrow> exec_to M \<sigma>1 out \<Longrightarrow> exec_to M \<sigma> out"

lemma exec_to_trans: "exec_to M \<sigma> (Next \<sigma>1) \<Longrightarrow> exec_to M \<sigma>1 out \<Longrightarrow> exec_to M \<sigma> out"
proof (induction \<sigma> "Next \<sigma>1" rule: exec_to.induct)
  case (go \<sigma> \<sigma>2)
  then show ?case by (blast intro: exec_to.go)
qed simp

text \<open>A level of scopes, and a store, in a state of the stack machine.\<close>

definition scope_rel :: "SmileObject option list \<Rightarrow> (Symbol \<Rightarrow> CompiledLocalSymbol option)
    \<Rightarrow> (Symbol \<Rightarrow> SmileObject option) \<Rightarrow> bool" where
  "scope_rel fr m \<rho> \<longleftrightarrow>
     (\<forall>x. case m x of None \<Rightarrow> \<rho> x = None | Some l \<Rightarrow> \<exists>v. \<rho> x = Some v \<and> aload fr (symIndex l) = Some v)"

definition srel :: "nat \<Rightarrow> scope_env \<Rightarrow> 'w Store \<Rightarrow> 'w AState \<Rightarrow> bool" where
  "srel N \<Sigma> s \<sigma> \<longleftrightarrow> length (frame \<sigma>) = N \<and> agl \<sigma> = gvars s \<and> awd \<sigma> = wd s
     \<and> list_all2 (scope_rel (frame \<sigma>)) \<Sigma> (scopes s)"

datatype 'w Out = Done scope_env "'w Store" "SmileObject list" | Exc SmileObject globals 'w

definition reach :: "'w AMachine \<Rightarrow> nat \<Rightarrow> int \<Rightarrow> int \<Rightarrow> scope_env \<Rightarrow> 'w Store \<Rightarrow> SmileObject list \<Rightarrow> 'w Out \<Rightarrow> bool" where
  "reach M N p q \<Sigma> s xs out \<longleftrightarrow>
     (\<forall>\<sigma>. pc \<sigma> = p \<and> stk \<sigma> = xs \<and> srel N \<Sigma> s \<sigma> \<longrightarrow>
        (case out of
           Done \<Sigma>' s' xs' \<Rightarrow> \<exists>\<sigma>'. exec_to M \<sigma> (Next \<sigma>') \<and> pc \<sigma>' = q \<and> stk \<sigma>' = xs' \<and> srel N \<Sigma>' s' \<sigma>'
         | Exc e g w \<Rightarrow> exec_to M \<sigma> (Raise e g w)))"

lemma reach_refl: "reach M N p p \<Sigma> s xs (Done \<Sigma> s xs)"
  by (auto simp: reach_def intro: exec_to.stop)

lemma reach_trans:
  assumes "reach M N p q \<Sigma> s xs (Done \<Sigma>' s' xs')" and "reach M N q r \<Sigma>' s' xs' out"
  shows "reach M N p r \<Sigma> s xs out"
  unfolding reach_def
proof (intro allI impI)
  fix \<sigma> assume \<sigma>: "pc \<sigma> = p \<and> stk \<sigma> = xs \<and> srel N \<Sigma> s \<sigma>"
  then obtain \<sigma>1 where 1: "exec_to M \<sigma> (Next \<sigma>1)" "pc \<sigma>1 = q" "stk \<sigma>1 = xs'" "srel N \<Sigma>' s' \<sigma>1"
    using assms(1) by (auto simp: reach_def)
  then have "case out of
           Done \<Sigma>' s' xs' \<Rightarrow> \<exists>\<sigma>'. exec_to M \<sigma>1 (Next \<sigma>') \<and> pc \<sigma>' = r \<and> stk \<sigma>' = xs' \<and> srel N \<Sigma>' s' \<sigma>'
         | Exc e g w \<Rightarrow> exec_to M \<sigma>1 (Raise e g w)"
    using assms(2) by (simp add: reach_def)
  then show "case out of
           Done \<Sigma>' s' xs' \<Rightarrow> \<exists>\<sigma>'. exec_to M \<sigma> (Next \<sigma>') \<and> pc \<sigma>' = r \<and> stk \<sigma>' = xs' \<and> srel N \<Sigma>' s' \<sigma>'
         | Exc e g w \<Rightarrow> exec_to M \<sigma> (Raise e g w)"
    using exec_to_trans [OF 1(1)] by (cases out) fastforce+
qed

lemma reach_Exc: "reach M N p q \<Sigma> s xs (Exc e g w) \<Longrightarrow> reach M N p r \<Sigma> s xs (Exc e g w)"
  by (simp add: reach_def)

lemma reach_step:
  assumes "\<And>\<sigma>. pc \<sigma> = p \<Longrightarrow> stk \<sigma> = xs \<Longrightarrow> srel N \<Sigma> s \<sigma> \<Longrightarrow>
    \<exists>\<sigma>'. astep M \<sigma> = Some (Next \<sigma>') \<and> pc \<sigma>' = q \<and> stk \<sigma>' = xs' \<and> srel N \<Sigma>' s' \<sigma>'"
  shows "reach M N p q \<Sigma> s xs (Done \<Sigma>' s' xs')"
  using assms by (fastforce simp: reach_def intro: exec_to.go exec_to.stop)

text \<open>Branches.\<close>

lemma reach_Jmp:
  "mcode M p = Some (Op_Jmp d) \<Longrightarrow> reach M N p (p + d) \<Sigma> s xs (Done \<Sigma> s xs)"
  by (rule reach_step) (simp add: astep_def srel_def)

lemma reach_Bt:
  "mcode M p = Some (Op_Bt d) \<Longrightarrow>
     reach M N p (p + (if truth v then d else 1)) \<Sigma> s (v # xs) (Done \<Sigma> s xs)"
  by (rule reach_step) (simp add: astep_def srel_def)

lemma reach_Bf:
  "mcode M p = Some (Op_Bf d) \<Longrightarrow>
     reach M N p (p + (if truth v then 1 else d)) \<Sigma> s (v # xs) (Done \<Sigma> s xs)"
  by (rule reach_step) (simp add: astep_def srel_def)

section \<open>What code does, wherever it stands\<close>

record 'w Ctx =
  cenv :: "'w Env"
  ctables :: CompiledTables
  cvars :: nat
  cscopes :: scope_env

definition hosts :: "'w AMachine \<Rightarrow> 'w Ctx \<Rightarrow> int \<Rightarrow> bool" where
  "hosts M \<Gamma> D \<longleftrightarrow> menv M = cenv \<Gamma> \<and> mtables M = ctables \<Gamma> \<and> int (cvars \<Gamma>) + D \<le> int (mcap M)"

definition leads :: "'w Ctx \<Rightarrow> code \<Rightarrow> int \<Rightarrow> 'w Store \<Rightarrow> SmileObject list \<Rightarrow> 'w Out \<Rightarrow> bool" where
  "leads \<Gamma> L D s xs out \<longleftrightarrow>
     (\<forall>M lab a. hosts M \<Gamma> D \<longrightarrow> code_at lab (mcode M) a L \<longrightarrow>
        reach M (cvars \<Gamma>) (int a) (int (a + code_size L)) (cscopes \<Gamma>) s xs out)"

lemma leadsD:
  "leads \<Gamma> L D s xs out \<Longrightarrow> hosts M \<Gamma> D \<Longrightarrow> code_at lab (mcode M) a L \<Longrightarrow> q = int a + int (code_size L) \<Longrightarrow>
     reach M (cvars \<Gamma>) (int a) q (cscopes \<Gamma>) s xs out"
  by (simp add: leads_def)

lemma leads_append:
  assumes "leads \<Gamma> L D s xs (Done (cscopes \<Gamma>) s' xs')" and "leads \<Gamma> L' D s' xs' out"
  shows "leads \<Gamma> (L @ L') D s xs out"
  unfolding leads_def
proof (intro allI impI)
  fix M lab a assume h: "hosts M \<Gamma> D" and "code_at lab (mcode M) a (L @ L')"
  then have c: "code_at lab (mcode M) a L" "code_at lab (mcode M) (a + code_size L) L'" by simp_all
  show "reach M (cvars \<Gamma>) (int a) (int (a + code_size (L @ L'))) (cscopes \<Gamma>) s xs out"
    by (rule reach_trans [OF leadsD [OF assms(1) h c(1) refl]])
      (use leadsD [OF assms(2) h c(2)] in \<open>simp add: add.assoc\<close>)
qed

lemma leads_append_Exc: "leads \<Gamma> L D s xs (Exc e g w) \<Longrightarrow> leads \<Gamma> (L @ L') D s xs (Exc e g w)"
  by (auto simp: leads_def intro: reach_Exc)

lemma leads_stack:
  assumes "aexec_stack (ctables \<Gamma>) i xs = Some xs'" and "int (length xs') \<le> D"
  shows "leads \<Gamma> [Inl (Stack i)] D s xs (Done (cscopes \<Gamma>) s xs')"
  unfolding leads_def
  by (intro allI impI reach_step) (use assms in \<open>auto simp: hosts_def astep_def with_room_def srel_def\<close>)

lemma leads_var:
  assumes "\<And>fr. list_all2 (scope_rel fr) (cscopes \<Gamma>) (scopes s) \<Longrightarrow> length fr = cvars \<Gamma> \<Longrightarrow>
      \<exists>fr'. aexec_var i fr xs (gvars s) = Some (fr', xs', gvars s') \<and> length fr' = cvars \<Gamma>
        \<and> list_all2 (scope_rel fr') (cscopes \<Gamma>) (scopes s')"
    and "wd s' = wd s" and "int (length xs') \<le> D"
  shows "leads \<Gamma> [Inl (Var i)] D s xs (Done (cscopes \<Gamma>) s' xs')"
  unfolding leads_def
proof (intro allI impI reach_step)
  fix M lab a \<sigma>
  assume h: "hosts M \<Gamma> D" "code_at lab (mcode M) a [Inl (Var i)]" "pc \<sigma> = int a" "stk \<sigma> = xs"
    "srel (cvars \<Gamma>) (cscopes \<Gamma>) s \<sigma>"
  then obtain fr' where "aexec_var i (frame \<sigma>) xs (gvars s) = Some (fr', xs', gvars s')"
      "length fr' = cvars \<Gamma>" "list_all2 (scope_rel fr') (cscopes \<Gamma>) (scopes s')"
    using assms(1) by (auto simp: srel_def)
  then show "\<exists>\<sigma>'. astep M \<sigma> = Some (Next \<sigma>') \<and> pc \<sigma>' = int (a + code_size [Inl (Var i)]) \<and> stk \<sigma>' = xs'
      \<and> srel (cvars \<Gamma>) (cscopes \<Gamma>) s' \<sigma>'"
    using h assms(2,3) by (auto simp: hosts_def astep_def with_room_def srel_def)
qed

lemma leads_object:
  assumes "aexec_object (cenv \<Gamma>) i xs (wd s) = Some (Inr xs', w)" and "int (length xs') \<le> D"
  shows "leads \<Gamma> [Inl (Object i)] D s xs (Done (cscopes \<Gamma>) (s\<lparr>wd := w\<rparr>) xs')"
  unfolding leads_def
  by (intro allI impI reach_step) (use assms in \<open>auto simp: hosts_def astep_def with_room_def srel_def\<close>)

lemma leads_object_Exc:
  assumes "aexec_object (cenv \<Gamma>) i xs (wd s) = Some (Inl e, w)"
  shows "leads \<Gamma> [Inl (Object i)] D s xs (Exc e (gvars s) w)"
  using assms by (auto simp: leads_def reach_def hosts_def astep_def srel_def intro!: exec_to.raised)


section \<open>Computations that push values\<close>

type_synonym 'w lcomp = "'w Store \<Rightarrow> ((SmileObject + SmileObject list) \<times> 'w Store) option"

definition then_l :: "'w lcomp \<Rightarrow> (SmileObject list \<Rightarrow> 'w lcomp) \<Rightarrow> 'w lcomp" where
  "then_l f g s =
     (case f s of
        None \<Rightarrow> None
      | Some (Inl e, s1) \<Rightarrow> Some (Inl e, s1)
      | Some (Inr vs, s1) \<Rightarrow> g vs s1)"

text \<open>The value of a computation on top of the values \<open>vs\<close>; it is dropped when the stack
  delta is 0.\<close>

definition pushing :: "int \<Rightarrow> 'w comp \<Rightarrow> SmileObject list \<Rightarrow> 'w lcomp" where
  "pushing d m vs s =
     (case m s of
        None \<Rightarrow> None
      | Some (Inl e, s1) \<Rightarrow> Some (Inl e, s1)
      | Some (Inr v, s1) \<Rightarrow> Some (Inr (if d = 0 then vs else v # vs), s1))"

abbreviation keep :: "int \<Rightarrow> 'w comp \<Rightarrow> 'w lcomp" where
  "keep d m \<equiv> pushing d m []"

definition out_of :: "scope_env \<Rightarrow> SmileObject list \<Rightarrow> (SmileObject + SmileObject list) \<times> 'w Store \<Rightarrow> 'w Out" where
  "out_of \<Sigma> xs r =
     (case r of (Inl e, s) \<Rightarrow> Exc e (gvars s) (wd s) | (Inr vs, s) \<Rightarrow> Done \<Sigma> s (vs @ xs))"

lemma out_of_simps [simp]:
  "out_of \<Sigma> xs (Inl e, s) = Exc e (gvars s) (wd s)" "out_of \<Sigma> xs (Inr vs, s) = Done \<Sigma> s (vs @ xs)"
  by (simp_all add: out_of_def)

definition implements :: "'w Ctx \<Rightarrow> CompiledBlock \<Rightarrow> 'w lcomp \<Rightarrow> bool" where
  "implements \<Gamma> b f \<longleftrightarrow>
     (\<forall>s r s' xs D. f s = Some (r, s') \<longrightarrow> int (length xs) + maxStackDepth b \<le> D \<longrightarrow>
        leads \<Gamma> (block_code b) D s xs (out_of (cscopes \<Gamma>) xs (r, s'))
        \<and> (\<forall>vs. r = Inr vs \<longrightarrow> int (length vs) = finalStackDelta b))"

lemma implementsD:
  assumes "implements \<Gamma> b f" and "f s = Some (r, s')" and "int (length xs) + maxStackDepth b \<le> D"
  shows "leads \<Gamma> (block_code b) D s xs (out_of (cscopes \<Gamma>) xs (r, s'))"
    and "r = Inr vs \<Longrightarrow> int (length vs) = finalStackDelta b"
  using assms by (auto simp: implements_def)

lemma implementsI:
  assumes "\<And>s r s' xs D. f s = Some (r, s') \<Longrightarrow> int (length xs) + maxStackDepth b \<le> D \<Longrightarrow>
      leads \<Gamma> (block_code b) D s xs (out_of (cscopes \<Gamma>) xs (r, s'))"
    and "\<And>s vs s'. f s = Some (Inr vs, s') \<Longrightarrow> int (length vs) = finalStackDelta b"
  shows "implements \<Gamma> b f"
  using assms by (auto simp: implements_def)

lemma implements_weaken:
  assumes "implements \<Gamma> b f" and "\<And>s r s'. f' s = Some (r, s') \<Longrightarrow> f s = Some (r, s')"
  shows "implements \<Gamma> b f'"
  unfolding implements_def using assms(1) [unfolded implements_def] assms(2) by blast

text \<open>An instruction that replaces the topmost values.\<close>

definition acts :: "'w Ctx \<Rightarrow> branch ByteCode \<Rightarrow> int \<Rightarrow> (SmileObject list \<Rightarrow> 'w lcomp) \<Rightarrow> bool" where
  "acts \<Gamma> i d act \<longleftrightarrow>
     (\<forall>vs s r s'. act vs s = Some (r, s') \<longrightarrow>
        (\<forall>us. r = Inr us \<longrightarrow> int (length us) = int (length vs) + d)
        \<and> (\<forall>xs D. (\<forall>us. r = Inr us \<longrightarrow> int (length (us @ xs)) \<le> D) \<longrightarrow>
             leads \<Gamma> [Inl (map_ByteCode snd i)] D s (vs @ xs) (out_of (cscopes \<Gamma>) xs (r, s'))))"

lemma implements_Create: "implements \<Gamma> CompiledBlock_Create (\<lambda>s. Some (Inr [], s))"
  by (auto simp: implements_def leads_def intro: reach_refl)

lemma then_l_cases:
  assumes "then_l f g s = Some (r, s')"
  obtains (raise) e where "f s = Some (Inl e, s')" "r = Inl e"
    | (step) vs s1 where "f s = Some (Inr vs, s1)" "g vs s1 = Some (r, s')"
  using assms by (auto simp: then_l_def split: option.splits sum.splits)

lemma implements_Emit:
  assumes "implements \<Gamma> b f" and "acts \<Gamma> i d act"
  shows "implements \<Gamma> (EMIT0 b i d) (then_l f act)"
proof (rule implementsI)
  fix s r s' D and xs :: "SmileObject list"
  assume r: "then_l f act s = Some (r, s')"
    and "int (length xs) + maxStackDepth (EMIT0 b i d) \<le> D"
  then have D: "int (length xs) + maxStackDepth b \<le> D" "int (length xs) + finalStackDelta b + d \<le> D" by auto
  from r show "leads \<Gamma> (block_code (EMIT0 b i d)) D s xs (out_of (cscopes \<Gamma>) xs (r, s'))"
  proof (cases rule: then_l_cases)
    case (raise e)
    then show ?thesis
      using implementsD(1) [OF assms(1) raise(1) D(1)] by (auto intro: leads_append_Exc)
  next
    case (step vs s1)
    have 1: "leads \<Gamma> (block_code b) D s xs (Done (cscopes \<Gamma>) s1 (vs @ xs))"
      using implementsD(1) [OF assms(1) step(1) D(1)] by simp
    have len: "int (length vs) = finalStackDelta b"
      using implementsD(2) [OF assms(1) step(1) order.refl refl] .
    have "\<forall>us. r = Inr us \<longrightarrow> int (length (us @ xs)) \<le> D"
      using assms(2) step(2) len D(2) by (fastforce simp: acts_def)
    then have "leads \<Gamma> [Inl (map_ByteCode snd i)] D s1 (vs @ xs) (out_of (cscopes \<Gamma>) xs (r, s'))"
      using assms(2) step(2) by (simp add: acts_def)
    then show ?thesis using leads_append [OF 1] by simp
  qed
next
  fix s vs s' assume "then_l f act s = Some (Inr vs, s')"
  then show "int (length vs) = finalStackDelta (EMIT0 b i d)"
  proof (cases rule: then_l_cases)
    case (step us s1)
    then show ?thesis
      using assms(2) implementsD(2) [OF assms(1) step(1) order.refl refl] by (fastforce simp: acts_def)
  qed simp
qed

text \<open>The values of a second computation on top of those of the first.\<close>

definition on_top :: "'w lcomp \<Rightarrow> SmileObject list \<Rightarrow> 'w lcomp" where
  "on_top g vs = then_l g (\<lambda>us s. Some (Inr (us @ vs), s))"

lemma on_top_Some:
  assumes "on_top g vs s = Some (r, s')"
  shows "\<exists>q. g s = Some (q, s') \<and> r = (case q of Inl e \<Rightarrow> Inl e | Inr us \<Rightarrow> Inr (us @ vs))"
proof (cases "g s")
  case (Some a)
  then obtain q s1 where "g s = Some (q, s1)" by (cases a) auto
  then show ?thesis using assms by (cases q) (auto simp: on_top_def then_l_def)
qed (use assms in \<open>simp add: on_top_def then_l_def\<close>)

lemma on_top_keep [simp]: "on_top (keep d m) = pushing d m"
  by (auto simp: on_top_def pushing_def then_l_def fun_eq_iff split: option.splits sum.splits)

lemma implements_append:
  assumes "implements \<Gamma> b f" and "implements \<Gamma> ch g" and "wfb b" and "wfb ch"
  shows "implements \<Gamma> (append_child b ch) (then_l f (on_top g))"
proof (rule implementsI)
  fix s r s' D and xs :: "SmileObject list"
  assume r: "then_l f (on_top g) s = Some (r, s')"
    and "int (length xs) + maxStackDepth (append_child b ch) \<le> D"
  then have D: "int (length xs) + maxStackDepth b \<le> D" "int (length xs) + finalStackDelta b + maxStackDepth ch \<le> D"
    using assms(3,4) by auto
  from r show "leads \<Gamma> (block_code (append_child b ch)) D s xs (out_of (cscopes \<Gamma>) xs (r, s'))"
  proof (cases rule: then_l_cases)
    case (raise e)
    then show ?thesis
      using implementsD(1) [OF assms(1) raise(1) D(1)] assms(3,4) by (auto intro: leads_append_Exc)
  next
    case (step vs s1)
    have 1: "leads \<Gamma> (block_code b) D s xs (Done (cscopes \<Gamma>) s1 (vs @ xs))"
      using implementsD(1) [OF assms(1) step(1) D(1)] by simp
    have len: "int (length vs) = finalStackDelta b"
      using implementsD(2) [OF assms(1) step(1) order.refl refl] .
    from step(2) obtain q where q: "g s1 = Some (q, s')" "r = (case q of Inl e \<Rightarrow> Inl e | Inr us \<Rightarrow> Inr (us @ vs))"
      using on_top_Some by blast
    have "leads \<Gamma> (block_code ch) D s1 (vs @ xs) (out_of (cscopes \<Gamma>) (vs @ xs) (q, s'))"
      by (rule implementsD(1) [OF assms(2) q(1)]) (use len D(2) in simp)
    then have "leads \<Gamma> (block_code ch) D s1 (vs @ xs) (out_of (cscopes \<Gamma>) xs (r, s'))"
      using q(2) by (cases q) simp_all
    then show ?thesis using leads_append [OF 1] assms(3,4) by simp
  qed
next
  fix s vs s' assume "then_l f (on_top g) s = Some (Inr vs, s')"
  then show "int (length vs) = finalStackDelta (append_child b ch)"
  proof (cases rule: then_l_cases)
    case (step us s1)
    then obtain ws where "g s1 = Some (Inr ws, s')" "vs = ws @ us"
      by (auto simp: on_top_def elim!: then_l_cases)
    then show ?thesis
      using assms(3,4) implementsD(2) [OF assms(1) step(1) order.refl refl]
        implementsD(2) [OF assms(2) _ order.refl refl] by fastforce
  qed simp
qed

end
