(* ===== verification/CodeRules.thy ===== *)
theory CodeRules
  imports Blocks
begin

text \<open>
  The instructions as actions on the topmost values of the stack, the laws by which chains of
  actions become computations of the reference semantics, and the variables of a chain of scopes
  in the frame of a closure.
\<close>

section \<open>Chains of computations\<close>

definition bind_value :: "'w comp \<Rightarrow> (SmileObject \<Rightarrow> 'w lcomp) \<Rightarrow> 'w lcomp" where
  "bind_value m g s =
     (case m s of
        None \<Rightarrow> None
      | Some (Inl e, s1) \<Rightarrow> Some (Inl e, s1)
      | Some (Inr v, s1) \<Rightarrow> g v s1)"

definition unary_act :: "int \<Rightarrow> (SmileObject \<Rightarrow> 'w comp) \<Rightarrow> SmileObject list \<Rightarrow> 'w lcomp" where
  "unary_act d f vs s = (case vs of v # r \<Rightarrow> pushing d (f v) r s | _ \<Rightarrow> None)"

definition binary_act :: "int \<Rightarrow> (SmileObject \<Rightarrow> SmileObject \<Rightarrow> 'w comp) \<Rightarrow> SmileObject list \<Rightarrow> 'w lcomp" where
  "binary_act d f vs s = (case vs of y # x # r \<Rightarrow> pushing d (f x y) r s | _ \<Rightarrow> None)"

text \<open>\<open>n\<close> arguments and the value below them.\<close>

definition call_act :: "nat \<Rightarrow> (SmileObject \<Rightarrow> SmileObject list \<Rightarrow> 'w comp) \<Rightarrow> SmileObject list \<Rightarrow> 'w lcomp" where
  "call_act n f vs s =
     (if n < length vs then pushing 1 (f (vs ! n) (rev (take n vs))) (drop (Suc n) vs) s else None)"

lemma chain_start: "then_l (\<lambda>s. Some (Inr [], s)) g = g []"
  by (simp add: then_l_def fun_eq_iff)

lemma chain_assoc: "then_l (then_l f g) h = then_l f (\<lambda>vs. then_l (g vs) h)"
  by (auto simp: then_l_def fun_eq_iff split: option.splits sum.splits)

lemma chain_push: "then_l (pushing 1 m vs) g = bind_value m (\<lambda>v. g (v # vs))"
  by (auto simp: then_l_def pushing_def bind_value_def fun_eq_iff split: option.splits sum.splits)

lemma chain_drop: "then_l (pushing 0 m vs) g = bind_value m (\<lambda>_. g vs)"
  by (auto simp: then_l_def pushing_def bind_value_def fun_eq_iff split: option.splits sum.splits)

lemma chain_bind: "then_l (bind_value m g) h = bind_value m (\<lambda>v. then_l (g v) h)"
  by (auto simp: then_l_def bind_value_def fun_eq_iff split: option.splits sum.splits)

lemma bind_bind: "bind_value (and_then m f) g = bind_value m (\<lambda>v. bind_value (f v) g)"
  by (auto simp: and_then_def bind_value_def fun_eq_iff split: option.splits sum.splits)

lemma pushing_and_then: "pushing d (and_then m f) vs = bind_value m (\<lambda>v. pushing d (f v) vs)"
  by (auto simp: pushing_def and_then_def bind_value_def fun_eq_iff split: option.splits sum.splits)

lemma unary_act_Cons: "unary_act d f (v # vs) = pushing d (f v) vs"
  by (simp add: unary_act_def fun_eq_iff)

lemma binary_act_Cons: "binary_act d f (y # x # vs) = pushing d (f x y) vs"
  by (simp add: binary_act_def fun_eq_iff)

lemma bind_ret: "bind_value (ret v) g = g v"
  by (simp add: bind_value_def ret_def fun_eq_iff)

lemmas chain_simps = chain_start chain_assoc chain_push chain_drop chain_bind bind_bind pushing_and_then
  unary_act_Cons binary_act_Cons bind_ret

lemma pushing_1: "d \<noteq> 0 \<Longrightarrow> pushing d m vs = pushing 1 m vs"
  by (auto simp: pushing_def fun_eq_iff split: option.splits sum.splits)

section \<open>Instructions\<close>

lemma pushing_cases:
  assumes "pushing d m vs s = Some (r, s')"
  obtains (raise) e where "m s = Some (Inl e, s')" "r = Inl e"
    | (push) v where "m s = Some (Inr v, s')" "r = Inr (if d = 0 then vs else v # vs)"
  using assms by (auto simp: pushing_def split: option.splits sum.splits)

lemma acts_push:
  assumes "\<And>st. aexec_stack (ctables \<Gamma>) i st = Some (v # st)"
  shows "acts \<Gamma> (Stack i) 1 (pushing 1 (ret v))"
  using assms by (auto simp: acts_def pushing_def ret_def intro!: leads_stack)

lemma acts_Pop1: "acts \<Gamma> (Stack Op_Pop1) (-1) (unary_act 0 ret)"
  by (auto simp: acts_def unary_act_def pushing_def ret_def intro!: leads_stack split: list.splits)

definition dup_act :: "SmileObject list \<Rightarrow> 'w lcomp" where
  "dup_act vs s = (case vs of v # r \<Rightarrow> Some (Inr (v # v # r), s) | _ \<Rightarrow> None)"

lemma acts_Dup1: "acts \<Gamma> (Stack Op_Dup1) 1 dup_act"
  by (auto simp: acts_def dup_act_def intro!: leads_stack split: list.splits)

text \<open>An object instruction, from what it does to the stack.\<close>

lemma acts_object:
  assumes "\<And>vs s r s' xs. act vs s = Some (r, s') \<Longrightarrow>
      aexec_object (cenv \<Gamma>) i (vs @ xs) (wd s) = Some (case r of Inl e \<Rightarrow> Inl e | Inr us \<Rightarrow> Inr (us @ xs), wd s')
      \<and> s' = s\<lparr>wd := wd s'\<rparr> \<and> (\<forall>us. r = Inr us \<longrightarrow> int (length us) = int (length vs) + d)"
  shows "acts \<Gamma> (Object i) d act"
  unfolding acts_def
proof (intro allI impI conjI)
  fix vs s r s' us
  assume "act vs s = Some (r, s')" "r = Inr us"
  then show "int (length us) = int (length vs) + d" using assms by blast
next
  fix vs s r s' D and xs :: "SmileObject list"
  assume a: "act vs s = Some (r, s')" and D: "\<forall>us. r = Inr us \<longrightarrow> int (length (us @ xs)) \<le> D"
  have e: "aexec_object (cenv \<Gamma>) i (vs @ xs) (wd s)
      = Some (case r of Inl e \<Rightarrow> Inl e | Inr us \<Rightarrow> Inr (us @ xs), wd s')"
    and s': "s' = s\<lparr>wd := wd s'\<rparr>" using assms [OF a] by blast+
  show "leads \<Gamma> [Inl (map_ByteCode snd (Object i))] D s (vs @ xs) (out_of (cscopes \<Gamma>) xs (r, s'))"
  proof (cases r)
    case (Inl ex)
    have "gvars s' = gvars s" by (subst s') simp
    then show ?thesis using leads_object_Exc [of \<Gamma> i "vs @ xs" s ex "wd s'"] e Inl by simp
  next
    case (Inr us)
    have "leads \<Gamma> [Inl (Object i)] D s (vs @ xs) (Done (cscopes \<Gamma>) (s\<lparr>wd := wd s'\<rparr>) (us @ xs))"
      by (rule leads_object) (use e Inr D in simp_all)
    then show ?thesis using Inr s' by simp
  qed
qed

lemma acts_method:
  assumes "\<And>st w. aexec_object (cenv \<Gamma>) i st w = acall_method (cenv \<Gamma>) n p st w"
  shows "acts \<Gamma> (Object i) (- int n) (call_act n (\<lambda>v us. call_named (cenv \<Gamma>) p (v # us)))"
proof (rule acts_object)
  fix vs s r s' and xs :: "SmileObject list"
  assume "call_act n (\<lambda>v us. call_named (cenv \<Gamma>) p (v # us)) vs s = Some (r, s')"
  then have n: "n < length vs"
    and "pushing 1 (call_named (cenv \<Gamma>) p (vs ! n # rev (take n vs))) (drop (Suc n) vs) s = Some (r, s')"
    by (auto simp: call_act_def split: if_splits)
  moreover have "rev (take (Suc n) vs) = vs ! n # rev (take n vs)"
    using n by (simp add: take_Suc_conv_app_nth)
  ultimately show "aexec_object (cenv \<Gamma>) i (vs @ xs) (wd s)
        = Some (case r of Inl e \<Rightarrow> Inl e | Inr us \<Rightarrow> Inr (us @ xs), wd s')
      \<and> s' = s\<lparr>wd := wd s'\<rparr> \<and> (\<forall>us. r = Inr us \<longrightarrow> int (length us) = int (length vs) + - int n)"
    by (auto simp: assms acall_method_def finish_call_def call_named_def perform_def
        elim!: pushing_cases split: prod.splits)
qed

lemma acts_Call: "acts \<Gamma> (Object (Op_Call (int n))) (- int n) (call_act n (call_value (cenv \<Gamma>)))"
proof (rule acts_object)
  fix vs s r s' and xs :: "SmileObject list"
  assume "call_act n (call_value (cenv \<Gamma>)) vs s = Some (r, s')"
  then have "n < length vs"
    and "pushing 1 (call_value (cenv \<Gamma>) (vs ! n) (rev (take n vs))) (drop (Suc n) vs) s = Some (r, s')"
    by (auto simp: call_act_def split: if_splits)
  then show "aexec_object (cenv \<Gamma>) (Op_Call (int n)) (vs @ xs) (wd s)
        = Some (case r of Inl e \<Rightarrow> Inl e | Inr us \<Rightarrow> Inr (us @ xs), wd s')
      \<and> s' = s\<lparr>wd := wd s'\<rparr> \<and> (\<forall>us. r = Inr us \<longrightarrow> int (length us) = int (length vs) + - int n)"
    by (auto simp: acall_function_def finish_call_def call_value_def perform_def nth_append
        elim!: pushing_cases split: prod.splits)
qed

lemma acts_StProp:
  "acts \<Gamma> (Object (Op_StProp p)) (-1) (binary_act 1 (\<lambda>t. write_property (cenv \<Gamma>) t p))"
  "acts \<Gamma> (Object (Op_StpProp p)) (-2) (binary_act 0 (\<lambda>t. write_property (cenv \<Gamma>) t p))"
  by (rule acts_object; fastforce simp: binary_act_def aset_property_def write_property_def
      elim!: pushing_cases split: list.splits prod.splits option.splits)+

lemma acts_pop_push:
  assumes "\<And>st w. aexec_object (cenv \<Gamma>) i st w = apop_push (cenv \<Gamma>) i st w"
    and "\<And>v s r s'. f v s = Some (r, s') \<Longrightarrow>
      s' = s \<and> (\<exists>u. r = Inr u \<and> short_property (cenv \<Gamma>) (wd s) i v = Some u)"
  shows "acts \<Gamma> (Object i) 0 (unary_act 1 f)"
  by (rule acts_object) (auto simp: unary_act_def assms(1) apop_push_def
      elim!: pushing_cases dest!: assms(2) split: list.splits)

lemma acts_compare:
  assumes "\<And>st w. aexec_object (cenv \<Gamma>) i st w = acompare (cenv \<Gamma>) i st w"
    and "\<And>x y. comparison (cenv \<Gamma>) i x y = Some (f x y)"
  shows "acts \<Gamma> (Object i) (-1) (binary_act 1 (\<lambda>x y. ret (BoolObj (f x y))))"
  by (rule acts_object) (auto simp: binary_act_def assms acompare_def ret_def
      elim!: pushing_cases split: list.splits)

fun binary_op :: "BinaryForm \<Rightarrow> ObjectOp" where
  "binary_op IsForm = Op_Is"
| "binary_op EqForm = Op_SuperEq"
| "binary_op NeForm = Op_SuperNe"

lemma acts_binary:
  "acts \<Gamma> (Object (binary_op b)) (-1) (binary_act 1 (\<lambda>x y. ret (binary_value (cenv \<Gamma>) b x y)))"
  by (cases b) (auto intro!: acts_compare simp: comparison_def)

lemma acts_Not: "acts \<Gamma> (Object Op_Not) 0 (unary_act 1 negate)"
  by (rule acts_pop_push) (auto simp: negate_def ret_def short_property_def split: SmileObject.splits)

lemma acts_TypeOf:
  "acts \<Gamma> (Object Op_TypeOf) 0 (unary_act 1 (\<lambda>v. ret (SymbolObj (typeOf (cenv \<Gamma>) (obj (SmileArg_Unbox v))))))"
  by (rule acts_pop_push) (auto simp: ret_def short_property_def)

lemma acts_LdProp: "acts \<Gamma> (Object (Op_LdProp p)) 0 (unary_act 1 (\<lambda>v. read_plain_property (cenv \<Gamma>) v p))"
  by (rule acts_pop_push) (auto simp: ret_def short_property_def read_plain_property_def)

lemma acts_property_load:
  "acts \<Gamma> (Object (property_load (env_symbols (cenv \<Gamma>)) p)) 0 (unary_act 1 (\<lambda>v. read_property (cenv \<Gamma>) v p))"
  by (rule acts_pop_push)
    (auto simp: property_load_def ret_def short_property_def read_property_def get_property_def Let_def
       split: SmileObject.splits)


section \<open>Variables\<close>

text \<open>Every level of scopes has its own slots, above those of the levels around it.\<close>

fun wf_scopes :: "nat \<Rightarrow> int \<Rightarrow> scope_env \<Rightarrow> bool" where
  "wf_scopes n dep [] = True"
| "wf_scopes n dep (m # \<Sigma>) =
     (\<exists>k\<le>n. wf_scopes k dep \<Sigma>
        \<and> (\<forall>x l. m x = Some l \<longrightarrow>
             symKind l = PARSEDECL_VARIABLE \<and> symDepth l = dep \<and> int k \<le> symIndex l \<and> symIndex l < int n)
        \<and> (\<forall>x y l l'. m x = Some l \<longrightarrow> m y = Some l' \<longrightarrow> symIndex l = symIndex l' \<longrightarrow> x = y))"

lemma wf_scopes_mono: "wf_scopes n dep \<Sigma> \<Longrightarrow> n \<le> n' \<Longrightarrow> wf_scopes n' dep \<Sigma>"
proof (cases \<Sigma>)
  case (Cons m \<Sigma>')
  assume "wf_scopes n dep \<Sigma>" and le: "n \<le> n'"
  then obtain k where k: "k \<le> n" "wf_scopes k dep \<Sigma>'"
      and l: "\<And>x l. m x = Some l \<Longrightarrow>
        symKind l = PARSEDECL_VARIABLE \<and> symDepth l = dep \<and> int k \<le> symIndex l \<and> symIndex l < int n"
      and u: "\<And>x y l l'. m x = Some l \<Longrightarrow> m y = Some l' \<Longrightarrow> symIndex l = symIndex l' \<Longrightarrow> x = y"
    using Cons by auto
  have "symIndex l < int n'" if "m x = Some l" for x l using l [OF that] le by simp
  then show ?thesis unfolding Cons wf_scopes.simps using k le l u by (intro exI [of _ k]) auto
qed simp

lemma wf_scopes_find:
  assumes "wf_scopes n dep \<Sigma>" and "CompileScope_FindSymbol \<Sigma> x = Some l"
  shows "symKind l = PARSEDECL_VARIABLE \<and> symDepth l = dep \<and> 0 \<le> symIndex l \<and> symIndex l < int n"
  using assms
proof (induction \<Sigma> arbitrary: n)
  case (Cons m \<Sigma>)
  from Cons.prems(1) obtain k where k: "k \<le> n" "wf_scopes k dep \<Sigma>"
      "\<And>x l. m x = Some l \<Longrightarrow>
         symKind l = PARSEDECL_VARIABLE \<and> symDepth l = dep \<and> int k \<le> symIndex l \<and> symIndex l < int n"
    by auto
  show ?case
  proof (cases "m x")
    case None
    then show ?thesis using Cons.IH [OF k(2)] Cons.prems(2) k(1) by fastforce
  next
    case (Some l')
    then show ?thesis using k(3) [of x l'] Cons.prems(2) by simp
  qed
qed simp

lemma aload_update: "aload (fr[j := v]) i = (if i = int j \<and> j < length fr then v else aload fr i)"
  by (auto simp: aload_def arr_get_def nth_list_update)

lemma scope_rel_other:
  assumes "scope_rel fr m \<rho>" and "\<And>x l. m x = Some l \<Longrightarrow> symIndex l \<noteq> int j"
  shows "scope_rel (fr[j := v]) m \<rho>"
  using assms unfolding scope_rel_def by (auto simp: aload_update split: option.splits) force

lemma scopes_above:
  assumes "wf_scopes n dep \<Sigma>" and "list_all2 (scope_rel fr) \<Sigma> \<rho>s" and "n \<le> j"
  shows "list_all2 (scope_rel (fr[j := v])) \<Sigma> \<rho>s"
  using assms
proof (induction \<Sigma> arbitrary: n \<rho>s)
  case (Cons m \<Sigma>)
  then obtain \<rho> \<rho>s' where \<rho>: "\<rho>s = \<rho> # \<rho>s'" by (cases \<rho>s) auto
  from Cons.prems(1) obtain k where k: "k \<le> n" "wf_scopes k dep \<Sigma>"
      "\<And>x l. m x = Some l \<Longrightarrow> symIndex l < int n" by auto
  have "list_all2 (scope_rel (fr[j := v])) \<Sigma> \<rho>s'"
    using Cons.IH [OF k(2)] Cons.prems(2,3) \<rho> k(1) by simp
  moreover have "scope_rel (fr[j := v]) m \<rho>"
    by (rule scope_rel_other) (use Cons.prems(2,3) \<rho> k(3) in fastforce)+
  ultimately show ?case using \<rho> by simp
qed simp

lemma find_var_rel:
  assumes "list_all2 (scope_rel fr) \<Sigma> \<rho>s"
  shows "case CompileScope_FindSymbol \<Sigma> x of
           None \<Rightarrow> find_var \<rho>s x = None
         | Some l \<Rightarrow> \<exists>v. find_var \<rho>s x = Some v \<and> aload fr (symIndex l) = Some v"
  using assms
proof (induction rule: list_all2_induct)
  case (Cons m \<Sigma> \<rho> \<rho>s)
  have "case m x of None \<Rightarrow> \<rho> x = None | Some l \<Rightarrow> \<exists>v. \<rho> x = Some v \<and> aload fr (symIndex l) = Some v"
    using Cons.hyps(1) by (simp add: scope_rel_def)
  then show ?case using Cons.IH by (cases "m x"; cases "CompileScope_FindSymbol \<Sigma> x") auto
qed simp

lemma update_var_rel:
  assumes "list_all2 (scope_rel fr) \<Sigma> \<rho>s" and "wf_scopes n dep \<Sigma>" and "n \<le> length fr"
    and "CompileScope_FindSymbol \<Sigma> x = Some l"
  shows "list_all2 (scope_rel (fr[nat (symIndex l) := Some v])) \<Sigma> (update_var \<rho>s x v)"
  using assms
proof (induction arbitrary: n rule: list_all2_induct)
  case (Cons m \<Sigma> \<rho> \<rho>s)
  from Cons.prems(1) obtain k where k: "k \<le> n" "wf_scopes k dep \<Sigma>"
      "\<And>x l. m x = Some l \<Longrightarrow> int k \<le> symIndex l \<and> symIndex l < int n"
      "\<And>x y l l'. m x = Some l \<Longrightarrow> m y = Some l' \<Longrightarrow> symIndex l = symIndex l' \<Longrightarrow> x = y"
    by auto
  have head: "case m y of None \<Rightarrow> \<rho> y = None | Some l \<Rightarrow> \<exists>v. \<rho> y = Some v \<and> aload fr (symIndex l) = Some v" for y
    using Cons.hyps(1) by (simp add: scope_rel_def)
  show ?case
  proof (cases "m x")
    case None
    then have l: "CompileScope_FindSymbol \<Sigma> x = Some l" using Cons.prems(3) by simp
    have lt: "symIndex l < int k" and ge: "0 \<le> symIndex l" using wf_scopes_find [OF k(2) l] by simp_all
    have "scope_rel (fr[nat (symIndex l) := Some v]) m \<rho>"
      by (rule scope_rel_other [OF Cons.hyps(1)]) (use k(3) lt ge in fastforce)
    moreover have "\<rho> x = None" using head [of x] None by simp
    moreover have "list_all2 (scope_rel (fr[nat (symIndex l) := Some v])) \<Sigma> (update_var \<rho>s x v)"
      using Cons.IH [OF k(2) _ l] Cons.prems(2) k(1) by simp
    ultimately show ?thesis by simp
  next
    case (Some l')
    then have l: "l' = l" using Cons.prems(3) by simp
    have r: "int k \<le> symIndex l" "symIndex l < int n" using k(3) Some l by auto
    have "list_all2 (scope_rel (fr[nat (symIndex l) := Some v])) \<Sigma> \<rho>s"
      by (rule scopes_above [OF k(2) Cons.hyps(2)]) (use r in simp)
    moreover have "\<rho> x \<noteq> None" using head [of x] Some by auto
    moreover have "scope_rel (fr[nat (symIndex l) := Some v]) m (\<rho>(x \<mapsto> v))"
      unfolding scope_rel_def
    proof
      fix y
      show "case m y of None \<Rightarrow> (\<rho>(x \<mapsto> v)) y = None
        | Some l' \<Rightarrow> \<exists>u. (\<rho>(x \<mapsto> v)) y = Some u \<and> aload (fr[nat (symIndex l) := Some v]) (symIndex l') = Some u"
      proof (cases "y = x")
        case True
        then show ?thesis using Some l r Cons.prems(2) by (simp add: aload_update nat_less_iff)
      next
        case False
        then have "m y = Some l1 \<Longrightarrow> symIndex l1 \<noteq> symIndex l" for l1 using k(4) [of y l1 x l] Some l by auto
        then show ?thesis using False head [of y] r(1) by (cases "m y") (auto simp: aload_update)
      qed
    qed
    ultimately show ?thesis by auto
  qed
qed simp

text \<open>The code of reading and writing a variable.\<close>

lemma read_var_Some: "\<exists>v. read_var k x s = Some (Inr v, s)"
  by (simp add: read_var_def ret_def)

lemma acts_read:
  fixes \<Gamma> :: "'w Ctx"
  assumes "\<And>fr (s :: 'w Store) v st. list_all2 (scope_rel fr) (cscopes \<Gamma>) (scopes s) \<Longrightarrow> read_var k x s = Some (Inr v, s) \<Longrightarrow>
      aexec_var i fr st (gvars s) = Some (fr, v # st, gvars s)"
  shows "acts \<Gamma> (Var i) 1 (pushing 1 (read_var k x))"
  unfolding acts_def
proof (intro allI impI)
  fix vs r and s s' :: "'w Store" assume a: "pushing 1 (read_var k x) vs s = Some (r, s')"
  obtain v where v: "read_var k x s = Some (Inr v, s)" using read_var_Some by blast
  then have r: "r = Inr (v # vs)" "s' = s" using a by (auto simp: pushing_def)
  have "leads \<Gamma> [Inl (Var i)] D s (vs @ xs) (Done (cscopes \<Gamma>) s (v # vs @ xs))"
    if "int (length (v # vs @ xs)) \<le> D" for D xs
    by (rule leads_var) (use assms v that in auto)
  then show "(\<forall>us. r = Inr us \<longrightarrow> int (length us) = int (length vs) + 1)
      \<and> (\<forall>xs D. (\<forall>us. r = Inr us \<longrightarrow> int (length (us @ xs)) \<le> D) \<longrightarrow>
           leads \<Gamma> [Inl (map_ByteCode snd (Var i))] D s (vs @ xs) (out_of (cscopes \<Gamma>) xs (r, s')))"
    using r by simp
qed

lemma acts_load:
  assumes "CompileScope_FindSymbol (cscopes \<Gamma>) x = Some l"
  shows "acts \<Gamma> (Var (Op_LdLocN 0 (symIndex l))) 1 (pushing 1 (read_var k x))"
proof (rule acts_read)
  fix fr s v st
  assume fr: "list_all2 (scope_rel fr) (cscopes \<Gamma>) (scopes s)" and v: "read_var k x s = Some (Inr v, s)"
  obtain u where u: "find_var (scopes s) x = Some u" "aload fr (symIndex l) = Some u"
    using find_var_rel [OF fr, of x] assms by auto
  then have "u = v" using v by (simp add: read_var_def ret_def)
  then show "aexec_var (Op_LdLocN 0 (symIndex l)) fr st (gvars s) = Some (fr, v # st, gvars s)"
    using u(2) by simp
qed

lemma acts_load_global:
  assumes "CompileScope_FindSymbol (cscopes \<Gamma>) x = None" and "\<not> constant_symbol k x"
  shows "acts \<Gamma> (Var (Op_LdX x)) 1 (pushing 1 (read_var k x))"
proof (rule acts_read)
  fix fr s v st
  assume fr: "list_all2 (scope_rel fr) (cscopes \<Gamma>) (scopes s)" and v: "read_var k x s = Some (Inr v, s)"
  have "find_var (scopes s) x = None" using find_var_rel [OF fr, of x] assms(1) by simp
  then have "v = Closure_GetGlobalVariable (gvars s) x"
    using v assms(2) by (simp add: read_var_def ret_def constant_symbol_def)
  then show "aexec_var (Op_LdX x) fr st (gvars s) = Some (fr, v # st, gvars s)" by simp
qed

text \<open>The constants among the global names.\<close>

lemma acts_load_constant:
  fixes \<Gamma> :: "'w Ctx"
  assumes "CompileScope_FindSymbol (cscopes \<Gamma>) x = None"
    and "\<And>st. aexec_stack (ctables \<Gamma>) i st = Some (v # st)"
    and "\<And>s :: 'w Store. find_var (scopes s) x = None \<Longrightarrow> read_var k x s = Some (Inr v, s)"
  shows "acts \<Gamma> (Stack i) 1 (pushing 1 (read_var k x))"
  unfolding acts_def
proof (intro allI impI)
  fix vs r and s s' :: "'w Store" assume a: "pushing 1 (read_var k x) vs s = Some (r, s')"
  obtain u where u: "read_var k x s = Some (Inr u, s)" using read_var_Some by blast
  then have r: "r = Inr (u # vs)" "s' = s" using a by (auto simp: pushing_def)
  have "leads \<Gamma> [Inl (Stack i)] D s (vs @ xs) (Done (cscopes \<Gamma>) s (u # vs @ xs))"
    if D: "int (length (u # vs @ xs)) \<le> D" for D xs
  proof (cases "find_var (scopes s) x = None")
    case True
    then have "u = v" using assms(3) u by simp
    then show ?thesis using leads_stack [OF assms(2)] D by simp
  next
    case False
    then have "\<not> srel N (cscopes \<Gamma>) s \<sigma>" for N \<sigma>
      using find_var_rel [of _ "cscopes \<Gamma>" "scopes s" x] assms(1) by (auto simp: srel_def)
    then show ?thesis by (auto simp: leads_def reach_def)
  qed
  then show "(\<forall>us. r = Inr us \<longrightarrow> int (length us) = int (length vs) + 1)
      \<and> (\<forall>xs D. (\<forall>us. r = Inr us \<longrightarrow> int (length (us @ xs)) \<le> D) \<longrightarrow>
           leads \<Gamma> [Inl (map_ByteCode snd (Stack i))] D s (vs @ xs) (out_of (cscopes \<Gamma>) xs (r, s')))"
    using r by simp
qed

text \<open>Writing: the value stays on the stack or is popped.\<close>

lemma acts_write:
  fixes \<Gamma> :: "'w Ctx"
  assumes "\<And>fr (s :: 'w Store) v st. list_all2 (scope_rel fr) (cscopes \<Gamma>) (scopes s) \<Longrightarrow> length fr = cvars \<Gamma> \<Longrightarrow>
      \<exists>fr' s'. write_var x v s = Some (Inr v, s') \<and> wd s' = wd s
        \<and> aexec_var i fr (v # st) (gvars s) = Some (fr', if d = 0 then st else v # st, gvars s')
        \<and> length fr' = cvars \<Gamma> \<and> list_all2 (scope_rel fr') (cscopes \<Gamma>) (scopes s')"
  shows "acts \<Gamma> (Var i) (if d = 0 then -1 else 0) (unary_act d (write_var x))"
  unfolding acts_def
proof (intro allI impI)
  fix vs r and s s' :: "'w Store" assume a: "unary_act d (write_var x) vs s = Some (r, s')"
  then obtain v us where vs: "vs = v # us" by (auto simp: unary_act_def split: list.splits)
  obtain s1 where s1: "write_var x v s = Some (Inr v, s1)" by (simp add: write_var_def ret_def)
  then have r: "r = Inr (if d = 0 then us else v # us)" "s' = s1"
    using a vs by (auto simp: unary_act_def pushing_def)
  have "leads \<Gamma> [Inl (Var i)] D s (v # us @ xs) (Done (cscopes \<Gamma>) s1 ((if d = 0 then us else v # us) @ xs))"
    if D: "int (length ((if d = 0 then us else v # us) @ xs)) \<le> D" for D xs
  proof (rule leads_var)
    show "wd s1 = wd s" using s1 by (auto simp: write_var_def ret_def split: if_splits)
    fix fr assume "list_all2 (scope_rel fr) (cscopes \<Gamma>) (scopes s)" "length fr = cvars \<Gamma>"
    from assms [OF this, of v "us @ xs"] show "\<exists>fr'. aexec_var i fr (v # us @ xs) (gvars s)
          = Some (fr', (if d = 0 then us else v # us) @ xs, gvars s1)
        \<and> length fr' = cvars \<Gamma> \<and> list_all2 (scope_rel fr') (cscopes \<Gamma>) (scopes s1)"
      using s1 by (cases "d = 0") auto
  qed (rule D)
  then show "(\<forall>us. r = Inr us \<longrightarrow> int (length us) = int (length vs) + (if d = 0 then -1 else 0))
      \<and> (\<forall>xs D. (\<forall>us. r = Inr us \<longrightarrow> int (length (us @ xs)) \<le> D) \<longrightarrow>
           leads \<Gamma> [Inl (map_ByteCode snd (Var i))] D s (vs @ xs) (out_of (cscopes \<Gamma>) xs (r, s')))"
    using r vs by simp
qed

lemma acts_store:
  assumes "wf_scopes n dep (cscopes \<Gamma>)" and "n \<le> cvars \<Gamma>" and "CompileScope_FindSymbol (cscopes \<Gamma>) x = Some l"
  shows "acts \<Gamma> (Var (Op_StLocN 0 (symIndex l))) 0 (unary_act 1 (write_var x))"
    and "acts \<Gamma> (Var (Op_StpLocN 0 (symIndex l))) (-1) (unary_act 0 (write_var x))"
proof -
  have range: "0 \<le> symIndex l" "symIndex l < int n" using wf_scopes_find [OF assms(1,3)] by simp_all
  have upd: "write_var x v s = Some (Inr v, s\<lparr>scopes := update_var (scopes s) x v\<rparr>)
      \<and> arr_set fr (symIndex l) (Some v) = Some (fr[nat (symIndex l) := Some v])
      \<and> list_all2 (scope_rel (fr[nat (symIndex l) := Some v])) (cscopes \<Gamma>) (update_var (scopes s) x v)"
    if fr: "list_all2 (scope_rel fr) (cscopes \<Gamma>) (scopes s)" "length fr = cvars \<Gamma>" for fr s v
  proof -
    have "find_var (scopes s) x \<noteq> None" using find_var_rel [OF fr(1), of x] assms(3) by auto
    moreover have "nat (symIndex l) < length fr" using range assms(2) fr(2) by simp
    ultimately show ?thesis
      using update_var_rel [OF fr(1) assms(1) _ assms(3)] assms(2) fr(2) range(1)
      by (auto simp: write_var_def ret_def arr_set_def)
  qed
  show "acts \<Gamma> (Var (Op_StLocN 0 (symIndex l))) 0 (unary_act 1 (write_var x))"
    using acts_write [where d = 1 and i = "Op_StLocN 0 (symIndex l)"] upd by fastforce
  show "acts \<Gamma> (Var (Op_StpLocN 0 (symIndex l))) (-1) (unary_act 0 (write_var x))"
    using acts_write [where d = 0 and i = "Op_StpLocN 0 (symIndex l)"] upd by fastforce
qed

lemma acts_store_global:
  assumes "CompileScope_FindSymbol (cscopes \<Gamma>) x = None"
  shows "acts \<Gamma> (Var (Op_StX x)) 0 (unary_act 1 (write_var x))"
    and "acts \<Gamma> (Var (Op_StpX x)) (-1) (unary_act 0 (write_var x))"
proof -
  have w: "write_var x v s = Some (Inr v, s\<lparr>gvars := Closure_SetGlobalVariable (gvars s) x v\<rparr>)"
    if "list_all2 (scope_rel fr) (cscopes \<Gamma>) (scopes s)" for fr s v
    using find_var_rel [OF that, of x] assms by (simp add: write_var_def ret_def)
  show "acts \<Gamma> (Var (Op_StX x)) 0 (unary_act 1 (write_var x))"
    using acts_write [where d = 1 and i = "Op_StX x"] w by fastforce
  show "acts \<Gamma> (Var (Op_StpX x)) (-1) (unary_act 0 (write_var x))"
    using acts_write [where d = 0 and i = "Op_StpX x"] w by fastforce
qed

end
