(* ===== verification/CompilerSteps.thy ===== *)
theory CompilerSteps
  imports CodeRules
begin

text \<open>
  What compiling an expression does to the compiler, and what it means for the block that comes out
  to be correct for a computation of the reference semantics.
\<close>

section \<open>The tables of constants\<close>

text \<open>As long as the string table has at most 16 entries and the object table at most 8, no growth
  loses an entry.\<close>

definition tables_small :: "Compiler \<Rightarrow> bool" where
  "tables_small c \<longleftrightarrow> numItems (strings c) \<le> 16 \<and> numItems (objects c) \<le> 8"

definition tables_ok :: "Compiler \<Rightarrow> bool" where
  "tables_ok c \<longleftrightarrow>
     numItems (strings c) \<le> length (items (strings c)) \<and> 16 \<le> length (items (strings c))
     \<and> numItems (objects c) \<le> length (items (objects c))
     \<and> (items (objects c) = [] \<or> 8 \<le> length (items (objects c)))
     \<and> (tables_small c \<longrightarrow> (\<forall>s i. stringLookup c s = Some i \<longrightarrow>
          (\<exists>j<numItems (strings c). i = int j \<and> items (strings c) ! j = Some s)))"

definition tables_in :: "Compiler \<Rightarrow> CompiledTables \<Rightarrow> bool" where
  "tables_in c T \<longleftrightarrow>
     tables_small c
     \<and> (\<forall>s i. stringLookup c s = Some i \<longrightarrow> arr_get (tbl_strings T) i = Some (Some s))
     \<and> (\<forall>i<numItems (objects c). arr_get (tbl_objects T) (int i) = Some (items (objects c) ! i))"

lemma tables_in_self: "tables_ok c \<Longrightarrow> tables_small c \<Longrightarrow> tables_in c (compiled_tables c)"
  by (fastforce simp: tables_ok_def tables_in_def compiled_tables_def arr_get_def)

lemma tables_ok_Create: "tables_ok (Compiler_Create k)"
  by (simp add: tables_ok_def Compiler_Create_def)

definition tables_step :: "Compiler \<Rightarrow> Compiler \<Rightarrow> bool" where
  "tables_step c c' \<longleftrightarrow> (tables_ok c \<longrightarrow> tables_ok c' \<and> (\<forall>T. tables_in c' T \<longrightarrow> tables_in c T))"

lemma tables_step_same:
  "strings c' = strings c \<Longrightarrow> objects c' = objects c \<Longrightarrow> stringLookup c' = stringLookup c \<Longrightarrow> tables_step c c'"
  by (simp add: tables_step_def tables_ok_def tables_in_def tables_small_def)

lemma tables_step_trans: "tables_step c c1 \<Longrightarrow> tables_step c1 c2 \<Longrightarrow> tables_step c c2"
  by (simp add: tables_step_def)

lemma AddString_new:
  assumes ok: "tables_ok c" and new: "stringLookup c s = None"
    and c': "c' = c\<lparr>strings := fst (table_add (strings c) s), stringLookup := (stringLookup c)(s \<mapsto> int (numItems (strings c)))\<rparr>"
  shows "tables_ok c'" and "tables_in c' T \<Longrightarrow> tables_in c T"
proof -
  let ?t = "strings c" let ?n = "numItems (strings c)"
  have n': "numItems (strings c') = ?n + 1" and o': "objects c' = objects c"
    by (simp_all add: c' table_add_def Let_def)
  have small: "tables_small c' \<Longrightarrow> tables_small c \<and> ?n < 16" using n' o' by (simp add: tables_small_def)
  have no_grow: "?n < 16 \<Longrightarrow> items (strings c') = (items ?t)[?n := Some s]"
    using ok by (simp add: c' table_add_def tables_ok_def Let_def)
  have len: "numItems (strings c') \<le> length (items (strings c')) \<and> 16 \<le> length (items (strings c'))"
    using ok by (auto simp: c' table_add_def table_grow_def tables_ok_def Let_def)
  have look: "\<exists>j<numItems (strings c'). i = int j \<and> items (strings c') ! j = Some u"
    if t: "tables_small c'" and u: "stringLookup c' u = Some i" for u i
  proof (cases "u = s")
    case True
    then show ?thesis using u n' no_grow small [OF t] ok by (auto simp: c' tables_ok_def)
  next
    case False
    then obtain j where "j < ?n" "i = int j" "items ?t ! j = Some u"
      using u ok small [OF t] by (auto simp: c' tables_ok_def)
    then show ?thesis using n' no_grow small [OF t] by (intro exI [of _ j]) simp
  qed
  show "tables_ok c'" using len look ok o' by (auto simp: tables_ok_def)
  show "tables_in c T" if "tables_in c' T"
    unfolding tables_in_def
  proof (intro conjI allI impI)
    show "tables_small c" using that small by (simp add: tables_in_def)
    show "arr_get (tbl_strings T) i = Some (Some u)" if "stringLookup c u = Some i" for u i
    proof -
      have "u \<noteq> s" using that new by auto
      then have "stringLookup c' u = Some i" using that by (simp add: c')
      then show ?thesis using \<open>tables_in c' T\<close> by (simp add: tables_in_def)
    qed
    show "\<And>i. i < numItems (objects c) \<Longrightarrow> arr_get (tbl_objects T) (int i) = Some (items (objects c) ! i)"
      using that o' by (simp add: tables_in_def)
  qed
qed

lemma AddString_step:
  assumes "Compiler_AddString c s = (c', i)"
  shows "tables_step c c'" and "tables_ok c \<Longrightarrow> tables_in c' T \<Longrightarrow> arr_get (tbl_strings T) i = Some (Some s)"
    and "c' = c\<lparr>strings := strings c', stringLookup := stringLookup c'\<rparr>"
proof -
  have "stringLookup c' s = Some i"
    using assms by (auto simp: Compiler_AddString_def table_add_def Let_def split: option.splits)
  then show "tables_ok c \<Longrightarrow> tables_in c' T \<Longrightarrow> arr_get (tbl_strings T) i = Some (Some s)"
    by (simp add: tables_in_def)
  show "c' = c\<lparr>strings := strings c', stringLookup := stringLookup c'\<rparr>"
    using assms by (auto simp: Compiler_AddString_def table_add_def Let_def split: option.splits)
  show "tables_step c c'"
  proof (cases "stringLookup c s")
    case None
    then have "c' = c\<lparr>strings := fst (table_add (strings c) s),
        stringLookup := (stringLookup c)(s \<mapsto> int (numItems (strings c)))\<rparr>"
      using assms by (auto simp: Compiler_AddString_def table_add_def Let_def)
    then show ?thesis using AddString_new [OF _ None] by (simp add: tables_step_def)
  next
    case (Some j)
    then show ?thesis using assms by (simp add: Compiler_AddString_def tables_step_def)
  qed
qed

text \<open>C40: A full table of string constants loses entries when it grows: the copy moves as many bytes as there
  are entries, so that of the old entries only the first eighth is left, while the lookup table still
  answers the positions of all of them.\<close>

theorem Compiler_AddString_growth:
  assumes "numItems (strings c) = length (items (strings c))" and "8 \<le> length (items (strings c))"
    and "stringLookup c s = None" and "Compiler_AddString c s = (c', i)"
  shows "stringLookup c' = (stringLookup c)(s \<mapsto> i)
    \<and> (\<forall>j. numItems (strings c) div 8 \<le> j \<and> j < numItems (strings c) \<longrightarrow> items (strings c') ! j = None)"
  using assms by (auto simp: Compiler_AddString_def table_add_def table_grow_def Let_def nth_append)

definition full_table :: Compiler where
  "full_table =
     (Compiler_Create \<lparr>sym_true = 101, sym_false = 102, sym_null = 103, sym_not = 104, sym_auto = 105, sym_set_once = 106,
        sym_get_member = 107, sym_a = 108, sym_d = 109, sym_start = 110, sym_end = 111, sym_count = 112, sym_length = 113\<rparr>)
     \<lparr>strings := \<lparr>items = map (\<lambda>j. Some [of_nat j]) [0..<16], numItems = 16\<rparr>,
      stringLookup := map_of (map (\<lambda>j. ([of_nat j], int j)) [0..<16])\<rparr>"

theorem Compiler_AddString_growth_witness:
  "stringLookup (fst (Compiler_AddString full_table [])) [5] = Some 5
   \<and> items (strings (fst (Compiler_AddString full_table []))) ! 5 = None"
proof -
  have full: "numItems (strings full_table) = 16" "length (items (strings full_table)) = 16" "stringLookup full_table [] = None"
    "stringLookup full_table [5] = Some 5"
    by (simp_all add: full_table_def upt_conv_Cons)
  obtain c i where c: "Compiler_AddString full_table [] = (c, i)" by fastforce
  show ?thesis using Compiler_AddString_growth [OF _ _ full(3) c] full c by auto
qed

lemma AddObject_step:
  assumes "Compiler_AddObject c x = (c', i)"
  shows "tables_step c c'" and "tables_ok c \<Longrightarrow> tables_in c' T \<Longrightarrow> arr_get (tbl_objects T) i = Some (Some x)"
    and "c' = c\<lparr>objects := objects c'\<rparr>"
proof -
  let ?t = "objects c" let ?n = "numItems (objects c)"
  have c': "c' = c\<lparr>objects := fst (table_add ?t x)\<rparr>" and i: "i = int ?n"
    using assms by (auto simp: Compiler_AddObject_def table_add_def Let_def)
  then show "c' = c\<lparr>objects := objects c'\<rparr>" by simp
  have n': "numItems (objects c') = ?n + 1" by (simp add: c' table_add_def Let_def)
  have small: "tables_small c' \<Longrightarrow> tables_small c \<and> ?n < 8" using n' by (simp add: tables_small_def c')
  have len: "numItems (objects c') \<le> length (items (objects c')) \<and> 8 \<le> length (items (objects c'))"
    if "tables_ok c"
    using that by (auto simp: c' table_add_def table_grow_def tables_ok_def Let_def)
  have entry: "items (objects c') ! ?n = Some x \<and> (\<forall>j<?n. items (objects c') ! j = items ?t ! j)"
    if "tables_ok c" "tables_small c'"
  proof (cases "items ?t = []")
    case True
    then show ?thesis using that(1) by (simp add: c' table_add_def table_grow_def tables_ok_def Let_def)
  next
    case False
    then show ?thesis using that(1) small [OF that(2)] by (simp add: c' table_add_def tables_ok_def Let_def)
  qed
  show "tables_ok c \<Longrightarrow> tables_in c' T \<Longrightarrow> arr_get (tbl_objects T) i = Some (Some x)"
    using entry n' i by (simp add: tables_in_def)
  have strs: "strings c' = strings c" "stringLookup c' = stringLookup c" by (simp_all add: c')
  have "tables_ok c'" if "tables_ok c"
    using len [OF that] that small strs unfolding tables_ok_def by (simp add: tables_small_def)
  moreover have "tables_in c T" if "tables_ok c" "tables_in c' T" for T
  proof -
    have "tables_small c'" using that(2) by (simp add: tables_in_def)
    then show ?thesis using that(2) entry [OF that(1)] small n' strs by (auto simp: tables_in_def)
  qed
  ultimately show "tables_step c c'" by (simp add: tables_step_def)
qed

section \<open>Steps of the compiler\<close>

definition extends :: "Compiler \<Rightarrow> Compiler \<Rightarrow> bool" where
  "extends c c' \<longleftrightarrow>
     known c' = known c \<and> functionDepth c' = functionDepth c \<and> messages c' = messages c
     \<and> currentScope c' = currentScope c \<and> nextLabel c \<le> nextLabel c'
     \<and> length (localNames c) \<le> length (localNames c') \<and> tables_step c c'"

definition fresh :: "Compiler \<Rightarrow> Compiler \<Rightarrow> code \<Rightarrow> bool" where
  "fresh c c' L \<longleftrightarrow> distinct (labels L) \<and> set (labels L) \<subseteq> {nextLabel c..<nextLabel c'}"

lemma extends_same [simp]: "extends c c"
  by (simp add: extends_def tables_step_same)

lemma extends_chain: "extends c c1 \<Longrightarrow> extends c1 c2 \<Longrightarrow> extends c c2"
  by (auto simp: extends_def intro: tables_step_trans)

lemma extends_label: "extends c (c\<lparr>nextLabel := m\<rparr>)" if "nextLabel c \<le> m"
  using that by (simp add: extends_def tables_step_same)

lemma fresh_Nil [simp]: "fresh c c' []" and fresh_Inl [simp]: "fresh c c' (Inl i # L) = fresh c c' L"
  by (simp_all add: fresh_def)

lemma fresh_append:
  "fresh c c1 L \<Longrightarrow> fresh c1 c2 L' \<Longrightarrow> extends c c1 \<Longrightarrow> extends c1 c2 \<Longrightarrow> fresh c c2 (L @ L')"
  by (fastforce simp: fresh_def extends_def)

lemma fresh_snoc [simp]: "fresh c c' (L @ [Inl i]) = fresh c c' L"
  by (simp add: fresh_def)

definition ready :: "'w Env \<Rightarrow> Compiler \<Rightarrow> bool" where
  "ready env c \<longleftrightarrow> known c = env_symbols env \<and> sym_get_member (env_symbols env) = sym_getMember env
     \<and> \<not> special_symbol (sym_not (env_symbols env)) \<and> tables_ok c
     \<and> wf_scopes (length (localNames c)) (functionDepth c) (currentScope c)"

lemma ready_extends: "ready env c \<Longrightarrow> extends c c' \<Longrightarrow> ready env c'"
  by (auto simp: ready_def extends_def tables_step_def intro: wf_scopes_mono)

section \<open>Correct blocks\<close>

definition ctx :: "'w Env \<Rightarrow> CompiledTables \<Rightarrow> nat \<Rightarrow> Compiler \<Rightarrow> 'w Ctx" where
  "ctx env T N c = \<lparr>cenv = env, ctables = T, cvars = N, cscopes = currentScope c\<rparr>"

lemma ctx_simps [simp]:
  "cenv (ctx env T N c) = env" "ctables (ctx env T N c) = T" "cvars (ctx env T N c) = N"
  "cscopes (ctx env T N c) = currentScope c"
  by (simp_all add: ctx_def)

definition room :: "Compiler \<Rightarrow> CompiledTables \<Rightarrow> nat \<Rightarrow> bool" where
  "room c T N \<longleftrightarrow> tables_in c T \<and> length (localNames c) \<le> N"

lemma ctx_extends: "extends c c' \<Longrightarrow> ctx env T N c' = ctx env T N c"
  by (simp add: extends_def ctx_def)

lemma room_extends: "ready env c \<Longrightarrow> extends c c' \<Longrightarrow> room c' T N \<Longrightarrow> room c T N"
  by (auto simp: room_def extends_def tables_step_def ready_def)

text \<open>The result of compiling, in a mode, an expression that stands for the computation \<open>m\<close>.\<close>

definition compiled :: "'w Env \<Rightarrow> bool \<Rightarrow> Compiler \<Rightarrow> 'w comp \<Rightarrow> CompiledBlock \<times> Compiler \<Rightarrow> bool" where
  "compiled env noResult c m r \<longleftrightarrow>
     (case r of (b, c') \<Rightarrow>
        wfb b \<and> finalStackDelta b \<in> {0, 1} \<and> (\<not> noResult \<longrightarrow> finalStackDelta b = 1)
        \<and> extends c c' \<and> fresh c c' (block_code b)
        \<and> (\<forall>T N. room c' T N \<longrightarrow> implements (ctx env T N c) b (keep (finalStackDelta b) m)))"

lemma compiledD:
  assumes "compiled env nr c m (b, c')"
  shows "wfb b" "finalStackDelta b \<in> {0, 1}" "\<not> nr \<Longrightarrow> finalStackDelta b = 1" "extends c c'"
    "fresh c c' (block_code b)"
    "room c' T N \<Longrightarrow> implements (ctx env T N c) b (keep (finalStackDelta b) m)"
  using assms by (auto simp: compiled_def)


text \<open>The same, when the block leaves exactly what is wanted.\<close>

definition matched :: "'w Env \<Rightarrow> bool \<Rightarrow> Compiler \<Rightarrow> 'w comp \<Rightarrow> CompiledBlock \<times> Compiler \<Rightarrow> bool" where
  "matched env noResult c m r \<longleftrightarrow>
     compiled env noResult c m r \<and> finalStackDelta (fst r) = (if noResult then 0 else 1)"

lemma matchedD: "matched env nr c m r \<Longrightarrow> compiled env nr c m r"
  by (simp add: matched_def)

end
