(* ===== verification/CompilerCorrect.thy ===== *)
theory CompilerCorrect
  imports CompilerSteps
begin

text \<open>
  The compiler of every form is correct when the compiler of its subexpressions is.
\<close>

section \<open>Blocks under construction\<close>

definition building :: "'w Env \<Rightarrow> Compiler \<Rightarrow> CompiledBlock \<Rightarrow> Compiler \<Rightarrow> 'w lcomp \<Rightarrow> bool" where
  "building env c b c' f \<longleftrightarrow>
     wfb b \<and> extends c c' \<and> fresh c c' (block_code b)
     \<and> (\<forall>T N. room c' T N \<longrightarrow> implements (ctx env T N c) b f)"

lemma buildingD:
  assumes "building env c b c' f"
  shows "wfb b" "extends c c'" "fresh c c' (block_code b)"
    "room c' T N \<Longrightarrow> implements (ctx env T N c) b f"
  using assms by (auto simp: building_def)

lemma building_Create: "building env c CompiledBlock_Create c (\<lambda>s. Some (Inr [], s))"
  by (simp add: building_def implements_Create)

lemma building_compiled: "compiled env nr c m (b, c') \<Longrightarrow> building env c b c' (keep (finalStackDelta b) m)"
  by (simp add: building_def compiled_def)

lemma building_child:
  assumes "ready env c" and "building env c b c1 f" and "compiled env nr c1 m (ch, c2)"
  shows "building env c (append_child b ch) c2 (then_l f (pushing (finalStackDelta ch) m))"
proof -
  note b = buildingD [OF assms(2)] and ch = compiledD [OF assms(3)]
  have ext: "extends c c2" using b(2) ch(4) by (rule extends_chain)
  have "implements (ctx env T N c) (append_child b ch) (then_l f (pushing (finalStackDelta ch) m))"
    if "room c2 T N" for T N
  proof -
    have "room c1 T N" using room_extends [OF ready_extends [OF assms(1) b(2)] ch(4) that] .
    then have "implements (ctx env T N c) b f" by (rule b(4))
    moreover have "implements (ctx env T N c) ch (keep (finalStackDelta ch) m)"
      using ch(6) [OF that] by (simp add: ctx_extends [OF b(2)])
    ultimately show ?thesis
      using implements_append [of "ctx env T N c" b f ch "keep (finalStackDelta ch) m"] b(1) ch(1) by simp
  qed
  then show ?thesis
    using b ch ext by (simp add: building_def fresh_append)
qed

lemma building_emit:
  assumes "building env c b c' f" and "\<And>T N. room c' T N \<Longrightarrow> acts (ctx env T N c) i d act"
  shows "building env c (EMIT0 b i d) c' (then_l f act)"
  using assms by (auto simp: building_def implements_Emit)

lemma building_act:
  assumes "building env c b c' f" and "\<And>\<Gamma>. cenv \<Gamma> = env \<Longrightarrow> acts \<Gamma> i d act"
  shows "building env c (EMIT0 b i d) c' (then_l f act)"
  using assms by (auto intro: building_emit)

lemma acts_env:
  assumes "cenv \<Gamma> = env"
  shows "acts \<Gamma> (Object (Op_StProp p)) (-1) (binary_act 1 (\<lambda>t. write_property env t p))"
    and "acts \<Gamma> (Object (Op_StpProp p)) (-2) (binary_act 0 (\<lambda>t. write_property env t p))"
    and "acts \<Gamma> (Object (Op_LdProp p)) 0 (unary_act 1 (\<lambda>v. read_plain_property env v p))"
    and "acts \<Gamma> (Object (property_load (env_symbols env) p)) 0 (unary_act 1 (\<lambda>v. read_property env v p))"
    and "acts \<Gamma> (Object (Op_Call (int n))) (- int n) (call_act n (call_value env))"
    and "acts \<Gamma> (Object (Op_MetN (int n) p)) (- int n) (call_act n (\<lambda>v us. call_named env p (v # us)))"
    and "acts \<Gamma> (Object (Op_Met (int n) p)) (- int n) (call_act n (\<lambda>v us. call_named env p (v # us)))"
    and "acts \<Gamma> (Object Op_LdMember) (-1) (call_act 1 (\<lambda>v us. call_named env (sym_getMember env) (v # us)))"
    and "acts \<Gamma> (Object (binary_op b)) (-1) (binary_act 1 (\<lambda>x y. ret (binary_value env b x y)))"
    and "acts \<Gamma> (Object Op_TypeOf) 0 (unary_act 1 (\<lambda>v. ret (SymbolObj (typeOf env (obj (SmileArg_Unbox v))))))"
  using assms acts_StProp [of \<Gamma> p] acts_LdProp [of \<Gamma> p] acts_property_load [of \<Gamma> p] acts_Call [of \<Gamma> n]
    acts_method [of \<Gamma> "Op_MetN (int n) p" n p] acts_method [of \<Gamma> "Op_Met (int n) p" n p]
    acts_method [of \<Gamma> Op_LdMember 1 "sym_getMember env"] acts_binary [of \<Gamma> b] acts_TypeOf [of \<Gamma>]
  by simp_all

lemma compiledI:
  assumes "building env c b c' f" and "f = keep (finalStackDelta b) m" and "finalStackDelta b = (if nr then 0 else 1)"
  shows "compiled env nr c m (b, c')"
  using assms by (auto simp: compiled_def building_def)

lemma matchedI:
  assumes "building env c b c' f" and "f = keep (finalStackDelta b) m" and "finalStackDelta b = (if nr then 0 else 1)"
  shows "matched env nr c m (b, c')"
  using compiledI [OF assms] assms(3) by (simp add: matched_def)

text \<open>Matching the stack to what is wanted.\<close>

lemma compiled_no_result:
  assumes "compiled env nr c m (b, c')"
  shows "compiled env True c m (Compiler_EmitNoResult b, c')" and "finalStackDelta (Compiler_EmitNoResult b) = 0"
proof -
  note b = compiledD [OF assms]
  show "finalStackDelta (Compiler_EmitNoResult b) = 0"
    using b(1,2) by (auto simp: Compiler_EmitNoResult_def wfb_def)
  show "compiled env True c m (Compiler_EmitNoResult b, c')"
  proof (cases "finalStackDelta b = 0")
    case True
    then show ?thesis using assms by (simp add: Compiler_EmitNoResult_def compiled_def)
  next
    case False
    then have d: "finalStackDelta b = 1" using b(2) by simp
    have "building env c (EMIT0 b (Stack Op_Pop1) (-1)) c' (then_l (keep 1 m) (unary_act 0 ret))"
      using building_emit [OF building_compiled [OF assms] acts_Pop1] d by simp
    moreover have "then_l (keep 1 m) (unary_act 0 ret) = keep 0 m"
      by (simp add: chain_simps) (auto simp: bind_value_def pushing_def ret_def fun_eq_iff split: option.splits sum.splits)
    ultimately show ?thesis
      using d b(1) by (auto simp: Compiler_EmitNoResult_def wfb_def intro!: compiledI)
  qed
qed

lemma require_result_id [simp]: "finalStackDelta b \<noteq> 0 \<Longrightarrow> Compiler_EmitRequireResult b = b"
  by (simp add: Compiler_EmitRequireResult_def)

lemma compiled_match:
  assumes "compiled env nr c m (b, c')"
  shows "compiled env nr c m (Compiler_MakeStackMatchCompileFlags b nr, c')"
    and "finalStackDelta (Compiler_MakeStackMatchCompileFlags b nr) = (if nr then 0 else 1)"
  using compiled_no_result [OF assms] assms compiledD(3) [OF assms]
  by (auto simp: Compiler_MakeStackMatchCompileFlags_def compiled_def)

lemma and_then_assoc: "and_then (and_then m f) g = and_then m (\<lambda>v. and_then (f v) g)"
  by (auto simp: and_then_def fun_eq_iff split: option.splits sum.splits)

section \<open>Straight-line forms\<close>

definition handles :: "'w Env \<Rightarrow> compile \<Rightarrow> bool \<Rightarrow> SmileObject \<Rightarrow> 'w comp \<Rightarrow> bool" where
  "handles env rec nr x m \<longleftrightarrow> (\<forall>c. ready env c \<longrightarrow> compiled env nr c m (rec c x nr))"

lemma handlesE:
  assumes "handles env rec nr x m" and "ready env c"
  obtains b c' where "rec c x nr = (b, c')" "compiled env nr c m (b, c')" "extends c c'" "ready env c'"
proof -
  obtain b c' where r: "rec c x nr = (b, c')" by fastforce
  then have k: "compiled env nr c m (b, c')" using assms by (metis handles_def)
  then show thesis using that [OF r k] compiledD(4) [OF k] ready_extends [OF assms(2)] by blast
qed

text \<open>A value pushed by one instruction, or nothing.\<close>

lemma compiled_none:
  assumes "\<And>s. \<exists>v. m s = Some (Inr v, s)"
  shows "compiled env True c m (CompiledBlock_Create, c)"
proof -
  have "m s = Some (r, s') \<Longrightarrow> \<exists>v. r = Inr v \<and> s' = s" for s r s' using assms [of s] by auto
  then have "implements \<Gamma> CompiledBlock_Create (keep 0 m)" for \<Gamma>
    by (intro implements_weaken [OF implements_Create]) (auto elim!: pushing_cases)
  then show ?thesis by (simp add: compiled_def)
qed

lemma compiled_emit:
  assumes "extends c c'" and "\<And>T N. room c' T N \<Longrightarrow> acts (ctx env T N c) i 1 (pushing 1 m)"
  shows "compiled env False c m (EMIT0 CompiledBlock_Create i 1, c')"
proof -
  have "building env c CompiledBlock_Create c' (\<lambda>s. Some (Inr [], s))"
    using assms(1) by (simp add: building_def implements_Create)
  then show ?thesis
    using building_emit [OF _ assms(2)] by (auto simp: chain_simps intro!: compiledI)
qed

lemma compiled_push:
  assumes "\<And>T N. room c T N \<Longrightarrow> acts (ctx env T N c) i 1 (pushing 1 m)"
    and "\<And>s. \<exists>v. m s = Some (Inr v, s)"
  shows "matched env nr c m (if nr then CompiledBlock_Create else EMIT0 CompiledBlock_Create i 1, c)"
  using compiled_none [OF assms(2)] compiled_emit [OF extends_same assms(1)] by (simp add: matched_def)

lemma ret_value: "\<exists>u. ret v s = Some (Inr u, s)"
  by (simp add: ret_def)

lemma compiled_one:
  assumes "ready env c" and "handles env rec nr x m"
    and "\<And>\<Gamma>. cenv \<Gamma> = env \<Longrightarrow> acts \<Gamma> (Object i) 0 (unary_act 1 f)"
    and "\<And>v s r s'. f v s = Some (r, s') \<Longrightarrow> \<exists>u. r = Inr u \<and> s' = s"
  shows "matched env nr c (and_then m f) (Compiler_CompileOneArgument rec c (list_of [x]) nr name i)"
proof -
  obtain b c' where r: "rec c x nr = (b, c')" "compiled env nr c m (b, c')" "extends c c'" "ready env c'"
    using handlesE [OF assms(2,1)] .
  let ?b = "Compiler_MakeStackMatchCompileFlags b nr"
  note k = compiled_match [OF r(2)]
  have bc: "building env c (append_child CompiledBlock_Create ?b) c' (pushing (if nr then 0 else 1) m [])"
    using building_child [OF assms(1) building_Create k(1)] k(2) by (simp add: chain_simps)
  show ?thesis
  proof (cases nr)
    case True
    have "building env c (append_child CompiledBlock_Create ?b) c' (keep 0 (and_then m f))"
      unfolding building_def
    proof (intro conjI allI impI)
      fix T N assume "room c' T N"
      then have "implements (ctx env T N c) (append_child CompiledBlock_Create ?b) (keep 0 m)"
        using buildingD(4) [OF bc] True by simp
      then show "implements (ctx env T N c) (append_child CompiledBlock_Create ?b) (keep 0 (and_then m f))"
        by (rule implements_weaken)
          (auto simp: and_then_def pushing_def dest!: assms(4) split: option.splits sum.splits)
    qed (use buildingD [OF bc] in auto)
    then show ?thesis
      using True r(1) k(2) compiledD(1) [OF k(1)]
      by (auto simp: Compiler_CompileOneArgument_def case_prod_beta Let_def intro!: matchedI)
  next
    case False
    have "building env c (EMIT0 (append_child CompiledBlock_Create ?b) (Object i) 0) c'
        (then_l (keep 1 m) (unary_act 1 f))"
      using building_emit [OF bc assms(3)] False by simp
    then show ?thesis
      using False r(1) k(2) compiledD(1) [OF k(1)]
      by (auto simp: Compiler_CompileOneArgument_def case_prod_beta Let_def chain_simps intro!: matchedI)
  qed
qed


lemma compiled_load:
  assumes "ready env c"
  shows "matched env nr c (read_var (env_symbols env) x) (Compiler_CompileLoadVariable c x nr)"
proof -
  let ?k = "env_symbols env"
  have k: "known c = ?k" using assms by (simp add: ready_def)
  show ?thesis
  proof (cases "CompileScope_FindSymbol (currentScope c) x")
    case None
    let ?i = "if x = sym_true ?k then Stack (Op_LdBool True) else if x = sym_false ?k then Stack (Op_LdBool False)
      else if x = sym_null ?k then Stack Op_LdNull else Var (Op_LdX x) :: branch ByteCode"
    have "acts (ctx env T N c) ?i 1 (pushing 1 (read_var ?k x))" for T N
      using None
      by (auto intro!: acts_load_constant acts_load_global simp: read_var_def ret_def constant_symbol_def)
    then have "matched env nr c (read_var ?k x)
        (if nr then CompiledBlock_Create else EMIT0 CompiledBlock_Create ?i 1, c)"
      by (intro compiled_push read_var_Some)
    then show ?thesis
      by (simp only: Compiler_CompileLoadVariable_def None option.case Compiler_CompileLoadGlobalVariable_def k)
  next
    case (Some l)
    have l: "symKind l = PARSEDECL_VARIABLE" "symDepth l = functionDepth c"
      using wf_scopes_find [OF _ Some] assms by (auto simp: ready_def)
    have "matched env nr c (read_var ?k x)
        (if nr then CompiledBlock_Create else EMIT0 CompiledBlock_Create (Var (Op_LdLocN 0 (symIndex l))) 1, c)"
      by (intro compiled_push read_var_Some acts_load) (simp add: Some)
    then show ?thesis
      using Some l by (cases nr) (simp_all add: Compiler_CompileLoadVariable_def Compiler_CompileLoadLocalVariable_def)
  qed
qed

lemma compiled_store:
  assumes "ready env c" and "building env c b c' (keep 1 m)" and "finalStackDelta b = 1"
    and "\<not> constant_symbol (known c) x"
  shows "matched env nr c (and_then m (write_var x)) (Compiler_CompileStoreVariable c' x nr b)"
proof -
  have ext: "extends c c'" using buildingD(2) [OF assms(2)] .
  have rdy: "ready env c'" using ready_extends [OF assms(1) ext] .
  have sc: "currentScope c' = currentScope c" and k: "known c' = known c" using ext by (auto simp: extends_def)
  have result: "matched env nr c (and_then m (write_var x)) (if nr then EMIT0 b i (-1) else EMIT0 b j 0, c')"
    if "\<And>T N. room c' T N \<Longrightarrow> acts (ctx env T N c) i (-1) (unary_act 0 (write_var x))"
      and "\<And>T N. room c' T N \<Longrightarrow> acts (ctx env T N c) j 0 (unary_act 1 (write_var x))" for i j
    using building_emit [OF assms(2) that(1)] building_emit [OF assms(2) that(2)] assms(3)
    by (auto simp: chain_simps intro!: matchedI)
  show ?thesis
  proof (cases "CompileScope_FindSymbol (currentScope c) x")
    case None
    have "matched env nr c (and_then m (write_var x))
        (if nr then EMIT0 b (Var (Op_StpX x)) (-1) else EMIT0 b (Var (Op_StX x)) 0, c')"
      by (rule result) (simp_all add: acts_store_global None)
    then show ?thesis
      using None sc k assms(4)
      by (cases nr) (simp_all add: Compiler_CompileStoreVariable_def Compiler_CompileStoreGlobalVariable_def
          constant_symbol_def)
  next
    case (Some l)
    have wf: "wf_scopes (length (localNames c')) (functionDepth c') (currentScope c)"
      using rdy sc by (simp add: ready_def)
    have l: "symKind l = PARSEDECL_VARIABLE" "symDepth l = functionDepth c'"
      using wf_scopes_find [OF wf Some] by auto
    have "matched env nr c (and_then m (write_var x))
        (if nr then EMIT0 b (Var (Op_StpLocN 0 (symIndex l))) (-1)
         else EMIT0 b (Var (Op_StLocN 0 (symIndex l))) 0, c')"
      by (rule result; rule acts_store) (use wf Some in \<open>auto simp: room_def\<close>)
    then show ?thesis
      using Some sc l
      by (cases nr) (simp_all add: Compiler_CompileStoreVariable_def Compiler_CompileStoreLocalVariable_def)
  qed
qed

text \<open>One and two operands on the stack.\<close>

lemma operand:
  assumes "ready env c" and "handles env rec False x m"
  obtains b c' where "rec c x False = (b, c')" "wfb b" "finalStackDelta b = 1" "extends c c'" "ready env c'"
    "building env c (append_child CompiledBlock_Create b) c' (keep 1 m)"
    "finalStackDelta (append_child CompiledBlock_Create b) = 1"
    "wfb (append_child CompiledBlock_Create b)"
proof -
  obtain b c' where r: "rec c x False = (b, c')" "compiled env False c m (b, c')" "extends c c'" "ready env c'"
    using handlesE [OF assms(2,1)] .
  note k = compiledD [OF r(2)]
  have "building env c (append_child CompiledBlock_Create b) c' (keep 1 m)"
    using building_child [OF assms(1) building_Create r(2)] k(3) by (simp add: chain_simps)
  then show thesis using that r k(1,3) by simp
qed

lemma next_operand:
  assumes "ready env c" and "building env c b c1 f" and "handles env rec False x m"
  obtains b' c' where "rec c1 x False = (b', c')" "wfb b'" "finalStackDelta b' = 1" "extends c c'" "ready env c'"
    "building env c (append_child b b') c' (then_l f (pushing 1 m))"
    "finalStackDelta (append_child b b') = finalStackDelta b + 1" "wfb (append_child b b')"
proof -
  note b = buildingD [OF assms(2)]
  obtain b' c' where r: "rec c1 x False = (b', c')" "compiled env False c1 m (b', c')" "extends c1 c'" "ready env c'"
    using handlesE [OF assms(3) ready_extends [OF assms(1) b(2)]] .
  note k = compiledD [OF r(2)]
  have "building env c (append_child b b') c' (then_l f (pushing 1 m))"
    using building_child [OF assms(1,2) r(2)] k(3) by simp
  then show thesis using that r k(1,3) b(1) extends_chain [OF b(2) r(3)] by simp
qed

lemma compiled_SetSymbol:
  assumes "ready env c" and "handles env rec False x m" and "\<not> constant_symbol (known c) p"
  shows "matched env nr c (and_then m (write_var p)) (Compiler_CompileSetSymbol rec c p x nr)"
proof -
  obtain b c' where b: "rec c x False = (b, c')" "wfb b" "finalStackDelta b = 1" "extends c c'" "ready env c'"
      "building env c (append_child CompiledBlock_Create b) c' (keep 1 m)"
      "finalStackDelta (append_child CompiledBlock_Create b) = 1" "wfb (append_child CompiledBlock_Create b)"
    using operand [OF assms(1,2)] .
  then show ?thesis
    using compiled_store [OF assms(1) b(6,7) assms(3)] by (simp add: Compiler_CompileSetSymbol_def require_child_def)
qed

text \<open>Two operands after each other.\<close>

lemma two_operands:
  assumes "ready env c" and "handles env rec False x m1" and "handles env rec False y m2"
  obtains b1 c1 b2 c2 where "rec c x False = (b1, c1)" "rec c1 y False = (b2, c2)"
    "finalStackDelta b1 = 1" "finalStackDelta b2 = 1" "wfb b1" "wfb b2" "extends c c2" "ready env c2"
    "finalStackDelta (append_child CompiledBlock_Create b1) = 1"
    "building env c (append_child (append_child CompiledBlock_Create b1) b2) c2 (then_l (keep 1 m1) (pushing 1 m2))"
    "finalStackDelta (append_child (append_child CompiledBlock_Create b1) b2) = 2"
proof -
  obtain b1 c1 where 1: "rec c x False = (b1, c1)" "wfb b1" "finalStackDelta b1 = 1" "extends c c1" "ready env c1"
      "building env c (append_child CompiledBlock_Create b1) c1 (keep 1 m1)"
      "finalStackDelta (append_child CompiledBlock_Create b1) = 1" "wfb (append_child CompiledBlock_Create b1)"
    using operand [OF assms(1,2)] .
  obtain b2 c2 where 2: "rec c1 y False = (b2, c2)" "wfb b2" "finalStackDelta b2 = 1" "extends c c2" "ready env c2"
      "building env c (append_child (append_child CompiledBlock_Create b1) b2) c2 (then_l (keep 1 m1) (pushing 1 m2))"
      "finalStackDelta (append_child (append_child CompiledBlock_Create b1) b2)
         = finalStackDelta (append_child CompiledBlock_Create b1) + 1"
      "wfb (append_child (append_child CompiledBlock_Create b1) b2)"
    using next_operand [OF assms(1) 1(6) assms(3)] .
  show thesis using that [OF 1(1) 2(1) 1(3) 2(3) 1(2) 2(2) 2(4,5) 1(7) 2(6)] 1(7) 2(7) by simp
qed

lemma compiled_SetProperty:
  assumes "ready env c" and "handles env rec False x m1" and "handles env rec False y m2"
  shows "matched env nr c (and_then m1 (\<lambda>v. and_then m2 (write_property env v p)))
           (Compiler_CompileSetProperty rec c (list_of [x, SymbolObj p]) y nr)"
proof -
  obtain b1 c1 b2 c2 where 2: "rec c x False = (b1, c1)" "rec c1 y False = (b2, c2)"
      "finalStackDelta b1 = 1" "finalStackDelta b2 = 1" "wfb b1" "wfb b2" "extends c c2" "ready env c2"
      "finalStackDelta (append_child CompiledBlock_Create b1) = 1"
      "building env c (append_child (append_child CompiledBlock_Create b1) b2) c2 (then_l (keep 1 m1) (pushing 1 m2))"
      "finalStackDelta (append_child (append_child CompiledBlock_Create b1) b2) = 2"
    using two_operands [OF assms] .
  let ?b = "append_child (append_child CompiledBlock_Create b1) b2"
  have "matched env nr c (and_then m1 (\<lambda>v. and_then m2 (write_property env v p)))
      (if nr then EMIT0 ?b (Object (Op_StpProp p)) (-2) else EMIT0 ?b (Object (Op_StProp p)) (-1), c2)"
    using building_act [OF 2(10) acts_env(1)] building_act [OF 2(10) acts_env(2)] 2(11)
    by (auto simp: chain_simps intro!: matchedI)
  then show ?thesis
    using 2(1-4) by (cases nr) (simp_all add: Compiler_CompileSetProperty_def require_child_def Let_def)
qed

lemma call_act_1: "call_act 1 f (u # v # vs) = pushing 1 (f v [u]) vs"
  by (simp add: call_act_def fun_eq_iff)

text \<open>A call whose result may not be wanted.\<close>

lemma compiled_pop_if:
  assumes "building env c b c' (keep 1 m)" and "finalStackDelta b = 1"
  shows "matched env nr c m (Compiler_PopIfNecessary b nr, c')"
proof -
  have k: "compiled env False c m (b, c')" using assms by (auto intro!: compiledI)
  show ?thesis
    using k compiled_no_result(1) [OF k] assms(2) compiledD(1) [OF k]
    by (cases nr) (auto simp: Compiler_PopIfNecessary_def Compiler_EmitNoResult_def wfb_def matched_def)
qed

lemma compiled_LoadMember:
  assumes "ready env c" and "handles env rec False x m1" and "handles env rec False y m2"
  shows "matched env nr c (and_then m1 (\<lambda>v. and_then m2 (\<lambda>u. call_named env (sym_getMember env) [v, u])))
           (Compiler_CompileLoadMember rec c (list_of [x, y]) nr)"
proof -
  obtain b1 c1 b2 c2 where 2: "rec c x False = (b1, c1)" "rec c1 y False = (b2, c2)"
      "finalStackDelta b1 = 1" "finalStackDelta b2 = 1" "wfb b1" "wfb b2" "extends c c2" "ready env c2"
      "finalStackDelta (append_child CompiledBlock_Create b1) = 1"
      "building env c (append_child (append_child CompiledBlock_Create b1) b2) c2 (then_l (keep 1 m1) (pushing 1 m2))"
      "finalStackDelta (append_child (append_child CompiledBlock_Create b1) b2) = 2"
    using two_operands [OF assms] .
  let ?b = "append_child (append_child CompiledBlock_Create b1) b2"
  have "building env c (EMIT0 ?b (Object Op_LdMember) (-1)) c2
      (keep 1 (and_then m1 (\<lambda>v. and_then m2 (\<lambda>u. call_named env (sym_getMember env) [v, u]))))"
    using building_act [OF 2(10) acts_env(8)] by (simp add: chain_simps call_act_1 [unfolded One_nat_def] call_act_1)
  from compiled_pop_if [OF this, of nr] 2(11) show ?thesis
    using 2(1,2,3,9,11)
    by (cases nr) (simp_all add: Compiler_CompileLoadMember_def Compiler_ValidateIndexArgs_def
        Compiler_PopIfNecessary_def Let_def)
qed

lemma pushing_pure: "(\<And>s. \<exists>u. m s = Some (Inr u, s)) \<Longrightarrow> pushing 0 m vs = (\<lambda>s. Some (Inr vs, s))"
  by (auto simp: pushing_def fun_eq_iff split: option.splits sum.splits) (metis option.inject prod.inject sum.distinct(1) option.distinct(1))+

lemma read_property_value: "\<exists>u. read_property env v p s = Some (Inr u, s)"
  by (simp add: read_property_def ret_def)

lemma compiled_LoadProperty:
  assumes "ready env c" and "handles env rec False x m"
  shows "matched env nr c (and_then m (\<lambda>v. read_property env v p))
           (Compiler_CompileLoadProperty rec c (list_of [x, SymbolObj p]) nr)"
proof -
  obtain b c' where b: "rec c x False = (b, c')" "wfb b" "finalStackDelta b = 1" "extends c c'" "ready env c'"
      "building env c (append_child CompiledBlock_Create b) c' (keep 1 m)"
      "finalStackDelta (append_child CompiledBlock_Create b) = 1" "wfb (append_child CompiledBlock_Create b)"
    using operand [OF assms] .
  let ?b = "append_child CompiledBlock_Create b"
  have load: "matched env False c (and_then m (\<lambda>v. read_property env v p))
      (EMIT0 ?b (Object (property_load (env_symbols env) p)) 0, c')"
    using building_act [OF b(6) acts_env(4)] b(7) by (auto simp: chain_simps intro!: matchedI)
  have pop: "building env c (EMIT0 ?b (Stack Op_Pop1) (-1)) c' (keep 0 (and_then m (\<lambda>v. read_property env v p)))"
    using building_act [OF b(6) acts_Pop1]
    by (simp add: chain_simps pushing_pure read_property_value ret_value)
  have "known c = env_symbols env" using assms(1) by (simp add: ready_def)
  then show ?thesis
    using load pop b(1,7)
    by (cases nr) (auto simp: Compiler_CompileLoadProperty_def Compiler_ValidateDotArgs_def Let_def intro!: matchedI)
qed


lemma attach_match:
  assumes "wfb ch" and "finalStackDelta ch = (if nr then 0 else 1)"
  shows "attach_then_match b ch nr = append_child b ch"
proof -
  have "Compiler_MakeStackMatchCompileFlags ch nr = ch"
    using assms by (simp add: Compiler_MakeStackMatchCompileFlags_def Compiler_EmitNoResult_def)
  then show ?thesis
    by (cases b) (auto simp: attach_then_match_def CompiledBlock_AppendChild_def block_last_def Let_def)
qed

definition exact :: "'w Env \<Rightarrow> compile \<Rightarrow> bool \<Rightarrow> SmileObject \<Rightarrow> bool" where
  "exact env rec nr x \<longleftrightarrow>
     (\<forall>c. ready env c \<longrightarrow> finalStackDelta (fst (rec c x nr)) = (if nr then 0 else 1))"

lemma compiled_two:
  assumes "ready env c" and "handles env rec nr x m1" and "handles env rec nr y m2"
    and "exact env rec nr x" and "exact env rec nr y"
  shows "compiled env nr c (and_then m1 (\<lambda>v. and_then m2 (\<lambda>u. ret (binary_value env f v u))))
           (Compiler_CompileTwoArguments rec c (list_of [x, y]) nr name (binary_op f))"
    and "finalStackDelta (fst (Compiler_CompileTwoArguments rec c (list_of [x, y]) nr name (binary_op f)))
           = (if nr then 0 else 1)"
proof -
  obtain b1 c1 where 1: "rec c x nr = (b1, c1)" "compiled env nr c m1 (b1, c1)" "extends c c1" "ready env c1"
    using handlesE [OF assms(2,1)] .
  obtain b2 c2 where 2: "rec c1 y nr = (b2, c2)" "compiled env nr c1 m2 (b2, c2)" "extends c1 c2" "ready env c2"
    using handlesE [OF assms(3) 1(4)] .
  have d: "finalStackDelta b1 = (if nr then 0 else 1)" "finalStackDelta b2 = (if nr then 0 else 1)"
    using assms(1,4,5) 1(1,4) 2(1) by (metis exact_def fst_conv)+
  note k1 = compiledD [OF 1(2)] and k2 = compiledD [OF 2(2)]
  let ?b = "append_child (append_child CompiledBlock_Create b1) b2"
  have bb: "building env c ?b c2 (then_l (pushing (finalStackDelta b1) m1 []) (pushing (finalStackDelta b2) m2))"
    using building_child [OF assms(1) building_child [OF assms(1) building_Create 1(2)] 2(2)]
    by (simp add: chain_start)
  have "compiled env nr c (and_then m1 (\<lambda>v. and_then m2 (\<lambda>u. ret (binary_value env f v u))))
      (if nr then ?b else EMIT0 ?b (Object (binary_op f)) (-1), c2)"
  proof (cases nr)
    case True
    then show ?thesis
      using bb d k1(1) k2(1)
      by (auto simp: chain_simps pushing_pure ret_value bind_value_def pushing_def fun_eq_iff
          split: option.splits sum.splits intro!: compiledI)
  next
    case False
    then have "building env c ?b c2 (then_l (keep 1 m1) (pushing 1 m2))" using bb d by simp
    then have "building env c (EMIT0 ?b (Object (binary_op f)) (-1)) c2
        (then_l (then_l (keep 1 m1) (pushing 1 m2)) (binary_act 1 (\<lambda>x y. ret (binary_value env f x y))))"
      by (intro building_act acts_env(9))
    then show ?thesis
      using False d k1(1) k2(1)
      by (auto simp: chain_simps intro!: compiledI)
  qed
  moreover have code: "Compiler_CompileTwoArguments rec c (list_of [x, y]) nr name (binary_op f)
      = (if nr then ?b else EMIT0 ?b (Object (binary_op f)) (-1), c2)"
    using 1(1) 2(1) d k1(1) k2(1) by (simp add: Compiler_CompileTwoArguments_def attach_match)
  ultimately show "compiled env nr c (and_then m1 (\<lambda>v. and_then m2 (\<lambda>u. ret (binary_value env f v u))))
      (Compiler_CompileTwoArguments rec c (list_of [x, y]) nr name (binary_op f))" by simp
  show "finalStackDelta (fst (Compiler_CompileTwoArguments rec c (list_of [x, y]) nr name (binary_op f)))
      = (if nr then 0 else 1)"
    using code d k1(1) k2(1) by simp
qed

lemma compiled_OpEqualsSymbol:
  assumes "ready env c" and "handles env rec False y m" and "\<not> constant_symbol (known c) p"
  shows "matched env nr c
      (and_then (read_var (env_symbols env) p) (\<lambda>v.
         and_then m (\<lambda>u. and_then (call_named env op [v, u]) (write_var p))))
      (Compiler_CompileOpEqualsSymbol rec c op p y nr)"
proof -
  obtain b1 c1 where r1: "Compiler_CompileLoadVariable c p False = (b1, c1)" by fastforce
  have k1: "compiled env False c (read_var (env_symbols env) p) (b1, c1)"
    using compiled_load [OF assms(1), of False p] r1 by (simp add: matched_def)
  have 1: "building env c (append_child CompiledBlock_Create b1) c1 (keep 1 (read_var (env_symbols env) p))"
    using building_child [OF assms(1) building_Create k1] compiledD(3) [OF k1] by (simp add: chain_start)
  obtain b2 c2 where 2: "rec c1 y False = (b2, c2)" "wfb b2" "finalStackDelta b2 = 1" "extends c c2" "ready env c2"
      "building env c (append_child (append_child CompiledBlock_Create b1) b2) c2
         (then_l (keep 1 (read_var (env_symbols env) p)) (pushing 1 m))"
      "finalStackDelta (append_child (append_child CompiledBlock_Create b1) b2)
         = finalStackDelta (append_child CompiledBlock_Create b1) + 1"
      "wfb (append_child (append_child CompiledBlock_Create b1) b2)"
    using next_operand [OF assms(1) 1 assms(2)] .
  let ?b = "EMIT0 (append_child (append_child CompiledBlock_Create b1) b2) (Object (Op_MetN 1 op)) (-1)"
  have "building env c ?b c2 (keep 1 (and_then (read_var (env_symbols env) p) (\<lambda>v.
      and_then m (\<lambda>u. call_named env op [v, u]))))"
    using building_act [OF 2(6) acts_env(6) [where n = 1]]
    by (simp add: chain_simps call_act_1 [unfolded One_nat_def] call_act_1)
  moreover have "finalStackDelta ?b = 1" using 2(7) compiledD(1,3) [OF k1] by simp
  ultimately have "matched env nr c
      (and_then (and_then (read_var (env_symbols env) p) (\<lambda>v. and_then m (\<lambda>u. call_named env op [v, u]))) (write_var p))
      (Compiler_CompileStoreVariable c2 p nr ?b)"
    by (intro compiled_store assms)
  then show ?thesis
    using r1 2(1,3) compiledD(3) [OF k1]
    by (simp add: Compiler_CompileOpEqualsSymbol_def require_child_def and_then_assoc Let_def)
qed

lemma compiled_OpEqualsProperty:
  assumes "ready env c" and "handles env rec False x m1" and "handles env rec False y m2"
  shows "matched env nr c
      (and_then m1 (\<lambda>v. and_then (read_plain_property env v p) (\<lambda>old.
         and_then m2 (\<lambda>u. and_then (call_named env op [old, u]) (write_property env v p)))))
      (Compiler_CompileOpEqualsProperty rec c op (list_of [x, SymbolObj p]) y nr)"
proof -
  obtain b1 c1 where 1: "rec c x False = (b1, c1)" "wfb b1" "finalStackDelta b1 = 1" "extends c c1" "ready env c1"
      "building env c (append_child CompiledBlock_Create b1) c1 (keep 1 m1)"
      "finalStackDelta (append_child CompiledBlock_Create b1) = 1" "wfb (append_child CompiledBlock_Create b1)"
    using operand [OF assms(1,2)] .
  let ?b1 = "EMIT0 (EMIT0 (append_child CompiledBlock_Create b1) (Stack Op_Dup1) 1) (Object (Op_LdProp p)) 0"
  have dup: "building env c ?b1 c1 (then_l (then_l (keep 1 m1) dup_act) (unary_act 1 (\<lambda>v. read_plain_property env v p)))"
    by (intro building_act [OF building_act [OF 1(6)]] acts_Dup1 acts_env(3))
  obtain b2 c2 where 2: "rec c1 y False = (b2, c2)" "wfb b2" "finalStackDelta b2 = 1" "extends c c2" "ready env c2"
      "building env c (append_child ?b1 b2) c2
         (then_l (then_l (then_l (keep 1 m1) dup_act) (unary_act 1 (\<lambda>v. read_plain_property env v p))) (pushing 1 m2))"
      "finalStackDelta (append_child ?b1 b2) = finalStackDelta ?b1 + 1" "wfb (append_child ?b1 b2)"
    using next_operand [OF assms(1) dup assms(3)] .
  let ?b = "EMIT0 (append_child ?b1 b2) (Object (Op_MetN 1 op)) (-1)"
  let ?m = "and_then m1 (\<lambda>v. and_then (read_plain_property env v p) (\<lambda>old.
      and_then m2 (\<lambda>u. and_then (call_named env op [old, u]) (write_property env v p))))"
  have d2: "dup_act (v # vs) = (\<lambda>s. Some (Inr (v # v # vs), s))" for v vs
    by (simp add: dup_act_def fun_eq_iff)
  have start: "then_l (\<lambda>s. Some (Inr ws, s)) g = g ws" for ws and g :: "SmileObject list \<Rightarrow> 'a lcomp"
    by (simp add: then_l_def fun_eq_iff)
  have b: "building env c ?b c2 (then_l (then_l (then_l (then_l (keep 1 m1) dup_act)
      (unary_act 1 (\<lambda>v. read_plain_property env v p))) (pushing 1 m2)) (call_act 1 (\<lambda>v us. call_named env op (v # us))))"
    using building_act [OF 2(6) acts_env(6) [where n = 1]] by simp
  have "matched env nr c ?m
      (if nr then EMIT0 ?b (Object (Op_StpProp p)) (-2) else EMIT0 ?b (Object (Op_StProp p)) (-1), c2)"
    using building_act [OF b acts_env(1)] building_act [OF b acts_env(2)] 2(7) 1(7)
    by (auto simp: chain_simps d2 start call_act_1 [unfolded One_nat_def] call_act_1 intro!: matchedI)
  then show ?thesis
    using 1(1,3) 2(1,3)
    by (cases nr) (simp_all add: Compiler_CompileOpEqualsProperty_def require_child_def Let_def)
qed

end
