(* ===== verification/CompilerSequences.thy ===== *)
theory CompilerSequences
  imports CompilerCorrect
begin

text \<open>
  Correctness of the compiler, continued: constants, calls with any number of arguments, sequences and
  scopes.
\<close>

section \<open>Constants\<close>

lemma extends_tables:
  assumes "tables_step c c'" and eq: "c' = c\<lparr>strings := t, stringLookup := l, objects := u\<rparr>"
  shows "extends c c'"
  using assms(1) by (simp add: extends_def eq)

lemma extends_AddString: "Compiler_AddString c s = (c', i) \<Longrightarrow> extends c c'"
  by (rule extends_tables [where u = "objects c"]) (auto dest: AddString_step)

lemma extends_AddObject: "Compiler_AddObject c x = (c', i) \<Longrightarrow> extends c c'"
  by (rule extends_tables [where t = "strings c" and l = "stringLookup c"]) (auto dest: AddObject_step)

lemma compiled_AddObject:
  assumes "ready env c" and "reference_kind x" and "Compiler_AddObject c x = (c', i)"
  shows "compiled env False c (ret x) (EMIT0 CompiledBlock_Create (Stack (Op_LdObj i)) 1, c')"
proof (rule compiled_emit [OF extends_AddObject [OF assms(3)]], rule acts_push)
  fix T N st assume "room c' T N"
  then have "arr_get (tbl_objects T) i = Some (Some x)"
    using AddObject_step(2) [OF assms(3)] assms(1) by (simp add: ready_def room_def)
  then show "aexec_stack (ctables (ctx env T N c)) (Op_LdObj i) st = Some (x # st)" using assms(2) by simp
qed

lemma compiled_AddString:
  assumes "ready env c" and "Compiler_AddString c s = (c', i)"
  shows "compiled env False c (ret (StringObj s)) (EMIT0 CompiledBlock_Create (Stack (Op_LdStr i)) 1, c')"
proof (rule compiled_emit [OF extends_AddString [OF assms(2)]], rule acts_push)
  fix T N st assume "room c' T N"
  then have "arr_get (tbl_strings T) i = Some (Some s)"
    using AddString_step(2) [OF assms(2)] assms(1) by (simp add: ready_def room_def)
  then show "aexec_stack (ctables (ctx env T N c)) (Op_LdStr i) st = Some (StringObj s # st)" by simp
qed

lemma compiled_primitive:
  assumes "\<And>T st. aexec_stack T i st = Some (v # st)"
  shows "compiled env nr c (ret v) (compile_primitive c nr i)"
  unfolding compile_primitive_def by (rule matchedD [OF compiled_push [OF acts_push [OF assms] ret_value]])

lemma compiled_literal:
  assumes "ready env c" and "reference_kind x"
  shows "compiled env nr c (ret x) (compile_literal c nr x)"
  using compiled_AddObject [OF assms] compiled_none [OF ret_value]
  by (auto simp: compile_literal_def split: prod.splits)

text \<open>Literals are compiled in the same way at every depth.\<close>

lemma compile_Literal:
  assumes "ready env c" and "\<not> is_symbol x" and "\<not> is_list x"
  shows "compiled env nr c (ret x) (compile_expr_with other rec c x nr)"
proof (cases x)
  case (StringObj s)
  obtain c' i where "Compiler_AddString c s = (c', i)" by fastforce
  then show ?thesis
    using compiled_AddString [OF assms(1)] compiled_none [OF ret_value] StringObj
    by (auto simp: compile_expr_with_def)
qed (use assms in \<open>auto simp: compile_expr_with_def reference_kind_def
       intro!: compiled_primitive compiled_literal\<close>)

lemma delta_Literal:
  assumes "\<not> is_symbol x" and "\<not> is_list x"
  shows "finalStackDelta (fst (compile_expr_with other rec c x nr)) = (if nr then 0 else 1)"
  using assms
  by (cases x) (simp_all add: compile_expr_with_def compile_primitive_def compile_literal_def case_prod_beta Let_def)

lemma compiled_Quote:
  assumes "ready env c" and "\<not> is_symbol x \<Longrightarrow> \<not> is_list x \<Longrightarrow> handles env rec nr x (ret x)"
  shows "compiled env nr c (ret x) (Compiler_CompileQuote rec c (list_of [x]) nr)"
    and "finalStackDelta (fst (Compiler_CompileQuote rec c (list_of [x]) nr)) = (if nr then 0 else 1)"
proof -
  have "compiled env nr c (ret x) (Compiler_CompileQuote rec c (list_of [x]) nr)
      \<and> finalStackDelta (fst (Compiler_CompileQuote rec c (list_of [x]) nr)) = (if nr then 0 else 1)"
  proof (cases "nr \<or> is_symbol x \<or> is_list x")
    case True
    have sym: "compiled env False c (ret (SymbolObj s)) (EMIT0 CompiledBlock_Create (Stack (Op_LdSym s)) 1, c)" for s
      by (rule compiled_emit) (auto intro!: acts_push)
    obtain c' i where o: "Compiler_AddObject c x = (c', i)" by fastforce
    have obj: "compiled env False c (ret x) (EMIT0 CompiledBlock_Create (Stack (Op_LdObj i)) 1, c')" if "is_list x"
      by (rule compiled_AddObject [OF assms(1) _ o]) (use that in \<open>cases x; simp add: reference_kind_def\<close>)
    show ?thesis
      using True sym o obj compiled_none [OF ret_value]
      by (cases nr; cases x) (auto simp: Compiler_CompileQuote_def)
  next
    case False
    then obtain b c' where b: "rec c x nr = (b, c')" "compiled env nr c (ret x) (b, c')"
      using handlesE [OF assms(2) assms(1)] by metis
    show ?thesis using False b(1) compiled_match [OF b(2)] by (simp add: Compiler_CompileQuote_def)
  qed
  then show "compiled env nr c (ret x) (Compiler_CompileQuote rec c (list_of [x]) nr)"
    "finalStackDelta (fst (Compiler_CompileQuote rec c (list_of [x]) nr)) = (if nr then 0 else 1)" by blast+
qed


section \<open>Arguments and calls\<close>

fun push_all :: "'w comp list \<Rightarrow> SmileObject list \<Rightarrow> 'w lcomp" where
  "push_all [] vs = (\<lambda>s. Some (Inr vs, s))"
| "push_all (m # ms) vs = bind_value m (\<lambda>v. push_all ms (v # vs))"

lemma then_push_all_Nil: "then_l f (push_all []) = f"
  by (auto simp: then_l_def fun_eq_iff split: option.splits sum.splits)

lemma then_push_all_Cons: "then_l (then_l f (pushing 1 m)) (push_all ms) = then_l f (push_all (m # ms))"
proof -
  have "push_all (m # ms) = (\<lambda>vs. bind_value m (\<lambda>v. push_all ms (v # vs)))" by (rule ext) simp
  then show ?thesis by (simp only: chain_assoc chain_push)
qed

lemma chain_value: "then_l (\<lambda>s. Some (Inr vs, s)) g = g vs"
  by (simp add: then_l_def fun_eq_iff)

lemma push_all_call:
  "then_l (push_all ms (rev us @ v # vs)) (call_act (length us + length ms) F)
     = pushing 1 (eval_args ms (\<lambda>ws. F v (us @ ws))) vs"
proof (induction ms arbitrary: us)
  case Nil
  show ?case by (simp add: chain_value call_act_def nth_append fun_eq_iff)
next
  case (Cons m ms)
  have "then_l (push_all ms (u # rev us @ v # vs)) (call_act (Suc (length us + length ms)) F)
      = pushing 1 (eval_args ms (\<lambda>ws. F v (us @ u # ws))) vs" for u
    using Cons.IH [of "us @ [u]"] by simp
  then show ?case by (simp add: chain_bind pushing_and_then)
qed

lemma push_all_call_0:
  "length ms = n \<Longrightarrow> then_l (push_all ms (v # vs)) (call_act n F) = pushing 1 (eval_args ms (F v)) vs"
  using push_all_call [of ms "[]"] by simp

lemma method_arguments_ok:
  assumes "ready env c" and "list_all2 (handles env rec False) xs ms"
    and "building env c b c1 f" and "0 < finalStackDelta b"
  shows "\<exists>b' c'. method_arguments rec c1 (list_of xs) b = (b', c') \<and> building env c b' c' (then_l f (push_all ms))
           \<and> finalStackDelta b' = finalStackDelta b + int (length xs)"
  using assms(2-4)
proof (induction xs ms arbitrary: b c1 f rule: list_all2_induct)
  case Nil
  then show ?case by (simp add: then_push_all_Nil del: push_all.simps)
next
  case (Cons x xs m ms)
  obtain b' c' where n: "rec c1 x False = (b', c')" "wfb b'" "finalStackDelta b' = 1" "extends c c'" "ready env c'"
      "building env c (append_child b b') c' (then_l f (pushing 1 m))"
      "finalStackDelta (append_child b b') = finalStackDelta b + 1" "wfb (append_child b b')"
    using next_operand [OF assms(1) Cons.prems(1) Cons.hyps(1)] .
  have id: "Compiler_EmitRequireResult (append_child b b') = append_child b b'"
    by (rule require_result_id) (use n(7) Cons.prems(2) in simp)
  have "0 < finalStackDelta (append_child b b')" using n(7) Cons.prems(2) by simp
  then obtain b2 c2 where "method_arguments rec c' (list_of xs) (append_child b b') = (b2, c2)"
      "building env c b2 c2 (then_l (then_l f (pushing 1 m)) (push_all ms))"
      "finalStackDelta b2 = finalStackDelta (append_child b b') + int (length xs)"
    using Cons.IH [OF n(6)] by blast
  then show ?case using n(1,7) id by (simp add: then_push_all_Cons del: push_all.simps)
qed

lemma call_arguments_ok:
  assumes "ready env c" and "list_all2 (handles env rec False) xs ms" and "building env c b c1 f"
  shows "\<exists>b' c'. call_arguments rec c1 (list_of xs) b k = (b', c', k + int (length xs))
           \<and> building env c b' c' (then_l f (push_all ms)) \<and> finalStackDelta b' = finalStackDelta b + int (length xs)"
  using assms(2,3)
proof (induction xs ms arbitrary: b c1 f k rule: list_all2_induct)
  case Nil
  then show ?case by (simp add: then_push_all_Nil del: push_all.simps)
next
  case (Cons x xs m ms)
  obtain b' c' where n: "rec c1 x False = (b', c')" "wfb b'" "finalStackDelta b' = 1" "extends c c'" "ready env c'"
      "building env c (append_child b b') c' (then_l f (pushing 1 m))"
      "finalStackDelta (append_child b b') = finalStackDelta b + 1" "wfb (append_child b b')"
    using next_operand [OF assms(1) Cons.prems Cons.hyps(1)] .
  obtain b2 c2 where "call_arguments rec c' (list_of xs) (append_child b b') (k + 1) = (b2, c2, k + 1 + int (length xs))"
      "building env c b2 c2 (then_l (then_l f (pushing 1 m)) (push_all ms))"
      "finalStackDelta b2 = finalStackDelta (append_child b b') + int (length xs)"
    using Cons.IH [OF n(6), of "k + 1"] by blast
  then show ?case
    using n(1,3,7) by (simp add: require_child_def then_push_all_Cons add.assoc del: push_all.simps)
qed

lemma expr_length_list_of [simp]: "expr_length (list_of xs) = int (length xs)"
  by (induction xs) (simp_all add: Let_def)

lemma compiled_MethodCall:
  fixes env :: "'w Env"
  assumes "ready env c" and "handles env rec False x m" and "list_all2 (handles env rec False) xs ms"
  shows "matched env nr c (and_then m (\<lambda>v. eval_args ms (\<lambda>us. call_named env p (v # us))))
           (Compiler_CompileMethodCall rec c (list_of [x, SymbolObj p]) (list_of xs) nr)"
proof -
  obtain b c1 where b: "rec c x False = (b, c1)" "wfb b" "finalStackDelta b = 1" "extends c c1" "ready env c1"
      "building env c (append_child CompiledBlock_Create b) c1 (keep 1 m)"
      "finalStackDelta (append_child CompiledBlock_Create b) = 1" "wfb (append_child CompiledBlock_Create b)"
    using operand [OF assms(1,2)] .
  obtain b2 c2 where 2: "method_arguments rec c1 (list_of xs) (append_child CompiledBlock_Create b) = (b2, c2)"
      "building env c b2 c2 (then_l (keep 1 m) (push_all ms))" "finalStackDelta b2 = 1 + int (length xs)"
    using method_arguments_ok [OF assms(1,3) b(6)] b(7) by auto
  let ?n = "length xs"
  let ?op = "if int ?n \<le> 7 then if int ?n = 1 \<and> p = sym_get_member (known c) then Op_LdMember else Op_MetN (int ?n) p
    else Op_Met (int ?n) p"
  have k: "sym_get_member (known c) = sym_getMember env" using assms(1) by (simp add: ready_def)
  have len: "length ms = ?n" using assms(3) by (simp add: list_all2_lengthD)
  have "building env c (EMIT0 b2 (Object ?op) (- int ?n)) c2
      (then_l (then_l (keep 1 m) (push_all ms)) (call_act ?n (\<lambda>v us. call_named env p (v # us))))"
  proof (rule building_act [OF 2(2)])
    fix \<Gamma> :: "'w Ctx" assume "cenv \<Gamma> = env"
    then show "acts \<Gamma> (Object ?op) (- int ?n) (call_act ?n (\<lambda>v us. call_named env p (v # us)))"
      using acts_env(6) [where \<Gamma> = \<Gamma> and env = env and n = ?n and p = p]
        acts_env(7) [where \<Gamma> = \<Gamma> and env = env and n = ?n and p = p] acts_env(8) [of \<Gamma> env] k
      by auto
  qed
  moreover have "then_l (then_l (keep 1 m) (push_all ms)) (call_act ?n (\<lambda>v us. call_named env p (v # us)))
      = keep 1 (and_then m (\<lambda>v. eval_args ms (\<lambda>us. call_named env p (v # us))))"
    by (simp add: chain_assoc chain_push chain_bind push_all_call_0 [OF len] pushing_and_then)
  ultimately have "building env c (EMIT0 b2 (Object ?op) (- int ?n)) c2
      (keep 1 (and_then m (\<lambda>v. eval_args ms (\<lambda>us. call_named env p (v # us)))))" by simp
  from compiled_pop_if [OF this, of nr] show ?thesis
    using b(1,7) 2(1,3) by (simp add: Compiler_CompileMethodCall_def Compiler_ValidateDotArgs_def Let_def)
qed

lemma compiled_call:
  assumes "ready env c" and "handles env rec False x m" and "list_all2 (handles env rec False) xs ms"
  shows "matched env nr c (and_then m (\<lambda>v. eval_args ms (call_value env v)))
           (compile_call rec c (list_of (x # xs)) nr)"
proof -
  have "list_all2 (handles env rec False) (x # xs) (m # ms)" using assms(2,3) by simp
  from call_arguments_ok [OF assms(1) this building_Create, of 0] obtain b c'
    where b: "call_arguments rec c (list_of (x # xs)) CompiledBlock_Create 0 = (b, c', int (length (x # xs)))"
      "building env c b c' (then_l (\<lambda>s. Some (Inr [], s)) (push_all (m # ms)))"
      "finalStackDelta b = int (length (x # xs))" by auto
  let ?n = "length xs"
  have len: "length ms = ?n" using assms(3) by (simp add: list_all2_lengthD)
  have "building env c (EMIT0 b (Object (Op_Call (int ?n))) (- int ?n)) c'
      (then_l (then_l (\<lambda>s. Some (Inr [], s)) (push_all (m # ms))) (call_act ?n (call_value env)))"
    by (rule building_act [OF b(2)]) (rule acts_env(5))
  then have "building env c (EMIT0 b (Object (Op_Call (int ?n))) (- int ?n)) c'
      (keep 1 (and_then m (\<lambda>v. eval_args ms (call_value env v))))"
    by (simp add: chain_start chain_bind push_all_call_0 [OF len] pushing_and_then)
  from compiled_pop_if [OF this, of nr] show ?thesis using b(1,3) by (simp add: compile_call_def Let_def)
qed


section \<open>Sequences\<close>

text \<open>The values of all but the last element are not wanted.\<close>

fun seq_handles :: "'w Env \<Rightarrow> compile \<Rightarrow> bool \<Rightarrow> SmileObject list \<Rightarrow> 'w comp list \<Rightarrow> bool" where
  "seq_handles env rec nr [] ms = False"
| "seq_handles env rec nr (x # xs) ms =
     (case ms of
        [] \<Rightarrow> False
      | m # ms' \<Rightarrow> if xs = [] then ms' = [] \<and> handles env rec nr x m
                   else handles env rec True x m \<and> seq_handles env rec nr xs ms')"

lemma drop_then_push:
  "then_l (then_l f (pushing 0 m)) (pushing d n) = then_l f (pushing d (and_then m (\<lambda>_. n)))"
proof -
  have "pushing d (and_then m (\<lambda>_. n)) = (\<lambda>vs. bind_value m (\<lambda>_. pushing d n vs))"
    by (rule ext) (simp add: pushing_and_then)
  then show ?thesis by (simp only: chain_assoc chain_drop)
qed

abbreviation wanted :: "bool \<Rightarrow> int" where "wanted nr \<equiv> (if nr then 0 else 1)"

lemma is_list_list_of [simp]: "is_list (list_of xs) = (xs \<noteq> [])" "is_null (list_of xs) = (xs = [])"
  by (cases xs; simp)+

text \<open>A child whose value is not wanted.\<close>

lemma building_effect:
  assumes "ready env c" and "building env c b c1 f" and "compiled env nr c1 m (ch, c2)"
  shows "building env c (append_child b (Compiler_EmitNoResult ch)) c2 (then_l f (pushing 0 m))"
    and "finalStackDelta (append_child b (Compiler_EmitNoResult ch)) = finalStackDelta b"
  using building_child [OF assms(1,2) compiled_no_result(1) [OF assms(3)]] compiled_no_result [OF assms(3)]
    buildingD(1) [OF assms(2)] by (auto dest: compiledD(1))

lemma progn_loop_ok:
  assumes "ready env c" and "seq_handles env rec nr xs ms" and "building env c b c1 f"
  shows "\<exists>b' c'. progn_loop rec c1 (list_of xs) nr b = (b', c')
           \<and> building env c b' c' (then_l f (pushing (wanted nr) (eval_seq ms)))
           \<and> finalStackDelta b' = finalStackDelta b + wanted nr"
  using assms(2,3)
proof (induction xs arbitrary: b c1 f ms)
  case (Cons x xs)
  then obtain m ms' where ms: "ms = m # ms'" by (cases ms) auto
  have rdy: "ready env c1" using ready_extends [OF assms(1) buildingD(2) [OF Cons.prems(2)]] .
  show ?case
  proof (cases "xs = []")
    case True
    then have h: "ms' = []" "handles env rec nr x m" using Cons.prems(1) ms by simp_all
    obtain b2 c2 where r: "rec c1 x nr = (b2, c2)" "compiled env nr c1 m (b2, c2)"
      using handlesE [OF h(2) rdy] by metis
    note k = compiled_match [OF r(2)]
    show ?thesis
      using building_child [OF assms(1) Cons.prems(2) k(1)] r(1) k(2) compiledD(1) [OF k(1)]
        buildingD(1) [OF Cons.prems(2)] True ms h(1)
      by simp
  next
    case False
    then have h: "handles env rec True x m" "seq_handles env rec nr xs ms'" using Cons.prems(1) ms by simp_all
    then obtain m2 ms2 where ms': "ms' = m2 # ms2" by (cases xs; cases ms') auto
    obtain b2 c2 where r: "rec c1 x True = (b2, c2)" "compiled env True c1 m (b2, c2)"
      using handlesE [OF h(1) rdy] by metis
    note e = building_effect [OF assms(1) Cons.prems(2) r(2)]
    obtain b' c' where "progn_loop rec c2 (list_of xs) nr (append_child b (Compiler_EmitNoResult b2)) = (b', c')"
        "building env c b' c' (then_l (then_l f (pushing 0 m)) (pushing (wanted nr) (eval_seq ms')))"
        "finalStackDelta b' = finalStackDelta b + wanted nr"
      using Cons.IH [OF h(2) e(1)] e(2) by auto
    then show ?thesis using r(1) False ms ms' by (simp add: drop_then_push)
  qed
qed simp

lemma compiled_ProgN:
  assumes "ready env c" and "seq_handles env rec nr xs ms"
  shows "compiled env nr c (eval_seq ms) (Compiler_CompileProgN rec c (list_of xs) nr)"
    and "finalStackDelta (fst (Compiler_CompileProgN rec c (list_of xs) nr)) = wanted nr"
proof -
  obtain b' c' where "progn_loop rec c (list_of xs) nr CompiledBlock_Create = (b', c')"
      "building env c b' c' (keep (wanted nr) (eval_seq ms))" "finalStackDelta b' = wanted nr"
    using progn_loop_ok [OF assms building_Create] by (auto simp: chain_start)
  then show "compiled env nr c (eval_seq ms) (Compiler_CompileProgN rec c (list_of xs) nr)"
    "finalStackDelta (fst (Compiler_CompileProgN rec c (list_of xs) nr)) = wanted nr"
    by (auto simp: Compiler_CompileProgN_def intro!: compiledI)
qed

fun skip_all :: "'w comp list \<Rightarrow> SmileObject list \<Rightarrow> 'w lcomp" where
  "skip_all [] vs = (\<lambda>s. Some (Inr vs, s))"
| "skip_all (m # ms) vs = bind_value m (\<lambda>_. skip_all ms vs)"

lemma then_skip_all: "then_l f (skip_all []) = f"
  "then_l (then_l f (pushing 0 m)) (skip_all ms) = then_l f (skip_all (m # ms))"
proof -
  show "then_l f (skip_all []) = f" by (auto simp: then_l_def fun_eq_iff split: option.splits sum.splits)
  have "skip_all (m # ms) = (\<lambda>vs. bind_value m (\<lambda>_. skip_all ms vs))" by (rule ext) simp
  then show "then_l (then_l f (pushing 0 m)) (skip_all ms) = then_l f (skip_all (m # ms))"
    by (simp only: chain_assoc chain_drop)
qed

lemma pushing_args: "pushing d (eval_args ms (\<lambda>_. ret v)) vs = skip_all ms (if d = 0 then vs else v # vs)"
  by (induction ms) (simp_all add: pushing_and_then, simp_all add: pushing_def ret_def fun_eq_iff)

lemma prog1_loop_ok:
  assumes "ready env c" and "list_all2 (handles env rec False) xs ms" and "building env c b c1 f"
  shows "\<exists>b' c'. prog1_loop rec c1 (list_of xs) b = (b', c') \<and> building env c b' c' (then_l f (skip_all ms))
           \<and> finalStackDelta b' = finalStackDelta b"
  using assms(2,3)
proof (induction xs ms arbitrary: b c1 f rule: list_all2_induct)
  case Nil
  then show ?case by (simp add: then_skip_all del: skip_all.simps)
next
  case (Cons x xs m ms)
  have rdy: "ready env c1" using ready_extends [OF assms(1) buildingD(2) [OF Cons.prems]] .
  obtain b2 c2 where r: "rec c1 x False = (b2, c2)" "compiled env False c1 m (b2, c2)"
    using handlesE [OF Cons.hyps(1) rdy] by metis
  note e = building_effect [OF assms(1) Cons.prems r(2)]
  show ?case using Cons.IH [OF e(1)] e(2) r(1) by (simp add: then_skip_all del: skip_all.simps)
qed

lemma compiled_Prog1:
  assumes "ready env c" and "handles env rec nr x m" and "list_all2 (handles env rec False) xs ms"
  shows "compiled env nr c (and_then m (\<lambda>v. eval_args ms (\<lambda>_. ret v)))
           (Compiler_CompileProg1 rec c (list_of (x # xs)) nr)"
    and "finalStackDelta (fst (Compiler_CompileProg1 rec c (list_of (x # xs)) nr)) = wanted nr"
proof -
  obtain b c1 where r: "rec c x nr = (b, c1)" "compiled env nr c m (b, c1)"
    using handlesE [OF assms(2,1)] by metis
  note k = compiled_match [OF r(2)]
  let ?b = "append_child CompiledBlock_Create (Compiler_MakeStackMatchCompileFlags b nr)"
  have 1: "building env c ?b c1 (keep (wanted nr) m)" and d: "finalStackDelta ?b = wanted nr"
    using building_child [OF assms(1) building_Create k(1)] k(2) compiledD(1) [OF k(1)] by (simp_all add: chain_start)
  obtain b' c' where 2: "prog1_loop rec c1 (list_of xs) ?b = (b', c')"
      "building env c b' c' (then_l (keep (wanted nr) m) (skip_all ms))" "finalStackDelta b' = wanted nr"
    using prog1_loop_ok [OF assms(1,3) 1] d by auto
  have "then_l (keep (wanted nr) m) (skip_all ms) = keep (wanted nr) (and_then m (\<lambda>v. eval_args ms (\<lambda>_. ret v)))"
    by (cases nr) (simp_all add: chain_push chain_drop pushing_and_then pushing_args)
  then show "compiled env nr c (and_then m (\<lambda>v. eval_args ms (\<lambda>_. ret v)))
      (Compiler_CompileProg1 rec c (list_of (x # xs)) nr)"
    "finalStackDelta (fst (Compiler_CompileProg1 rec c (list_of (x # xs)) nr)) = wanted nr"
    using r(1) 2 by (auto simp: Compiler_CompileProg1_def intro!: compiledI)
qed

end
