(* ===== verification/CompilerScopes.thy ===== *)
theory CompilerScopes
  imports CompilerSequences
begin

text \<open>
  Correctness of the compiler, continued: \<^verbatim>\<open>[$scope]\<close>. Every declared variable gets a slot of the
  frame that no variable around it uses, and the slot is set to null when the scope is entered.
\<close>

section \<open>Declaring variables\<close>

definition null_code :: "nat \<Rightarrow> nat \<Rightarrow> code" where
  "null_code n k = map (\<lambda>i. Inl (Var (Op_NullLoc0 (int i)))) [n..<n + k]"

lemma null_code_Suc: "null_code n (Suc k) = Inl (Var (Op_NullLoc0 (int n))) # null_code (Suc n) k"
  by (simp add: null_code_def upt_conv_Cons)

lemma code_size_null [simp]: "code_size (null_code n k) = k"
  by (induction k arbitrary: n) (simp_all add: null_code_Suc null_code_def [of _ 0])

lemma labels_null [simp]: "labels (null_code n k) = []"
  by (induction k arbitrary: n) (simp_all add: null_code_Suc null_code_def [of _ 0])

definition declare_var :: "Compiler \<Rightarrow> Symbol \<Rightarrow> Compiler" where
  "declare_var c x =
     CompileScope_DefineSymbol (c\<lparr>localNames := localNames c @ [x]\<rparr>) x PARSEDECL_VARIABLE (int (length (localNames c)))"

lemma scope_variables_Cons:
  "scope_variables c (list_of (map SymbolObj (x # xs))) y b =
     scope_variables (declare_var c x) (list_of (map SymbolObj xs)) x
       (EMIT0 b (Var (Op_NullLoc0 (int (length (localNames c))))) 0)"
  by (simp add: Compiler_DecodeScopeVariable_def CompilerFunction_AddLocal_def declare_var_def Let_def)

lemma declare_var_simps [simp]:
  "known (declare_var c x) = known c" "functionDepth (declare_var c x) = functionDepth c"
  "messages (declare_var c x) = messages c" "nextLabel (declare_var c x) = nextLabel c"
  "strings (declare_var c x) = strings c" "objects (declare_var c x) = objects c"
  "stringLookup (declare_var c x) = stringLookup c" "localNames (declare_var c x) = localNames c @ [x]"
  by (simp_all add: declare_var_def CompileScope_DefineSymbol_def split: list.splits)

definition new_symbol :: "Compiler \<Rightarrow> CompiledLocalSymbol" where
  "new_symbol c = \<lparr>symKind = PARSEDECL_VARIABLE, symIndex = int (length (localNames c)),
     symDepth = functionDepth c, tillIndex = 0, whenLabel = 0\<rparr>"

lemma declare_var_scope:
  "currentScope c = m # \<Sigma> \<Longrightarrow> currentScope (declare_var c x) = m(x \<mapsto> new_symbol c) # \<Sigma>"
  by (simp add: declare_var_def CompileScope_DefineSymbol_def new_symbol_def)

lemma wf_declare_var:
  assumes "wf_scopes (length (localNames c)) (functionDepth c) (currentScope c)" and "currentScope c = m # \<Sigma>"
  shows "wf_scopes (length (localNames (declare_var c x))) (functionDepth c) (currentScope (declare_var c x))"
proof -
  let ?n = "length (localNames c)" and ?d = "functionDepth c" and ?m = "m(x \<mapsto> new_symbol c)"
  have "wf_scopes ?n ?d (m # \<Sigma>)" using assms by simp
  then obtain k where k: "k \<le> ?n" and \<Sigma>: "wf_scopes k ?d \<Sigma>"
    and l: "\<forall>x l. m x = Some l \<longrightarrow>
      symKind l = PARSEDECL_VARIABLE \<and> symDepth l = ?d \<and> int k \<le> symIndex l \<and> symIndex l < int ?n"
    and u: "\<forall>x y l l'. m x = Some l \<longrightarrow> m y = Some l' \<longrightarrow> symIndex l = symIndex l' \<longrightarrow> x = y"
    unfolding wf_scopes.simps by blast
  have l': "symKind la = PARSEDECL_VARIABLE \<and> symDepth la = ?d \<and> int k \<le> symIndex la \<and> symIndex la < int (Suc ?n)"
    if "?m y = Some la" for y la
  proof (cases "y = x")
    case True
    then show ?thesis using that k by (auto simp: new_symbol_def)
  next
    case False
    then have "m y = Some la" using that by simp
    then show ?thesis using l by fastforce
  qed
  have u': "y = z" if "?m y = Some la" "?m z = Some lb" "symIndex la = symIndex lb" for y z la lb
  proof -
    have new: "symIndex (new_symbol c) = int ?n" by (simp add: new_symbol_def)
    have old: "symIndex lo < int ?n" if "m w = Some lo" for w lo using l that by blast
    consider "y = x" "z = x" | "y = x" "z \<noteq> x" | "y \<noteq> x" "z = x" | "y \<noteq> x" "z \<noteq> x" by blast
    then show ?thesis
    proof cases
      case 2
      then show ?thesis using that old [of z lb] new by simp
    next
      case 3
      then show ?thesis using that old [of y la] new by simp
    next
      case 4
      then show ?thesis using that u by simp
    qed simp
  qed
  have "wf_scopes (Suc ?n) ?d (?m # \<Sigma>)"
    unfolding wf_scopes.simps using k \<Sigma> l' u' by (intro exI [of _ k]) (blast intro: le_SucI)
  then show ?thesis by (simp add: declare_var_scope [OF assms(2)] del: wf_scopes.simps)
qed

fun declare_all :: "Compiler \<Rightarrow> Symbol list \<Rightarrow> Compiler" where
  "declare_all c [] = c"
| "declare_all c (x # xs) = declare_all (declare_var c x) xs"

lemma declare_all_simps [simp]:
  "known (declare_all c xs) = known c" "functionDepth (declare_all c xs) = functionDepth c"
  "messages (declare_all c xs) = messages c" "nextLabel (declare_all c xs) = nextLabel c"
  "strings (declare_all c xs) = strings c" "objects (declare_all c xs) = objects c"
  "stringLookup (declare_all c xs) = stringLookup c" "localNames (declare_all c xs) = localNames c @ xs"
  by (induction c xs rule: declare_all.induct) simp_all

lemma declare_all_scope:
  assumes "currentScope c = m # \<Sigma>"
    and "wf_scopes (length (localNames c)) (functionDepth c) (currentScope c)"
  shows "\<exists>m'. currentScope (declare_all c xs) = m' # \<Sigma>"
    and "wf_scopes (length (localNames c @ xs)) (functionDepth c) (currentScope (declare_all c xs))"
proof -
  have "(\<exists>m'. currentScope (declare_all c xs) = m' # \<Sigma>)
      \<and> wf_scopes (length (localNames c @ xs)) (functionDepth c) (currentScope (declare_all c xs))"
    using assms
  proof (induction xs arbitrary: c m)
    case (Cons x xs)
    then show ?case
      using Cons.IH [OF declare_var_scope [OF Cons.prems(1)]] wf_declare_var [OF Cons.prems(2,1)] by simp
  qed simp
  then show "\<exists>m'. currentScope (declare_all c xs) = m' # \<Sigma>"
    "wf_scopes (length (localNames c @ xs)) (functionDepth c) (currentScope (declare_all c xs))" by blast+
qed

lemma scope_variables_all:
  assumes "wfb b" and "finalStackDelta b = 0"
  shows "\<exists>b'. scope_variables c (list_of (map SymbolObj xs)) y b = (b', declare_all c xs, NullObject)
      \<and> block_code b' = block_code b @ null_code (length (localNames c)) (length xs)
      \<and> wfb b' \<and> finalStackDelta b' = 0 \<and> maxStackDepth b' = maxStackDepth b \<and> (xs \<noteq> [] \<longrightarrow> instructions b' \<noteq> [])"
  using assms
proof (induction xs arbitrary: b c y)
  case Nil
  then show ?case by (simp add: null_code_def)
next
  case (Cons x xs)
  let ?b = "EMIT0 b (Var (Op_NullLoc0 (int (length (localNames c))))) 0"
  have "wfb ?b" "finalStackDelta ?b = 0" using Cons.prems by simp_all
  from Cons.IH [OF this, of "declare_var c x" x] obtain b' where
    b': "scope_variables (declare_var c x) (list_of (map SymbolObj xs)) x ?b
        = (b', declare_all (declare_var c x) xs, NullObject)"
      "block_code b' = block_code ?b @ null_code (Suc (length (localNames c))) (length xs)"
      "wfb b'" "finalStackDelta b' = 0" "maxStackDepth b' = maxStackDepth ?b" "xs \<noteq> [] \<longrightarrow> instructions b' \<noteq> []"
    by auto
  have "maxStackDepth ?b = maxStackDepth b" using Cons.prems by (simp add: wfb_def)
  moreover have "instructions b' \<noteq> []"
  proof
    assume "instructions b' = []"
    then have "block_code b' = []" by simp
    then show False using b'(2) by simp
  qed
  ultimately show ?case
    using b' unfolding scope_variables_Cons by (simp add: null_code_Suc)
qed

text \<open>Running the code: one slot is cleared after the other.\<close>

fun declare_values :: "(Symbol \<Rightarrow> SmileObject option) \<Rightarrow> Symbol list \<Rightarrow> Symbol \<Rightarrow> SmileObject option" where
  "declare_values \<rho> [] = \<rho>"
| "declare_values \<rho> (x # xs) = declare_values (\<rho>(x \<mapsto> NullObject)) xs"

lemma declare_values_new: "declare_values \<rho> xs y = (if y \<in> set xs then Some NullObject else \<rho> y)"
  by (induction xs arbitrary: \<rho>) simp_all

lemma reach_null:
  assumes "mcode M p = Some (Var (Op_NullLoc0 (int (length (localNames c)))))"
    and "length (localNames c) < N" and "int N + int (length st) \<le> int (mcap M)"
    and "currentScope c = m # \<Sigma>" and "wf_scopes (length (localNames c)) (functionDepth c) (currentScope c)"
  shows "reach M N p (p + 1) (currentScope c) (s\<lparr>scopes := \<rho> # \<rho>s\<rparr>) st
      (Done (currentScope (declare_var c x)) (s\<lparr>scopes := \<rho>(x \<mapsto> NullObject) # \<rho>s\<rparr>) st)"
proof (rule reach_step)
  fix \<sigma>
  let ?n = "length (localNames c)"
  assume \<sigma>: "pc \<sigma> = p" "stk \<sigma> = st" "srel N (currentScope c) (s\<lparr>scopes := \<rho> # \<rho>s\<rparr>) \<sigma>"
  let ?fr = "(frame \<sigma>)[?n := Some NullObject]"
  have len: "length (frame \<sigma>) = N" and rel: "list_all2 (scope_rel (frame \<sigma>)) (m # \<Sigma>) (\<rho> # \<rho>s)"
    using \<sigma>(3) assms(4) by (simp_all add: srel_def)
  have "list_all2 (scope_rel ?fr) (m # \<Sigma>) (\<rho> # \<rho>s)"
    by (rule scopes_above [OF _ rel, of ?n]) (use assms(4,5) in simp_all)
  then have keep: "scope_rel ?fr m \<rho>" and outer: "list_all2 (scope_rel ?fr) \<Sigma> \<rho>s" by simp_all
  have "scope_rel ?fr (m(x \<mapsto> new_symbol c)) (\<rho>(x \<mapsto> NullObject))"
    unfolding scope_rel_def
  proof
    fix y
    show "case (m(x \<mapsto> new_symbol c)) y of None \<Rightarrow> (\<rho>(x \<mapsto> NullObject)) y = None
      | Some l \<Rightarrow> \<exists>v. (\<rho>(x \<mapsto> NullObject)) y = Some v \<and> aload ?fr (symIndex l) = Some v"
      using keep [unfolded scope_rel_def, rule_format, of y] assms(2) len
      by (cases "y = x"; cases "m y") (auto simp: new_symbol_def aload_update)
  qed
  then have "srel N (currentScope (declare_var c x)) (s\<lparr>scopes := \<rho>(x \<mapsto> NullObject) # \<rho>s\<rparr>)
      (\<sigma>\<lparr>frame := ?fr, stk := st, agl := agl \<sigma>, pc := p + 1\<rparr>)"
    using \<sigma>(3) outer len by (simp add: srel_def declare_var_scope [OF assms(4)])
  moreover have "astep M \<sigma> = Some (Next (\<sigma>\<lparr>frame := ?fr, stk := st, agl := agl \<sigma>, pc := p + 1\<rparr>))"
    using assms(1,2,3) \<sigma>(1,2) len by (simp add: astep_def arr_set_def with_room_def)
  ultimately show "\<exists>\<sigma>'. astep M \<sigma> = Some (Next \<sigma>') \<and> pc \<sigma>' = p + 1 \<and> stk \<sigma>' = st
      \<and> srel N (currentScope (declare_var c x)) (s\<lparr>scopes := \<rho>(x \<mapsto> NullObject) # \<rho>s\<rparr>) \<sigma>'"
    by (intro exI [of _ "\<sigma>\<lparr>frame := ?fr, stk := st, agl := agl \<sigma>, pc := p + 1\<rparr>"]) simp
qed

lemma reach_nulls:
  assumes "code_at lab (mcode M) a (null_code (length (localNames c)) (length xs))"
    and "length (localNames c @ xs) \<le> N" and "int N + int (length st) \<le> int (mcap M)"
    and "currentScope c = m # \<Sigma>" and "wf_scopes (length (localNames c)) (functionDepth c) (currentScope c)"
  shows "reach M N (int a) (int (a + length xs)) (currentScope c) (s\<lparr>scopes := \<rho> # \<rho>s\<rparr>) st
      (Done (currentScope (declare_all c xs)) (s\<lparr>scopes := declare_values \<rho> xs # \<rho>s\<rparr>) st)"
  using assms
proof (induction xs arbitrary: c a m \<rho>)
  case Nil
  show ?case by (simp add: reach_refl)
next
  case (Cons x xs)
  let ?n = "length (localNames c)"
  have code: "mcode M (int a) = Some (Var (Op_NullLoc0 (int ?n)))"
    "code_at lab (mcode M) (Suc a) (null_code (length (localNames (declare_var c x))) (length xs))"
    using Cons.prems(1) by (simp_all add: null_code_Suc)
  have "reach M N (int a) (int a + 1) (currentScope c) (s\<lparr>scopes := \<rho> # \<rho>s\<rparr>) st
      (Done (currentScope (declare_var c x)) (s\<lparr>scopes := \<rho>(x \<mapsto> NullObject) # \<rho>s\<rparr>) st)"
    by (rule reach_null) (use code Cons.prems in simp_all)
  moreover have "reach M N (int (Suc a)) (int (Suc a + length xs)) (currentScope (declare_var c x))
      (s\<lparr>scopes := \<rho>(x \<mapsto> NullObject) # \<rho>s\<rparr>) st
      (Done (currentScope (declare_all (declare_var c x) xs)) (s\<lparr>scopes := declare_values (\<rho>(x \<mapsto> NullObject)) xs # \<rho>s\<rparr>) st)"
    by (rule Cons.IH [OF code(2) _ _ declare_var_scope [OF Cons.prems(4)]])
      (use Cons.prems wf_declare_var [OF Cons.prems(5,4)] in simp_all)
  ultimately show ?case by (auto intro: reach_trans simp: add.commute)
qed


section \<open>The form\<close>

lemma reach_enter:
  "reach M N p p \<Sigma> s st (Done (Map.empty # \<Sigma>) (s\<lparr>scopes := Map.empty # scopes s\<rparr>) st)"
  by (auto simp: reach_def srel_def scope_rel_def intro!: exI exec_to.stop)

lemma reach_leave:
  "reach M N p p (m # \<Sigma>) s st (Done \<Sigma> (s\<lparr>scopes := tl (scopes s)\<rparr>) st)"
  by (auto simp: reach_def srel_def list_all2_Cons1 intro!: exI exec_to.stop)

lemma Combine_simps:
  assumes "wfb a" and "wfb b" and "finalStackDelta a = 0" and "maxStackDepth a = 0"
  shows "block_code (CompiledBlock_Combine a b) = block_code a @ block_code b"
    and "maxStackDepth (CompiledBlock_Combine a b) = maxStackDepth b"
    and "finalStackDelta (CompiledBlock_Combine a b) = finalStackDelta b"
    and "wfb (CompiledBlock_Combine a b)"
  using assms by (auto simp: CompiledBlock_Combine_def wfb_def)

definition scope_start :: "Compiler \<Rightarrow> Symbol list \<Rightarrow> Compiler" where
  "scope_start c vars = declare_all (Compiler_BeginScope c) vars"

lemma BeginScope_simps:
  "currentScope (Compiler_BeginScope c) = Map.empty # currentScope c"
  "localNames (Compiler_BeginScope c) = localNames c" "functionDepth (Compiler_BeginScope c) = functionDepth c"
  "known (Compiler_BeginScope c) = known c" "messages (Compiler_BeginScope c) = messages c"
  "nextLabel (Compiler_BeginScope c) = nextLabel c" "strings (Compiler_BeginScope c) = strings c"
  "objects (Compiler_BeginScope c) = objects c" "stringLookup (Compiler_BeginScope c) = stringLookup c"
  by (simp_all add: Compiler_BeginScope_def)

lemma wf_BeginScope:
  "ready env c \<Longrightarrow> wf_scopes (length (localNames (Compiler_BeginScope c))) (functionDepth (Compiler_BeginScope c))
     (currentScope (Compiler_BeginScope c))"
  by (auto simp: BeginScope_simps ready_def)

lemma scope_start_ready:
  assumes "ready env c"
  shows "ready env (scope_start c vars)" and "\<exists>m. currentScope (scope_start c vars) = m # currentScope c"
    and "tables_step c (scope_start c vars)"
proof -
  note wf = wf_BeginScope [OF assms]
  show "\<exists>m. currentScope (scope_start c vars) = m # currentScope c"
    using declare_all_scope(1) [OF BeginScope_simps(1) wf] by (simp add: scope_start_def)
  show step: "tables_step c (scope_start c vars)"
    by (rule tables_step_same) (simp_all add: scope_start_def BeginScope_simps)
  then have "tables_ok (scope_start c vars)" using assms by (simp add: tables_step_def ready_def)
  then show "ready env (scope_start c vars)"
    using assms declare_all_scope(2) [OF BeginScope_simps(1) wf, of vars]
    by (simp add: ready_def scope_start_def BeginScope_simps del: wf_scopes.simps)
qed

lemma extends_Scope:
  assumes "ready env c" and "extends (scope_start c vars) c2"
  shows "extends c (Compiler_EndScope c2)"
proof -
  obtain m where m: "currentScope (scope_start c vars) = m # currentScope c" using scope_start_ready(2) [OF assms(1)] by blast
  have "tables_step c2 (Compiler_EndScope c2)" by (rule tables_step_same) (simp_all add: Compiler_EndScope_def)
  then have t: "tables_step c (Compiler_EndScope c2)"
    using scope_start_ready(3) [OF assms(1)] assms(2) by (auto simp: extends_def intro: tables_step_trans)
  have "currentScope (Compiler_EndScope c2) = currentScope c"
    using assms(2) m by (simp add: extends_def Compiler_EndScope_def)
  then show ?thesis
    using assms(2) t unfolding extends_def
    by (simp add: scope_start_def BeginScope_simps) (simp add: Compiler_EndScope_def)
qed

text \<open>Running the whole scope in a machine.\<close>

lemma reach_Scope:
  assumes "ready env c" and m: "currentScope (scope_start c vars) = m # currentScope c"
    and "code_at lab (mcode M) a (null_code (length (localNames c)) (length vars))"
    and "length (localNames c) + length vars \<le> N" and "int N + int (length st) \<le> int (mcap M)"
    and body: "reach M N (int (a + length vars)) q (m # currentScope c) (s\<lparr>scopes := new_scope vars # scopes s\<rparr>) st
      (out_of (m # currentScope c) st (r, s2))"
  shows "reach M N (int a) q (currentScope c) s st (out_of (currentScope c) st (r, s2\<lparr>scopes := tl (scopes s2)\<rparr>))"
proof -
  have "declare_values Map.empty vars = new_scope vars"
    by (simp add: fun_eq_iff declare_values_new new_scope_def)
  then have "reach M N (int a) (int (a + length vars)) (Map.empty # currentScope c)
      (s\<lparr>scopes := Map.empty # scopes s\<rparr>) st
      (Done (m # currentScope c) (s\<lparr>scopes := new_scope vars # scopes s\<rparr>) st)"
    using reach_nulls [of lab M a "Compiler_BeginScope c" vars N st Map.empty "currentScope c" Map.empty "scopes s" s,
        OF _ _ _ BeginScope_simps(1) wf_BeginScope [OF assms(1)]]
      assms(3-5) m by (simp add: BeginScope_simps scope_start_def)
  from reach_trans [OF reach_enter reach_trans [OF this body]]
  have all: "reach M N (int a) q (currentScope c) s st (out_of (m # currentScope c) st (r, s2))" .
  show ?thesis
  proof (cases r)
    case (Inl e)
    then show ?thesis using all by simp
  next
    case (Inr vs)
    then have "reach M N (int a) q (currentScope c) s st (Done (m # currentScope c) s2 (vs @ st))" using all by simp
    from reach_trans [OF this reach_leave] show ?thesis using Inr by simp
  qed
qed

lemma implements_Scope:
  assumes "ready env c" and "extends (scope_start c vars) c2" and "room (Compiler_EndScope c2) T N"
    and im: "implements (ctx env T N (scope_start c vars)) b (keep d m)"
    and init: "block_code init = null_code (length (localNames c)) (length vars)"
      "wfb init" "finalStackDelta init = 0" "maxStackDepth init = 0"
    and "wfb b"
  shows "implements (ctx env T N c) (CompiledBlock_Combine init b) (keep d (in_scope vars m))"
proof -
  note comb = Combine_simps [OF init(2) \<open>wfb b\<close> init(3,4)]
  obtain m' where m': "currentScope (scope_start c vars) = m' # currentScope c" using scope_start_ready(2) [OF assms(1)] by blast
  have N: "length (localNames c) + length vars \<le> N"
    using assms(2,3) by (simp add: room_def Compiler_EndScope_def extends_def scope_start_def BeginScope_simps)
  show ?thesis
  proof (rule implementsI)
    fix s r s' D and st :: "SmileObject list"
    assume f: "keep d (in_scope vars m) s = Some (r, s')"
      and D: "int (length st) + maxStackDepth (CompiledBlock_Combine init b) \<le> D"
    let ?s1 = "s\<lparr>scopes := new_scope vars # scopes s\<rparr>"
    obtain s2 where f2: "keep d m ?s1 = Some (r, s2)" and s': "s' = s2\<lparr>scopes := tl (scopes s2)\<rparr>"
      using f by (fastforce simp: in_scope_def pushing_def split: option.splits sum.splits prod.splits)
    have D2: "int (length st) + maxStackDepth b \<le> D" using D comb(2) by simp
    have body: "leads (ctx env T N (scope_start c vars)) (block_code b) D ?s1 st (out_of (m' # currentScope c) st (r, s2))"
      using implementsD(1) [OF im f2 D2] m' by simp
    show "leads (ctx env T N c) (block_code (CompiledBlock_Combine init b)) D s st
        (out_of (cscopes (ctx env T N c)) st (r, s'))"
      unfolding leads_def
    proof (intro allI impI)
      fix M lab a
      assume h: "hosts M (ctx env T N c) D"
        and "code_at lab (mcode M) a (block_code (CompiledBlock_Combine init b))"
      then have ca: "code_at lab (mcode M) a (null_code (length (localNames c)) (length vars))"
        "code_at lab (mcode M) (a + length vars) (block_code b)"
        using comb(1) init(1) by simp_all
      have cap: "int N + int (length st) \<le> int (mcap M)" using h D2 \<open>wfb b\<close> by (auto simp: hosts_def wfb_def)
      have "reach M N (int (a + length vars)) (int (a + length vars + code_size (block_code b)))
          (m' # currentScope c) ?s1 st (out_of (m' # currentScope c) st (r, s2))"
        using leadsD [OF body _ ca(2)] h m' by (simp add: hosts_def)
      from reach_Scope [OF assms(1) m' ca(1) N cap this]
      show "reach M (cvars (ctx env T N c)) (int a)
          (int (a + code_size (block_code (CompiledBlock_Combine init b)))) (cscopes (ctx env T N c)) s st
          (out_of (cscopes (ctx env T N c)) st (r, s'))"
        using comb(1) init(1) s' by (simp add: add.assoc)
    qed
  next
    fix s vs s' assume "keep d (in_scope vars m) s = Some (Inr vs, s')"
    then obtain s2 where "keep d m (s\<lparr>scopes := new_scope vars # scopes s\<rparr>) = Some (Inr vs, s2)"
      by (fastforce simp: in_scope_def pushing_def split: option.splits sum.splits prod.splits)
    then show "int (length vs) = finalStackDelta (CompiledBlock_Combine init b)"
      using implementsD(2) [OF im _ order.refl refl] comb(3) by simp
  qed
qed

lemma compiled_Scope:
  assumes "ready env c" and "seq_handles env rec nr xs ms" and "vars \<noteq> []"
  defines "args \<equiv> ListObj (list_of (map SymbolObj vars)) (list_of xs)"
  shows "compiled env nr c (in_scope vars (eval_seq ms)) (Compiler_CompileScope rec c args nr)"
    and "finalStackDelta (fst (Compiler_CompileScope rec c args nr)) = wanted nr"
proof -
  let ?c1 = "scope_start c vars"
  obtain init where init:
      "scope_variables (Compiler_BeginScope c) (list_of (map SymbolObj vars)) 0 CompiledBlock_Create = (init, ?c1, NullObject)"
      "block_code init = null_code (length (localNames c)) (length vars)"
      "wfb init" "finalStackDelta init = 0" "maxStackDepth init = 0"
    using scope_variables_all [of CompiledBlock_Create "Compiler_BeginScope c" vars 0]
    by (auto simp: BeginScope_simps scope_start_def)
  obtain b c2 where b: "Compiler_CompileProgN rec ?c1 (list_of xs) nr = (b, c2)" by fastforce
  have k: "compiled env nr ?c1 (eval_seq ms) (b, c2)" and d: "finalStackDelta b = wanted nr"
    using compiled_ProgN [OF scope_start_ready(1) [OF assms(1)] assms(2), of vars] b by simp_all
  note kb = compiledD [OF k] and comb = Combine_simps [OF init(3) compiledD(1) [OF k] init(4,5)]
  have code: "Compiler_CompileScope rec c args nr = (CompiledBlock_Combine init b, Compiler_EndScope c2)"
    using assms(3) init(1) b by (auto simp: Compiler_CompileScope_def args_def)
  have "fresh c (Compiler_EndScope c2) (block_code (CompiledBlock_Combine init b))"
    using kb(5) comb(1) init(2) by (simp add: fresh_def Compiler_EndScope_def scope_start_def BeginScope_simps)
  moreover have "implements (ctx env T N c) (CompiledBlock_Combine init b) (keep (wanted nr) (in_scope vars (eval_seq ms)))"
    if room: "room (Compiler_EndScope c2) T N" for T N
  proof -
    have "room c2 T N" using room by (simp add: room_def Compiler_EndScope_def tables_in_def tables_small_def)
    then show ?thesis
      using implements_Scope [OF assms(1) kb(4) room _ init(2-5) kb(1)] kb(6) d by simp
  qed
  ultimately show "compiled env nr c (in_scope vars (eval_seq ms)) (Compiler_CompileScope rec c args nr)"
    using code extends_Scope [OF assms(1) kb(4)] comb(3,4) d by (auto simp: compiled_def)
  show "finalStackDelta (fst (Compiler_CompileScope rec c args nr)) = wanted nr"
    using code comb(3) d by simp
qed

end
