(* ===== verification/CompilerBranches.thy ===== *)
theory CompilerBranches
  imports CompilerScopes
begin

text \<open>
  Correctness of the compiler, continued: conditions, conditionals and loops.
\<close>

section \<open>Two ways on\<close>

lemma implementsD_reach:
  assumes "implements \<Gamma> b f" and "f s = Some (r, s')" and "int (length st) + maxStackDepth b \<le> D"
    and "hosts M \<Gamma> D" and "code_at lab (mcode M) a (block_code b)"
  shows "reach M (cvars \<Gamma>) (int a) (int a + int (code_size (block_code b))) (cscopes \<Gamma>) s st
           (out_of (cscopes \<Gamma>) st (r, s'))"
  using leadsD [OF implementsD(1) [OF assms(1-3)] assms(4,5)] by simp

lemma branch_at:
  "code_at lab (mcode M) a [Inl (Op_Bt (Some l))] \<Longrightarrow>
     reach M N (int a) (if truth v then int (lab l) else int a + 1) \<Sigma> s (v # st) (Done \<Sigma> s st)"
  "code_at lab (mcode M) a [Inl (Op_Bf (Some l))] \<Longrightarrow>
     reach M N (int a) (if truth v then int a + 1 else int (lab l)) \<Sigma> s (v # st) (Done \<Sigma> s st)"
  "code_at lab (mcode M) a [Inl (Op_Jmp (Some l))] \<Longrightarrow> reach M N (int a) (int (lab l)) \<Sigma> s st (Done \<Sigma> s st)"
  using reach_Bt [of M "int a" _ N v] reach_Bf [of M "int a" _ N v] reach_Jmp [of M "int a" _ N]
  by (fastforce simp: branch_to_def)+

lemma reach_case:
  assumes "reach M N p q \<Sigma> s st (case r of Inl e \<Rightarrow> Exc e (gvars s1) (wd s1) | Inr v \<Rightarrow> Done \<Sigma> s1 (h v))"
    and "\<And>e. r = Inl e \<Longrightarrow> out = Exc e (gvars s1) (wd s1)"
    and "\<And>v. r = Inr v \<Longrightarrow> reach M N q q' \<Sigma> s1 (h v) out"
  shows "reach M N p q' \<Sigma> s st out"
  using assms by (cases r) (auto intro: reach_trans reach_Exc)

lemma and_then_cases:
  assumes "and_then m f s = Some (r, s')"
  obtains (raise) e where "m s = Some (Inl e, s')" "r = Inl e"
    | (step) v s1 where "m s = Some (Inr v, s1)" "f v s1 = Some (r, s')"
  using assms by (auto simp: and_then_def split: option.splits sum.splits)

text \<open>A condition, and the code that goes on with its value.\<close>

lemma keep_Some:
  "keep 1 m s = Some (r, s') \<longleftrightarrow>
     (\<exists>q. m s = Some (q, s') \<and> r = (case q of Inl e \<Rightarrow> Inl e | Inr v \<Rightarrow> Inr [v]))"
  "keep 0 m s = Some (r, s') \<longleftrightarrow>
     (\<exists>q. m s = Some (q, s') \<and> r = (case q of Inl e \<Rightarrow> Inl e | Inr v \<Rightarrow> Inr []))"
  by (auto simp: pushing_def split: option.splits sum.splits)

lemma reach_condition:
  assumes "implements \<Gamma> cb (keep 1 m)" and "and_then m f s = Some (r, s')"
    and "int (length st) + maxStackDepth cb \<le> D" and "hosts M \<Gamma> D" and "code_at lab (mcode M) a (block_code cb)"
    and "\<And>v s1. f v s1 = Some (r, s') \<Longrightarrow>
      reach M (cvars \<Gamma>) (int a + int (code_size (block_code cb))) q (cscopes \<Gamma>) s1 (v # st) out"
    and "\<And>e. r = Inl e \<Longrightarrow> out = Exc e (gvars s') (wd s')"
  shows "reach M (cvars \<Gamma>) (int a) q (cscopes \<Gamma>) s st out"
  using assms(2)
proof (cases rule: and_then_cases)
  case (raise e)
  then have "keep 1 m s = Some (Inl e, s')" by (simp add: keep_Some)
  from implementsD_reach [OF assms(1) this assms(3-5)] show ?thesis using raise(2) assms(7) by (auto intro: reach_Exc)
next
  case (step v s1)
  then have "keep 1 m s = Some (Inr [v], s1)" by (simp add: keep_Some)
  from implementsD_reach [OF assms(1) this assms(3-5)] assms(6) [OF step(2)] show ?thesis
    by (auto intro: reach_trans)
qed

section \<open>Conjunction and disjunction\<close>

type_synonym condition_blocks = "(CompiledBlock \<times> bool) list"

definition condition_branch :: "bool \<Rightarrow> nat \<Rightarrow> bool \<Rightarrow> nat option ByteCode" where
  "condition_branch stop l neg = (if neg \<noteq> stop then Op_Bt (Some l) else Op_Bf (Some l))"

fun conditions_code :: "bool \<Rightarrow> nat \<Rightarrow> condition_blocks \<Rightarrow> code" where
  "conditions_code stop l [] = []"
| "conditions_code stop l ((b, neg) # bs) =
     block_code b @ Inl (condition_branch stop l neg) # conditions_code stop l bs"

lemma condition_branch_at:
  assumes "code_at lab (mcode M) a [Inl (condition_branch stop l neg)]"
  shows "reach M N (int a) (if (truth v \<noteq> neg) = stop then int (lab l) else int a + 1) \<Sigma> s (v # st) (Done \<Sigma> s st)"
proof (cases "neg \<noteq> stop")
  case True
  then have "reach M N (int a) (if truth v then int (lab l) else int a + 1) \<Sigma> s (v # st) (Done \<Sigma> s st)"
    using branch_at(1) [of lab M a l N v \<Sigma> s st] assms by (simp add: condition_branch_def)
  then show ?thesis using True by (cases "truth v"; cases neg; cases stop) simp_all
next
  case False
  then have "reach M N (int a) (if truth v then int a + 1 else int (lab l)) \<Sigma> s (v # st) (Done \<Sigma> s st)"
    using branch_at(2) [of lab M a l N v \<Sigma> s st] assms by (simp add: condition_branch_def)
  then show ?thesis using False by (cases "truth v"; cases neg; cases stop) simp_all
qed

text \<open>The conditions either raise, or go to the label, or fall through.\<close>

definition condition_out :: "bool \<Rightarrow> 'w AMachine \<Rightarrow> nat \<Rightarrow> int \<Rightarrow> int \<Rightarrow> int \<Rightarrow> scope_env \<Rightarrow> 'w Store
    \<Rightarrow> SmileObject list \<Rightarrow> SmileObject + SmileObject \<Rightarrow> 'w Store \<Rightarrow> bool" where
  "condition_out stop M N p jump thru \<Sigma> s st r s' \<longleftrightarrow>
     (case r of
        Inl e \<Rightarrow> reach M N p thru \<Sigma> s st (Exc e (gvars s') (wd s'))
      | Inr v \<Rightarrow> v = BoolObj stop \<and> reach M N p jump \<Sigma> s st (Done \<Sigma> s' st)
                 \<or> v = BoolObj (\<not> stop) \<and> reach M N p thru \<Sigma> s st (Done \<Sigma> s' st))"

lemma condition_out_trans:
  assumes "reach M N p p' \<Sigma> s st (Done \<Sigma> s1 st)" and "condition_out stop M N p' jump thru \<Sigma> s1 st r s'"
  shows "condition_out stop M N p jump thru \<Sigma> s st r s'"
  using assms by (auto simp: condition_out_def intro: reach_trans split: sum.splits)

lemma conditions_run:
  assumes "list_all2 (\<lambda>(b, neg) (m, neg'). neg = neg' \<and> implements \<Gamma> b (keep 1 m)
      \<and> int (length st) + maxStackDepth b \<le> D) bs ms"
    and "hosts M \<Gamma> D" and "code_at lab (mcode M) a (conditions_code stop l bs)"
    and "eval_conditions stop ms s = Some (r, s')"
  shows "condition_out stop M (cvars \<Gamma>) (int a) (int (lab l)) (int (a + code_size (conditions_code stop l bs)))
           (cscopes \<Gamma>) s st r s'"
  using assms(1,3,4)
proof (induction bs ms arbitrary: a s rule: list_all2_induct)
  case Nil
  then show ?case by (auto simp: condition_out_def ret_def reach_refl)
next
  case (Cons x bs y ms)
  obtain b neg where x: "x = (b, neg)" by fastforce
  obtain m where y: "y = (m, neg)" and im: "implements \<Gamma> b (keep 1 m)" and D: "int (length st) + maxStackDepth b \<le> D"
    using Cons.hyps(1) x by (cases y) auto
  let ?a1 = "a + code_size (block_code b)"
  have c: "code_at lab (mcode M) a (block_code b)" "code_at lab (mcode M) ?a1 [Inl (condition_branch stop l neg)]"
    "code_at lab (mcode M) (Suc ?a1) (conditions_code stop l bs)"
    using Cons.prems(1) x by simp_all
  let ?thru = "int (a + code_size (conditions_code stop l (x # bs)))"
  from Cons.prems(2) y have "and_then m (\<lambda>v. if (truth v \<noteq> neg) = stop then ret (BoolObj stop) else eval_conditions stop ms) s
      = Some (r, s')" by simp
  then show ?case
  proof (cases rule: and_then_cases)
    case (raise e)
    then have "keep 1 m s = Some (Inl e, s')" by (simp add: keep_Some)
    from implementsD_reach [OF im this D assms(2) c(1)] show ?thesis
      using raise by (auto simp: condition_out_def intro: reach_Exc)
  next
    case (step v s1)
    then have "keep 1 m s = Some (Inr [v], s1)" by (simp add: keep_Some)
    from implementsD_reach [OF im this D assms(2) c(1)]
    have 1: "reach M (cvars \<Gamma>) (int a) (int ?a1) (cscopes \<Gamma>) s st (Done (cscopes \<Gamma>) s1 (v # st))" by simp
    note 2 = reach_trans [OF 1 condition_branch_at [OF c(2)]]
    show ?thesis
    proof (cases "(truth v \<noteq> neg) = stop")
      case True
      then show ?thesis using 2 step(2) by (auto simp: condition_out_def ret_def)
    next
      case False
      then have "reach M (cvars \<Gamma>) (int a) (int (Suc ?a1)) (cscopes \<Gamma>) s st (Done (cscopes \<Gamma>) s1 st)"
        using 2 by (simp add: add.commute split: if_splits)
      moreover have "condition_out stop M (cvars \<Gamma>) (int (Suc ?a1)) (int (lab l)) ?thru (cscopes \<Gamma>) s1 st r s'"
        using Cons.IH [OF c(3)] step(2) False x by (simp add: ac_simps)
      ultimately show ?thesis by (rule condition_out_trans)
    qed
  qed
qed


text \<open>The block that the loop over the conditions builds.\<close>

definition strips :: "'w Env \<Rightarrow> compile \<Rightarrow> SmileObject \<Rightarrow> 'w comp \<times> bool \<Rightarrow> bool" where
  "strips env rec x r \<longleftrightarrow>
     (\<exists>y. (\<forall>c. ready env c \<longrightarrow> Compiler_StripNots c x = (y, snd r)) \<and> handles env rec False y (fst r))"

definition condition_blocks_ok :: "'w Env \<Rightarrow> Compiler \<Rightarrow> Compiler \<Rightarrow> int \<Rightarrow> condition_blocks \<Rightarrow> ('w comp \<times> bool) list \<Rightarrow> bool" where
  "condition_blocks_ok env c c' d bs ms \<longleftrightarrow>
     (\<forall>T N. room c' T N \<longrightarrow>
        list_all2 (\<lambda>(b, neg) (m, neg'). neg = neg' \<and> implements (ctx env T N c) b (keep 1 m) \<and> maxStackDepth b \<le> d) bs ms)"

lemma conditions_loop_ok:
  assumes "ready env c" and "list_all2 (strips env rec) xs ms"
    and "wfb b" and "finalStackDelta b = 0" and "extends c c1" and "fresh c c1 (block_code b)"
  shows "\<exists>b' c' bs. conditions_loop rec stop l c1 (list_of xs) b = (b', c')
      \<and> wfb b' \<and> finalStackDelta b' = 0 \<and> extends c c' \<and> extends c1 c' \<and> fresh c c' (block_code b')
      \<and> block_code b' = block_code b @ conditions_code stop l bs \<and> maxStackDepth b \<le> maxStackDepth b'
      \<and> condition_blocks_ok env c c' (maxStackDepth b') bs ms"
  using assms(2-6)
proof (induction xs ms arbitrary: b c1 rule: list_all2_induct)
  case Nil
  then show ?case by (auto simp: condition_blocks_ok_def intro!: exI [of _ "[]"])
next
  case (Cons x xs p ms)
  obtain m neg where p: "p = (m, neg)" by fastforce
  have rdy: "ready env c1" using ready_extends [OF assms(1) Cons.prems(3)] .
  obtain y where y: "Compiler_StripNots c1 x = (y, neg)" "handles env rec False y m"
    using Cons.hyps(1) rdy p by (auto simp: strips_def)
  obtain ch c2 where r: "rec c1 y False = (ch, c2)" "compiled env False c1 m (ch, c2)" "extends c1 c2" "ready env c2"
    using handlesE [OF y(2) rdy] .
  note k = compiledD [OF r(2)]
  let ?i = "if neg \<noteq> stop then Op_Bt (jump_to l) else Op_Bf (jump_to l) :: branch ByteCode"
  let ?b2 = "EMIT0 (append_child b ch) ?i (-1)"
  have b2: "wfb ?b2" "finalStackDelta ?b2 = 0" "extends c c2" "fresh c c2 (block_code ?b2)"
    "block_code ?b2 = block_code b @ block_code ch @ [Inl (condition_branch stop l neg)]"
    "maxStackDepth b \<le> maxStackDepth ?b2" "maxStackDepth ch \<le> maxStackDepth ?b2"
    using Cons.prems k(1,3,5) r(3) extends_chain [OF Cons.prems(3) r(3)]
    by (auto simp: condition_branch_def fresh_append)
  from Cons.IH [OF b2(1-4)] obtain b' c' bs where b': "conditions_loop rec stop l c2 (list_of xs) ?b2 = (b', c')"
      "wfb b'" "finalStackDelta b' = 0" "extends c c'" "extends c2 c'" "fresh c c' (block_code b')"
      "block_code b' = block_code ?b2 @ conditions_code stop l bs" "maxStackDepth ?b2 \<le> maxStackDepth b'"
      "condition_blocks_ok env c c' (maxStackDepth b') bs ms" by blast
  have "condition_blocks_ok env c c' (maxStackDepth b') ((ch, neg) # bs) (p # ms)"
    unfolding condition_blocks_ok_def
  proof (intro allI impI)
    fix T N assume rm: "room c' T N"
    then have "implements (ctx env T N c) ch (keep 1 m)"
      using k(6) [OF room_extends [OF r(4) b'(5)]] k(3) by (simp add: ctx_extends [OF Cons.prems(3)])
    then show "list_all2 (\<lambda>(b, neg) (m, neg'). neg = neg' \<and> implements (ctx env T N c) b (keep 1 m)
        \<and> maxStackDepth b \<le> maxStackDepth b') ((ch, neg) # bs) (p # ms)"
      using b'(9) rm p order_trans [OF b2(7) b'(8)] by (simp add: condition_blocks_ok_def)
  qed
  moreover have "conditions_loop rec stop l c1 (list_of (x # xs)) b = (b', c')"
    using y(1) r(1) k(3) b'(1) by simp
  moreover have "maxStackDepth b \<le> maxStackDepth b'" using order_trans [OF b2(6) b'(8)] .
  moreover have "block_code b' = block_code b @ conditions_code stop l ((ch, neg) # bs)" using b'(7) b2(5) by simp
  ultimately show ?case
    using b'(2-4,6) extends_chain [OF r(3) b'(5)] by blast
qed

text \<open>Both forms end by pushing the truth value.\<close>

definition finish_conditions :: "bool \<Rightarrow> nat \<Rightarrow> nat \<Rightarrow> CompiledBlock \<Rightarrow> CompiledBlock" where
  "finish_conditions stop l j b =
     add_delta (-1) (attach_label (EMIT0 (attach_label (EMIT0 (EMIT0 b (Stack (Op_LdBool (\<not> stop))) 1)
       (Op_Jmp (jump_to j)) 0) l) (Stack (Op_LdBool stop)) 1) j)"

lemma finish_conditions_simps:
  assumes "wfb b" and "finalStackDelta b = 0"
  shows "wfb (finish_conditions stop l j b)" "finalStackDelta (finish_conditions stop l j b) = 1"
    "maxStackDepth b \<le> maxStackDepth (finish_conditions stop l j b)" "1 \<le> maxStackDepth (finish_conditions stop l j b)"
    "block_code (finish_conditions stop l j b) = block_code b @
       [Inl (Stack (Op_LdBool (\<not> stop))), Inl (Op_Jmp (Some j)), Inr l, Inl (Stack (Op_LdBool stop)), Inr j]"
  using assms by (simp_all add: finish_conditions_def)

lemma reach_push:
  assumes "mcode M p = Some (Stack i)" and "aexec_stack (mtables M) i st = Some st'"
    and "int N + int (length st') \<le> int (mcap M)"
  shows "reach M N p (p + 1) \<Sigma> s st (Done \<Sigma> s st')"
  by (rule reach_step) (use assms in \<open>auto simp: astep_def with_room_def srel_def\<close>)

lemma finish_conditions_run:
  assumes "condition_out stop M N (int a) (int (lab l)) (int p) \<Sigma> s st r s'"
    and "code_at lab (mcode M) p
       [Inl (Stack (Op_LdBool (\<not> stop))), Inl (Op_Jmp (Some j)), Inr l, Inl (Stack (Op_LdBool stop)), Inr j]"
    and "int N + int (length st) + 1 \<le> int (mcap M)"
  shows "reach M N (int a) (int (p + 3)) \<Sigma> s st
           (case r of Inl e \<Rightarrow> Exc e (gvars s') (wd s') | Inr v \<Rightarrow> Done \<Sigma> s' (v # st))"
proof (cases r)
  case (Inl e)
  then show ?thesis using assms(1) by (auto simp: condition_out_def intro: reach_Exc)
next
  case (Inr v)
  have c: "mcode M (int p) = Some (Stack (Op_LdBool (\<not> stop)))" "code_at lab (mcode M) (Suc p) [Inl (Op_Jmp (Some j))]"
    "lab l = p + 2" "mcode M (int (p + 2)) = Some (Stack (Op_LdBool stop))" "lab j = p + 3"
    using assms(2) by (simp_all add: numeral_2_eq_2 numeral_3_eq_3)
  have push: "reach M N (int q) (int q + 1) \<Sigma> s' st (Done \<Sigma> s' (BoolObj b # st))"
    if "mcode M (int q) = Some (Stack (Op_LdBool b))" for q b
    by (rule reach_push [OF that]) (use assms(3) in simp_all)
  from assms(1) Inr consider (jump) "v = BoolObj stop" "reach M N (int a) (int (lab l)) \<Sigma> s st (Done \<Sigma> s' st)"
    | (thru) "v = BoolObj (\<not> stop)" "reach M N (int a) (int p) \<Sigma> s st (Done \<Sigma> s' st)"
    by (auto simp: condition_out_def)
  then show ?thesis
  proof cases
    case jump
    from reach_trans [OF jump(2)] push [OF c(4)] show ?thesis using c(3) jump(1) Inr by (simp add: add.commute)
  next
    case thru
    have "reach M N (int p) (int (Suc p)) \<Sigma> s' st (Done \<Sigma> s' (v # st))"
      using push [OF c(1)] thru(1) by (simp add: add.commute)
    from reach_trans [OF thru(2) reach_trans [OF this branch_at(3) [OF c(2)]]] show ?thesis using c(5) Inr by simp
  qed
qed

lemma compiled_conditions:
  assumes "ready env c" and "list_all2 (strips env rec) xs ms" and "nextLabel c = l"
    and "conditions_loop rec stop l (c\<lparr>nextLabel := l + 2\<rparr>) (list_of xs) CompiledBlock_Create = (b, c')"
  shows "compiled env nr c (eval_conditions stop ms) (finish_conditions stop l (Suc l) b, c')"
proof -
  let ?c = "c\<lparr>nextLabel := l + 2\<rparr>"
  have ext: "extends c ?c" using extends_label assms(3) by simp
  have rdy: "ready env ?c" using ready_extends [OF assms(1) ext] .
  obtain bs where b: "wfb b" "finalStackDelta b = 0" "extends ?c c'" "fresh ?c c' (block_code b)"
      "block_code b = conditions_code stop l bs" "condition_blocks_ok env ?c c' (maxStackDepth b) bs ms"
    using conditions_loop_ok [OF rdy assms(2) wfb_Create _ extends_same, of stop l] assms(4) by auto
  note fin = finish_conditions_simps [OF b(1,2), of stop l "Suc l"]
  let ?d = "maxStackDepth b"
  have "implements (ctx env T N c) (finish_conditions stop l (Suc l) b) (keep 1 (eval_conditions stop ms))"
    if rm: "room c' T N" for T N
  proof (rule implementsI)
    fix s q s' D and st :: "SmileObject list"
    assume "keep 1 (eval_conditions stop ms) s = Some (q, s')"
      and D: "int (length st) + maxStackDepth (finish_conditions stop l (Suc l) b) \<le> D"
    then obtain r where r: "eval_conditions stop ms s = Some (r, s')"
        "q = (case r of Inl e \<Rightarrow> Inl e | Inr v \<Rightarrow> Inr [v])" by (auto simp: keep_Some)
    have bs: "list_all2 (\<lambda>(b, neg) (m, neg'). neg = neg' \<and> implements (ctx env T N c) b (keep 1 m)
        \<and> int (length st) + maxStackDepth b \<le> D) bs ms"
    proof (rule list_all2_mono)
      show "list_all2 (\<lambda>(b, neg) (m, neg'). neg = neg' \<and> implements (ctx env T N c) b (keep 1 m)
          \<and> maxStackDepth b \<le> ?d) bs ms"
        using b(6) rm unfolding condition_blocks_ok_def ctx_extends [OF ext] by blast
    qed (use D fin(3) in auto)
    show "leads (ctx env T N c) (block_code (finish_conditions stop l (Suc l) b)) D s st
        (out_of (cscopes (ctx env T N c)) st (q, s'))"
      unfolding leads_def
    proof (intro allI impI)
      fix M lab a
      assume h: "hosts M (ctx env T N c) D" and "code_at lab (mcode M) a (block_code (finish_conditions stop l (Suc l) b))"
      then have ca: "code_at lab (mcode M) a (conditions_code stop l bs)"
        "code_at lab (mcode M) (a + code_size (conditions_code stop l bs))
          [Inl (Stack (Op_LdBool (\<not> stop))), Inl (Op_Jmp (Some (Suc l))), Inr l, Inl (Stack (Op_LdBool stop)), Inr (Suc l)]"
        using fin(5) b(5) by simp_all
      have "int N + int (length st) + 1 \<le> int (mcap M)" using h D fin(4) by (simp add: hosts_def)
      from finish_conditions_run [OF conditions_run [OF bs h ca(1) r(1)] ca(2)] this
      show "reach M (cvars (ctx env T N c)) (int a)
          (int (a + code_size (block_code (finish_conditions stop l (Suc l) b)))) (cscopes (ctx env T N c)) s st
          (out_of (cscopes (ctx env T N c)) st (q, s'))"
        using fin(5) b(5) r(2) by (cases r) (simp_all add: ac_simps)
    qed
  next
    fix s vs s' assume "keep 1 (eval_conditions stop ms) s = Some (Inr vs, s')"
    then show "int (length vs) = finalStackDelta (finish_conditions stop l (Suc l) b)"
      using fin(2) by (auto simp: pushing_def split: option.splits sum.splits)
  qed
  moreover have "extends c c'" using extends_chain [OF ext b(3)] .
  moreover have "fresh c c' (block_code (finish_conditions stop l (Suc l) b))"
    using b(3,4) fin(5) assms(3) by (auto simp: fresh_def extends_def)
  ultimately show ?thesis using fin(1,2) by (simp add: compiled_def)
qed

lemma compiled_And:
  assumes "ready env c" and "list_all2 (strips env rec) xs ms" and "xs \<noteq> []"
  shows "compiled env nr c (eval_conditions False ms) (Compiler_CompileAnd rec c (list_of xs) nr)"
    and "compiled env nr c (eval_conditions True ms) (Compiler_CompileOr rec c (list_of xs) nr)"
proof -
  let ?l = "nextLabel c" and ?c = "c\<lparr>nextLabel := nextLabel c + 2\<rparr>"
  obtain b c' where 1: "conditions_loop rec False ?l ?c (list_of xs) CompiledBlock_Create = (b, c')" by fastforce
  obtain b2 c2 where 2: "conditions_loop rec True ?l ?c (list_of xs) CompiledBlock_Create = (b2, c2)" by fastforce
  show "compiled env nr c (eval_conditions False ms) (Compiler_CompileAnd rec c (list_of xs) nr)"
    using compiled_conditions [OF assms(1,2) refl 1] assms(3) 1
    by (simp add: Compiler_CompileAnd_def new_label_def finish_conditions_def Let_def)
  show "compiled env nr c (eval_conditions True ms) (Compiler_CompileOr rec c (list_of xs) nr)"
    using compiled_conditions [OF assms(1,2) refl 2] assms(3) 2
    by (simp add: Compiler_CompileOr_def new_label_def finish_conditions_def Let_def)
qed

end
