(* ===== verification/CompilerConditionals.thy ===== *)
theory CompilerConditionals
  imports CompilerBranches
begin

text \<open>
  Correctness of the compiler, continued: \<^verbatim>\<open>[$if]\<close>.
\<close>

section \<open>A condition and two ways on\<close>

definition pack :: "int \<Rightarrow> SmileObject + SmileObject \<Rightarrow> SmileObject + SmileObject list" where
  "pack d q = (case q of Inl e \<Rightarrow> Inl e | Inr v \<Rightarrow> Inr (if d = 0 then [] else [v]))"

lemma keep_pack: "keep d m s = Some (r, s') \<longleftrightarrow> (\<exists>q. m s = Some (q, s') \<and> r = pack d q)"
  by (auto simp: pushing_def pack_def split: option.splits sum.splits)

lemma keep_and_then:
  assumes "keep d (and_then m f) s = Some (r, s')"
  obtains (raise) e where "keep 1 m s = Some (Inl e, s')" "r = Inl e"
    | (step) v s1 where "keep 1 m s = Some (Inr [v], s1)" "keep d (f v) s1 = Some (r, s')"
  using assms by (fastforce simp: and_then_def pushing_def split: option.splits sum.splits)

text \<open>The code of a condition at \<open>a\<close>, and what follows it.\<close>

lemma reach_if:
  fixes \<Gamma> :: "'w Ctx"
  assumes "implements \<Gamma> cb (keep 1 m)" and "int (length st) + maxStackDepth cb \<le> D" and "hosts M \<Gamma> D"
    and "code_at lab (mcode M) a (block_code cb)"
    and br: "\<And>v s1. reach M (cvars \<Gamma>) (int a + int (code_size (block_code cb))) (if truth v then pt else pf)
        (cscopes \<Gamma>) s1 (v # st) (Done (cscopes \<Gamma>) s1 st)"
    and t: "\<And>s1 r s'. keep d mt s1 = Some (r, s') \<Longrightarrow>
        reach M (cvars \<Gamma>) pt q (cscopes \<Gamma>) s1 st (out_of (cscopes \<Gamma>) st (r, s'))"
    and f: "\<And>s1 r s'. keep d mf s1 = Some (r, s') \<Longrightarrow>
        reach M (cvars \<Gamma>) pf q (cscopes \<Gamma>) s1 st (out_of (cscopes \<Gamma>) st (r, s'))"
    and r: "keep d (and_then m (\<lambda>v. if truth v then mt else mf)) s = Some (r, s')"
  shows "reach M (cvars \<Gamma>) (int a) q (cscopes \<Gamma>) s st (out_of (cscopes \<Gamma>) st (r, s'))"
  using r
proof (cases rule: keep_and_then)
  case (raise e)
  from implementsD_reach [OF assms(1) raise(1) assms(2-4)] show ?thesis using raise(2) by (auto intro: reach_Exc)
next
  case (step v s1)
  from implementsD_reach [OF assms(1) step(1) assms(2-4)]
  have "reach M (cvars \<Gamma>) (int a) (int a + int (code_size (block_code cb))) (cscopes \<Gamma>) s st
      (Done (cscopes \<Gamma>) s1 (v # st))" by simp
  note 1 = reach_trans [OF this br]
  show ?thesis
    using reach_trans [OF 1] t [of s1 r s'] f [of s1 r s'] step(2) by (cases "truth v") simp_all
qed

lemma reach_out_trans:
  assumes "reach M N p q \<Sigma> s st (out_of \<Sigma> st (r, s'))"
    and "\<And>s xs. reach M N q q' \<Sigma> s xs (Done \<Sigma> s xs)"
  shows "reach M N p q' \<Sigma> s st (out_of \<Sigma> st (r, s'))"
  using assms by (cases r) (auto intro: reach_trans reach_Exc)

lemma reach_if_blocks:
  fixes \<Gamma> :: "'w Ctx"
  assumes "implements \<Gamma> cb (keep 1 m)" "implements \<Gamma> tb (keep d mt)" "implements \<Gamma> fb (keep d mf)"
    and "int (length st) + maxStackDepth cb \<le> D" "int (length st) + maxStackDepth tb \<le> D"
      "int (length st) + maxStackDepth fb \<le> D" and "hosts M \<Gamma> D"
    and "code_at lab (mcode M) a (block_code cb)" "code_at lab (mcode M) pt (block_code tb)"
      "code_at lab (mcode M) pf (block_code fb)"
    and "keep d (and_then m (\<lambda>v. if truth v then mt else mf)) s = Some (r, s')"
    and "\<And>v s1. reach M (cvars \<Gamma>) (int (a + code_size (block_code cb))) (if truth v then int pt else int pf)
        (cscopes \<Gamma>) s1 (v # st) (Done (cscopes \<Gamma>) s1 st)"
    and "\<And>s xs. reach M (cvars \<Gamma>) (int (pt + code_size (block_code tb))) q (cscopes \<Gamma>) s xs (Done (cscopes \<Gamma>) s xs)"
    and "\<And>s xs. reach M (cvars \<Gamma>) (int (pf + code_size (block_code fb))) q (cscopes \<Gamma>) s xs (Done (cscopes \<Gamma>) s xs)"
  shows "reach M (cvars \<Gamma>) (int a) q (cscopes \<Gamma>) s st (out_of (cscopes \<Gamma>) st (r, s'))"
proof (rule reach_if [OF assms(1,4,7,8) _ _ _ assms(11)])
  fix s1 r s'
  show "reach M (cvars \<Gamma>) (int pt) q (cscopes \<Gamma>) s1 st (out_of (cscopes \<Gamma>) st (r, s'))"
    if "keep d mt s1 = Some (r, s')"
    using implementsD_reach [OF assms(2) that assms(5,7,9)] assms(13) by (auto intro: reach_out_trans)
  show "reach M (cvars \<Gamma>) (int pf) q (cscopes \<Gamma>) s1 st (out_of (cscopes \<Gamma>) st (r, s'))"
    if "keep d mf s1 = Some (r, s')"
    using implementsD_reach [OF assms(3) that assms(6,7,10)] assms(14) by (auto intro: reach_out_trans)
qed (use assms(12) in simp)

lemma reach_same: "p = q \<Longrightarrow> reach M N p q \<Sigma> s xs (Done \<Sigma> s xs)"
  by (simp add: reach_refl)

lemma branch_next:
  "code_at lab (mcode M) a [Inl (Op_Bt (Some l))] \<Longrightarrow>
     reach M N (int a) (if truth v then int (lab l) else int (Suc a)) \<Sigma> s (v # st) (Done \<Sigma> s st)"
  "code_at lab (mcode M) a [Inl (Op_Bf (Some l))] \<Longrightarrow>
     reach M N (int a) (if truth v then int (Suc a) else int (lab l)) \<Sigma> s (v # st) (Done \<Sigma> s st)"
  using branch_at(1) [of lab M a l N v \<Sigma> s st] branch_at(2) [of lab M a l N v \<Sigma> s st]
  by (simp_all add: add.commute del: code_at.simps split: if_splits)

text \<open>The four layouts.\<close>

lemma implementsI_reach:
  assumes "\<And>M lab a s r s' st D. keep d m s = Some (r, s') \<Longrightarrow> int (length st) + maxStackDepth b \<le> D \<Longrightarrow>
      hosts M \<Gamma> D \<Longrightarrow> code_at lab (mcode M) a (block_code b) \<Longrightarrow>
      reach M (cvars \<Gamma>) (int a) (int a + int (code_size (block_code b))) (cscopes \<Gamma>) s st (out_of (cscopes \<Gamma>) st (r, s'))"
    and "d = finalStackDelta b" and "d \<in> {0, 1}"
  shows "implements \<Gamma> b (keep d m)"
proof (rule implementsI)
  fix s r s' D and xs :: "SmileObject list"
  assume "keep d m s = Some (r, s')" "int (length xs) + maxStackDepth b \<le> D"
  then show "leads \<Gamma> (block_code b) D s xs (out_of (cscopes \<Gamma>) xs (r, s'))"
    using assms(1) by (simp add: leads_def)
next
  fix s vs s' assume "keep d m s = Some (Inr vs, s')"
  then show "int (length vs) = finalStackDelta b"
    using assms(2,3) by (auto simp: pushing_def split: option.splits sum.splits)
qed

lemma implements_if:
  fixes \<Gamma> :: "'w Ctx"
  assumes c: "implements \<Gamma> cb (keep 1 m)" and t: "implements \<Gamma> tb (keep d mt)" and f: "implements \<Gamma> fb (keep d mf)"
    and d: "d = finalStackDelta b" "d \<in> {0, 1}"
    and depth: "maxStackDepth cb \<le> maxStackDepth b" "maxStackDepth tb \<le> maxStackDepth b" "maxStackDepth fb \<le> maxStackDepth b"
    and code: "block_code b = block_code cb @ [Inl (Op_Bf (Some l))] @ block_code tb
          @ [Inl (Op_Jmp (Some j)), Inr l] @ block_code fb @ [Inr j]
      \<or> block_code b = block_code cb @ [Inl (Op_Bf (Some l))] @ block_code tb @ [Inr l] \<and> block_code fb = []
      \<or> block_code b = block_code cb @ [Inl (Op_Bt (Some l))] @ block_code fb @ [Inr l] \<and> block_code tb = []"
  shows "implements \<Gamma> b (keep d (and_then m (\<lambda>v. if truth v then mt else mf)))"
proof (rule implementsI_reach [OF _ d])
  fix M :: "'w AMachine" and lab a s r s' D and st :: "SmileObject list"
  assume r: "keep d (and_then m (\<lambda>v. if truth v then mt else mf)) s = Some (r, s')"
    and D: "int (length st) + maxStackDepth b \<le> D" and h: "hosts M \<Gamma> D" and ca: "code_at lab (mcode M) a (block_code b)"
  have D': "int (length st) + maxStackDepth cb \<le> D" "int (length st) + maxStackDepth tb \<le> D"
    "int (length st) + maxStackDepth fb \<le> D" using D depth by auto
  let ?a1 = "a + code_size (block_code cb)" and ?N = "cvars \<Gamma>" and ?\<Sigma> = "cscopes \<Gamma>"
  let ?q = "int a + int (code_size (block_code b))"
  note run = reach_if_blocks [OF c t f D' h _ _ _ r, where q = ?q]
  from code consider (both) "block_code b = block_code cb @ [Inl (Op_Bf (Some l))] @ block_code tb
          @ [Inl (Op_Jmp (Some j)), Inr l] @ block_code fb @ [Inr j]"
    | (no_else) "block_code b = block_code cb @ [Inl (Op_Bf (Some l))] @ block_code tb @ [Inr l]" "block_code fb = []"
    | (no_then) "block_code b = block_code cb @ [Inl (Op_Bt (Some l))] @ block_code fb @ [Inr l]" "block_code tb = []"
    by blast
  then show "reach M ?N (int a) ?q ?\<Sigma> s st (out_of ?\<Sigma> st (r, s'))"
  proof cases
    case both
    let ?j = "Suc ?a1 + code_size (block_code tb)"
    have cc: "code_at lab (mcode M) a (block_code cb)" "code_at lab (mcode M) (Suc ?a1) (block_code tb)"
      "code_at lab (mcode M) (lab l) (block_code fb)" "code_at lab (mcode M) ?a1 [Inl (Op_Bf (Some l))]"
      "code_at lab (mcode M) ?j [Inl (Op_Jmp (Some j))]" "?q = int (lab j)" "?q = int (lab l + code_size (block_code fb))"
      using ca both by (simp_all add: ac_simps)
    show ?thesis
      by (rule run [OF cc(1-3) branch_next(2) [OF cc(4)]])
        (use branch_at(3) [OF cc(5)] reach_refl cc(6,7) in simp_all)
  next
    case no_else
    have cc: "code_at lab (mcode M) a (block_code cb)" "code_at lab (mcode M) (Suc ?a1) (block_code tb)"
      "code_at lab (mcode M) (lab l) (block_code fb)" "code_at lab (mcode M) ?a1 [Inl (Op_Bf (Some l))]"
      "?q = int (Suc ?a1 + code_size (block_code tb))" "?q = int (lab l + code_size (block_code fb))"
      using ca no_else by (simp_all add: ac_simps)
    show ?thesis
      by (rule run [OF cc(1-3) branch_next(2) [OF cc(4)]])
        (use cc(5,6) in \<open>auto intro!: reach_same\<close>)
  next
    case no_then
    have cc: "code_at lab (mcode M) a (block_code cb)" "code_at lab (mcode M) (lab l) (block_code tb)"
      "code_at lab (mcode M) (Suc ?a1) (block_code fb)" "code_at lab (mcode M) ?a1 [Inl (Op_Bt (Some l))]"
      "?q = int (lab l + code_size (block_code tb))" "?q = int (Suc ?a1 + code_size (block_code fb))"
      using ca no_then by (simp_all add: ac_simps)
    show ?thesis
      by (rule run [OF cc(1-3) branch_next(1) [OF cc(4)]])
        (use cc(5,6) in \<open>auto intro!: reach_same\<close>)
  qed
qed

section \<open>The compiler of conditionals\<close>

lemma compiled_if_block:
  assumes rdy: "ready env c" and cb: "compiled env False c m (cb, c1)"
    and tb: "compiled env nr c1 mt (tb, c2)" "finalStackDelta tb = (if nr then 0 else 1)"
    and fb: "compiled env nr c2 mf (fb, c3)" "finalStackDelta fb = (if nr then 0 else 1)"
    and b: "wfb b" "finalStackDelta b = (if nr then 0 else 1)"
      "maxStackDepth cb \<le> maxStackDepth b" "maxStackDepth tb \<le> maxStackDepth b" "maxStackDepth fb \<le> maxStackDepth b"
    and l: "l = nextLabel c3" "j = Suc l"
    and code: "block_code b = block_code cb @ [Inl (Op_Bf (Some l))] @ block_code tb
          @ [Inl (Op_Jmp (Some j)), Inr l] @ block_code fb @ [Inr j]
      \<or> block_code b = block_code cb @ [Inl (Op_Bf (Some l))] @ block_code tb @ [Inr l] \<and> block_code fb = []
      \<or> block_code b = block_code cb @ [Inl (Op_Bt (Some l))] @ block_code fb @ [Inr l] \<and> block_code tb = []"
  shows "compiled env nr c (and_then m (\<lambda>v. if truth v then mt else mf)) (b, c3\<lparr>nextLabel := Suc (Suc l)\<rparr>)"
proof -
  note kc = compiledD [OF cb] and kt = compiledD [OF tb(1)] and kf = compiledD [OF fb(1)]
  let ?c = "c3\<lparr>nextLabel := Suc (Suc l)\<rparr>"
  have e3: "extends c3 ?c" using l by (intro extends_label) simp
  have e2: "extends c c2" using extends_chain [OF kc(4) kt(4)] .
  have ext: "extends c ?c" using extends_chain [OF extends_chain [OF e2 kf(4)] e3] .
  have "implements (ctx env T N c) b (keep (if nr then 0 else 1) (and_then m (\<lambda>v. if truth v then mt else mf)))"
    if rm: "room ?c T N" for T N
  proof (rule implements_if [OF _ _ _ _ _ b(3-5) code])
    have r3: "room c3 T N" using room_extends [OF ready_extends [OF rdy extends_chain [OF e2 kf(4)]] e3 rm] .
    have r2: "room c2 T N" using room_extends [OF ready_extends [OF rdy e2] kf(4) r3] .
    have r1: "room c1 T N" using room_extends [OF ready_extends [OF rdy kc(4)] kt(4) r2] .
    show "implements (ctx env T N c) cb (keep 1 m)" using kc(6) [OF r1] kc(3) by simp
    show "implements (ctx env T N c) tb (keep (if nr then 0 else 1) mt)"
      using kt(6) [OF r2] tb(2) by (simp add: ctx_extends [OF kc(4)] split: if_splits)
    show "implements (ctx env T N c) fb (keep (if nr then 0 else 1) mf)"
      using kf(6) [OF r3] fb(2) by (simp add: ctx_extends [OF e2] split: if_splits)
  qed (use b(2) in auto)
  moreover have "fresh c ?c (block_code b)"
    using code kc(4,5) kt(4,5) kf(4,5) l by (fastforce simp: fresh_def extends_def)
  ultimately show ?thesis using b(1,2) ext by (simp add: compiled_def)
qed

text \<open>The blocks of the layouts.\<close>

definition if_both :: "CompiledBlock \<Rightarrow> CompiledBlock \<Rightarrow> CompiledBlock \<Rightarrow> nat \<Rightarrow> nat \<Rightarrow> CompiledBlock" where
  "if_both cb tb fb l j =
     (let b1 = EMIT0 (append_child CompiledBlock_Create cb) (Op_Bf (jump_to l)) (-1);
          b2 = append_child b1 tb;
          b3 = EMIT0 (set_stack (maxStackDepth b2) (finalStackDelta b1) b2) (Op_Jmp (jump_to j)) 0
      in EMIT_LABEL (append_child (EMIT_LABEL b3 l) fb) j)"

definition if_one :: "branch ByteCode \<Rightarrow> CompiledBlock \<Rightarrow> CompiledBlock \<Rightarrow> nat \<Rightarrow> CompiledBlock" where
  "if_one i cb tb l = EMIT_LABEL (append_child (EMIT0 (append_child CompiledBlock_Create cb) i (-1)) tb) l"

lemma wfb_set_stack: "wfb b \<Longrightarrow> 0 \<le> m \<Longrightarrow> f \<le> m \<Longrightarrow> instructions b \<noteq> [] \<Longrightarrow> wfb (set_stack m f b)"
  by (simp add: wfb_def)

lemma if_both_simps:
  assumes "wfb cb" "wfb tb" "wfb fb" and "finalStackDelta cb = 1"
  shows "wfb (if_both cb tb fb l j)" "finalStackDelta (if_both cb tb fb l j) = finalStackDelta fb"
    "maxStackDepth cb \<le> maxStackDepth (if_both cb tb fb l j)" "maxStackDepth tb \<le> maxStackDepth (if_both cb tb fb l j)"
    "maxStackDepth fb \<le> maxStackDepth (if_both cb tb fb l j)"
    "block_code (if_both cb tb fb l j) = block_code cb @ [Inl (Op_Bf (Some l))] @ block_code tb
          @ [Inl (Op_Jmp (Some j)), Inr l] @ block_code fb @ [Inr j]"
proof -
  let ?b1 = "EMIT0 (append_child CompiledBlock_Create cb) (Op_Bf (jump_to l)) (-1)"
  let ?b2 = "append_child ?b1 tb"
  have b1: "wfb ?b1" "finalStackDelta ?b1 = 0" "maxStackDepth cb \<le> maxStackDepth ?b1" "0 \<le> maxStackDepth ?b1"
    "block_code ?b1 = block_code cb @ [Inl (Op_Bf (Some l))]" "instructions ?b1 \<noteq> []"
    using assms(1,4) by (simp_all add: wfb_def)
  have b2: "wfb ?b2" "maxStackDepth ?b2 = max (maxStackDepth ?b1) (maxStackDepth tb)" "instructions ?b2 \<noteq> []"
    "block_code ?b2 = block_code cb @ [Inl (Op_Bf (Some l))] @ block_code tb"
    using b1 assms(2) by (simp_all add: append_child_empty)
  let ?b3 = "EMIT_LABEL (EMIT0 (set_stack (maxStackDepth ?b2) (finalStackDelta ?b1) ?b2) (Op_Jmp (jump_to j)) 0) l"
  have b3: "wfb ?b3" "finalStackDelta ?b3 = 0" "maxStackDepth ?b2 \<le> maxStackDepth ?b3"
    "block_code ?b3 = block_code ?b2 @ [Inl (Op_Jmp (Some j)), Inr l]"
    using b1(2,4) b2(2) wfb_set_stack [OF b2(1) _ _ b2(3), of "maxStackDepth ?b2" 0] by simp_all
  have eq: "if_both cb tb fb l j = EMIT_LABEL (append_child ?b3 fb) j" by (simp add: if_both_def Let_def)
  show "wfb (if_both cb tb fb l j)" "finalStackDelta (if_both cb tb fb l j) = finalStackDelta fb"
    "maxStackDepth cb \<le> maxStackDepth (if_both cb tb fb l j)" "maxStackDepth tb \<le> maxStackDepth (if_both cb tb fb l j)"
    "maxStackDepth fb \<le> maxStackDepth (if_both cb tb fb l j)"
    "block_code (if_both cb tb fb l j) = block_code cb @ [Inl (Op_Bf (Some l))] @ block_code tb
          @ [Inl (Op_Jmp (Some j)), Inr l] @ block_code fb @ [Inr j]"
    unfolding eq using b1(3) b2(2,4) b3 assms(3) by simp_all
qed

lemma if_one_simps:
  assumes "wfb cb" "wfb tb" and "finalStackDelta cb = 1"
  shows "wfb (if_one i cb tb l)" "finalStackDelta (if_one i cb tb l) = finalStackDelta tb"
    "maxStackDepth cb \<le> maxStackDepth (if_one i cb tb l)" "maxStackDepth tb \<le> maxStackDepth (if_one i cb tb l)"
    "0 \<le> maxStackDepth (if_one i cb tb l)"
    "block_code (if_one i cb tb l) = block_code cb @ [Inl (map_ByteCode snd i)] @ block_code tb @ [Inr l]"
  using assms by (auto simp: if_one_def wfb_def)

text \<open>When both clauses are empty, the condition is compiled again, without its value.\<close>

lemma implements_then_nothing:
  assumes "implements \<Gamma> b (keep 0 m)" and "\<And>v. \<exists>eb. implements \<Gamma> eb (keep 0 (f v)) \<and> block_code eb = [] \<and> maxStackDepth eb = 0"
    and "wfb b" and "finalStackDelta b = 0"
  shows "implements \<Gamma> b (keep 0 (and_then m f))"
proof (rule implementsI)
  fix s r s' D and xs :: "SmileObject list"
  assume r: "keep 0 (and_then m f) s = Some (r, s')" and D: "int (length xs) + maxStackDepth b \<le> D"
  have D0: "int (length xs) + 0 \<le> D" using D assms(3) by (auto simp: wfb_def)
  from r consider (raise) e where "keep 0 m s = Some (Inl e, s')" "r = Inl e"
    | (step) v s1 where "keep 0 m s = Some (Inr [], s1)" "keep 0 (f v) s1 = Some (r, s')"
    by (fastforce simp: and_then_def pushing_def split: option.splits sum.splits)
  then show "leads \<Gamma> (block_code b) D s xs (out_of (cscopes \<Gamma>) xs (r, s'))"
  proof cases
    case raise
    then show ?thesis using implementsD(1) [OF assms(1) raise(1) D] by simp
  next
    case step
    obtain eb where eb: "implements \<Gamma> eb (keep 0 (f v))" "block_code eb = []" "maxStackDepth eb = 0" using assms(2) by blast
    have "leads \<Gamma> (block_code b) D s xs (Done (cscopes \<Gamma>) s1 xs)"
      using implementsD(1) [OF assms(1) step(1) D] by simp
    from leads_append [OF this, of "[]"] implementsD(1) [OF eb(1) step(2)] eb(2,3) D0 show ?thesis by simp
  qed
qed (use assms(4) in \<open>auto simp: pushing_def split: option.splits sum.splits\<close>)

lemma compiled_then_nothing:
  assumes "ready env c" and "extends c c1" "extends c1 c2" "extends c2 c3"
    and b: "compiled env True c3 m (b, c4)" "finalStackDelta b = 0"
    and tb: "compiled env nr c1 mt (tb, c2)" "instructions tb = []"
    and fb: "compiled env nr c2 mf (fb, c3)" "instructions fb = []"
  shows "compiled env True c (and_then m (\<lambda>v. if truth v then mt else mf)) (b, c4)"
proof -
  note kb = compiledD [OF b(1)] and kt = compiledD [OF tb(1)] and kf = compiledD [OF fb(1)]
  have e: "extends c c2" "extends c c3" "extends c c4"
    using assms(2-4) kb(4) by (blast intro: extends_chain)+
  have d: "finalStackDelta tb = 0" "maxStackDepth tb = 0" "finalStackDelta fb = 0" "maxStackDepth fb = 0"
    using kt(1) kf(1) tb(2) fb(2) by (auto simp: wfb_def)
  have "implements (ctx env T N c) b (keep 0 (and_then m (\<lambda>v. if truth v then mt else mf)))"
    if rm: "room c4 T N" for T N
  proof (rule implements_then_nothing [OF _ _ kb(1) b(2)])
    have r3: "room c3 T N" using room_extends [OF ready_extends [OF assms(1) e(2)] kb(4) rm] .
    have r2: "room c2 T N" using room_extends [OF ready_extends [OF assms(1) e(1)] kf(4) r3] .
    show "implements (ctx env T N c) b (keep 0 m)" using kb(6) [OF rm] b(2) by (simp add: ctx_extends [OF e(2)])
    have "implements (ctx env T N c) tb (keep 0 mt)" "implements (ctx env T N c) fb (keep 0 mf)"
      using kt(6) [OF r2] kf(6) [OF r3] d by (simp_all add: ctx_extends [OF assms(2)] ctx_extends [OF e(1)])
    then show "\<exists>eb. implements (ctx env T N c) eb (keep 0 (if truth v then mt else mf)) \<and> block_code eb = [] \<and> maxStackDepth eb = 0"
      for v using d tb(2) fb(2) by (cases "truth v") auto
  qed
  moreover have "fresh c c4 (block_code b)" using kb(5) e(2) by (fastforce simp: fresh_def extends_def)
  ultimately show ?thesis using kb(1) b(2) e(3) by (simp add: compiled_def)
qed

lemma compiled_if:
  assumes "ready env c" and "strips env rec x (m, neg)" and "handles env rec nr t mt" and "handles env rec nr e me"
    and "nr \<Longrightarrow> handles env rec True (fst (Compiler_StripNots c x)) m"
  shows "compiled env nr c (and_then m (\<lambda>v. if truth v \<noteq> neg then mt else me)) (compile_if_clauses rec c x t e nr)"
    and "finalStackDelta (fst (compile_if_clauses rec c x t e nr)) = (if nr then 0 else 1)"
proof -
  let ?t = "if neg then e else t" and ?e = "if neg then t else e"
  let ?mt = "if neg then me else mt" and ?me = "if neg then mt else me"
  have swap: "and_then m (\<lambda>v. if truth v \<noteq> neg then mt else me) = and_then m (\<lambda>v. if truth v then ?mt else ?me)"
    by (cases neg) (auto intro!: arg_cong [where f = "and_then m"])
  have ht: "handles env rec nr ?t ?mt" "handles env rec nr ?e ?me" using assms(3,4) by simp_all
  obtain y where y: "Compiler_StripNots c x = (y, neg)" "handles env rec False y m"
    using assms(1,2) by (auto simp: strips_def)
  obtain cb c1 where 1: "rec c y False = (cb, c1)" "compiled env False c m (cb, c1)" "extends c c1" "ready env c1"
    using handlesE [OF y(2) assms(1)] .
  obtain tb c2 where 2: "rec c1 ?t nr = (tb, c2)" "compiled env nr c1 ?mt (tb, c2)" "extends c1 c2" "ready env c2"
    using handlesE [OF ht(1) 1(4)] .
  obtain fb c3 where 3: "rec c2 ?e nr = (fb, c3)" "compiled env nr c2 ?me (fb, c3)" "extends c2 c3" "ready env c3"
    using handlesE [OF ht(2) 2(4)] .
  let ?cb = "Compiler_EmitRequireResult cb" and ?tb = "Compiler_MakeStackMatchCompileFlags tb nr"
    and ?fb = "Compiler_MakeStackMatchCompileFlags fb nr"
  note kc = compiledD [OF 1(2)] and mt = compiled_match [OF 2(2)] and mf = compiled_match [OF 3(2)]
  note kt = compiledD [OF mt(1)] and kf = compiledD [OF mf(1)]
  have cb: "?cb = cb" using kc(3) by simp
  let ?r = "compile_if_clauses rec c x t e nr" and ?c5 = "c3\<lparr>nextLabel := Suc (Suc (nextLabel c3))\<rparr>"
  let ?m = "and_then m (\<lambda>v. if truth v then ?mt else ?me)"
  have block: "compiled env nr c ?m ?r \<and> finalStackDelta (fst ?r) = (if nr then 0 else 1)"
    if "?r = (b, ?c5)" "wfb b" "finalStackDelta b = (if nr then 0 else 1)"
      "maxStackDepth cb \<le> maxStackDepth b" "maxStackDepth ?tb \<le> maxStackDepth b" "maxStackDepth ?fb \<le> maxStackDepth b"
      "block_code b = block_code cb @ [Inl (Op_Bf (Some (nextLabel c3)))] @ block_code ?tb
          @ [Inl (Op_Jmp (Some (Suc (nextLabel c3)))), Inr (nextLabel c3)] @ block_code ?fb @ [Inr (Suc (nextLabel c3))]
      \<or> block_code b = block_code cb @ [Inl (Op_Bf (Some (nextLabel c3)))] @ block_code ?tb @ [Inr (nextLabel c3)]
        \<and> block_code ?fb = []
      \<or> block_code b = block_code cb @ [Inl (Op_Bt (Some (nextLabel c3)))] @ block_code ?fb @ [Inr (nextLabel c3)]
        \<and> block_code ?tb = []" for b
    using compiled_if_block [OF assms(1) 1(2) mt mf that(2-6) refl refl that(7)] that(1,3) by simp
  have "compiled env nr c ?m ?r \<and> finalStackDelta (fst ?r) = (if nr then 0 else 1)"
  proof (cases "instructions ?tb = [] \<and> instructions ?fb = []")
    case True
    then have nr using mt(2) kt(1) by (auto simp: wfb_def split: if_splits)
    then have "handles env rec True y m" using assms(5) y(1) by simp
    then obtain b4 c4 where 4: "rec c3 y True = (b4, c4)" "compiled env True c3 m (b4, c4)"
      using handlesE [OF _ 3(4)] by metis
    note no = compiled_no_result [OF 4(2)]
    have r: "?r = (Compiler_EmitNoResult b4, c4)"
      using True \<open>nr\<close> y(1) 1(1) 2(1) 3(1) 4(1) by (simp add: compile_if_clauses_def new_label_def Let_def)
    have "compiled env True c ?m (Compiler_EmitNoResult b4, c4)"
      using compiled_then_nothing [OF assms(1) 1(3) 2(3) 3(3) no mt(1) _ mf(1)] True by simp
    then show ?thesis using no(2) r \<open>nr\<close> by simp
  next
    case False
    have len: "instructions ?tb = [] \<Longrightarrow> nr \<and> maxStackDepth ?tb = 0" "instructions ?fb = [] \<Longrightarrow> nr \<and> maxStackDepth ?fb = 0"
      using mt(2) mf(2) kt(1) kf(1) by (auto simp: wfb_def split: if_splits)
    let ?l = "nextLabel c3"
    let ?b = "if instructions ?tb \<noteq> [] \<and> instructions ?fb \<noteq> [] then if_both cb ?tb ?fb ?l (Suc ?l)
      else if instructions ?tb \<noteq> [] then if_one (Op_Bf (jump_to ?l)) cb ?tb ?l
      else if_one (Op_Bt (jump_to ?l)) cb ?fb ?l"
    have "\<not> escapes ?tb" using kt(1) by (simp add: wfb_def)
    then have r: "?r = (?b, ?c5)"
      using False y(1) 1(1) 2(1) 3(1) cb
      by (simp add: compile_if_clauses_def new_label_def if_both_def if_one_def Let_def)
    note both = if_both_simps [OF kc(1) kt(1) kf(1)] and then_only = if_one_simps [OF kc(1) kt(1)]
      and else_only = if_one_simps [OF kc(1) kf(1)]
    show ?thesis
      by (rule block [OF r]; use False len both then_only else_only kc(3) mt(2) mf(2) in \<open>cases "instructions ?tb = []"; cases "instructions ?fb = []"; simp\<close>)
  qed
  then show "compiled env nr c (and_then m (\<lambda>v. if truth v \<noteq> neg then mt else me)) ?r"
    and "finalStackDelta (fst ?r) = (if nr then 0 else 1)"
    unfolding swap by simp_all
qed

end
