(* ===== verification/CompilerLoops.thy ===== *)
theory CompilerLoops
  imports CompilerConditionals
begin

text \<open>
  Correctness of the compiler, continued: \<^verbatim>\<open>[$while]\<close>.
\<close>

section \<open>Rounds of a loop\<close>

lemma pack_simps [simp]: "pack d (Inl e) = Inl e" "pack 0 (Inr v) = Inr []" "pack 1 (Inr v) = Inr [v]"
  by (simp_all add: pack_def)

lemma reach_then:
  assumes "and_then m f s = Some (r, s')"
    and "\<And>q s1. m s = Some (q, s1) \<Longrightarrow> reach M N p p1 \<Sigma> s st (out_of \<Sigma> st (pack d q, s1))"
    and "\<And>v s1. f v s1 = Some (r, s') \<Longrightarrow>
      reach M N p1 p2 \<Sigma> s1 (if d = 0 then st else v # st) (out_of \<Sigma> st (pack d' r, s'))"
  shows "reach M N p p2 \<Sigma> s st (out_of \<Sigma> st (pack d' r, s'))"
  using assms(1)
proof (cases rule: and_then_cases)
  case (raise e)
  then show ?thesis using assms(2) [of "Inl e" s'] by (auto intro: reach_Exc)
next
  case (step v s1)
  have "reach M N p p1 \<Sigma> s st (Done \<Sigma> s1 (if d = 0 then st else v # st))"
    using assms(2) [OF step(1)] by (simp add: pack_def split: if_splits)
  then show ?thesis using assms(3) [OF step(2)] by (rule reach_trans)
qed

lemma reach_while:
  fixes M :: "'w AMachine"
  assumes pre: "\<And>v s q s1. clause pre v s = Some (q, s1) \<Longrightarrow> reach M N p0 pcond \<Sigma> s st (out_of \<Sigma> st (pack 0 q, s1))"
    and cond: "\<And>s q s1. mc s = Some (q, s1) \<Longrightarrow> reach M N pcond pbr \<Sigma> s st (out_of \<Sigma> st (pack 1 q, s1))"
    and br: "\<And>v s. reach M N pbr (if truth v \<noteq> neg then p1 else pend) \<Sigma> s (v # st) (Done \<Sigma> s st)"
    and post: "\<And>v s q s1. clause post v s = Some (q, s1) \<Longrightarrow> reach M N p1 p0 \<Sigma> s st (out_of \<Sigma> st (pack 0 q, s1))"
    and "while_loop n pre mc neg post v s = Some (r, s')"
  shows "reach M N p0 pend \<Sigma> s st (out_of \<Sigma> st (pack 0 r, s'))"
  using assms(5)
proof (induction n arbitrary: v s)
  case 0
  then show ?case by simp
next
  case (Suc n)
  let ?next = "\<lambda>r b. if truth b \<noteq> neg then and_then (clause post r) (while_loop n pre mc neg post) else ret r"
  have "and_then (clause pre v) (\<lambda>r. and_then mc (?next r)) s = Some (r, s')" using Suc.prems by simp
  then show ?case
  proof (rule reach_then [where d = 0, OF _ pre])
    fix u s1 assume "and_then mc (?next u) s1 = Some (r, s')"
    then have "reach M N pcond pend \<Sigma> s1 st (out_of \<Sigma> st (pack 0 r, s'))"
    proof (rule reach_then [where d = 1, OF _ cond])
      fix b s2 assume n: "?next u b s2 = Some (r, s')"
      have "reach M N (if truth b \<noteq> neg then p1 else pend) pend \<Sigma> s2 st (out_of \<Sigma> st (pack 0 r, s'))"
      proof (cases "truth b \<noteq> neg")
        case True
        then have "and_then (clause post u) (while_loop n pre mc neg post) s2 = Some (r, s')" using n by simp
        then have "reach M N p1 pend \<Sigma> s2 st (out_of \<Sigma> st (pack 0 r, s'))"
          by (rule reach_then [where d = 0, OF _ post]) (simp_all add: Suc.IH)
        then show ?thesis using True by simp
      next
        case False
        then show ?thesis using n by (auto simp: ret_def intro: reach_refl)
      qed
      from reach_trans [OF br this] show "reach M N pbr pend \<Sigma> s2 (if (1::int) = 0 then st else b # st)
          (out_of \<Sigma> st (pack 0 r, s'))" by simp
    qed
    then show "reach M N pcond pend \<Sigma> s1 (if (0::int) = 0 then st else u # st) (out_of \<Sigma> st (pack 0 r, s'))" by simp
  qed
qed

lemma while_no_body_value: "while_loop n None mc neg None v s = Some (Inr u, s') \<Longrightarrow> u = v"
  by (induction n arbitrary: s) (auto simp: clause_def ret_def and_then_def split: option.splits sum.splits if_splits)

lemma branch_unless_at:
  assumes "code_at lab (mcode M) a [Inl (map_ByteCode snd (branch_unless neg l))]"
  shows "reach M N (int a) (if truth v \<noteq> neg then int (lab l) else int (Suc a)) \<Sigma> s (v # st) (Done \<Sigma> s st)"
  using branch_next [of lab M a l N v \<Sigma> s st] assms
  by (cases neg; cases "truth v") (simp_all add: branch_unless_def)


section \<open>The compiler of loops\<close>

text \<open>The part of a loop, put in line on the block it was appended to.\<close>

lemma no_result_append:
  assumes "wfb b" and "finalStackDelta b = 0" and "wfb ch" and "finalStackDelta ch \<in> {0, 1}"
  shows "wfb (Compiler_EmitNoResult (append_child b ch))"
    "finalStackDelta (Compiler_EmitNoResult (append_child b ch)) = 0"
    "block_code (Compiler_EmitNoResult (append_child b ch)) = block_code b @ block_code (Compiler_EmitNoResult ch)"
    "maxStackDepth (Compiler_EmitNoResult ch) \<le> maxStackDepth (Compiler_EmitNoResult (append_child b ch))"
  using assms by (auto simp: Compiler_EmitNoResult_def wfb_def append_child_empty)

definition pre_code :: "nat \<Rightarrow> nat \<Rightarrow> code \<Rightarrow> code \<Rightarrow> bool \<Rightarrow> code" where
  "pre_code j l P C neg =
     [Inl (Op_Jmp (Some j)), Inr l, Inr j] @ P @ C @ [Inl (map_ByteCode snd (branch_unless neg l))]"

definition post_code :: "nat \<Rightarrow> nat \<Rightarrow> code \<Rightarrow> code \<Rightarrow> bool \<Rightarrow> code" where
  "post_code j l P C neg =
     [Inl (Op_Jmp (Some j)), Inr l] @ P @ [Inr j] @ C @ [Inl (map_ByteCode snd (branch_unless neg l))]"

lemma reach_part:
  assumes "implements \<Gamma> b (keep d m)" and "int (length st) + maxStackDepth b \<le> D" and "hosts M \<Gamma> D"
    and "code_at lab (mcode M) a (block_code b)" and "m s = Some (q, s')"
  shows "reach M (cvars \<Gamma>) (int a) (int (a + code_size (block_code b))) (cscopes \<Gamma>) s st
           (out_of (cscopes \<Gamma>) st (pack d q, s'))"
  using implementsD_reach [OF assms(1) _ assms(2-4)] assms(5) by (simp add: keep_pack)

lemma clause_None: "clause None v s = Some (q, s1) \<Longrightarrow> q = Inr v \<and> s1 = s"
  by (simp add: clause_def ret_def)

lemma implements_while_pre:
  fixes \<Gamma> :: "'w Ctx"
  assumes p: "implements \<Gamma> pb (keep 0 mp)" and c: "implements \<Gamma> cb (keep 1 mc)"
    and "finalStackDelta b = 0" and depth: "maxStackDepth pb \<le> maxStackDepth b" "maxStackDepth cb \<le> maxStackDepth b"
    and code: "block_code b = pre_code j l (block_code pb) (block_code cb) neg"
  shows "implements \<Gamma> b (keep 0 (while_loop n (Some mp) mc neg None v))"
proof (rule implementsI_reach)
  fix M :: "'w AMachine" and lab a s r s' D and st :: "SmileObject list"
  assume r: "keep 0 (while_loop n (Some mp) mc neg None v) s = Some (r, s')"
    and D: "int (length st) + maxStackDepth b \<le> D" and h: "hosts M \<Gamma> D" and ca: "code_at lab (mcode M) a (block_code b)"
  let ?a1 = "Suc a + code_size (block_code pb)" let ?a2 = "?a1 + code_size (block_code cb)"
  let ?N = "cvars \<Gamma>" and ?\<Sigma> = "cscopes \<Gamma>"
  have D': "int (length st) + maxStackDepth pb \<le> D" "int (length st) + maxStackDepth cb \<le> D" using D depth by auto
  have cc: "code_at lab (mcode M) a [Inl (Op_Jmp (Some j))]" "lab l = Suc a" "lab j = Suc a"
    "code_at lab (mcode M) (Suc a) (block_code pb)" "code_at lab (mcode M) ?a1 (block_code cb)"
    "code_at lab (mcode M) ?a2 [Inl (map_ByteCode snd (branch_unless neg l))]"
    "int a + int (code_size (block_code b)) = int (Suc ?a2)"
    using ca unfolding code pre_code_def by (simp_all add: ac_simps)
  from r obtain q where q: "while_loop n (Some mp) mc neg None v s = Some (q, s')" "r = pack 0 q" by (auto simp: keep_pack)
  have "reach M ?N (int (Suc a)) (int (Suc ?a2)) ?\<Sigma> s st (out_of ?\<Sigma> st (pack 0 q, s'))"
  proof (rule reach_while [OF _ reach_part [OF c D'(2) h cc(5)] branch_unless_at [OF cc(6)] _ q(1)])
    show "reach M ?N (int (Suc a)) (int ?a1) ?\<Sigma> s st (out_of ?\<Sigma> st (pack 0 q, s1))"
      if "clause (Some mp) v s = Some (q, s1)" for v s q s1
      using reach_part [OF p D'(1) h cc(4)] that by (simp add: clause_def)
  qed (auto simp: cc(2) dest!: clause_None intro: reach_refl)
  from reach_trans [OF branch_at(3) [OF cc(1)]] this
  show "reach M ?N (int a) (int a + int (code_size (block_code b))) ?\<Sigma> s st (out_of ?\<Sigma> st (r, s'))"
    unfolding cc(3,7) q(2) by blast
qed (use assms(3) in auto)

lemma implements_while_post:
  fixes \<Gamma> :: "'w Ctx"
  assumes p: "implements \<Gamma> pb (keep 0 mp)" and c: "implements \<Gamma> cb (keep 1 mc)"
    and "finalStackDelta b = 0" and depth: "maxStackDepth pb \<le> maxStackDepth b" "maxStackDepth cb \<le> maxStackDepth b"
    and code: "block_code b = post_code j l (block_code pb) (block_code cb) neg"
  shows "implements \<Gamma> b (keep 0 (while_loop n None mc neg (Some mp) v))"
proof (rule implementsI_reach)
  fix M :: "'w AMachine" and lab a s r s' D and st :: "SmileObject list"
  assume r: "keep 0 (while_loop n None mc neg (Some mp) v) s = Some (r, s')"
    and D: "int (length st) + maxStackDepth b \<le> D" and h: "hosts M \<Gamma> D" and ca: "code_at lab (mcode M) a (block_code b)"
  let ?a1 = "Suc a + code_size (block_code pb)" let ?a2 = "?a1 + code_size (block_code cb)"
  let ?N = "cvars \<Gamma>" and ?\<Sigma> = "cscopes \<Gamma>"
  have D': "int (length st) + maxStackDepth pb \<le> D" "int (length st) + maxStackDepth cb \<le> D" using D depth by auto
  have cc: "code_at lab (mcode M) a [Inl (Op_Jmp (Some j))]" "lab l = Suc a" "lab j = ?a1"
    "code_at lab (mcode M) (Suc a) (block_code pb)" "code_at lab (mcode M) ?a1 (block_code cb)"
    "code_at lab (mcode M) ?a2 [Inl (map_ByteCode snd (branch_unless neg l))]"
    "int a + int (code_size (block_code b)) = int (Suc ?a2)"
    using ca unfolding code post_code_def by (simp_all add: ac_simps)
  from r obtain q where q: "while_loop n None mc neg (Some mp) v s = Some (q, s')" "r = pack 0 q" by (auto simp: keep_pack)
  have "reach M ?N (int ?a1) (int (Suc ?a2)) ?\<Sigma> s st (out_of ?\<Sigma> st (pack 0 q, s'))"
  proof (rule reach_while [OF _ reach_part [OF c D'(2) h cc(5)] branch_unless_at [OF cc(6)] _ q(1)])
    show "reach M ?N (int (lab l)) (int ?a1) ?\<Sigma> s st (out_of ?\<Sigma> st (pack 0 q, s1))"
      if "clause (Some mp) v s = Some (q, s1)" for v s q s1
      using reach_part [OF p D'(1) h cc(4)] that cc(2) by (simp add: clause_def)
  qed (auto dest!: clause_None intro: reach_refl)
  from reach_trans [OF branch_at(3) [OF cc(1)]] this
  show "reach M ?N (int a) (int a + int (code_size (block_code b))) ?\<Sigma> s st (out_of ?\<Sigma> st (r, s'))"
    unfolding cc(3,7) q(2) by blast
qed (use assms(3) in auto)

lemma implements_while_bare:
  fixes \<Gamma> :: "'w Ctx"
  assumes c: "implements \<Gamma> cb (keep 1 mc)" and "finalStackDelta b = 0" and depth: "maxStackDepth cb \<le> maxStackDepth b"
    and code: "block_code b = Inr l # block_code cb @ [Inl (map_ByteCode snd (branch_unless neg l))]"
  shows "implements \<Gamma> b (keep 0 (while_loop n None mc neg None v))"
proof (rule implementsI_reach)
  fix M :: "'w AMachine" and lab a s r s' D and st :: "SmileObject list"
  assume r: "keep 0 (while_loop n None mc neg None v) s = Some (r, s')"
    and D: "int (length st) + maxStackDepth b \<le> D" and h: "hosts M \<Gamma> D" and ca: "code_at lab (mcode M) a (block_code b)"
  let ?a1 = "a + code_size (block_code cb)" and ?N = "cvars \<Gamma>" and ?\<Sigma> = "cscopes \<Gamma>"
  have D': "int (length st) + maxStackDepth cb \<le> D" using D depth by auto
  have cc: "lab l = a" "code_at lab (mcode M) a (block_code cb)"
    "code_at lab (mcode M) ?a1 [Inl (map_ByteCode snd (branch_unless neg l))]"
    "int a + int (code_size (block_code b)) = int (Suc ?a1)"
    using ca unfolding code by (simp_all add: ac_simps)
  from r obtain q where q: "while_loop n None mc neg None v s = Some (q, s')" "r = pack 0 q" by (auto simp: keep_pack)
  have "reach M ?N (int a) (int (Suc ?a1)) ?\<Sigma> s st (out_of ?\<Sigma> st (pack 0 q, s'))"
    by (rule reach_while [OF _ reach_part [OF c D' h cc(2)] branch_unless_at [OF cc(3)] _ q(1)])
      (auto simp: cc(1) dest!: clause_None intro: reach_refl)
  then show "reach M ?N (int a) (int a + int (code_size (block_code b))) ?\<Sigma> s st (out_of ?\<Sigma> st (r, s'))"
    unfolding cc(4) q(2) .
qed (use assms(2) in auto)


lemma labels_branch [simp]: "labels (pre_code j l P C neg) = l # j # labels P @ labels C"
  "labels (post_code j l P C neg) = l # labels P @ j # labels C"
  by (simp_all add: pre_code_def post_code_def)

text \<open>A loop with one part, whose value is not wanted.\<close>

lemma compiled_while_block:
  assumes rdy: "ready env c" and l: "l = nextLabel c"
    and pb: "compiled env True (c\<lparr>nextLabel := Suc (Suc l)\<rparr>) mp (pb, c1)" "finalStackDelta pb = 0"
    and cb: "compiled env False c1 mc (cb, c2)"
    and b: "wfb b" "finalStackDelta b = 0" "maxStackDepth pb \<le> maxStackDepth b" "maxStackDepth cb \<le> maxStackDepth b"
    and code: "block_code b = pre_code l (Suc l) (block_code pb) (block_code cb) neg \<and> m = while_loop n (Some mp) mc neg None v
      \<or> block_code b = post_code l (Suc l) (block_code pb) (block_code cb) neg \<and> m = while_loop n None mc neg (Some mp) v"
  shows "compiled env True c m (b, c2)"
proof -
  let ?c = "c\<lparr>nextLabel := Suc (Suc l)\<rparr>"
  note kp = compiledD [OF pb(1)] and kc = compiledD [OF cb]
  have e0: "extends c ?c" using l by (intro extends_label) simp
  have e1: "extends c c1" using extends_chain [OF e0 kp(4)] .
  have e2: "extends c c2" using extends_chain [OF e1 kc(4)] .
  have "implements (ctx env T N c) b (keep 0 m)" if rm: "room c2 T N" for T N
  proof -
    have r1: "room c1 T N" using room_extends [OF ready_extends [OF rdy e1] kc(4) rm] .
    have p: "implements (ctx env T N c) pb (keep 0 mp)"
      using kp(6) [OF r1] pb(2) unfolding ctx_extends [OF e0] by simp
    have c: "implements (ctx env T N c) cb (keep 1 mc)"
      using kc(6) [OF rm] kc(3) unfolding ctx_extends [OF e1] by simp
    show ?thesis
      using code implements_while_pre [OF p c b(2-4)] implements_while_post [OF p c b(2-4)] by blast
  qed
  moreover have "fresh c c2 (block_code b)"
    using code kp(4,5) kc(4,5) l by (fastforce simp: fresh_def extends_def)
  ultimately show ?thesis using b(1,2) e2 by (simp add: compiled_def)
qed

lemma compiled_WhileWithPre:
  assumes "ready env c" and "handles env rec True x mp" and "handles env rec False y mc"
  shows "compiled env True c (while_loop n (Some mp) mc neg None v) (CompileWhileWithPre rec c neg y x True)"
    and "finalStackDelta (fst (CompileWhileWithPre rec c neg y x True)) = 0"
proof -
  let ?l = "nextLabel c" and ?c = "c\<lparr>nextLabel := Suc (Suc (nextLabel c))\<rparr>"
  have rdy: "ready env ?c" by (rule ready_extends [OF assms(1) extends_label]) simp
  obtain pb c1 where 1: "rec ?c x True = (pb, c1)" "compiled env True ?c mp (pb, c1)" "extends ?c c1" "ready env c1"
    using handlesE [OF assms(2) rdy] .
  obtain cb c2 where 2: "rec c1 y False = (cb, c2)" "compiled env False c1 mc (cb, c2)" "extends c1 c2" "ready env c2"
    using handlesE [OF assms(3) 1(4)] .
  note kp = compiledD [OF 1(2)] and kc = compiledD [OF 2(2)] and no = compiled_no_result [OF 1(2)]
  let ?b1 = "attach_label (attach_label (EMIT0 CompiledBlock_Create (Op_Jmp (jump_to ?l)) 0) (Suc ?l)) ?l"
  have b1: "wfb ?b1" "finalStackDelta ?b1 = 0" "block_code ?b1 = [Inl (Op_Jmp (Some ?l)), Inr (Suc ?l), Inr ?l]"
    by simp_all
  note b2 = no_result_append [OF b1(1,2) kp(1,2)]
  let ?b2 = "Compiler_EmitNoResult (append_child ?b1 pb)"
  let ?b = "EMIT0 (append_child ?b2 cb) (branch_unless neg (Suc ?l)) (-1)"
  have b: "wfb ?b" "finalStackDelta ?b = 0" "maxStackDepth (Compiler_EmitNoResult pb) \<le> maxStackDepth ?b"
    "maxStackDepth cb \<le> maxStackDepth ?b"
    "block_code ?b = pre_code ?l (Suc ?l) (block_code (Compiler_EmitNoResult pb)) (block_code cb) neg"
    using b1 b2 kc(1,3) by (simp_all add: pre_code_def)
  have code: "CompileWhileWithPre rec c neg y x True = (?b, c2)"
    using 1(1) 2(1) kc(3)
    by (simp add: CompileWhileWithPre_def new_label_def Compiler_MakeStackMatchCompileFlags_def Let_def)
  then show "finalStackDelta (fst (CompileWhileWithPre rec c neg y x True)) = 0" using b(2) by simp
  show "compiled env True c (while_loop n (Some mp) mc neg None v) (CompileWhileWithPre rec c neg y x True)"
    unfolding code by (rule compiled_while_block [OF assms(1) refl no 2(2) b(1-4)]) (use b(5) in blast)
qed

lemma compiled_WhileWithPost:
  assumes "ready env c" and "handles env rec True x mp" and "handles env rec False y mc"
  shows "compiled env True c (while_loop n None mc neg (Some mp) v) (CompileWhileWithPost rec c neg y x True)"
    and "finalStackDelta (fst (CompileWhileWithPost rec c neg y x True)) = 0"
proof -
  let ?l = "nextLabel c" and ?c = "c\<lparr>nextLabel := Suc (Suc (nextLabel c))\<rparr>"
  have rdy: "ready env ?c" by (rule ready_extends [OF assms(1) extends_label]) simp
  obtain pb c1 where 1: "rec ?c x True = (pb, c1)" "compiled env True ?c mp (pb, c1)" "extends ?c c1" "ready env c1"
    using handlesE [OF assms(2) rdy] .
  obtain cb c2 where 2: "rec c1 y False = (cb, c2)" "compiled env False c1 mc (cb, c2)" "extends c1 c2" "ready env c2"
    using handlesE [OF assms(3) 1(4)] .
  note kp = compiledD [OF 1(2)] and kc = compiledD [OF 2(2)] and no = compiled_no_result [OF 1(2)]
  let ?b1 = "attach_label (EMIT0 CompiledBlock_Create (Op_Jmp (jump_to ?l)) 0) (Suc ?l)"
  have b1: "wfb ?b1" "finalStackDelta ?b1 = 0" "block_code ?b1 = [Inl (Op_Jmp (Some ?l)), Inr (Suc ?l)]"
    by simp_all
  note b2 = no_result_append [OF b1(1,2) kp(1,2)]
  let ?b2 = "attach_label (Compiler_EmitNoResult (append_child ?b1 pb)) ?l"
  let ?b = "EMIT0 (append_child ?b2 cb) (branch_unless neg (Suc ?l)) (-1)"
  have b: "wfb ?b" "finalStackDelta ?b = 0" "maxStackDepth (Compiler_EmitNoResult pb) \<le> maxStackDepth ?b"
    "maxStackDepth cb \<le> maxStackDepth ?b" "finalStackDelta (append_child ?b2 cb) = 1"
    "block_code ?b = post_code ?l (Suc ?l) (block_code (Compiler_EmitNoResult pb)) (block_code cb) neg"
    using b1 b2 kc(1,3) by (simp_all add: post_code_def)
  have code: "CompileWhileWithPost rec c neg y x True = (?b, c2)"
    using 1(1) 2(1) b(5)
    by (simp add: CompileWhileWithPost_def new_label_def Compiler_MakeStackMatchCompileFlags_def Let_def)
  then show "finalStackDelta (fst (CompileWhileWithPost rec c neg y x True)) = 0" using b(2) by simp
  show "compiled env True c (while_loop n None mc neg (Some mp) v) (CompileWhileWithPost rec c neg y x True)"
    unfolding code by (rule compiled_while_block [OF assms(1) refl no 2(2) b(1-4)]) (use b(6) in blast)
qed

lemma compiled_WhileWithNoBody:
  assumes "ready env c" and "handles env rec False y mc"
  shows "compiled env nr c (while_loop n None mc neg None NullObject) (CompileWhileWithNoBody rec c neg y nr)"
    and "finalStackDelta (fst (CompileWhileWithNoBody rec c neg y nr)) = (if nr then 0 else 1)"
proof -
  let ?l = "nextLabel c" and ?c = "c\<lparr>nextLabel := Suc (nextLabel c)\<rparr>" let ?m = "while_loop n None mc neg None NullObject"
  have e: "extends c ?c" by (rule extends_label) simp
  obtain cb c1 where 1: "rec ?c y False = (cb, c1)" "compiled env False ?c mc (cb, c1)" "extends ?c c1" "ready env c1"
    using handlesE [OF assms(2) ready_extends [OF assms(1) e]] .
  note kc = compiledD [OF 1(2)]
  let ?b = "EMIT0 (append_child (EMIT_LABEL CompiledBlock_Create ?l) cb) (branch_unless neg ?l) (-1)"
  have b: "wfb ?b" "finalStackDelta ?b = 0" "maxStackDepth cb \<le> maxStackDepth ?b"
    "block_code ?b = Inr ?l # block_code cb @ [Inl (map_ByteCode snd (branch_unless neg ?l))]"
    using kc(1,3) by simp_all
  have "implements (ctx env T N c) cb (keep 1 mc)" if "room c1 T N" for T N
    using kc(6) [OF that] kc(3) unfolding ctx_extends [OF e] by simp
  then have bb: "building env c ?b c1 (keep 0 ?m)"
    using extends_chain [OF e 1(3)] implements_while_bare [OF _ b(2-4)] b(1,4) kc(4,5)
    by (fastforce simp: building_def fresh_def extends_def)
  have "building env c (EMIT0 ?b (Stack Op_LdNull) 1) c1 (then_l (keep 0 ?m) (pushing 1 (ret NullObject)))"
    by (rule building_emit [OF bb]) (rule acts_push, simp)
  moreover have "then_l (keep 0 ?m) (pushing 1 (ret NullObject)) = keep 1 ?m"
    by (auto simp: then_l_def pushing_def ret_def fun_eq_iff dest: while_no_body_value split: option.splits sum.splits)
  ultimately have "compiled env nr c ?m (if nr then ?b else EMIT0 ?b (Stack Op_LdNull) 1, c1)"
    using bb b(2) by (auto intro!: compiledI)
  moreover have code: "CompileWhileWithNoBody rec c neg y nr = (if nr then ?b else EMIT0 ?b (Stack Op_LdNull) 1, c1)"
    using 1(1) kc(3) by (simp add: CompileWhileWithNoBody_def new_label_def Let_def)
  ultimately show "compiled env nr c ?m (CompileWhileWithNoBody rec c neg y nr)" by simp
  show "finalStackDelta (fst (CompileWhileWithNoBody rec c neg y nr)) = (if nr then 0 else 1)"
    using code b(2) by simp
qed

end
