(* ===== verification/CompilerProof.thy ===== *)
theory CompilerProof
  imports CompilerLoops
begin

text \<open>
  The compiler of expressions is correct for the reference semantics: the forms are put together by
  induction on the expression.
\<close>

section \<open>Stripped conditions\<close>

lemma StripNots_other:
  assumes "\<And>x. ob \<noteq> ListObj (SymbolObj (sym_not (known c))) (ListObj x NullObject)"
  shows "Compiler_StripNots c ob = (ob, False)"
  using assms by (subst Compiler_StripNots.simps) (auto split: SmileObject.splits)

lemma StripNots_not:
  "Compiler_StripNots c (ListObj (SymbolObj (sym_not (known c))) (ListObj x NullObject))
     = (let (y, n) = Compiler_StripNots c x in (y, \<not> n))"
  by (subst Compiler_StripNots.simps) simp

lemma StripNots_form:
  "special_symbol s \<Longrightarrow> \<not> special_symbol (sym_not (known c)) \<Longrightarrow> Compiler_StripNots c (form_of s xs) = (form_of s xs, False)"
  by (rule StripNots_other) (auto simp: form_of_def)

lemma special_simps [simp]:
  "special_symbol SMILE_SPECIAL_SYMBOL__SET" "special_symbol SMILE_SPECIAL_SYMBOL__OPSET"
  "special_symbol SMILE_SPECIAL_SYMBOL__IF" "special_symbol SMILE_SPECIAL_SYMBOL__WHILE"
  "special_symbol SMILE_SPECIAL_SYMBOL__QUOTE" "special_symbol SMILE_SPECIAL_SYMBOL__SCOPE"
  "special_symbol SMILE_SPECIAL_SYMBOL__PROG1" "special_symbol SMILE_SPECIAL_SYMBOL__PROGN"
  "special_symbol SMILE_SPECIAL_SYMBOL__NOT" "special_symbol SMILE_SPECIAL_SYMBOL__OR"
  "special_symbol SMILE_SPECIAL_SYMBOL__AND" "special_symbol SMILE_SPECIAL_SYMBOL__DOT"
  "special_symbol SMILE_SPECIAL_SYMBOL__INDEX" "special_symbol SMILE_SPECIAL_SYMBOL__TYPEOF"
  "special_symbol (binary_symbol b)"
  by (cases b; simp add: special_symbol_def special_symbol_defs)+

lemma head_symbol:
  assumes "supported k False f" and "to_obj f = SymbolObj s"
  shows "f = Variable s"
  using assms by (cases f) (auto simp: form_of_def)

lemma StripNots_Call:
  assumes "supported k nr (Call f es)" and "\<not> (\<exists>x. f = Variable (sym_not (known c)) \<and> es = [x])"
  shows "Compiler_StripNots c (to_obj (Call f es)) = (to_obj (Call f es), False)"
proof (rule StripNots_other)
  fix x
  have f: "supported k False f" using assms(1) by simp
  show "to_obj (Call f es) \<noteq> ListObj (SymbolObj (sym_not (known c))) (ListObj x NullObject)"
  proof
    assume a: "to_obj (Call f es) = ListObj (SymbolObj (sym_not (known c))) (ListObj x NullObject)"
    then have "f = Variable (sym_not (known c))" using head_symbol [OF f] by simp
    moreover have "\<exists>y. es = [y]"
    proof (cases es)
      case (Cons y ys)
      then show ?thesis using a by (cases ys) auto
    qed (use a in simp)
    ultimately show False using assms(2) by blast
  qed
qed

lemma StripNots_to_obj:
  assumes "\<not> special_symbol (sym_not k)" and "k = known c" and "supported k nr (core k e)"
  shows "Compiler_StripNots c (to_obj e) = (to_obj (core k e), negated k e)"
  using assms
proof (induction k e rule: strip_nots.induct)
  case (1 k f es)
  show ?case
  proof (cases "\<exists>x. f = Variable (sym_not (known c)) \<and> es = [x]")
    case True
    then obtain x where x: "f = Variable (sym_not k)" "es = [x]" using 1(3) by blast
    then have "Compiler_StripNots c (to_obj x) = (to_obj (core k x), negated k x)"
      using 1 by (auto simp: case_prod_beta Let_def)
    then show ?thesis using x 1(3) by (simp add: StripNots_not case_prod_beta Let_def)
  next
    case False
    then have "strip_nots k (Call f es) = (Call f es, False)"
      using 1(3) by (auto split: Expr.splits list.splits)
    then have "supported k nr (Call f es)" and "strip_nots k (Call f es) = (Call f es, False)"
      using 1(4) by (simp_all only: fst_conv)
    then show ?thesis using StripNots_Call [OF _ False] by (simp only: fst_conv snd_conv)
  qed
qed (auto intro!: StripNots_other StripNots_form simp: form_of_def)


section \<open>Dispatch\<close>

lemma compile_form:
  "compile_expr_with other rec c (form_of s xs) nr =
     (case Compiler_CompileStandardForm other rec c s (list_of xs) nr of
        Some r \<Rightarrow> r
      | None \<Rightarrow> compile_call rec c (form_of s xs) nr)"
  unfolding form_of_def by (simp add: compile_expr_with_def compile_list_def)

lemma form_of_simps:
  "is_symbol (form_of s xs) = False" "is_list (form_of s xs)" "obj_a (form_of s xs) = SymbolObj s"
  "obj_d (form_of s xs) = list_of xs" "form_of s xs \<noteq> SymbolObj s'"
  by (simp_all add: form_of_def)

lemma standard_form:
  "Compiler_CompileStandardForm other rec c SMILE_SPECIAL_SYMBOL__SET args nr = Some (Compiler_CompileSetf rec c args nr)"
  "Compiler_CompileStandardForm other rec c SMILE_SPECIAL_SYMBOL__OPSET args nr = Some (Compiler_CompileOpEquals rec c args nr)"
  "Compiler_CompileStandardForm other rec c SMILE_SPECIAL_SYMBOL__IF args nr = Some (Compiler_CompileIf rec c args nr)"
  "Compiler_CompileStandardForm other rec c SMILE_SPECIAL_SYMBOL__WHILE args nr = Some (Compiler_CompileWhile rec c args nr)"
  "Compiler_CompileStandardForm other rec c SMILE_SPECIAL_SYMBOL__QUOTE args nr = Some (Compiler_CompileQuote rec c args nr)"
  "Compiler_CompileStandardForm other rec c SMILE_SPECIAL_SYMBOL__PROG1 args nr = Some (Compiler_CompileProg1 rec c args nr)"
  "Compiler_CompileStandardForm other rec c SMILE_SPECIAL_SYMBOL__PROGN args nr = Some (Compiler_CompileProgN rec c args nr)"
  "Compiler_CompileStandardForm other rec c SMILE_SPECIAL_SYMBOL__SCOPE args nr = Some (Compiler_CompileScope rec c args nr)"
  "Compiler_CompileStandardForm other rec c SMILE_SPECIAL_SYMBOL__DOT args nr = Some (Compiler_CompileLoadProperty rec c args nr)"
  "Compiler_CompileStandardForm other rec c SMILE_SPECIAL_SYMBOL__INDEX args nr = Some (Compiler_CompileLoadMember rec c args nr)"
  "Compiler_CompileStandardForm other rec c (binary_symbol b) args nr =
     Some (Compiler_CompileTwoArguments rec c args nr (binary_symbol b) (binary_op b))"
  "Compiler_CompileStandardForm other rec c SMILE_SPECIAL_SYMBOL__TYPEOF args nr =
     Some (Compiler_CompileOneArgument rec c args nr SMILE_SPECIAL_SYMBOL__TYPEOF Op_TypeOf)"
  "Compiler_CompileStandardForm other rec c SMILE_SPECIAL_SYMBOL__NOT args nr =
     Some (Compiler_CompileOneArgument rec c args nr SMILE_SPECIAL_SYMBOL__NOT Op_Not)"
  "Compiler_CompileStandardForm other rec c SMILE_SPECIAL_SYMBOL__AND args nr = Some (Compiler_CompileAnd rec c args nr)"
  "Compiler_CompileStandardForm other rec c SMILE_SPECIAL_SYMBOL__OR args nr = Some (Compiler_CompileOr rec c args nr)"
  by (cases b; simp add: Compiler_CompileStandardForm_def special_symbol_defs)+

lemma no_standard_form: "\<not> special_symbol s \<Longrightarrow> Compiler_CompileStandardForm other rec c s args nr = None"
  unfolding Compiler_CompileStandardForm_def special_symbol_def special_symbol_defs by auto

lemma size_list_of: "e \<in> set es \<Longrightarrow> size (to_obj e) < size (list_of (map to_obj es))"
  by (induction es) auto

lemma size_core_obj: "size (to_obj (core k e)) \<le> size (to_obj e)"
  by (induction k e rule: strip_nots.induct)
    (fastforce split: Expr.splits list.splits prod.splits simp: case_prod_beta Let_def)+


section \<open>The forms\<close>

text \<open>The compiler of subexpressions, correct up to a size, and the compiler of one level.\<close>

definition correct_below :: "'w Env \<Rightarrow> nat \<Rightarrow> compile \<Rightarrow> nat \<Rightarrow> bool" where
  "correct_below env n rec k \<longleftrightarrow>
     (\<forall>e nr. size (to_obj e) < k \<longrightarrow> supported (env_symbols env) nr e \<longrightarrow>
        handles env rec nr (to_obj e) (ev env n e) \<and> (nr \<longrightarrow> \<not> condition_form e \<longrightarrow> exact env rec nr (to_obj e)))"

definition correct_at :: "'w Env \<Rightarrow> nat \<Rightarrow> compile \<Rightarrow> Expr \<Rightarrow> bool \<Rightarrow> bool" where
  "correct_at env n rec e nr \<longleftrightarrow>
     (\<forall>c. ready env c \<longrightarrow> compiled env nr c (ev env n e) (rec c (to_obj e) nr)
        \<and> (nr \<longrightarrow> \<not> condition_form e \<longrightarrow> finalStackDelta (fst (rec c (to_obj e) nr)) = 0))"

lemma belowD:
  "correct_below env n rec k \<Longrightarrow> size (to_obj e) < k \<Longrightarrow> supported (env_symbols env) nr e \<Longrightarrow>
     handles env rec nr (to_obj e) (ev env n e)"
  by (simp add: correct_below_def)

lemma below_exact:
  assumes "correct_below env n rec k" "size (to_obj e) < k" "supported (env_symbols env) nr e" "nr \<longrightarrow> \<not> condition_form e"
  shows "exact env rec nr (to_obj e)"
proof (cases nr)
  case False
  then show ?thesis
    using belowD [OF assms(1-3)] unfolding exact_def handles_def compiled_def by (fastforce split: prod.splits)
qed (use assms in \<open>simp add: correct_below_def\<close>)

lemma correct_atI:
  "(\<And>c. ready env c \<Longrightarrow> matched env nr c (ev env n e) (rec c (to_obj e) nr)) \<Longrightarrow> correct_at env n rec e nr"
  by (cases nr) (simp_all add: correct_at_def matched_def)

lemma matchedI2:
  "compiled env nr c m r \<Longrightarrow> finalStackDelta (fst r) = (if nr then 0 else 1) \<Longrightarrow> matched env nr c m r"
  by (simp add: matched_def)

lemma below_list:
  assumes "correct_below env n rec k" and "size (list_of (map to_obj es)) \<le> k" and "\<forall>e\<in>set es. supported (env_symbols env) False e"
  shows "list_all2 (handles env rec False) (map to_obj es) (map (ev env n) es)"
  using assms size_list_of by (fastforce simp: list_all2_map1 list_all2_map2 list.rel_refl_strong intro!: belowD list.rel_refl_strong)

lemma below_seq:
  assumes "correct_below env n rec k" and "size (list_of (map to_obj es)) \<le> k" and "es \<noteq> []"
    and "\<forall>e\<in>set (butlast es). supported (env_symbols env) True e" and "supported (env_symbols env) nr (last es)"
  shows "seq_handles env rec nr (map to_obj es) (map (ev env n) es)"
  using assms(2-5)
proof (induction es)
  case (Cons e es)
  then show ?case using belowD [OF assms(1)] by (cases es) auto
qed simp

lemma below_strips:
  assumes "correct_below env n rec k" and "size (to_obj e) < k" and "supported (env_symbols env) False (core (env_symbols env) e)"
  shows "strips env rec (to_obj e) (ev env n (core (env_symbols env) e), negated (env_symbols env) e)"
proof -
  let ?k = "env_symbols env"
  have "Compiler_StripNots c (to_obj e) = (to_obj (core ?k e), negated ?k e)" if "ready env c" for c
    using StripNots_to_obj [OF _ _ assms(3)] that by (simp add: ready_def)
  moreover have "handles env rec False (to_obj (core ?k e)) (ev env n (core ?k e))"
    using belowD [OF assms(1) _ assms(3)] le_less_trans [OF size_core_obj assms(2)] by blast
  ultimately show ?thesis by (auto simp: strips_def)
qed

lemma below_strips_list:
  assumes "correct_below env n rec k" and "size (list_of (map to_obj es)) \<le> k"
    and "\<forall>e\<in>set es. supported (env_symbols env) False (core (env_symbols env) e)"
  shows "list_all2 (strips env rec) (map to_obj es)
      (map (\<lambda>e. (ev env n (core (env_symbols env) e), negated (env_symbols env) e)) es)"
  unfolding list_all2_map1 list_all2_map2
  by (rule list.rel_refl_strong) (use assms size_list_of below_strips in fastforce)


text \<open>Values and variables.\<close>

lemma correct_Literal:
  assumes "\<not> is_symbol x" and "\<not> is_list x"
  shows "correct_at env n (compile_expr_with other rec) (Literal x) nr"
  by (rule correct_atI, rule matchedI2)
    (use compile_Literal [OF _ assms] delta_Literal [OF assms] in \<open>simp_all add: compile_Literal\<close>)

lemma correct_Variable: "correct_at env n (compile_expr_with other rec) (Variable s) nr"
  by (rule correct_atI) (simp add: compile_expr_with_def compiled_load)

lemma correct_Quote:
  assumes "correct_below env n rec k" and "size (to_obj (Quote x)) \<le> k"
  shows "correct_at env n (compile_expr_with other rec) (Quote x) nr"
proof (rule correct_atI, rule matchedI2)
  fix c assume c: "ready env c"
  have "handles env rec nr x (ret x)" if "\<not> is_symbol x" "\<not> is_list x"
    using belowD [OF assms(1), of "Literal x" nr] assms(2) that by (simp add: form_of_def)
  note q = compiled_Quote [OF c this]
  show "compiled env nr c (ev env n (Quote x)) (compile_expr_with other rec c (to_obj (Quote x)) nr)"
    "finalStackDelta (fst (compile_expr_with other rec c (to_obj (Quote x)) nr)) = wanted nr"
    using q by (simp_all add: compile_form standard_form)
qed

text \<open>Assignment.\<close>

lemma correct_Assign:
  assumes "correct_below env n rec k" and "size (to_obj (Assign x e)) \<le> k" and "supported (env_symbols env) nr (Assign x e)"
  shows "correct_at env n (compile_expr_with other rec) (Assign x e) nr"
proof (rule correct_atI)
  fix c assume c: "ready env c"
  have "handles env rec False (to_obj e) (ev env n e)"
    using belowD [OF assms(1), of e False] assms(2,3) by (simp add: form_of_def)
  from compiled_SetSymbol [OF c this] c assms(3)
  show "matched env nr c (ev env n (Assign x e)) (compile_expr_with other rec c (to_obj (Assign x e)) nr)"
    by (simp add: compile_form standard_form Compiler_CompileSetf_def ready_def Let_def)
qed

lemma correct_OpAssign:
  assumes "correct_below env n rec k" and "size (to_obj (OpAssign op x e)) \<le> k"
    and "supported (env_symbols env) nr (OpAssign op x e)"
  shows "correct_at env n (compile_expr_with other rec) (OpAssign op x e) nr"
proof (rule correct_atI)
  fix c assume c: "ready env c"
  have "handles env rec False (to_obj e) (ev env n e)"
    using belowD [OF assms(1), of e False] assms(2,3) by (simp add: form_of_def)
  from compiled_OpEqualsSymbol [OF c this] c assms(3)
  show "matched env nr c (ev env n (OpAssign op x e)) (compile_expr_with other rec c (to_obj (OpAssign op x e)) nr)"
    by (simp add: compile_form standard_form Compiler_CompileOpEquals_def ready_def Let_def)
qed

lemma correct_AssignProperty:
  assumes "correct_below env n rec k" and "size (to_obj (AssignProperty t p e)) \<le> k"
    and "supported (env_symbols env) nr (AssignProperty t p e)"
  shows "correct_at env n (compile_expr_with other rec) (AssignProperty t p e) nr"
proof (rule correct_atI)
  fix c assume c: "ready env c"
  have "handles env rec False (to_obj t) (ev env n t)" "handles env rec False (to_obj e) (ev env n e)"
    using belowD [OF assms(1), of _ False] assms(2,3) by (simp_all add: form_of_def)
  from compiled_SetProperty [OF c this]
  show "matched env nr c (ev env n (AssignProperty t p e)) (compile_expr_with other rec c (to_obj (AssignProperty t p e)) nr)"
    by (simp add: compile_form standard_form Compiler_CompileSetf_def form_of_simps Compiler_ValidateDotArgs_def Let_def)
qed

lemma correct_OpAssignProperty:
  assumes "correct_below env n rec k" and "size (to_obj (OpAssignProperty op t p e)) \<le> k"
    and "supported (env_symbols env) nr (OpAssignProperty op t p e)"
  shows "correct_at env n (compile_expr_with other rec) (OpAssignProperty op t p e) nr"
proof (rule correct_atI)
  fix c assume c: "ready env c"
  have "handles env rec False (to_obj t) (ev env n t)" "handles env rec False (to_obj e) (ev env n e)"
    using belowD [OF assms(1), of _ False] assms(2,3) by (simp_all add: form_of_def)
  from compiled_OpEqualsProperty [OF c this]
  show "matched env nr c (ev env n (OpAssignProperty op t p e))
      (compile_expr_with other rec c (to_obj (OpAssignProperty op t p e)) nr)"
    by (simp add: compile_form standard_form Compiler_CompileOpEquals_def form_of_simps Compiler_ValidateDotArgs_def Let_def)
qed

text \<open>Properties, members and calls.\<close>

lemma correct_Property:
  assumes "correct_below env n rec k" and "size (to_obj (Property t p)) \<le> k" and "supported (env_symbols env) nr (Property t p)"
  shows "correct_at env n (compile_expr_with other rec) (Property t p) nr"
proof (rule correct_atI)
  fix c assume c: "ready env c"
  have "handles env rec False (to_obj t) (ev env n t)"
    using belowD [OF assms(1), of t False] assms(2,3) by (simp add: form_of_def)
  from compiled_LoadProperty [OF c this]
  show "matched env nr c (ev env n (Property t p)) (compile_expr_with other rec c (to_obj (Property t p)) nr)"
    by (simp add: compile_form standard_form)
qed

lemma correct_Member:
  assumes "correct_below env n rec k" and "size (to_obj (Member t i)) \<le> k" and "supported (env_symbols env) nr (Member t i)"
  shows "correct_at env n (compile_expr_with other rec) (Member t i) nr"
proof (rule correct_atI)
  fix c assume c: "ready env c"
  have "handles env rec False (to_obj t) (ev env n t)" "handles env rec False (to_obj i) (ev env n i)"
    using belowD [OF assms(1), of _ False] assms(2,3) by (simp_all add: form_of_def)
  from compiled_LoadMember [OF c this]
  show "matched env nr c (ev env n (Member t i)) (compile_expr_with other rec c (to_obj (Member t i)) nr)"
    by (simp add: compile_form standard_form)
qed

lemma correct_MethodCall:
  assumes "correct_below env n rec k" and "size (to_obj (MethodCall t p es)) \<le> k"
    and "supported (env_symbols env) nr (MethodCall t p es)"
  shows "correct_at env n (compile_expr_with other rec) (MethodCall t p es) nr"
proof (rule correct_atI)
  fix c assume c: "ready env c"
  have "handles env rec False (to_obj t) (ev env n t)"
    "list_all2 (handles env rec False) (map to_obj es) (map (ev env n) es)"
    using belowD [OF assms(1), of t False] below_list [OF assms(1), of es] assms(2,3) by (simp_all add: form_of_def)
  from compiled_MethodCall [OF c this]
  show "matched env nr c (ev env n (MethodCall t p es)) (compile_expr_with other rec c (to_obj (MethodCall t p es)) nr)"
    by (simp add: compile_expr_with_def compile_list_def form_of_def)
qed


lemma to_obj_dot:
  assumes "supported k False f" and "call_head f"
  shows "\<not> (is_list (to_obj f) \<and> obj_a (to_obj f) = SymbolObj SMILE_SPECIAL_SYMBOL__DOT)"
proof (cases f)
  case (Call g es)
  have "to_obj g \<noteq> SymbolObj SMILE_SPECIAL_SYMBOL__DOT"
    using head_symbol [of k g] assms(1) Call by auto
  then show ?thesis using Call by simp
next
  case (Binary b e1 e2)
  then show ?thesis by (cases b) (simp_all add: form_of_simps special_symbol_defs)
qed (use assms in \<open>auto simp: form_of_simps special_symbol_defs\<close>)

lemma correct_Call:
  assumes "correct_below env n rec k" and "size (to_obj (Call f es)) \<le> k" and "supported (env_symbols env) nr (Call f es)"
  shows "correct_at env n (compile_expr_with other rec) (Call f es) nr"
proof (rule correct_atI)
  fix c assume c: "ready env c"
  have f: "handles env rec False (to_obj f) (ev env n f)"
    "list_all2 (handles env rec False) (map to_obj es) (map (ev env n) es)"
    using belowD [OF assms(1), of f False] below_list [OF assms(1), of es] assms(2,3) by simp_all
  let ?x = "ListObj (to_obj f) (list_of (map to_obj es))"
  have call: "compile_expr_with other rec c ?x nr = compile_call rec c ?x nr"
  proof (cases "is_symbol (to_obj f)")
    case True
    then obtain s where s: "to_obj f = SymbolObj s" by (cases "to_obj f") auto
    then have "f = Variable s" using head_symbol [of "env_symbols env" f s] assms(3) by simp
    then show ?thesis using assms(3) by (simp add: compile_expr_with_def compile_list_def no_standard_form)
  next
    case False
    then show ?thesis using to_obj_dot [of "env_symbols env" f] assms(3)
      by (auto simp: compile_expr_with_def compile_list_def Let_def)
  qed
  from compiled_call [OF c f]
  show "matched env nr c (ev env n (Call f es)) (compile_expr_with other rec c (to_obj (Call f es)) nr)"
    by (simp add: call)
qed

text \<open>Operators.\<close>

lemma correct_NotForm:
  assumes "correct_below env n rec k" and "size (to_obj (NotForm e)) \<le> k" and "supported (env_symbols env) nr (NotForm e)"
  shows "correct_at env n (compile_expr_with other rec) (NotForm e) nr"
proof (rule correct_atI)
  fix c assume c: "ready env c"
  have h: "handles env rec nr (to_obj e) (ev env n e)"
    using belowD [OF assms(1), of e nr] assms(2,3) by (simp add: form_of_def)
  have "\<exists>u. r = Inr u \<and> s' = s" if "negate v s = Some (r, s')" for v r and s s' :: "'a Store"
    using that by (auto simp: negate_def ret_def split: SmileObject.splits)
  from compiled_one [OF c h acts_Not this]
  show "matched env nr c (ev env n (NotForm e)) (compile_expr_with other rec c (to_obj (NotForm e)) nr)"
    by (simp add: compile_form standard_form)
qed

lemma correct_TypeOfForm:
  assumes "correct_below env n rec k" and "size (to_obj (TypeOfForm e)) \<le> k" and "supported (env_symbols env) nr (TypeOfForm e)"
  shows "correct_at env n (compile_expr_with other rec) (TypeOfForm e) nr"
proof (rule correct_atI)
  fix c assume c: "ready env c"
  have h: "handles env rec nr (to_obj e) (ev env n e)"
    using belowD [OF assms(1), of e nr] assms(2,3) by (simp add: form_of_def)
  from compiled_one [OF c h acts_env(10)]
  show "matched env nr c (ev env n (TypeOfForm e)) (compile_expr_with other rec c (to_obj (TypeOfForm e)) nr)"
    by (simp add: compile_form standard_form ret_def)
qed

lemma correct_Binary:
  assumes "correct_below env n rec k" and "size (to_obj (Binary b e1 e2)) \<le> k"
    and "supported (env_symbols env) nr (Binary b e1 e2)"
  shows "correct_at env n (compile_expr_with other rec) (Binary b e1 e2) nr"
proof (rule correct_atI, rule matchedI2)
  fix c assume c: "ready env c"
  have "handles env rec nr (to_obj e1) (ev env n e1)" "handles env rec nr (to_obj e2) (ev env n e2)"
    "exact env rec nr (to_obj e1)" "exact env rec nr (to_obj e2)"
    using belowD [OF assms(1), of _ nr] below_exact [OF assms(1), of _ nr] assms(2,3) by (simp_all add: form_of_def)
  note two = compiled_two [OF c this]
  show "compiled env nr c (ev env n (Binary b e1 e2)) (compile_expr_with other rec c (to_obj (Binary b e1 e2)) nr)"
    "finalStackDelta (fst (compile_expr_with other rec c (to_obj (Binary b e1 e2)) nr)) = wanted nr"
    using two by (simp_all add: compile_form standard_form)
qed


text \<open>Conditions and conditionals.\<close>

lemma correct_AndForm:
  assumes "correct_below env n rec k" and "size (to_obj (AndForm es)) \<le> k" and "supported (env_symbols env) nr (AndForm es)"
  shows "correct_at env n (compile_expr_with other rec) (AndForm es) nr"
  using compiled_And(1) [OF _ below_strips_list [OF assms(1), of es], of _ nr] assms(2,3)
  by (simp add: correct_at_def compile_form standard_form form_of_simps) (simp add: form_of_def)

lemma correct_OrForm:
  assumes "correct_below env n rec k" and "size (to_obj (OrForm es)) \<le> k" and "supported (env_symbols env) nr (OrForm es)"
  shows "correct_at env n (compile_expr_with other rec) (OrForm es) nr"
  using compiled_And(2) [OF _ below_strips_list [OF assms(1), of es], of _ nr] assms(2,3)
  by (simp add: correct_at_def compile_form standard_form form_of_simps) (simp add: form_of_def)

lemma below_condition_again:
  assumes "correct_below env n rec k" and "size (to_obj e) < k" and "supported (env_symbols env) True (core (env_symbols env) e)"
    and "ready env c"
  shows "handles env rec True (fst (Compiler_StripNots c (to_obj e))) (ev env n (core (env_symbols env) e))"
  using StripNots_to_obj [OF _ _ assms(3)] belowD [OF assms(1) le_less_trans [OF size_core_obj assms(2)] assms(3)] assms(4)
  by (simp add: ready_def)

lemma correct_IfElse:
  assumes "correct_below env n rec k" and "size (to_obj (IfElse c t e)) \<le> k" and "supported (env_symbols env) nr (IfElse c t e)"
  shows "correct_at env n (compile_expr_with other rec) (IfElse c t e) nr"
proof (rule correct_atI, rule matchedI2)
  fix C assume C: "ready env C"
  let ?k = "env_symbols env"
  have sz: "size (to_obj c) < k" "size (to_obj t) < k" "size (to_obj e) < k" using assms(2) by (simp_all add: form_of_def)
  have s: "strips env rec (to_obj c) (ev env n (core ?k c), negated ?k c)"
    using below_strips [OF assms(1) sz(1)] assms(3) by simp
  have te: "handles env rec nr (to_obj t) (ev env n t)" "handles env rec nr (to_obj e) (ev env n e)"
    using belowD [OF assms(1) sz(2)] belowD [OF assms(1) sz(3)] assms(3) by simp_all
  have again: "nr \<Longrightarrow> handles env rec True (fst (Compiler_StripNots C (to_obj c))) (ev env n (core ?k c))"
    using below_condition_again [OF assms(1) sz(1) _ C] assms(3) by simp
  note i = compiled_if [OF C s te again]
  show "compiled env nr C (ev env n (IfElse c t e)) (compile_expr_with other rec C (to_obj (IfElse c t e)) nr)"
    "finalStackDelta (fst (compile_expr_with other rec C (to_obj (IfElse c t e)) nr)) = wanted nr"
    using i by (simp_all add: compile_form standard_form Compiler_CompileIf_def Let_def)
qed

text \<open>Without an else clause the form means the same as with \<^verbatim>\<open>null\<close>.\<close>

lemma correct_IfThen:
  assumes "correct_below env n rec k" and "size (to_obj (IfThen c t)) \<le> k" and "supported (env_symbols env) nr (IfThen c t)"
  shows "correct_at env n (compile_expr_with other rec) (IfThen c t) nr"
proof (rule correct_atI, rule matchedI2)
  fix C assume C: "ready env C"
  let ?k = "env_symbols env"
  have sz: "size (to_obj c) < k" "size (to_obj t) < k" "size (to_obj none) < k" using assms(2) by (simp_all add: form_of_def)
  have s: "strips env rec (to_obj c) (ev env n (core ?k c), negated ?k c)"
    using below_strips [OF assms(1) sz(1)] assms(3) by simp
  have te: "handles env rec nr (to_obj t) (ev env n t)" "handles env rec nr NullObject (ret NullObject)"
    using belowD [OF assms(1) sz(2)] belowD [OF assms(1) sz(3), of nr] assms(3) by simp_all
  have again: "nr \<Longrightarrow> handles env rec True (fst (Compiler_StripNots C (to_obj c))) (ev env n (core ?k c))"
    using below_condition_again [OF assms(1) sz(1) _ C] assms(3) by simp
  note i = compiled_if [OF C s te again]
  show "compiled env nr C (ev env n (IfThen c t)) (compile_expr_with other rec C (to_obj (IfThen c t)) nr)"
    "finalStackDelta (fst (compile_expr_with other rec C (to_obj (IfThen c t)) nr)) = wanted nr"
    using i by (simp_all add: compile_form standard_form Compiler_CompileIf_def Let_def)
qed

text \<open>Sequences and scopes.\<close>

lemma correct_Progn:
  assumes "correct_below env n rec k" and "size (to_obj (Progn es)) \<le> k" and "supported (env_symbols env) nr (Progn es)"
  shows "correct_at env n (compile_expr_with other rec) (Progn es) nr"
proof (rule correct_atI, rule matchedI2)
  fix c assume c: "ready env c"
  have "seq_handles env rec nr (map to_obj es) (map (ev env n) es)"
    using below_seq [OF assms(1), of es nr] assms(2,3) by (simp add: form_of_def split: if_splits)
  note p = compiled_ProgN [OF c this]
  show "compiled env nr c (ev env n (Progn es)) (compile_expr_with other rec c (to_obj (Progn es)) nr)"
    "finalStackDelta (fst (compile_expr_with other rec c (to_obj (Progn es)) nr)) = wanted nr"
    using p by (simp_all add: compile_form standard_form)
qed

lemma correct_Prog1:
  assumes "correct_below env n rec k" and "size (to_obj (Prog1 e es)) \<le> k" and "supported (env_symbols env) nr (Prog1 e es)"
  shows "correct_at env n (compile_expr_with other rec) (Prog1 e es) nr"
proof (rule correct_atI, rule matchedI2)
  fix c assume c: "ready env c"
  have "handles env rec nr (to_obj e) (ev env n e)"
    "list_all2 (handles env rec False) (map to_obj es) (map (ev env n) es)"
    using belowD [OF assms(1), of e nr] below_list [OF assms(1), of es] assms(2,3) by (simp_all add: form_of_def)
  note p = compiled_Prog1 [OF c this]
  show "compiled env nr c (ev env n (Prog1 e es)) (compile_expr_with other rec c (to_obj (Prog1 e es)) nr)"
    "finalStackDelta (fst (compile_expr_with other rec c (to_obj (Prog1 e es)) nr)) = wanted nr"
    using p by (simp_all add: compile_form standard_form)
qed

lemma to_obj_Scope:
  "compile_expr_with other rec c (to_obj (Scope xs es)) nr =
     Compiler_CompileScope rec c (ListObj (list_of (map SymbolObj xs)) (list_of (map to_obj es))) nr"
  by (simp add: compile_expr_with_def compile_list_def standard_form)

lemma correct_Scope:
  assumes "correct_below env n rec k" and "size (to_obj (Scope xs es)) \<le> k" and "supported (env_symbols env) nr (Scope xs es)"
  shows "correct_at env n (compile_expr_with other rec) (Scope xs es) nr"
proof (rule correct_atI, rule matchedI2)
  fix c assume c: "ready env c"
  have "seq_handles env rec nr (map to_obj es) (map (ev env n) es)" "xs \<noteq> []"
    using below_seq [OF assms(1), of es nr] assms(2,3) by (auto split: if_splits)
  note p = compiled_Scope [OF c this]
  show "compiled env nr c (ev env n (Scope xs es)) (compile_expr_with other rec c (to_obj (Scope xs es)) nr)"
    "finalStackDelta (fst (compile_expr_with other rec c (to_obj (Scope xs es)) nr)) = wanted nr"
    unfolding to_obj_Scope using p by simp_all
qed


text \<open>Loops.\<close>

lemma to_obj_none: "to_obj e = NullObject \<longleftrightarrow> e = none"
  by (cases e) (simp_all add: form_of_def)

definition part_of :: "'w Env \<Rightarrow> nat \<Rightarrow> Expr \<Rightarrow> 'w comp option" where
  "part_of env n e = (if e = none then None else Some (ev env n e))"

lemma matched_while_parts:
  assumes below: "correct_below env n rec k" and c: "ready env c"
    and sz: "size (to_obj pre) < k" "size (to_obj cond) < k" "size (to_obj post) < k"
    and cond: "supported (env_symbols env) False (core (env_symbols env) cond)"
    and parts: "pre = none \<and> post = none \<or> pre = none \<and> nr \<and> supported (env_symbols env) True post
      \<or> post = none \<and> nr \<and> supported (env_symbols env) True pre"
  shows "matched env nr c
      (while_loop n (part_of env n pre) (ev env n (core (env_symbols env) cond)) (negated (env_symbols env) cond)
         (part_of env n post) NullObject)
      (compile_while_parts rec c (to_obj pre) (to_obj cond) (to_obj post) nr)"
proof -
  let ?k = "env_symbols env" let ?mc = "ev env n (core ?k cond)" and ?neg = "negated ?k cond"
  obtain y where y: "Compiler_StripNots c (to_obj cond) = (y, ?neg)" "handles env rec False y ?mc"
    using below_strips [OF below sz(2) cond] c by (auto simp: strips_def)
  from parts consider (bare) "pre = none" "post = none"
    | (post) "pre = none" "post \<noteq> none" nr "supported ?k True post"
    | (pre) "pre \<noteq> none" "post = none" nr "supported ?k True pre" by blast
  then show ?thesis
  proof cases
    case bare
    then show ?thesis using matchedI2 [OF compiled_WhileWithNoBody [OF c y(2)]] y(1)
      by (simp add: compile_while_parts_def part_of_def)
  next
    case post
    have "handles env rec True (to_obj post) (ev env n post)" using belowD [OF below sz(3) post(4)] .
    from compiled_WhileWithPost [OF c this y(2)] show ?thesis
      using post y(1) by (simp add: compile_while_parts_def part_of_def to_obj_none matched_def)
  next
    case pre
    have "handles env rec True (to_obj pre) (ev env n pre)" using belowD [OF below sz(1) pre(4)] .
    from compiled_WhileWithPre [OF c this y(2)] show ?thesis
      using pre y(1) by (simp add: compile_while_parts_def part_of_def to_obj_none matched_def)
  qed
qed

lemma compile_While:
  "compile_expr_with other rec c (to_obj (WhilePost x y)) nr = compile_while_parts rec c (to_obj none) (to_obj x) (to_obj y) nr"
  "compile_expr_with other rec c (to_obj (WhileBoth w x y)) nr = compile_while_parts rec c (to_obj w) (to_obj x) (to_obj y) nr"
  by (simp_all add: compile_form standard_form Compiler_CompileWhile_def Let_def)

lemma ev_While:
  "ev env n (WhilePost c post) = while_loop n (part_of env n none) (ev env n (core (env_symbols env) c))
     (negated (env_symbols env) c) (part_of env n post) NullObject"
  "ev env n (WhileBoth pre c post) = while_loop n (part_of env n pre) (ev env n (core (env_symbols env) c))
     (negated (env_symbols env) c) (part_of env n post) NullObject"
  by (simp_all add: part_of_def)

lemma correct_WhilePost:
  assumes "correct_below env n rec k" and "size (to_obj (WhilePost c post)) \<le> k"
    and "supported (env_symbols env) nr (WhilePost c post)"
  shows "correct_at env n (compile_expr_with other rec) (WhilePost c post) nr"
  by (rule correct_atI, unfold compile_While ev_While, rule matched_while_parts [OF assms(1)])
    (use assms(2,3) in \<open>auto simp: form_of_def\<close>)

lemma correct_WhileBoth:
  assumes "correct_below env n rec k" and "size (to_obj (WhileBoth pre c post)) \<le> k"
    and "supported (env_symbols env) nr (WhileBoth pre c post)"
  shows "correct_at env n (compile_expr_with other rec) (WhileBoth pre c post) nr"
  by (rule correct_atI, unfold compile_While ev_While, rule matched_while_parts [OF assms(1)])
    (use assms(2,3) in \<open>auto simp: form_of_def\<close>)

section \<open>The compiler of expressions\<close>

lemma correct_step:
  "correct_below env n rec k \<Longrightarrow> size (to_obj e) \<le> k \<Longrightarrow> supported (env_symbols env) nr e \<Longrightarrow>
     correct_at env n (compile_expr_with other rec) e nr"
  by (cases e; hypsubst)
    ((rule correct_Literal; simp), rule correct_Variable, erule (1) correct_Quote,
     erule (2) correct_Assign, erule (2) correct_OpAssign, erule (2) correct_AssignProperty,
     erule (2) correct_OpAssignProperty, erule (2) correct_Property, erule (2) correct_Member,
     erule (2) correct_MethodCall, erule (2) correct_Call, erule (2) correct_NotForm,
     erule (2) correct_TypeOfForm, erule (2) correct_Binary, erule (2) correct_AndForm,
     erule (2) correct_OrForm, erule (2) correct_IfThen, erule (2) correct_IfElse, erule (2) correct_Progn,
     erule (2) correct_Prog1, erule (2) correct_Scope, erule (2) correct_WhilePost,
     erule (2) correct_WhileBoth)

lemma correct_below_compile_expr: "correct_below env n (compile_expr k other) k"
proof (induction k)
  case 0
  then show ?case by (simp add: correct_below_def)
next
  case (Suc k)
  have step: "compile_expr (Suc k) other = compile_expr_with other (compile_expr k other)" by (intro ext) simp
  show ?case
    unfolding correct_below_def
  proof (intro allI impI)
    fix e nr assume e: "size (to_obj e) < Suc k" "supported (env_symbols env) nr e"
    have "correct_at env n (compile_expr (Suc k) other) e nr"
      unfolding step by (rule correct_step [OF Suc _ e(2)]) (use e(1) in simp)
    then show "handles env (compile_expr (Suc k) other) nr (to_obj e) (ev env n e)
        \<and> (nr \<longrightarrow> \<not> condition_form e \<longrightarrow> exact env (compile_expr (Suc k) other) nr (to_obj e))"
      by (cases nr) (simp_all add: correct_at_def handles_def exact_def del: compile_expr.simps)
  qed
qed

end
