(* ===== verification/CompilerFuel.thy ===== *)
theory CompilerFuel
  imports CompilerForms
begin

text \<open>
  The recursion of the compiler ends: the size of an expression is enough fuel, whatever the
  expression, and more changes nothing.
\<close>

definition agree :: "compile \<Rightarrow> compile \<Rightarrow> nat \<Rightarrow> bool" where
  "agree rec rec' k \<longleftrightarrow> (\<forall>c x nr. size x < k \<longrightarrow> rec c x nr = rec' c x nr)"

lemma agreeD: "agree rec rec' k \<Longrightarrow> size x < k \<Longrightarrow> rec c x nr = rec' c x nr"
  by (simp add: agree_def)

lemma size_obj:
  "is_list x \<Longrightarrow> size (obj_a x) < size x" "is_list x \<Longrightarrow> size (obj_d x) < size x"
  by (cases x; simp)+

lemma agree_list:
  "agree rec rec' k \<Longrightarrow> size x \<le> k \<Longrightarrow> is_list x \<Longrightarrow> rec c (obj_a x) nr = rec' c (obj_a x) nr"
  "agree rec rec' k \<Longrightarrow> size x \<le> k \<Longrightarrow> is_list x \<Longrightarrow> is_list (obj_d x) \<Longrightarrow>
     rec c (obj_a (obj_d x)) nr = rec' c (obj_a (obj_d x)) nr"
  "agree rec rec' k \<Longrightarrow> size x \<le> k \<Longrightarrow> is_list x \<Longrightarrow> is_list (obj_d x) \<Longrightarrow> is_list (obj_d (obj_d x)) \<Longrightarrow>
     rec c (obj_a (obj_d (obj_d x))) nr = rec' c (obj_a (obj_d (obj_d x))) nr"
  using size_obj [of x] size_obj [of "obj_d x"] size_obj [of "obj_d (obj_d x)"] by (auto intro!: agreeD)

lemma agree_loops:
  assumes "agree rec rec' k"
  shows "size x \<le> k \<Longrightarrow> progn_loop rec c x nr b = progn_loop rec' c x nr b"
    and "size x \<le> k \<Longrightarrow> prog1_loop rec c x b = prog1_loop rec' c x b"
    and "size x \<le> k \<Longrightarrow> method_arguments rec c x b = method_arguments rec' c x b"
    and "size x \<le> k \<Longrightarrow> call_arguments rec c x b n = call_arguments rec' c x b n"
proof -
  show "size x \<le> k \<Longrightarrow> progn_loop rec c x nr b = progn_loop rec' c x nr b"
    by (induction x arbitrary: c b) (auto simp: agreeD [OF assms] case_prod_beta Let_def)
  show "size x \<le> k \<Longrightarrow> prog1_loop rec c x b = prog1_loop rec' c x b"
    by (induction x arbitrary: c b) (auto simp: agreeD [OF assms] case_prod_beta)
  show "size x \<le> k \<Longrightarrow> method_arguments rec c x b = method_arguments rec' c x b"
    by (induction x arbitrary: c b) (auto simp: agreeD [OF assms] case_prod_beta)
  show "size x \<le> k \<Longrightarrow> call_arguments rec c x b n = call_arguments rec' c x b n"
    by (induction x arbitrary: c b n) (auto simp: agreeD [OF assms] case_prod_beta)
qed


lemma size_StripNots: "size (fst (Compiler_StripNots c x)) \<le> size x"
proof (induction c x rule: Compiler_StripNots.induct)
  case (1 c x)
  then show ?case
    by (subst Compiler_StripNots.simps) (fastforce simp: case_prod_beta Let_def split: SmileObject.splits)
qed

lemma agree_StripNots:
  assumes "agree rec rec' k" and "size x < k"
  shows "rec c1 (fst (Compiler_StripNots c x)) nr = rec' c1 (fst (Compiler_StripNots c x)) nr"
  by (rule agreeD [OF assms(1)]) (rule le_less_trans [OF size_StripNots assms(2)])

lemma agree_conditions:
  assumes "agree rec rec' k" and "size x \<le> k"
  shows "conditions_loop rec t l c x b = conditions_loop rec' t l c x b"
  using assms(2)
proof (induction x arbitrary: c b)
  case (ListObj a d)
  then have "rec c1 (fst (Compiler_StripNots c a)) False = rec' c1 (fst (Compiler_StripNots c a)) False" for c1 c
    by (intro agree_StripNots [OF assms(1)]) simp
  then show ?case using ListObj by (simp add: case_prod_beta Let_def)
qed simp_all

lemma expr_length_list: "0 < expr_length x \<Longrightarrow> is_list x \<and> expr_length (obj_d x) = expr_length x - 1"
  by (cases x) (auto simp: Let_def split: if_splits)

lemma expr_safe_length_list: "0 < expr_safe_length x \<Longrightarrow> is_list x \<and> expr_safe_length (obj_d x) = expr_safe_length x - 1"
  by (cases x) auto

lemma length_2: "expr_length x = 2 \<Longrightarrow> is_list x \<and> is_list (obj_d x)" "expr_safe_length x = 2 \<Longrightarrow> is_list x \<and> is_list (obj_d x)"
  "expr_length x = 3 \<Longrightarrow> is_list x \<and> is_list (obj_d x) \<and> is_list (obj_d (obj_d x))"
  using expr_length_list [of x] expr_length_list [of "obj_d x"] expr_length_list [of "obj_d (obj_d x)"]
    expr_safe_length_list [of x] expr_safe_length_list [of "obj_d x"] by auto

lemma ValidateArgs_list:
  "Compiler_ValidateDotArgs x \<Longrightarrow> is_list x \<and> is_list (obj_d x)" "Compiler_ValidateIndexArgs x \<Longrightarrow> is_list x \<and> is_list (obj_d x)"
  using length_2(2) [of x] by (simp_all add: Compiler_ValidateDotArgs_def Compiler_ValidateIndexArgs_def)

text \<open>The forms, one after another.\<close>

lemma agree_One: "agree rec rec' k \<Longrightarrow> size x \<le> k \<Longrightarrow>
    Compiler_CompileOneArgument rec c x nr s i = Compiler_CompileOneArgument rec' c x nr s i"
  by (simp add: Compiler_CompileOneArgument_def agree_list)

lemma agree_Two: "agree rec rec' k \<Longrightarrow> size x \<le> k \<Longrightarrow>
    Compiler_CompileTwoArguments rec c x nr s i = Compiler_CompileTwoArguments rec' c x nr s i"
  by (auto simp: Compiler_CompileTwoArguments_def agree_list)

lemma agree_LoadProperty: "agree rec rec' k \<Longrightarrow> size x \<le> k \<Longrightarrow>
    Compiler_CompileLoadProperty rec c x nr = Compiler_CompileLoadProperty rec' c x nr"
  by (simp add: Compiler_CompileLoadProperty_def agree_list ValidateArgs_list cong: if_cong)

lemma agree_LoadMember: "agree rec rec' k \<Longrightarrow> size x \<le> k \<Longrightarrow>
    Compiler_CompileLoadMember rec c x nr = Compiler_CompileLoadMember rec' c x nr"
  by (simp add: Compiler_CompileLoadMember_def agree_list ValidateArgs_list cong: if_cong)

lemma agree_Quote: "agree rec rec' k \<Longrightarrow> size x \<le> k \<Longrightarrow>
    Compiler_CompileQuote rec c x nr = Compiler_CompileQuote rec' c x nr"
  by (simp add: Compiler_CompileQuote_def agree_list cong: if_cong)

lemma agree_Return: "agree rec rec' k \<Longrightarrow> size x \<le> k \<Longrightarrow>
    Compiler_CompileReturn rec c x nr = Compiler_CompileReturn rec' c x nr"
  by (simp add: Compiler_CompileReturn_def agree_list cong: if_cong)

lemma agree_Prog1: "agree rec rec' k \<Longrightarrow> size x \<le> k \<Longrightarrow>
    Compiler_CompileProg1 rec c x nr = Compiler_CompileProg1 rec' c x nr"
  using size_obj(2) [of x] agree_loops(2) [of rec rec' k "obj_d x"]
  by (auto simp: Compiler_CompileProg1_def agree_list case_prod_beta Let_def)

lemma agree_MethodCall: "agree rec rec' k \<Longrightarrow> size x \<le> k \<Longrightarrow> size y \<le> k \<Longrightarrow>
    Compiler_CompileMethodCall rec c x y nr = Compiler_CompileMethodCall rec' c x y nr"
  using ValidateArgs_list(1) [of x]
  by (simp add: Compiler_CompileMethodCall_def agree_list agree_loops(3) [of rec rec' k] case_prod_beta Let_def)

lemma agree_And: "agree rec rec' k \<Longrightarrow> size x \<le> k \<Longrightarrow> Compiler_CompileAnd rec c x nr = Compiler_CompileAnd rec' c x nr"
  "agree rec rec' k \<Longrightarrow> size x \<le> k \<Longrightarrow> Compiler_CompileOr rec c x nr = Compiler_CompileOr rec' c x nr"
  by (simp_all add: Compiler_CompileAnd_def Compiler_CompileOr_def agree_conditions [of rec rec' k])

lemma agree_Scope: "agree rec rec' k \<Longrightarrow> size x \<le> k \<Longrightarrow> Compiler_CompileScope rec c x nr = Compiler_CompileScope rec' c x nr"
  using size_obj(2) [of x] agree_loops(1) [of rec rec' k "obj_d x"]
  by (auto simp: Compiler_CompileScope_def Compiler_CompileProgN_def case_prod_beta Let_def)


lemma agree_if_clauses:
  assumes "agree rec rec' k" and "size x < k" "size y < k" "size z < k"
  shows "compile_if_clauses rec c x y z nr = compile_if_clauses rec' c x y z nr"
proof -
  have "rec c1 (if b then y else z) nr = rec' c1 (if b then y else z) nr" "rec c1 (if b then z else y) nr = rec' c1 (if b then z else y) nr"
    for b c1 using agreeD [OF assms(1,3)] agreeD [OF assms(1,4)] by simp_all
  then show ?thesis
    by (simp add: compile_if_clauses_def agree_StripNots [OF assms(1,2)] case_prod_beta Let_def)
qed

lemma size_parts:
  assumes "size x \<le> k" and "is_list x" "is_list (obj_d x)"
  shows "size (obj_a x) < k" "size (obj_a (obj_d x)) < k" "size NullObject < k"
    "is_list (obj_d (obj_d x)) \<Longrightarrow> size (obj_a (obj_d (obj_d x))) < k"
  using assms size_obj [OF assms(2)] size_obj [OF assms(3)] size_obj(1) [of "obj_d (obj_d x)"] by simp_all

lemma agree_If:
  assumes "agree rec rec' k" and "size x \<le> k"
  shows "Compiler_CompileIf rec c x nr = Compiler_CompileIf rec' c x nr"
proof (cases "is_list x \<and> is_list (obj_d x)")
  case True
  note sz = size_parts [OF assms(2) conjunct1 [OF True] conjunct2 [OF True]]
  note c = agree_if_clauses [OF assms(1) sz(1,2)]
  show ?thesis
    unfolding Compiler_CompileIf_def Let_def by (simp only: c [OF sz(3)] c [OF sz(4)] cong: if_cong)
qed (auto simp: Compiler_CompileIf_def Let_def)

lemma agree_while_parts:
  assumes "agree rec rec' k" and "size x < k" "size y < k" "size z < k"
  shows "compile_while_parts rec c x y z nr = compile_while_parts rec' c x y z nr"
  using agreeD [OF assms(1,2)] agreeD [OF assms(1,4)] agree_StripNots [OF assms(1,3)]
  by (simp add: compile_while_parts_def CompileWhileWithPreAndPost_def CompileWhileWithPre_def CompileWhileWithPost_def
      CompileWhileWithNoBody_def case_prod_beta Let_def)

lemma agree_While:
  assumes "agree rec rec' k" and "size x \<le> k"
  shows "Compiler_CompileWhile rec c x nr = Compiler_CompileWhile rec' c x nr"
proof (cases "is_list x \<and> is_list (obj_d x)")
  case True
  note sz = size_parts [OF assms(2) conjunct1 [OF True] conjunct2 [OF True]]
  note p = agree_while_parts [OF assms(1)]
  show ?thesis
    unfolding Compiler_CompileWhile_def Let_def by (simp only: p [OF sz(1,2,4)] p [OF sz(3,1,2)] cong: if_cong)
qed (auto simp: Compiler_CompileWhile_def Let_def)

lemma agree_set:
  assumes "agree rec rec' k" and "size y < k"
  shows "Compiler_CompileSetSymbol rec c s y nr = Compiler_CompileSetSymbol rec' c s y nr"
    and "Compiler_CompileOpEqualsSymbol rec c op s y nr = Compiler_CompileOpEqualsSymbol rec' c op s y nr"
    and "size x \<le> k \<Longrightarrow> Compiler_ValidateDotArgs x \<Longrightarrow>
      Compiler_CompileSetProperty rec c x y nr = Compiler_CompileSetProperty rec' c x y nr"
    and "size x \<le> k \<Longrightarrow> Compiler_ValidateIndexArgs x \<Longrightarrow>
      Compiler_CompileSetMember rec c x y nr = Compiler_CompileSetMember rec' c x y nr"
    and "size x \<le> k \<Longrightarrow> Compiler_ValidateDotArgs x \<Longrightarrow>
      Compiler_CompileOpEqualsProperty rec c op x y nr = Compiler_CompileOpEqualsProperty rec' c op x y nr"
    and "size x \<le> k \<Longrightarrow> Compiler_ValidateIndexArgs x \<Longrightarrow>
      Compiler_CompileOpEqualsMember rec c op x y nr = Compiler_CompileOpEqualsMember rec' c op x y nr"
  using agreeD [OF assms] agree_list [OF assms(1)] ValidateArgs_list [of x]
  by (simp_all add: Compiler_CompileSetSymbol_def Compiler_CompileOpEqualsSymbol_def Compiler_CompileSetProperty_def
      Compiler_CompileSetMember_def Compiler_CompileOpEqualsProperty_def Compiler_CompileOpEqualsMember_def)

lemma agree_Setf:
  assumes "agree rec rec' k" and "size x \<le> k"
  shows "Compiler_CompileSetf rec c x nr = Compiler_CompileSetf rec' c x nr"
proof (cases "expr_length x = 2")
  case True
  then have x: "is_list x" "is_list (obj_d x)" using length_2(1) by auto
  have v: "size (obj_a (obj_d x)) < k" "size (obj_a x) \<le> k"
    using size_obj [OF x(1)] size_obj [OF x(2)] assms(2) by simp_all
  have d: "size (obj_d (obj_a x)) \<le> k" if "is_list (obj_a x)" using size_obj [OF that] v(2) by simp
  show ?thesis
    unfolding Compiler_CompileSetf_def Let_def using agree_set [OF assms(1) v(1)] d by auto
qed (simp add: Compiler_CompileSetf_def Let_def)

lemma agree_OpEquals:
  assumes "agree rec rec' k" and "size x \<le> k"
  shows "Compiler_CompileOpEquals rec c x nr = Compiler_CompileOpEquals rec' c x nr"
proof (cases "expr_length x = 3")
  case True
  then have x: "is_list x" "is_list (obj_d x)" "is_list (obj_d (obj_d x))" using length_2(3) by auto
  have v: "size (obj_a (obj_d (obj_d x))) < k" "size (obj_a (obj_d x)) \<le> k"
    using size_obj [OF x(1)] size_obj [OF x(2)] size_obj [OF x(3)] assms(2) by simp_all
  have d: "size (obj_d (obj_a (obj_d x))) \<le> k" if "is_list (obj_a (obj_d x))" using size_obj [OF that] v(2) by simp
  show ?thesis
    unfolding Compiler_CompileOpEquals_def Let_def using agree_set [OF assms(1) v(1)] d by auto
qed (simp add: Compiler_CompileOpEquals_def Let_def)

section \<open>The dispatch\<close>

lemma agree_StandardForm:
  assumes "agree rec rec' k" and "size x \<le> k"
  shows "Compiler_CompileStandardForm other rec c s x nr = Compiler_CompileStandardForm other rec' c s x nr"
  unfolding Compiler_CompileStandardForm_def Compiler_CompileProgN_def
  using agree_Setf [OF assms] agree_OpEquals [OF assms] agree_If [OF assms] agree_While [OF assms] agree_Return [OF assms]
    agree_Quote [OF assms] agree_Prog1 [OF assms] agree_loops(1) [OF assms] agree_Scope [OF assms]
    agree_LoadProperty [OF assms] agree_LoadMember [OF assms] agree_One [OF assms] agree_Two [OF assms] agree_And [OF assms]
  by simp

lemma agree_compile_expr_with:
  assumes "agree rec rec' (size x)"
  shows "compile_expr_with other rec c x nr = compile_expr_with other rec' c x nr"
proof (cases x)
  case (ListObj a d)
  have d: "size d \<le> size x" "size (obj_d a) \<le> size x" if "is_list a"
    using ListObj size_obj(2) [OF that] by simp_all
  have "size d \<le> size x" using ListObj by simp
  note s = agree_StandardForm [OF assms this] and m = agree_MethodCall [OF assms d(2) this]
  have "compile_call rec c x nr = compile_call rec' c x nr"
    by (simp add: compile_call_def agree_loops(4) [OF assms])
  then show ?thesis
    using ListObj s m by (auto simp: compile_expr_with_def compile_list_def Let_def split: option.splits)
qed (simp_all add: compile_expr_with_def)

lemma compile_expr_agree: "k \<le> k' \<Longrightarrow> agree (compile_expr k other) (compile_expr k' other) k"
proof (induction k arbitrary: k')
  case 0
  then show ?case by (simp add: agree_def)
next
  case (Suc k)
  then obtain j where j: "k' = Suc j" "k \<le> j" by (cases k') auto
  show ?case
    unfolding agree_def j(1)
  proof (intro allI impI)
    fix c nr and x :: SmileObject assume "size x < Suc k"
    then have "agree (compile_expr k other) (compile_expr j other) (size x)"
      using Suc.IH [OF j(2)] by (auto simp: agree_def)
    then show "compile_expr (Suc k) other c x nr = compile_expr (Suc j) other c x nr"
      by (simp add: agree_compile_expr_with)
  qed
qed


end
