(* ===== verification/Programs.thy ===== *)
theory Programs
  imports CompilerProof CompilerFuel
begin

text \<open>
  Whole programs: what \<^verbatim>\<open>Eval_Run\<close> does with the code that \<^verbatim>\<open>Compiler_CompileGlobal\<close> produces is
  what the reference semantics says.
\<close>

section \<open>Executions of the evaluator\<close>

lemma exec_to_run:
  assumes "exec_to M \<sigma> out" and "mrel M m \<sigma>" and "\<And>i. mcode M i = fetch segment i"
  shows "case out of
      Next \<sigma>' \<Rightarrow> \<exists>k m'. mrel M m' \<sigma>'
        \<and> (\<forall>fuel. Eval_RunCore (k + fuel) (menv M) (mtables M) segment m
                  = Eval_RunCore fuel (menv M) (mtables M) segment m')
    | Raise e g w \<Rightarrow> \<exists>k m'. status m' = Threw e \<and> global_vars m' = g \<and> world m' = w
        \<and> (\<forall>fuel. Eval_RunCore (k + fuel) (menv M) (mtables M) segment m = Some (Some m'))"
  using assms(1,2)
proof (induction arbitrary: m rule: exec_to.induct)
  case (stop \<sigma>)
  then show ?case by (auto intro!: exI [of _ 0])
next
  case (raised \<sigma> e g w)
  then obtain m' where "Eval_step (menv M) (mtables M) segment m = Some m'" "outrel M m' (Raise e g w)"
    using Eval_step_refines [OF raised.prems raised.hyps assms(3)] by blast
  then show ?case by (auto simp: outrel_def intro!: exI [of _ 1])
next
  case (go \<sigma> \<sigma>1 out)
  then obtain m1 where m1: "Eval_step (menv M) (mtables M) segment m = Some m1" "mrel M m1 \<sigma>1"
    using Eval_step_refines [OF go.prems go.hyps(1) assms(3)] by (auto simp: outrel_def)
  then have run: "Eval_RunCore (Suc j) (menv M) (mtables M) segment m = Eval_RunCore j (menv M) (mtables M) segment m1" for j
    by (simp add: mrel_def)
  show ?case
  proof (cases out)
    case (Next \<sigma>')
    then obtain k m' where "mrel M m' \<sigma>'" "\<forall>fuel. Eval_RunCore (k + fuel) (menv M) (mtables M) segment m1
        = Eval_RunCore fuel (menv M) (mtables M) segment m'" using go.IH [OF m1(2)] by auto
    then show ?thesis using run Next by (auto simp del: Eval_RunCore.simps intro!: exI [of _ "Suc k"])
  next
    case (Raise e g w)
    then obtain k m' where "status m' = Threw e \<and> global_vars m' = g \<and> world m' = w"
        "\<forall>fuel. Eval_RunCore (k + fuel) (menv M) (mtables M) segment m1 = Some (Some m')"
      using go.IH [OF m1(2)] by auto
    then show ?thesis using run Raise by (auto simp del: Eval_RunCore.simps intro!: exI [of _ "Suc k"])
  qed
qed

lemma length_written: "length (written is) = code_size (linear is)"
  by (induction "is" rule: written.induct) simp_all

lemma size_resolve_branches: "code_size (linear (resolve_branches root is)) = code_size (linear is)"
  by (induction root "is" rule: resolve_branches.induct) simp_all

lemma Finish_count:
  assumes "CompiledBlock_Finish block False = Some segment"
  shows "numByteCodes segment = int (code_size (block_code block))"
proof (cases block)
  case (CompiledBlock "is" n m f esc err)
  let ?is1 = "fst (calculate_addresses is 0 False)"
  let ?is2 = "resolve_branches ?is1 ?is1"
  have len: "length (written ?is2) = code_size (linear is)"
    by (simp add: length_written size_resolve_branches calculate_addresses_linear)
  have "append_codes ?is2 (ByteCodeSegment_CreateWithSize (count_instructions is False)) False
      = Some (ByteCodeSegment_CreateWithSize (count_instructions is False)
          \<lparr>byteCodes := map Some (written ?is2), numByteCodes := int (code_size (linear is))\<rparr>)"
    using append_codes_written [of "ByteCodeSegment_CreateWithSize (count_instructions is False)" "[]" ?is2 0] len
    by (simp add: ByteCodeSegment_CreateWithSize_def count_instructions_linear)
  then show ?thesis
    using assms CompiledBlock
    by (auto simp: CompiledBlock_Finish_def CompiledBlock_CountInstructions_def
        CompiledBlock_AppendToByteCodeSegment_def case_prod_beta Let_def)
qed


section \<open>The machine of a compiled program\<close>

definition initial_machine :: "UserFunctionInfo \<Rightarrow> globals \<Rightarrow> 'w \<Rightarrow> 'w Machine" where
  "initial_machine info g w =
     \<lparr>closures = [Closure_CreateLocal (numVariables info) (tempSize info)], global_vars = g, world = w,
      byteCode = 0, status = Running\<rparr>"

definition abstract_machine :: "'w Env \<Rightarrow> CompiledTables \<Rightarrow> UserFunctionInfo \<Rightarrow> 'w AMachine" where
  "abstract_machine env t info =
     \<lparr>menv = env, mtables = t, mcode = fetch (byteCodeSegment info), mcap = nat (numVariables info + tempSize info)\<rparr>"

lemma initial_mrel:
  assumes "numVariables info = int N" and "0 \<le> tempSize info"
  shows "mrel (abstract_machine env t info) (initial_machine info g w)
           \<lparr>pc = 0, frame = replicate N None, stk = [], agl = g, awd = w\<rparr>"
  using assms
  by (auto simp: mrel_def crel_def abstract_machine_def initial_machine_def Closure_CreateLocal_def nat_add_distrib)

definition result_of :: "SmileObject + SmileObject \<Rightarrow> EvalResult" where
  "result_of r = (case r of Inl e \<Rightarrow> EvalException e | Inr v \<Rightarrow> EvalValue v)"

lemma Eval_Run_finished:
  assumes "Eval_RunCore k env t (byteCodeSegment info) (initial_machine info g w) = Some (Some m)"
  shows "Eval_Run k env t info g w =
    (case status m of
       Threw e \<Rightarrow> Some (Some (EvalException e, global_vars m, world m))
     | Breakpoint \<Rightarrow> Some (Some (EvalBreak, global_vars m, world m))
     | _ \<Rightarrow> do {
         c \<leftarrow> arr_get (closures m) 0;
         (x, c1) \<leftarrow> Closure_Pop c;
         v \<leftarrow> SmileArg_Box x;
         Some (Some (EvalValue v, global_vars m, world m))})"
  using assms by (simp add: Eval_Run_def initial_machine_def)

text \<open>A program whose code reaches its final \<^verbatim>\<open>Op_Ret\<close> with one value, or raises.\<close>

lemma reach_Run:
  assumes run: "reach (abstract_machine env t info) N 0 q [] \<lparr>scopes = [], gvars = g, wd = w\<rparr> []
      (out_of [] [] (pack 1 r, s))"
    and ret: "fetch (byteCodeSegment info) q = Some Op_Ret" and N: "numVariables info = int N" "0 \<le> tempSize info"
  shows "\<exists>fuel. \<forall>k\<ge>fuel. Eval_Run k env t info g w = Some (Some (result_of r, gvars s, wd s))"
proof -
  let ?M = "abstract_machine env t info" and ?seg = "byteCodeSegment info" and ?m = "initial_machine info g w"
  let ?\<sigma> = "\<lparr>pc = 0, frame = replicate N None, stk = [], agl = g, awd = w\<rparr>"
  have M: "menv ?M = env" "mtables ?M = t" "\<And>i. mcode ?M i = fetch ?seg i" by (simp_all add: abstract_machine_def)
  have start: "srel N [] \<lparr>scopes = [], gvars = g, wd = w\<rparr> ?\<sigma>" by (simp add: srel_def)
  note exec = exec_to_run [OF _ initial_mrel [OF N] M(3), unfolded M(1,2)]
  have fin: "\<exists>fuel. \<forall>k\<ge>fuel. Eval_Run k env t info g w = Some (Some (result_of r, gvars s, wd s))"
    if "\<And>f. Eval_Run (k + f) env t info g w = Some (Some (result_of r, gvars s, wd s))" for k
    using that by (metis le_Suc_ex)
  show ?thesis
  proof (cases r)
    case (Inl e)
    then have "exec_to ?M ?\<sigma> (Raise e (gvars s) (wd s))" using run start by (simp add: reach_def)
    from exec [OF this] obtain k m' where "status m' = Threw e" "global_vars m' = gvars s" "world m' = wd s"
        "\<And>f. Eval_RunCore (k + f) env t ?seg ?m = Some (Some m')" by auto
    then show ?thesis using Inl by (intro fin [of k]) (simp add: Eval_Run_finished result_of_def)
  next
    case (Inr v)
    then obtain \<sigma>' where \<sigma>': "exec_to ?M ?\<sigma> (Next \<sigma>')" "pc \<sigma>' = q" "stk \<sigma>' = [v]" "srel N [] s \<sigma>'"
      using run [unfolded reach_def, rule_format, of ?\<sigma>] start by auto
    from exec [OF \<sigma>'(1)] obtain k m' where m': "mrel ?M m' \<sigma>'"
        "\<And>f. Eval_RunCore (k + f) env t ?seg ?m = Eval_RunCore f env t ?seg m'" by auto
    obtain cl where cl: "closures m' = [cl]" "crel (mcap ?M) cl (frame \<sigma>') [v]" using m'(1) \<sigma>'(3) by (auto simp: mrel_def)
    obtain x where x: "Closure_Pop cl = Some (x, Closure_PopCount cl 1)" "rep x v" using crel_pop [OF cl(2)] by blast
    have "Eval_step env t ?seg m' = Some (m'\<lparr>status := Returned\<rparr>)"
      using m'(1) \<sigma>'(2) ret by (simp add: Eval_step_def mrel_def)
    then have "Eval_RunCore (Suc k + f) env t ?seg ?m = Some (Some (m'\<lparr>status := Returned\<rparr>))" for f
      using m'(2) [of "Suc f"] by simp
    moreover have "global_vars m' = gvars s" "world m' = wd s" using m'(1) \<sigma>'(4) by (simp_all add: mrel_def srel_def)
    ultimately show ?thesis
      using Inr cl(1) x rep_Box [OF x(2)]
      by (intro fin [of "Suc k"]) (simp add: Eval_Run_finished result_of_def del: Eval_RunCore.simps)
  qed
qed


section \<open>Compiled programs do what they mean\<close>

lemma ready_Create:
  assumes "sym_get_member (env_symbols env) = sym_getMember env" and "\<not> special_symbol (sym_not (env_symbols env))"
  shows "ready env (Compiler_Create (env_symbols env))"
  using assms tables_ok_Create by (simp add: ready_def Compiler_Create_def)

lemma compiled_program:
  assumes "supported (env_symbols env) False e" and "ready env c"
  shows "compiled env False c (ev env n e) (Compiler_CompileExpr other c (to_obj e) False)"
  using correct_below_compile_expr [of env n "Suc (size (to_obj e))" other] assms
  unfolding correct_below_def handles_def Compiler_CompileExpr_def by blast




section \<open>A sample program\<close>

definition sample_symbols :: KnownSymbols where
  "sample_symbols =
     \<lparr>sym_true = 101, sym_false = 102, sym_null = 103, sym_not = 104, sym_auto = 105, sym_set_once = 106,
      sym_get_member = 107, sym_a = 108, sym_d = 109, sym_start = 110, sym_end = 111, sym_count = 112,
      sym_length = 113\<rparr>"

text \<open>Two external functions on integers: a comparison and an addition.\<close>

fun sample_function :: "unit \<Rightarrow> nat \<Rightarrow> SmileObject list \<Rightarrow> unit \<times> (SmileObject + SmileObject)" where
  "sample_function w f [Integer64Obj a, Integer64Obj b] =
     (w, Inr (if f = 0 then BoolObj (a < b) else Integer64Obj (a + b)))"
| "sample_function w f _ = (w, Inl NullObject)"

definition sample_env :: "unit Env" where
  "sample_env =
     \<lparr>getProperty = (\<lambda>w t s. if s = 200 then FunctionObj 0 else if s = 201 then FunctionObj 1 else NullObject),
      setProperty = (\<lambda>w t s v. (w, None)), externalFunction = sample_function, compareEqual = (=), objectIs = (=),
      typeOf = (\<lambda>_. 0), invalidFunctionError = NullObject, unknownMethodError = (\<lambda>_. NullObject),
      sym_getMember = 107, sym_setMember = 115, env_symbols = sample_symbols\<rparr>"

definition sample_other :: other_forms where
  "sample_other c s args noResult = compile_error c InternalError"

text \<open>\<^verbatim>\<open>[$scope [i] [$set i 0] [$while [i.< 2] [$opset + i 1]] i]\<close>\<close>

definition sample_program :: Expr where
  "sample_program =
     Scope [300]
       [Assign 300 (Literal (Integer64Obj 0)),
        WhilePost (MethodCall (Variable 300) 200 [Literal (Integer64Obj 2)])
          (OpAssign 201 300 (Literal (Integer64Obj 1))),
        Variable 300]"

lemma sample_supported: "supported sample_symbols False sample_program"
  by (simp add: sample_program_def sample_symbols_def constant_symbol_def)

lemma sample_code:
  "case Compiler_CompileExpr sample_other (Compiler_Create sample_symbols) (to_obj sample_program) False of
     (b, c) \<Rightarrow> finalStackDelta b = 1 \<and> maxStackDepth b \<le> 10 \<and> code_size (block_code b) < 50
       \<and> length (localNames c) \<le> 10 \<and> tables_small c"
  by code_simp

lemma CompileGlobal_Some:
  assumes "Compiler_CompileExpr other c x False = (b, c1)" and "finalStackDelta b = 1"
    and "code_size (block_code b) < 2 ^ 24 - 1" and "int (length (localNames c1)) \<le> 16383" and "maxStackDepth b \<le> 32767"
  shows "\<exists>info. Compiler_CompileGlobal other c x = Some (info, c1)
           \<and> numByteCodes (byteCodeSegment info) = int (code_size (block_code b)) + 1"
  using assms Finish_segment [of "EMIT0 b Op_Ret (-1)"] by (auto simp: Compiler_CompileGlobal_def Let_def)

lemma sample_value:
  "case ev sample_env 3 sample_program \<lparr>scopes = [], gvars = Map.empty, wd = ()\<rparr> of
     Some (Inr v, s) \<Rightarrow> v = Integer64Obj 2
   | _ \<Rightarrow> False"
  by code_simp





end
