(* ===== verification/Spec2Isabelle.thy ===== *)
theory Spec2Isabelle
  imports PointerSets SymbolTable IntegerAlgorithms StringSplitting Utf8 StringNumbers ListCycles InterruptibleSort Programs
begin

text \<open>
  Verification of the core library of the Smile language (\<^verbatim>\<open>smilelib\<close>), a C implementation of a Lisp-like
  interpreter.

  \<^bold>\<open>The program.\<close> Strings are immutable byte sequences; a StringBuilder assembles them. Six hash tables
  (\<^verbatim>\<open>smilelib/src/dict\<close>) are copies of one design, a heap of chained nodes with a free list that doubles
  when it is full and halves when it is three quarters empty. The symbol table interns strings with one of
  them, and the rest of the interpreter names everything by symbols. Lists, the data structure programs and
  data are made of, are mutable cells that may be shared and may form cycles. The compiler turns a list that
  is a program into a tree of blocks of bytecode, which is laid out as a segment; the evaluator runs the
  segment on a closure. The integer methods are the built-in arithmetic of the language.

  \<^bold>\<open>Modelling.\<close> A C function is a HOL function into \<open>option\<close>; \<open>None\<close> stands for an access outside an
  object, a read of memory that was never written, an abort for lack of memory, or a loop without end, so an
  equation \<open>f x = Some y\<close> states safety, termination and the result together. Fixed-width integers are
  words; \<^verbatim>\<open>Int\<close> lengths and indices are integers that are wrapped to 64 bits where an argument can make
  them overflow. Definitions carry the names of the C functions.

  \<^bold>\<open>Theories.\<close>
  \<^item> \<open>SmilePrelude\<close>: machine types, checked array accesses, shared list lemmas. \<open>BitTwiddling\<close>: rounding up
    to a power of two.
  \<^item> \<open>ChainedDict\<close>: the hash table common to all dictionaries, over a record of what distinguishes them.
    \<open>DictPaths\<close>, \<open>DictShape\<close>, \<open>DictCorrect\<close>: chains in the node heap, the shape invariant, and that every
    operation keeps it and acts on the map it represents (locale \<open>dict_laws\<close>). \<open>DictSpec\<close>: dictionaries
    with keys as implementations of finite maps (locales \<open>keyed_dict\<close>, \<open>map_impl\<close>), for sequences of
    operations.
  \<^item> \<open>Int32Dicts\<close>, \<open>PointerSets\<close>, \<open>StringDicts\<close>: the six dictionaries, each an interpretation.
    \<open>StringHash\<close>: string equality and SipHash. \<open>SymbolTable\<close>: interning, proved from the laws of
    \<open>map_impl\<close>.
  \<^item> \<open>Integers\<close>, \<open>IntegersCorrect\<close>, \<open>IntegerAlgorithms\<close>: the methods of Integer64 and what they compute.
  \<^item> \<open>TextMemory\<close>, \<open>Strings\<close>, \<open>StringsCorrect\<close>, \<open>Substrings\<close>, \<open>StringSearch\<close>: the string functions, from
    buffers with uninitialised cells to lists of bytes. \<open>StringBuilders\<close>: the builder, whose clients see
    only the locale \<open>text_sink\<close>. \<open>Utf8\<close>: encoding and decoding of code points. \<open>StringSplitting\<close>: managed
    arrays, replacing, splitting and counting, specified by the pieces between the occurrences of a pattern.
    \<open>StringNumbers\<close>: printing and parsing integers in any base, and that parsing undoes printing.
  \<^item> \<open>ListStore\<close>: list cells in a store, and the list functions. \<open>Lists\<close>: what they compute, over paths of
    cells; copies consist of new cells only, changes in place keep the cells. \<open>ListCycles\<close>: the functions
    that walk with a tortoise and a hare end on every store. \<open>ListSort\<close>: the bottom-up merge sort on links
    against merging of sorted runs, stability included. \<open>InterruptibleSort\<close>: the same sort as a state
    machine that hands its comparisons to the interpreter, by simulation of the loops; the byte that counts
    merges bounds the equivalence at 510 cells.

  \<^item> \<open>ByteCodes\<close>, \<open>CompiledBlocks\<close>, \<open>CompilerState\<close>, \<open>Compiler\<close>, \<open>CompilerForms\<close>: the instruction set, trees of
    blocks and their layout, and the bytecode compiler, one definition per form
    (\<^verbatim>\<open>smilelib/src/eval/compiler\<close>). \<open>Eval\<close>: the evaluator (\<^verbatim>\<open>eval.c\<close>, \<^verbatim>\<open>closure.c\<close>) on an array of
    variables and temporaries.
  \<^item> \<open>StackMachine\<close>: a machine on a stack of values, which the evaluator refines step by step.
    \<open>Semantics\<close>: an abstract syntax of expressions and their reference semantics, a fuelled interpreter over
    scopes. \<open>Blocks\<close>, \<open>CodeRules\<close>: what a piece of code does wherever it stands, as rules for
    composing blocks. \<open>CompilerSteps\<close>, \<open>CompilerCorrect\<close>, \<open>CompilerSequences\<close>, \<open>CompilerScopes\<close>,
    \<open>CompilerBranches\<close>, \<open>CompilerConditionals\<close>, \<open>CompilerLoops\<close>, \<open>CompilerProof\<close>: every form compiled
    correctly, from the correctness of its parts. \<open>Programs\<close>: compiler and evaluator together compute
    what the semantics says, for the programs that \<open>supported\<close> describes. The programs left out there
    are those with the forms that are parameters and those for which the compiler is known to produce wrong code.

  \<^bold>\<open>Fuel.\<close> The recursion of the compiler over expressions is bounded by their size, which is enough for every
  expression (\<open>CompilerFuel\<close>). The evaluator runs a given number of instructions; the theorems
  state that enough of them exist. The reference semantics bounds the rounds of each loop.

  \<^bold>\<open>Parameters.\<close> The key of the string hash (\<^verbatim>\<open>Smile_HashOracle\<close>, random per process) is an argument of the
  definitions that use it. External functions, the virtual methods of objects and the compilers of
  \<^verbatim>\<open>[$include]\<close>, \<^verbatim>\<open>[$till]\<close>, \<^verbatim>\<open>[$fn]\<close> and \<^verbatim>\<open>[$new]\<close> are arguments too. The garbage collector's allocator is assumed to succeed for sizes it is asked for,
  unless a size is negative.

  \<^bold>\<open>Not modelled.\<close> The vendored collector and decimal library, floating point, the Unicode tables, formatted
  output with variable argument lists, the lexer and parser, and the platform layer. Of the evaluator, user
  functions, till continuations and the instructions on floating point; of the compiler, source locations.
\<close>

end
